(* ===== verification/Prelude.thy ===== *)
theory Prelude
  imports Complex_Main "HOL-Library.Word"
begin

text \<open>
  The shared layer of the development: the part of Python's data model the sources use, the
  string, byte and dictionary operations that several components call, and the interfaces
  (locales) through which components rely on one another.

  \<^item> A Python \<open>str\<close> is a list of characters. HOL's \<open>char\<close> has 256 values, so the model's text
    ranges over the Latin-1 code points; \<open>strip\<close> and \<open>lower\<close> are exact on that range.
  \<^item> A Python \<open>bytes\<close> value is a list of 8-bit words.
  \<^item> A Python \<open>dict\<close> is an association list in insertion order with distinct keys.
  \<^item> A value whose type the source inspects at run time (decoded CBOR or JSON, RPC parameters)
    is a \<open>pyval\<close>.
  \<^item> A raised exception is the \<open>Inl\<close> of a sum, an ordinary return its \<open>Inr\<close>.
  \<^item> \<open>time.time()\<close> is an argument \<open>now\<close> of the operation that reads it. Readings within one
    operation are identified; floating-point rounding of clock sums is idealised to \<open>real\<close>.
\<close>

named_theorems dict_simps \<open>equations of the dictionary operations\<close>
named_theorems result_simps \<open>equations and splits of the error results\<close>
named_theorems inv_intros \<open>operations that keep a component's invariant\<close>

section \<open>Python values\<close>

type_synonym bytes = "8 word list"

datatype pyfloat = Finite real | PosInf | NegInf | NotANumber

datatype pyval =
    PNone
  | PBool bool
  | PInt int
  | PFloat pyfloat
  | PStr string
  | PBytes bytes
  | PList "pyval list"
  | PDict "(pyval \<times> pyval) list"

text \<open>Truth value testing, as \<open>bool(x)\<close>, \<open>x or y\<close> and \<open>if x\<close> do it.\<close>

fun truthy :: "pyval \<Rightarrow> bool" where
  "truthy PNone = False"
| "truthy (PBool b) = b"
| "truthy (PInt i) = (i \<noteq> 0)"
| "truthy (PFloat f) = (case f of Finite r \<Rightarrow> r \<noteq> 0 | _ \<Rightarrow> True)"
| "truthy (PStr s) = (s \<noteq> [])"
| "truthy (PBytes b) = (b \<noteq> [])"
| "truthy (PList xs) = (xs \<noteq> [])"
| "truthy (PDict kvs) = (kvs \<noteq> [])"

text \<open>\<open>d.get(k)\<close> with a string key: a missing key reads as \<open>None\<close>.\<close>

definition pget :: "string \<Rightarrow> (pyval \<times> pyval) list \<Rightarrow> pyval option" where
  "pget k d = map_of d (PStr k)"

definition pget_or :: "pyval \<Rightarrow> string \<Rightarrow> (pyval \<times> pyval) list \<Rightarrow> pyval" where
  "pget_or dflt k d = (case pget k d of None \<Rightarrow> dflt | Some v \<Rightarrow> v)"

text \<open>\<open>v == n\<close> for an integer constant \<open>n\<close>: \<open>True\<close> equals 1 and \<open>1.0\<close> equals 1.\<close>

fun eq_int :: "pyval \<Rightarrow> int \<Rightarrow> bool" where
  "eq_int (PInt m) n = (m = n)"
| "eq_int (PBool b) n = (of_bool b = n)"
| "eq_int (PFloat (Finite r)) n = (r = of_int n)"
| "eq_int _ n = False"

text \<open>\<open>str(v)\<close>: a string is itself; \<open>rep\<close> is the text Python prints for any other value.\<close>

definition py_str :: "(pyval \<Rightarrow> string) \<Rightarrow> pyval \<Rightarrow> string" where
  "py_str rep v = (case v of PStr s \<Rightarrow> s | _ \<Rightarrow> rep v)"

lemma py_str_PStr [simp]: "py_str rep (PStr s) = s"
  by (simp add: py_str_def)

lemma pget_Nil [simp]: "pget k [] = None"
  by (simp add: pget_def)

lemma pget_Cons [simp]:
  "pget k ((PStr k', v) # d) = (if k = k' then Some v else pget k d)"
  by (simp add: pget_def)

lemma pget_append_None:
  "pget k d = None \<Longrightarrow> pget k (d @ d') = pget k d'"
  by (simp add: pget_def map_add_def)

lemma pget_append_Some:
  "pget k d = Some v \<Longrightarrow> pget k (d @ d') = Some v"
  by (simp add: pget_def map_add_def)

section \<open>Error results\<close>

definition bind_r :: "'e + 'a \<Rightarrow> ('a \<Rightarrow> 'e + 'b) \<Rightarrow> 'e + 'b" where
  "bind_r r f = (case r of Inl e \<Rightarrow> Inl e | Inr x \<Rightarrow> f x)"

lemma bind_r_simps [simp, result_simps]:
  "bind_r (Inl e) f = Inl e"
  "bind_r (Inr x) f = f x"
  by (simp_all add: bind_r_def)

lemma bind_r_Inr_iff [result_simps]:
  "bind_r r f = Inr y \<longleftrightarrow> (\<exists>x. r = Inr x \<and> f x = Inr y)"
  by (cases r) simp_all

lemma bind_r_Inl_iff:
  "bind_r r f = Inl e \<longleftrightarrow> r = Inl e \<or> (\<exists>x. r = Inr x \<and> f x = Inl e)"
  by (cases r) auto

definition of_opt :: "'e \<Rightarrow> 'a option \<Rightarrow> 'e + 'a" where
  "of_opt e x = (case x of None \<Rightarrow> Inl e | Some y \<Rightarrow> Inr y)"

lemma of_opt_simps [simp, result_simps]:
  "of_opt e None = Inl e"
  "of_opt e (Some x) = Inr x"
  by (simp_all add: of_opt_def)

lemma of_opt_Inr_iff [result_simps]: "of_opt e x = Inr y \<longleftrightarrow> x = Some y"
  by (cases x) simp_all

text \<open>
  Handlers that both change state and may raise: the state is returned with either outcome, so
  what a handler did before raising stays done.
\<close>

type_synonym ('s, 'e, 'a) handler = "'s \<Rightarrow> ('e + 'a) \<times> 's"

definition ret_s :: "'a \<Rightarrow> ('s, 'e, 'a) handler" where
  "ret_s x s = (Inr x, s)"

definition raise_s :: "'e \<Rightarrow> ('s, 'e, 'a) handler" where
  "raise_s e s = (Inl e, s)"

definition lift_s :: "'e + 'a \<Rightarrow> ('s, 'e, 'a) handler" where
  "lift_s r s = (r, s)"

definition bind_s :: "('s, 'e, 'a) handler \<Rightarrow> ('a \<Rightarrow> ('s, 'e, 'b) handler) \<Rightarrow> ('s, 'e, 'b) handler" where
  "bind_s m f s = (case m s of (Inl e, s') \<Rightarrow> (Inl e, s') | (Inr x, s') \<Rightarrow> f x s')"

lemma bind_s_ret [simp]: "bind_s (ret_s x) f = f x"
  by (simp add: bind_s_def ret_s_def fun_eq_iff)

lemma bind_s_raise [simp]: "bind_s (raise_s e) f = raise_s e"
  by (simp add: bind_s_def raise_s_def fun_eq_iff)

lemma bind_s_lift [simp]:
  "bind_s (lift_s (Inr x)) f = f x" "bind_s (lift_s (Inl e)) f = raise_s e"
  by (simp_all add: bind_s_def lift_s_def raise_s_def fun_eq_iff)

lemma bind_s_Inr: "m s = (Inr x, s1) \<Longrightarrow> bind_s m f s = f x s1"
  by (simp add: bind_s_def)

lemma bind_s_Inl: "m s = (Inl e, s1) \<Longrightarrow> bind_s m f s = (Inl e, s1)"
  by (simp add: bind_s_def)

lemma bind_s_assoc: "bind_s (bind_s m f) g = bind_s m (\<lambda>x. bind_s (f x) g)"
  by (auto simp: bind_s_def fun_eq_iff split: prod.splits sum.splits)

lemma bind_s_cases:
  assumes "bind_s m f s = (r, s')"
  obtains (raised) e where "m s = (Inl e, s')" "r = Inl e"
  | (went) x s1 where "m s = (Inr x, s1)" "f x s1 = (r, s')"
  using assms by (auto simp: bind_s_def split: prod.splits sum.splits)

lemma bind_s_Inr_iff [result_simps]:
  "bind_s m f s = (Inr y, s') \<longleftrightarrow> (\<exists>x s1. m s = (Inr x, s1) \<and> f x s1 = (Inr y, s'))"
  by (auto simp: bind_s_def split: prod.splits sum.splits)

lemma ret_s_iff [result_simps]: "ret_s x s = (r, s') \<longleftrightarrow> r = Inr x \<and> s' = s"
  by (auto simp: ret_s_def)

lemma raise_s_iff [result_simps]: "raise_s e s = (r, s') \<longleftrightarrow> r = Inl e \<and> s' = s"
  by (auto simp: raise_s_def)

lemma lift_s_iff [result_simps]: "lift_s r0 s = (r, s') \<longleftrightarrow> r0 = r \<and> s' = s"
  by (auto simp: lift_s_def)

text \<open>What every result of a handler satisfies, whatever the state it starts in.\<close>

definition yields :: "('a \<Rightarrow> bool) \<Rightarrow> ('s, 'e, 'a) handler \<Rightarrow> bool" where
  "yields P m \<longleftrightarrow> (\<forall>s x s'. m s = (Inr x, s') \<longrightarrow> P x)"

lemma yieldsI: "(\<And>s x s'. m s = (Inr x, s') \<Longrightarrow> P x) \<Longrightarrow> yields P m"
  by (auto simp: yields_def)

lemma yieldsD: "yields P m \<Longrightarrow> m s = (Inr x, s') \<Longrightarrow> P x"
  by (auto simp: yields_def)

lemma yields_ret: "P x \<Longrightarrow> yields P (ret_s x)"
  by (simp add: yields_def ret_s_def)

lemma yields_raise: "yields P (raise_s e)"
  by (simp add: yields_def raise_s_def)

lemma yields_bind: "(\<And>x. yields P (f x)) \<Longrightarrow> yields P (bind_s m f)"
  unfolding yields_def bind_s_Inr_iff by blast

lemma yields_bind_lift: "(\<And>x. r = Inr x \<Longrightarrow> yields P (f x)) \<Longrightarrow> yields P (bind_s (lift_s r) f)"
  unfolding yields_def bind_s_Inr_iff lift_s_iff by blast

text \<open>A relation between the states before and after that every part of a handler keeps.\<close>

definition keeps :: "('s \<Rightarrow> 's \<Rightarrow> bool) \<Rightarrow> ('s, 'e, 'a) handler \<Rightarrow> bool" where
  "keeps R m \<longleftrightarrow> (\<forall>s. R s (snd (m s)))"

locale preorder_rel =
  fixes R :: "'s \<Rightarrow> 's \<Rightarrow> bool"
  assumes R_refl: "R s s"
    and R_trans: "R s t \<Longrightarrow> R t u \<Longrightarrow> R s u"
begin

lemma keeps_ret: "keeps R (ret_s x)"
  by (simp add: keeps_def ret_s_def R_refl)

lemma keeps_raise: "keeps R (raise_s e)"
  by (simp add: keeps_def raise_s_def R_refl)

lemma keeps_lift: "keeps R (lift_s r)"
  by (simp add: keeps_def lift_s_def R_refl)

lemma keeps_bind:
  assumes "keeps R m" and "\<And>x. keeps R (f x)"
  shows "keeps R (bind_s m f)"
  unfolding keeps_def
proof
  fix s
  show "R s (snd (bind_s m f s))"
    using assms R_trans
    by (cases "m s") (auto simp: keeps_def bind_s_def split: sum.splits, metis snd_conv, metis snd_conv)
qed

lemmas keeps_intros = keeps_ret keeps_raise keeps_lift keeps_bind

end

section \<open>Strings\<close>

definition char_code :: "char \<Rightarrow> nat" where
  "char_code c = of_char c"

definition is_alpha :: "char \<Rightarrow> bool" where
  "is_alpha c = (let n = char_code c in (65 \<le> n \<and> n \<le> 90) \<or> (97 \<le> n \<and> n \<le> 122))"

definition is_digit :: "char \<Rightarrow> bool" where
  "is_digit c = (let n = char_code c in 48 \<le> n \<and> n \<le> 57)"

definition is_alnum :: "char \<Rightarrow> bool" where
  "is_alnum c = (is_alpha c \<or> is_digit c)"

definition is_space :: "char \<Rightarrow> bool" where
  "is_space c = (let n = char_code c
     in (9 \<le> n \<and> n \<le> 13) \<or> (28 \<le> n \<and> n \<le> 32) \<or> n = 133 \<or> n = 160)"

definition lower_char :: "char \<Rightarrow> char" where
  "lower_char c = (let n = char_code c
     in if (65 \<le> n \<and> n \<le> 90) \<or> (192 \<le> n \<and> n \<le> 222 \<and> n \<noteq> 215) then char_of (n + 32) else c)"

definition lstrip :: "string \<Rightarrow> string" where
  "lstrip s = dropWhile is_space s"

definition rstrip :: "string \<Rightarrow> string" where
  "rstrip s = rev (dropWhile is_space (rev s))"

definition strip :: "string \<Rightarrow> string" where
  "strip s = rstrip (lstrip s)"

definition lower :: "string \<Rightarrow> string" where
  "lower s = map lower_char s"

text \<open>\<open>s.upper()\<close> restricted to ASCII letters, which is all the sources apply it to
  (HTTP methods, filtered base-32 text).\<close>

definition upper_char :: "char \<Rightarrow> char" where
  "upper_char c = (let n = char_code c in if 97 \<le> n \<and> n \<le> 122 then char_of (n - 32) else c)"

definition upper :: "string \<Rightarrow> string" where
  "upper s = map upper_char s"

definition startswith :: "string \<Rightarrow> string \<Rightarrow> bool" where
  "startswith s p = (take (length p) s = p)"

text \<open>\<open>s.replace(c, "")\<close> for a one-character \<open>c\<close>.\<close>

definition remove_char :: "char \<Rightarrow> string \<Rightarrow> string" where
  "remove_char c s = filter (\<lambda>x. x \<noteq> c) s"

text \<open>\<open>s.split(c)\<close> for a one-character separator.\<close>

fun split_on :: "char \<Rightarrow> string \<Rightarrow> string list" where
  "split_on c [] = [[]]"
| "split_on c (x # xs) =
     (if x = c then [] # split_on c xs
      else (case split_on c xs of [] \<Rightarrow> [[x]] | y # ys \<Rightarrow> (x # y) # ys))"

lemma char_code_char_of [simp]: "n < 256 \<Longrightarrow> char_code (char_of n) = n"
  by (simp add: char_code_def)

lemma char_code_less [simp]: "char_code c < 256"
proof -
  have "char_code c = char_code c mod 256"
    unfolding char_code_def by (metis of_char_mod_256)
  then show ?thesis
    by (metis mod_less_divisor zero_less_numeral)
qed

lemma char_code_lower:
  "char_code (lower_char c) =
     (let n = char_code c
      in if (65 \<le> n \<and> n \<le> 90) \<or> (192 \<le> n \<and> n \<le> 222 \<and> n \<noteq> 215) then n + 32 else n)"
  by (simp add: lower_char_def Let_def)

lemma lower_char_idem [simp]: "lower_char (lower_char c) = lower_char c"
proof -
  have "\<not> ((65 \<le> char_code (lower_char c) \<and> char_code (lower_char c) \<le> 90) \<or>
    (192 \<le> char_code (lower_char c) \<and> char_code (lower_char c) \<le> 222 \<and>
     char_code (lower_char c) \<noteq> 215))"
    unfolding char_code_lower Let_def by auto
  then show ?thesis
    by (subst lower_char_def) (auto simp: Let_def)
qed

lemma lower_idem [simp]: "lower (lower s) = lower s"
  by (simp add: lower_def)

lemma is_space_lower [simp]: "is_space (lower_char c) = is_space c"
  unfolding is_space_def char_code_lower Let_def by auto

lemma lower_char_eq_self:
  "\<not> (65 \<le> char_code c \<and> char_code c \<le> 90) \<Longrightarrow> char_code c < 192 \<Longrightarrow> lower_char c = c"
  by (auto simp: lower_char_def Let_def)

lemma length_lower [simp]: "length (lower s) = length s"
  by (simp add: lower_def)

lemma lower_append [simp]: "lower (s @ t) = lower s @ lower t"
  by (simp add: lower_def)

lemma dropWhile_all_not: "\<forall>x\<in>set xs. \<not> P x \<Longrightarrow> dropWhile P xs = xs"
  by (cases xs) auto

lemma strip_no_space: "\<forall>c\<in>set s. \<not> is_space c \<Longrightarrow> strip s = s"
  by (simp add: strip_def lstrip_def rstrip_def dropWhile_all_not)

lemma lstrip_hd: "lstrip s \<noteq> [] \<Longrightarrow> \<not> is_space (hd (lstrip s))"
  unfolding lstrip_def by (rule hd_dropWhile)

lemma rstrip_last: "rstrip s \<noteq> [] \<Longrightarrow> \<not> is_space (last (rstrip s))"
  unfolding rstrip_def by (metis hd_dropWhile last_rev rev_is_Nil_conv)

lemma rstrip_prefix: "\<exists>t. s = rstrip s @ t"
  unfolding rstrip_def
  by (metis rev_append rev_rev_ident takeWhile_dropWhile_id)

lemma strip_hd: "strip s \<noteq> [] \<Longrightarrow> \<not> is_space (hd (strip s))"
proof -
  assume ne: "strip s \<noteq> []"
  obtain t where "lstrip s = rstrip (lstrip s) @ t"
    using rstrip_prefix by blast
  then have "lstrip s \<noteq> []" and "hd (lstrip s) = hd (strip s)"
    using ne unfolding strip_def by (metis append_is_Nil_conv, metis hd_append2)
  then show ?thesis using lstrip_hd by metis
qed

lemma lstrip_id: "s = [] \<or> \<not> is_space (hd s) \<Longrightarrow> lstrip s = s"
  unfolding lstrip_def by (cases s) auto

lemma rstrip_idem [simp]: "rstrip (rstrip s) = rstrip s"
  by (simp add: rstrip_def)

lemma strip_idem [simp]: "strip (strip s) = strip s"
proof -
  have "lstrip (strip s) = strip s"
    using strip_hd lstrip_id by blast
  then show ?thesis
    by (metis rstrip_idem strip_def)
qed

lemma startswith_append [simp]: "startswith (p @ s) p"
  by (simp add: startswith_def)

lemma startswith_iff: "startswith s p \<longleftrightarrow> (\<exists>t. s = p @ t)"
  by (metis append_eq_conv_conj append_take_drop_id startswith_def)

section \<open>Interfaces\<close>

text \<open>
  A keyed store: what a client of a dictionary or of a table with a primary key may rely on.
  \<open>look\<close> reads a key, \<open>put\<close> stores under a key, \<open>del\<close> removes one, \<open>wf\<close> is the store's own
  invariant.
\<close>

locale keyed_store =
  fixes look :: "'s \<Rightarrow> 'k \<Rightarrow> 'v option"
    and put :: "'k \<Rightarrow> 'v \<Rightarrow> 's \<Rightarrow> 's"
    and del :: "'k \<Rightarrow> 's \<Rightarrow> 's"
    and wf :: "'s \<Rightarrow> bool"
  assumes look_put: "wf s \<Longrightarrow> look (put k v s) = (look s)(k \<mapsto> v)"
    and look_del: "wf s \<Longrightarrow> look (del k s) = (look s)(k := None)"
    and wf_put: "wf s \<Longrightarrow> wf (put k v s)"
    and wf_del: "wf s \<Longrightarrow> wf (del k s)"
begin

lemma look_put_same: "wf s \<Longrightarrow> look (put k v s) k = Some v"
  by (simp add: look_put)

lemma look_put_other: "wf s \<Longrightarrow> k' \<noteq> k \<Longrightarrow> look (put k v s) k' = look s k'"
  by (simp add: look_put)

lemma look_del_same: "wf s \<Longrightarrow> look (del k s) k = None"
  by (simp add: look_del)

lemma look_del_other: "wf s \<Longrightarrow> k' \<noteq> k \<Longrightarrow> look (del k s) k' = look s k'"
  by (simp add: look_del)

lemma dom_put: "wf s \<Longrightarrow> dom (look (put k v s)) = insert k (dom (look s))"
  by (simp add: look_put)

lemma dom_del: "wf s \<Longrightarrow> dom (look (del k s)) = dom (look s) - {k}"
  by (simp add: look_del)

end

text \<open>
  An encoding with its decoder, on the values the encoder accepts. Its client lemma is what a
  protocol needs of a wire format: two different values never share an encoding.
\<close>

locale codec =
  fixes enc :: "'a \<Rightarrow> 'b"
    and dec :: "'b \<Rightarrow> 'a option"
    and valid :: "'a \<Rightarrow> bool"
  assumes dec_enc: "valid x \<Longrightarrow> dec (enc x) = Some x"
begin

lemma enc_inject: "valid x \<Longrightarrow> valid y \<Longrightarrow> enc x = enc y \<longleftrightarrow> x = y"
  by (metis dec_enc option.inject)

lemma enc_inj_on: "inj_on enc {x. valid x}"
  by (auto simp: inj_on_def enc_inject)

end

text \<open>
  A component driven by a sequence of operations: if every operation keeps the invariant, every
  run does, and so does every state on the way.
\<close>

fun run_ops :: "('s \<Rightarrow> 'e \<Rightarrow> 's) \<Rightarrow> 's \<Rightarrow> 'e list \<Rightarrow> 's" where
  "run_ops step s [] = s"
| "run_ops step s (e # es) = run_ops step (step s e) es"

lemma run_ops_append: "run_ops step s (xs @ ys) = run_ops step (run_ops step s xs) ys"
  by (induction xs arbitrary: s) simp_all

locale invariant_system =
  fixes step :: "'s \<Rightarrow> 'e \<Rightarrow> 's"
    and inv :: "'s \<Rightarrow> bool"
  assumes step_inv: "inv s \<Longrightarrow> inv (step s e)"
begin

lemma run_inv: "inv s \<Longrightarrow> inv (run_ops step s es)"
  by (induction es arbitrary: s) (simp_all add: step_inv)

lemma run_prefix_inv: "inv s \<Longrightarrow> es = xs @ ys \<Longrightarrow> inv (run_ops step s xs)"
  by (simp add: run_inv)

lemma run_preserved:
  assumes keep: "\<And>s e. inv s \<Longrightarrow> P s \<Longrightarrow> P (step s e)"
  shows "inv s \<Longrightarrow> P s \<Longrightarrow> P (run_ops step s es)"
  by (induction es arbitrary: s) (simp_all add: step_inv keep)

end

section \<open>Dictionaries\<close>

type_synonym ('k, 'v) dict = "('k \<times> 'v) list"

definition dict_get :: "('k, 'v) dict \<Rightarrow> 'k \<Rightarrow> 'v option" where
  "dict_get d k = map_of d k"

text \<open>\<open>d[k] = v\<close> keeps an existing key's position and appends a new one.\<close>

fun dict_set :: "'k \<Rightarrow> 'v \<Rightarrow> ('k, 'v) dict \<Rightarrow> ('k, 'v) dict" where
  "dict_set k v [] = [(k, v)]"
| "dict_set k v ((k', v') # d) = (if k = k' then (k, v) # d else (k', v') # dict_set k v d)"

definition dict_pop :: "'k \<Rightarrow> ('k, 'v) dict \<Rightarrow> ('k, 'v) dict" where
  "dict_pop k d = filter (\<lambda>p. fst p \<noteq> k) d"

definition dict_keys :: "('k, 'v) dict \<Rightarrow> 'k list" where
  "dict_keys d = map fst d"

definition dict_values :: "('k, 'v) dict \<Rightarrow> 'v list" where
  "dict_values d = map snd d"

definition dict_ok :: "('k, 'v) dict \<Rightarrow> bool" where
  "dict_ok d = distinct (map fst d)"

lemma dict_get_Nil [simp]: "dict_get [] k = None"
  by (simp add: dict_get_def)

lemma dict_get_Cons [simp]:
  "dict_get ((k', v) # d) k = (if k = k' then Some v else dict_get d k)"
  by (simp add: dict_get_def)

lemma dict_get_set: "dict_get (dict_set k v d) = (dict_get d)(k \<mapsto> v)"
  by (induction d) (auto simp: fun_eq_iff)

lemma dict_get_pop: "dict_get (dict_pop k d) = (dict_get d)(k := None)"
  by (induction d) (auto simp: fun_eq_iff dict_pop_def)

lemma set_keys_dict_set: "fst ` set (dict_set k v d) = insert k (fst ` set d)"
proof (induction d)
  case Nil
  show ?case by simp
next
  case (Cons p d)
  then show ?case by (cases p) (simp add: insert_commute)
qed

lemma dict_ok_set: "dict_ok d \<Longrightarrow> dict_ok (dict_set k v d)"
  unfolding dict_ok_def
  by (induction d) (auto simp: set_keys_dict_set image_iff)

lemma dict_ok_pop: "dict_ok d \<Longrightarrow> dict_ok (dict_pop k d)"
  by (simp add: dict_ok_def dict_pop_def distinct_map_filter)

lemma dict_ok_Nil [simp]: "dict_ok []"
  by (simp add: dict_ok_def)

interpretation pydict: keyed_store dict_get dict_set dict_pop dict_ok
  by unfold_locales (simp_all add: dict_get_set dict_get_pop dict_ok_set dict_ok_pop)

lemma dict_get_set_same [simp, dict_simps]: "dict_get (dict_set k v d) k = Some v"
  by (simp add: dict_get_set)

lemma dict_get_set_other [simp, dict_simps]:
  "k' \<noteq> k \<Longrightarrow> dict_get (dict_set k v d) k' = dict_get d k'"
  by (simp add: dict_get_set)

lemma dict_get_pop_same [simp, dict_simps]: "dict_get (dict_pop k d) k = None"
  by (simp add: dict_get_pop)

lemma dict_get_pop_other [simp, dict_simps]:
  "k' \<noteq> k \<Longrightarrow> dict_get (dict_pop k d) k' = dict_get d k'"
  by (simp add: dict_get_pop)

lemma dict_get_in: "dict_get d k = Some v \<Longrightarrow> (k, v) \<in> set d"
  by (simp add: dict_get_def map_of_SomeD)

lemma dict_in_get: "dict_ok d \<Longrightarrow> (k, v) \<in> set d \<Longrightarrow> dict_get d k = Some v"
  by (simp add: dict_get_def dict_ok_def)

lemma dict_get_None_iff: "dict_get d k = None \<longleftrightarrow> k \<notin> set (dict_keys d)"
  by (simp add: dict_get_def dict_keys_def map_of_eq_None_iff)

lemma dict_set_fresh: "dict_get d k = None \<Longrightarrow> dict_set k v d = d @ [(k, v)]"
  by (induction d) (auto split: if_splits)

lemma in_dict_pop: "p \<in> set (dict_pop k d) \<Longrightarrow> p \<in> set d"
  by (simp add: dict_pop_def)

lemma in_dict_set: "p \<in> set (dict_set k v d) \<Longrightarrow> p = (k, v) \<or> p \<in> set d"
  by (induction d) (auto split: if_splits)

lemma length_dict_set_fresh: "dict_get d k = None \<Longrightarrow> length (dict_set k v d) = Suc (length d)"
  by (simp add: dict_set_fresh)

lemma length_dict_set_same: "dict_get d k = Some v0 \<Longrightarrow> length (dict_set k v d) = length d"
  by (induction d) (auto split: if_splits)

lemma length_dict_set: "length (dict_set k v d) \<le> Suc (length d)"
  by (induction d) auto

section \<open>Big-endian length prefixes\<close>

text \<open>\<open>n.to_bytes(4, "big")\<close> (\<open>None\<close> is the \<open>OverflowError\<close>) and \<open>int.from_bytes(b, "big")\<close>.\<close>

definition to_bytes4 :: "nat \<Rightarrow> bytes option" where
  "to_bytes4 n =
     (if n < 2 ^ 32
      then Some [word_of_nat (n div 2 ^ 24), word_of_nat (n div 2 ^ 16 mod 256),
                 word_of_nat (n div 2 ^ 8 mod 256), word_of_nat (n mod 256)]
      else None)"

definition from_bytes :: "bytes \<Rightarrow> nat" where
  "from_bytes bs = foldl (\<lambda>acc b. acc * 256 + unat b) 0 bs"

lemma length_to_bytes4: "to_bytes4 n = Some bs \<Longrightarrow> length bs = 4"
  by (auto simp: to_bytes4_def split: if_splits)

lemma from_to_bytes4: "to_bytes4 n = Some bs \<Longrightarrow> from_bytes bs = n"
proof -
  assume "to_bytes4 n = Some bs"
  then have n: "n < 2 ^ 32"
    and bs: "bs = [word_of_nat (n div 2 ^ 24), word_of_nat (n div 2 ^ 16 mod 256),
                 word_of_nat (n div 2 ^ 8 mod 256), word_of_nat (n mod 256)]"
    by (auto simp: to_bytes4_def split: if_splits)
  have u: "unat (word_of_nat k :: 8 word) = k mod 256" for k
    by (simp add: unat_of_nat)
  have "n div 2 ^ 24 mod 256 = n div 2 ^ 24"
    using n by (simp add: div_less_iff_less_mult)
  then have "from_bytes bs = ((n div 2 ^ 24 * 256 + n div 2 ^ 16 mod 256) * 256
      + n div 2 ^ 8 mod 256) * 256 + n mod 256"
    by (simp add: from_bytes_def bs u)
  also have "n div 2 ^ 24 = n div 2 ^ 16 div 256"
    by (simp add: div_mult2_eq [symmetric])
  also have "n div 2 ^ 16 div 256 * 256 + n div 2 ^ 16 mod 256 = n div 2 ^ 16"
    by (rule div_mult_mod_eq)
  also have "n div 2 ^ 16 = n div 2 ^ 8 div 256"
    by (simp add: div_mult2_eq [symmetric])
  also have "n div 2 ^ 8 div 256 * 256 + n div 2 ^ 8 mod 256 = n div 2 ^ 8"
    by (rule div_mult_mod_eq)
  also have "n div 2 ^ 8 * 256 + n mod 256 = n"
    using div_mult_mod_eq [of n 256] by simp
  finally show ?thesis .
qed

lemma to_bytes4_Some: "n < 2 ^ 32 \<Longrightarrow> \<exists>bs. to_bytes4 n = Some bs"
  by (simp add: to_bytes4_def)

interpretation be32: codec "\<lambda>n. the (to_bytes4 n)" "\<lambda>bs. Some (from_bytes bs)"
    "\<lambda>n. n < 2 ^ 32"
  by unfold_locales (metis from_to_bytes4 option.sel to_bytes4_Some)

end
