(* ===== verification/Base32.thy ===== *)
theory Base32
  imports Prelude
begin

text \<open>
  \<open>base64.b32encode\<close> and \<open>base64.b32decode(..., casefold=True)\<close> of the Python standard library,
  which invite codes and tickets are written in: five bits per letter, \<open>=\<close> up to a multiple of
  eight letters. The theorem of this theory is the round trip in the form the ticket code uses
  it: padding stripped and the text lower-cased on the way out, upper-cased and padded again on
  the way in.
\<close>

definition b32_alphabet :: string where
  "b32_alphabet = ''ABCDEFGHIJKLMNOPQRSTUVWXYZ234567''"

definition bits_of :: "nat \<Rightarrow> nat \<Rightarrow> bool list" where
  "bits_of n k = map (\<lambda>i. odd (k div 2 ^ i)) (rev [0..<n])"

definition nat_of_bits :: "bool list \<Rightarrow> nat" where
  "nat_of_bits bs = foldl (\<lambda>a b. 2 * a + of_bool b) 0 bs"

function chunks :: "nat \<Rightarrow> 'a list \<Rightarrow> 'a list list" where
  "chunks n xs = (if xs = [] \<or> n = 0 then [] else take n xs # chunks n (drop n xs))"
  by pat_completeness auto
termination
  by (relation "measure (\<lambda>(n, xs). length xs)") auto

declare chunks.simps [simp del]

text \<open>How many fillers bring a length to a multiple of \<open>n\<close>: Python's \<open>-len % n\<close>.\<close>

definition fill :: "nat \<Rightarrow> nat \<Rightarrow> nat" where
  "fill n k = (n - k mod n) mod n"

definition pad_to :: "nat \<Rightarrow> 'a \<Rightarrow> 'a list \<Rightarrow> 'a list" where
  "pad_to n x xs = xs @ replicate (fill n (length xs)) x"

definition byte_bits :: "bytes \<Rightarrow> bool list" where
  "byte_bits bs = concat (map (\<lambda>b. bits_of 8 (unat b)) bs)"

definition b32_digits :: "bytes \<Rightarrow> string" where
  "b32_digits raw =
     map (\<lambda>c. b32_alphabet ! nat_of_bits c) (chunks 5 (pad_to 5 False (byte_bits raw)))"

definition b32encode :: "bytes \<Rightarrow> string" where
  "b32encode raw = pad_to 8 CHR ''='' (b32_digits raw)"

fun index_of :: "'a \<Rightarrow> 'a list \<Rightarrow> nat option" where
  "index_of x [] = None"
| "index_of x (y # ys) = (if x = y then Some 0 else map_option Suc (index_of x ys))"

definition rstrip_eq :: "string \<Rightarrow> string" where
  "rstrip_eq s = rev (dropWhile (\<lambda>c. c = CHR ''='') (rev s))"

text \<open>\<open>None\<close> is \<open>binascii.Error\<close>: a foreign letter, a length that is no multiple of eight, or a
  number of padding letters no byte string produces.\<close>

definition b32decode :: "string \<Rightarrow> bytes option" where
  "b32decode text =
     (let s = upper text; body = rstrip_eq s; padchars = length s - length body
      in if length s mod 8 \<noteq> 0 then None
         else if \<exists>c\<in>set body. index_of c b32_alphabet = None then None
         else if padchars \<notin> {0, 1, 3, 4, 6} then None
         else let bits = concat (map (\<lambda>c. bits_of 5 (the (index_of c b32_alphabet))) body)
              in Some (map (\<lambda>c. word_of_nat (nat_of_bits c))
                   (chunks 8 (take (8 * (length bits div 8)) bits))))"

section \<open>Bits and chunks\<close>

lemma length_bits_of [simp]: "length (bits_of n k) = n"
  by (simp add: bits_of_def)

lemma nat_of_bits_snoc: "nat_of_bits (bs @ [b]) = 2 * nat_of_bits bs + of_bool b"
  by (simp add: nat_of_bits_def)

lemma bits_of_Suc: "bits_of (Suc n) k = bits_of n (k div 2) @ [odd k]"
  unfolding bits_of_def
  by (induction n) (simp_all add: div_mult2_eq [symmetric] ac_simps)

lemma nat_of_bits_of: "nat_of_bits (bits_of n k) = k mod 2 ^ n"
proof (induction n arbitrary: k)
  case 0
  show ?case by (simp add: bits_of_def nat_of_bits_def)
next
  case (Suc n)
  have "nat_of_bits (bits_of (Suc n) k) = 2 * (k div 2 mod 2 ^ n) + of_bool (odd k)"
    by (simp add: bits_of_Suc nat_of_bits_snoc Suc.IH)
  also have "\<dots> = k mod 2 ^ Suc n"
    by (simp add: mod_mult2_eq odd_iff_mod_2_eq_one of_bool_def)
  finally show ?case .
qed

lemma nat_of_bits_bound: "nat_of_bits bs < 2 ^ length bs"
  by (induction bs rule: rev_induct) (auto simp: nat_of_bits_snoc nat_of_bits_def of_bool_def)

lemma bits_of_nat_of_bits: "length bs = n \<Longrightarrow> bits_of n (nat_of_bits bs) = bs"
proof (induction bs arbitrary: n rule: rev_induct)
  case Nil
  then show ?case by (simp add: bits_of_def)
next
  case (snoc b bs)
  then show ?case
    by (cases n) (auto simp: bits_of_Suc nat_of_bits_snoc)
qed

lemma length_byte_bits [simp]: "length (byte_bits bs) = 8 * length bs"
  by (induction bs) (simp_all add: byte_bits_def)

lemma chunks_Nil [simp]: "chunks n [] = []"
  by (simp add: chunks.simps)

lemma concat_chunks: "n > 0 \<Longrightarrow> concat (chunks n xs) = xs"
proof (induction n xs rule: chunks.induct)
  case (1 n xs)
  then show ?case by (cases "xs = []") (simp_all add: chunks.simps [of n xs])
qed

lemma chunks_lengths:
  "n > 0 \<Longrightarrow> length xs mod n = 0 \<Longrightarrow> c \<in> set (chunks n xs) \<Longrightarrow> length c = n"
proof (induction n xs rule: chunks.induct)
  case (1 n xs)
  show ?case
  proof (cases "xs = []")
    case True
    with "1.prems" show ?thesis by (simp add: chunks.simps)
  next
    case False
    then have ge: "n \<le> length xs"
      using "1.prems" by (metis length_0_conv mod_less not_le)
    then have "length (drop n xs) mod n = 0"
      using "1.prems" by (simp add: mod_if [of "length xs"])
    with 1 False ge show ?thesis
      by (auto simp: chunks.simps [of n xs])
  qed
qed

lemma length_chunks:
  "n > 0 \<Longrightarrow> length xs mod n = 0 \<Longrightarrow> length (chunks n xs) * n = length xs"
proof -
  assume n: "n > 0" and len: "length xs mod n = 0"
  have "length xs = sum_list (map length (chunks n xs))"
    using concat_chunks [OF n, of xs] by (metis length_concat)
  also have "map length (chunks n xs) = map (\<lambda>_. n) (chunks n xs)"
    using chunks_lengths [OF n len] by simp
  finally show ?thesis by (simp add: sum_list_triv)
qed

lemma chunks_concat:
  "n > 0 \<Longrightarrow> (\<And>c. c \<in> set cs \<Longrightarrow> length c = n) \<Longrightarrow> chunks n (concat cs) = cs"
proof (induction cs)
  case Nil
  then show ?case by (simp add: chunks.simps)
next
  case (Cons c cs)
  then have "c \<noteq> []" by auto
  with Cons show ?case by (simp add: chunks.simps [of n "c @ concat cs"])
qed

lemma fill_less: "n > 0 \<Longrightarrow> fill n k < n"
  by (simp add: fill_def)

lemma fill_mod: "n > 0 \<Longrightarrow> (k + fill n k) mod n = 0"
  unfolding fill_def
  by (metis (no_types, lifting) add_diff_inverse_nat add.commute mod_add_left_eq mod_add_right_eq
      mod_less_divisor mod_self not_less_iff_gr_or_eq)

lemma length_pad_to: "length (pad_to n x xs) = length xs + fill n (length xs)"
  by (simp add: pad_to_def)

section \<open>The alphabet\<close>

lemma length_alphabet [simp]: "length b32_alphabet = 32"
  by (simp add: b32_alphabet_def)

lemma distinct_alphabet: "distinct b32_alphabet"
  by (simp add: b32_alphabet_def)

lemma index_of_nth: "distinct xs \<Longrightarrow> i < length xs \<Longrightarrow> index_of (xs ! i) xs = Some i"
proof (induction xs arbitrary: i)
  case Nil
  then show ?case by simp
next
  case (Cons x xs)
  then show ?case by (cases i) auto
qed

lemma alphabet_upper: "c \<in> set b32_alphabet \<Longrightarrow> upper_char (lower_char c) = c"
proof -
  have "list_all (\<lambda>c. upper_char (lower_char c) = c) b32_alphabet"
    by (simp add: b32_alphabet_def upper_char_def lower_char_def char_code_def char_of_def bit_0)
  then show "c \<in> set b32_alphabet \<Longrightarrow> ?thesis" by (simp add: list_all_iff)
qed

lemma alphabet_upper_id: "c \<in> set b32_alphabet \<Longrightarrow> upper_char c = c"
proof -
  have "list_all (\<lambda>c. upper_char c = c) b32_alphabet"
    by (simp add: b32_alphabet_def upper_char_def char_code_def)
  then show "c \<in> set b32_alphabet \<Longrightarrow> ?thesis" by (simp add: list_all_iff)
qed

lemma alphabet_no_eq: "CHR ''='' \<notin> set b32_alphabet"
  by (simp add: b32_alphabet_def)

lemma alphabet_not_space: "c \<in> set b32_alphabet \<Longrightarrow> \<not> is_space c"
  by (auto simp: b32_alphabet_def is_space_def char_code_def)

section \<open>Round trip\<close>

lemma digit_chunks:
  "c \<in> set (chunks 5 (pad_to 5 False (byte_bits raw))) \<Longrightarrow> length c = 5"
  by (rule chunks_lengths [of 5]) (simp_all add: length_pad_to fill_mod)

lemma set_b32_digits: "set (b32_digits raw) \<subseteq> set b32_alphabet"
proof
  fix x
  assume "x \<in> set (b32_digits raw)"
  then obtain c where c: "c \<in> set (chunks 5 (pad_to 5 False (byte_bits raw)))"
    and x: "x = b32_alphabet ! nat_of_bits c"
    by (auto simp: b32_digits_def)
  have "nat_of_bits c < 32"
    using nat_of_bits_bound [of c] digit_chunks [OF c] by simp
  then show "x \<in> set b32_alphabet" by (simp add: x)
qed

lemma length_b32_digits: "length (b32_digits raw) * 5 = 8 * length raw + fill 5 (8 * length raw)"
  unfolding b32_digits_def
  by (simp add: length_chunks [of 5] length_pad_to fill_mod)

lemma digit_bits:
  "concat (map (\<lambda>c. bits_of 5 (the (index_of c b32_alphabet))) (b32_digits raw)) =
     pad_to 5 False (byte_bits raw)"
proof -
  have "map (\<lambda>c. bits_of 5 (the (index_of c b32_alphabet))) (b32_digits raw) =
      map id (chunks 5 (pad_to 5 False (byte_bits raw)))"
    unfolding b32_digits_def map_map
  proof (rule map_cong [OF refl], simp)
    fix c
    assume "c \<in> set (chunks 5 (pad_to 5 False (byte_bits raw)))"
    then have len: "length c = 5" by (rule digit_chunks)
    then have "nat_of_bits c < 32" using nat_of_bits_bound [of c] by simp
    then show "bits_of 5 (the (index_of (b32_alphabet ! nat_of_bits c) b32_alphabet)) = c"
      by (simp add: index_of_nth distinct_alphabet bits_of_nat_of_bits len)
  qed
  then show ?thesis by (simp add: concat_chunks)
qed

lemma bytes_of_bits:
  "map (\<lambda>c. word_of_nat (nat_of_bits c)) (chunks 8 (byte_bits raw)) = raw"
proof -
  have "chunks 8 (byte_bits raw) = map (\<lambda>b. bits_of 8 (unat b)) raw"
    unfolding byte_bits_def by (rule chunks_concat) auto
  moreover have "(word_of_nat (nat_of_bits (bits_of 8 (unat b))) :: 8 word) = b" for b :: "8 word"
  proof -
    have "unat b mod 2 ^ 8 = unat b"
      using unsigned_less [of b, where ?'a = nat] by simp
    then show ?thesis by (simp add: nat_of_bits_of)
  qed
  ultimately show ?thesis by (simp add: map_idI)
qed

lemma rstrip_eq_pad:
  "CHR ''='' \<notin> set s \<Longrightarrow> rstrip_eq (s @ replicate k CHR ''='') = s"
  unfolding rstrip_eq_def
  by (subst rev_append, subst dropWhile_append2, simp, subst dropWhile_all_not) auto

lemma rstrip_eq_b32encode: "rstrip_eq (b32encode raw) = b32_digits raw"
  unfolding b32encode_def pad_to_def
  using set_b32_digits alphabet_no_eq by (intro rstrip_eq_pad) blast

lemma upper_lower_digits: "upper (lower (b32_digits raw)) = b32_digits raw"
  unfolding upper_def lower_def using set_b32_digits [of raw]
  by (auto simp: alphabet_upper intro!: map_idI)

lemma mod8_of_mult5:
  assumes "(d::nat) * 5 = 8 * n + f" and "f < 5"
  shows "d mod 8 \<in> {0, 2, 4, 5, 7}"
proof -
  have "d mod 8 = (d + 8 * (3 * d)) mod 8" by (rule mod_mult_self2 [symmetric])
  also have "d + 8 * (3 * d) = 5 * (d * 5)" by simp
  also have "\<dots> = 5 * f + 8 * (5 * n)" unfolding assms(1) by simp
  also have "(5 * f + 8 * (5 * n)) mod 8 = (5 * f) mod 8" by (rule mod_mult_self2)
  also have "f \<in> {0, 1, 2, 3, 4}" using assms(2) by auto
  ultimately show ?thesis by auto
qed

lemma padchars_ok: "fill 8 (length (b32_digits raw)) \<in> {0, 1, 3, 4, 6}"
proof -
  let ?n = "length raw" and ?d = "length (b32_digits raw)"
  have d: "?d * 5 = 8 * ?n + fill 5 (8 * ?n)" by (rule length_b32_digits)
  have "fill 5 (8 * ?n) < 5" by (rule fill_less) simp
  with d have "?d mod 8 \<in> {0, 2, 4, 5, 7}" by (rule mod8_of_mult5)
  then show ?thesis by (auto simp: fill_def)
qed

lemma b32_round_trip_digits:
  "b32decode (pad_to 8 CHR ''='' (upper (lower (b32_digits raw)))) = Some raw"
proof -
  let ?d = "b32_digits raw" and ?k = "fill 8 (length (b32_digits raw))"
  have up: "upper (?d @ replicate ?k CHR ''='') = ?d @ replicate ?k CHR ''=''"
  proof -
    have "upper ?d = ?d"
      unfolding upper_def using set_b32_digits [of raw]
      by (auto simp: alphabet_upper_id intro!: map_idI)
    moreover have "upper (replicate ?k CHR ''='') = replicate ?k CHR ''=''"
      by (simp add: upper_def upper_char_def char_code_def)
    ultimately show ?thesis by (simp add: upper_def)
  qed
  have body: "rstrip_eq (?d @ replicate ?k CHR ''='') = ?d"
    using set_b32_digits alphabet_no_eq by (intro rstrip_eq_pad) blast
  have known: "\<not> (\<exists>c\<in>set ?d. index_of c b32_alphabet = None)"
  proof
    assume "\<exists>c\<in>set ?d. index_of c b32_alphabet = None"
    then obtain c where "c \<in> set ?d" and none: "index_of c b32_alphabet = None" by blast
    then obtain i where "i < 32" and "c = b32_alphabet ! i"
      using set_b32_digits by (metis in_set_conv_nth length_alphabet subsetD)
    with none show False by (simp add: index_of_nth distinct_alphabet)
  qed
  have len: "(length ?d + ?k) mod 8 = 0" by (rule fill_mod) simp
  let ?bits = "pad_to 5 False (byte_bits raw)"
  have "fill 5 (8 * length raw) < 5" by (rule fill_less) simp
  then have "length ?bits div 8 = length raw"
    by (simp add: length_pad_to)
  then have take: "take (8 * (length ?bits div 8)) ?bits = byte_bits raw"
    by (simp add: pad_to_def)
  show ?thesis
    using known len padchars_ok [of raw] take
    by (simp add: b32decode_def pad_to_def [of 8] upper_lower_digits up body digit_bits
        bytes_of_bits Let_def)
qed

interpretation b32: codec "\<lambda>raw. lower (b32_digits raw)"
    "\<lambda>s. b32decode (pad_to 8 CHR ''='' (upper s))" "\<lambda>_. True"
  by unfold_locales (rule b32_round_trip_digits)

end
