(* ===== verification/Ticket.thy ===== *)
theory Ticket
  imports Base32
begin

text \<open>
  Invite tickets (\<open>packages/identity/.../ticket.py\<close>): one string that carries everything a
  client needs to join a network. The CBOR library is a parameter (\<open>dumps\<close>, \<open>loads\<close>; \<open>None\<close> is
  \<open>CBORDecodeError\<close>); base 32 is the model of \<open>Base32\<close>. The results are the round trip through
  the text form, also after a user's client re-cased it or broke it with separators, and the
  exact error of every malformed input.
\<close>

datatype ticket_error =
    NotATicket string
  | NotBase32
  | NotCBOR
  | NotAMap
  | UnsupportedVersion
  | MissingField string

record invite_ticket =
  tk_code :: string
  tk_coordinator_node_id :: string
  tk_network_name :: string
  tk_network_id :: string
  tk_role :: string
  tk_bind_to :: string
  tk_relay_url :: "string option"
  tk_addresses :: "string list option"

definition TICKET_PREFIX :: string where
  "TICKET_PREFIX = ''oa1''"

definition TICKET_VERSION :: int where
  "TICKET_VERSION = 1"

definition ticket_payload :: "invite_ticket \<Rightarrow> (pyval \<times> pyval) list" where
  "ticket_payload t =
     [(PStr ''v'', PInt TICKET_VERSION),
      (PStr ''code'', PStr (tk_code t)),
      (PStr ''node_id'', PStr (tk_coordinator_node_id t)),
      (PStr ''name'', PStr (tk_network_name t)),
      (PStr ''network_id'', PStr (tk_network_id t)),
      (PStr ''role'', PStr (tk_role t)),
      (PStr ''bind_to'', PStr (tk_bind_to t))]
     @ (case tk_relay_url t of
          None \<Rightarrow> [] | Some u \<Rightarrow> if u = [] then [] else [(PStr ''relay_url'', PStr u)])
     @ (case tk_addresses t of
          None \<Rightarrow> []
        | Some as \<Rightarrow> if as = [] then [] else [(PStr ''addresses'', PList (map PStr as))])"

definition encode_payload :: "(pyval \<Rightarrow> bytes) \<Rightarrow> (pyval \<times> pyval) list \<Rightarrow> string" where
  "encode_payload dumps obj = TICKET_PREFIX @ lower (rstrip_eq (b32encode (dumps (PDict obj))))"

definition ticket_encode :: "(pyval \<Rightarrow> bytes) \<Rightarrow> invite_ticket \<Rightarrow> string" where
  "ticket_encode dumps t = encode_payload dumps (ticket_payload t)"

definition ticket_char :: "char \<Rightarrow> bool" where
  "ticket_char c = (c \<in> set ''ABCDEFGHIJKLMNOPQRSTUVWXYZabcdefghijklmnopqrstuvwxyz234567'')"

definition decode_payload ::
  "(bytes \<Rightarrow> pyval option) \<Rightarrow> string \<Rightarrow> ticket_error + (pyval \<times> pyval) list" where
  "decode_payload loads s =
     (if \<not> startswith s TICKET_PREFIX then Inl (NotATicket (take 8 s))
      else let body = upper (filter ticket_char (drop (length TICKET_PREFIX) s))
           in case b32decode (pad_to 8 CHR ''='' body) of
                None \<Rightarrow> Inl NotBase32
              | Some raw \<Rightarrow>
                  (case loads raw of
                     None \<Rightarrow> Inl NotCBOR
                   | Some (PDict obj) \<Rightarrow>
                       if eq_int (pget_or PNone ''v'' obj) TICKET_VERSION then Inr obj
                       else Inl UnsupportedVersion
                   | Some _ \<Rightarrow> Inl NotAMap))"

text \<open>Address hints: only non-empty strings survive, and no survivor at all reads as \<open>None\<close>.\<close>

definition clean_addresses :: "pyval \<Rightarrow> string list option" where
  "clean_addresses raw =
     (case raw of
        PList xs \<Rightarrow>
          (let cleaned = concat (map (\<lambda>a. case a of PStr s \<Rightarrow> if s = [] then [] else [s] | _ \<Rightarrow> []) xs)
           in if cleaned = [] then None else Some cleaned)
      | _ \<Rightarrow> None)"

definition clean_relay :: "pyval \<Rightarrow> string option" where
  "clean_relay raw = (case raw of PStr s \<Rightarrow> if s = [] then None else Some s | _ \<Rightarrow> None)"

definition required_field :: "(pyval \<times> pyval) list \<Rightarrow> string \<Rightarrow> ticket_error + pyval" where
  "required_field obj k = of_opt (MissingField k) (pget k obj)"

definition ticket_decode ::
  "(pyval \<Rightarrow> string) \<Rightarrow> (bytes \<Rightarrow> pyval option) \<Rightarrow> string \<Rightarrow> ticket_error + invite_ticket" where
  "ticket_decode rep loads s =
     bind_r (decode_payload loads s) (\<lambda>obj.
     let addresses = clean_addresses (pget_or PNone ''addresses'' obj);
         relay_url = clean_relay (pget_or PNone ''relay_url'' obj)
     in bind_r (required_field obj ''code'') (\<lambda>code.
        bind_r (required_field obj ''node_id'') (\<lambda>node_id.
        bind_r (required_field obj ''name'') (\<lambda>name.
        bind_r (required_field obj ''network_id'') (\<lambda>network_id.
        Inr \<lparr>tk_code = py_str rep code,
             tk_coordinator_node_id = py_str rep node_id,
             tk_network_name = py_str rep name,
             tk_network_id = py_str rep network_id,
             tk_role = py_str rep (pget_or (PStr ''user'') ''role'' obj),
             tk_bind_to = py_str rep (pget_or (PStr []) ''bind_to'' obj),
             tk_relay_url = relay_url,
             tk_addresses = addresses\<rparr>)))))"

definition looks_like_ticket :: "string \<Rightarrow> bool" where
  "looks_like_ticket s = startswith s TICKET_PREFIX"

text \<open>What the optional hints of a ticket mean after a trip over the wire: an empty hint is no hint.\<close>

definition canonical_ticket :: "invite_ticket \<Rightarrow> invite_ticket" where
  "canonical_ticket t =
     t\<lparr>tk_relay_url := (case tk_relay_url t of
          None \<Rightarrow> None | Some u \<Rightarrow> if u = [] then None else Some u),
       tk_addresses := (case tk_addresses t of
          None \<Rightarrow> None
        | Some as \<Rightarrow> (case filter (\<lambda>a. a \<noteq> []) as of [] \<Rightarrow> None | xs \<Rightarrow> Some xs))\<rparr>"

section \<open>Lemmas\<close>

lemma ticket_text: "ticket_encode dumps t =
    TICKET_PREFIX @ lower (b32_digits (dumps (PDict (ticket_payload t))))"
  by (simp add: ticket_encode_def encode_payload_def rstrip_eq_b32encode)

lemma alphabet_lower_ticket_char: "c \<in> set b32_alphabet \<Longrightarrow> ticket_char (lower_char c)"
proof -
  have "list_all (\<lambda>c. ticket_char (lower_char c)) b32_alphabet"
    by (simp add: b32_alphabet_def ticket_char_def lower_char_def char_code_def char_of_def bit_0)
  then show "c \<in> set b32_alphabet \<Longrightarrow> ?thesis" by (simp add: list_all_iff)
qed

lemma filter_digits: "filter ticket_char (lower (b32_digits raw)) = lower (b32_digits raw)"
  using set_b32_digits [of raw]
  by (auto simp: lower_def intro!: filter_True alphabet_lower_ticket_char)

lemma ticket_char_upper_lower: "ticket_char c \<Longrightarrow> upper_char (lower_char c) = upper_char c"
proof -
  have "list_all (\<lambda>c. upper_char (lower_char c) = upper_char c)
      ''ABCDEFGHIJKLMNOPQRSTUVWXYZabcdefghijklmnopqrstuvwxyz234567''"
    by (simp add: upper_char_def lower_char_def char_code_def char_of_def bit_0)
  then show "ticket_char c \<Longrightarrow> ?thesis"
    unfolding ticket_char_def by (simp only: list_all_iff)
qed

lemma upper_lower_ticket: "\<forall>c\<in>set s. ticket_char c \<Longrightarrow> upper (lower s) = upper s"
  by (simp add: upper_def lower_def ticket_char_upper_lower)

lemma clean_addresses_strings:
  "clean_addresses (PList (map PStr as)) =
     (case filter (\<lambda>a. a \<noteq> []) as of [] \<Rightarrow> None | xs \<Rightarrow> Some xs)"
proof -
  have "concat (map (\<lambda>a. case a of PStr s \<Rightarrow> if s = [] then [] else [s] | _ \<Rightarrow> []) (map PStr as)) =
      filter (\<lambda>a. a \<noteq> []) as"
    by (induction as) auto
  then show ?thesis
    by (simp add: clean_addresses_def Let_def split: list.splits)
qed

lemma decode_payload_noise:
  assumes "lower (filter ticket_char b) = lower (b32_digits raw)"
  shows "decode_payload loads (TICKET_PREFIX @ b) =
    (case loads raw of
       None \<Rightarrow> Inl NotCBOR
     | Some (PDict obj) \<Rightarrow>
         if eq_int (pget_or PNone ''v'' obj) TICKET_VERSION then Inr obj else Inl UnsupportedVersion
     | Some _ \<Rightarrow> Inl NotAMap)"
proof -
  have "upper (filter ticket_char b) = upper (lower (b32_digits raw))"
    using upper_lower_ticket [of "filter ticket_char b"] assms by simp
  then show ?thesis
    by (simp add: decode_payload_def b32_round_trip_digits)
qed

lemma decode_payload_fields:
  "pget ''code'' (ticket_payload t) = Some (PStr (tk_code t))"
  "pget ''node_id'' (ticket_payload t) = Some (PStr (tk_coordinator_node_id t))"
  "pget ''name'' (ticket_payload t) = Some (PStr (tk_network_name t))"
  "pget ''network_id'' (ticket_payload t) = Some (PStr (tk_network_id t))"
  "pget ''role'' (ticket_payload t) = Some (PStr (tk_role t))"
  "pget ''bind_to'' (ticket_payload t) = Some (PStr (tk_bind_to t))"
  "pget ''v'' (ticket_payload t) = Some (PInt TICKET_VERSION)"
  by (simp_all add: ticket_payload_def)

lemma decode_payload_hints:
  "clean_relay (pget_or PNone ''relay_url'' (ticket_payload t)) = tk_relay_url (canonical_ticket t)"
  "clean_addresses (pget_or PNone ''addresses'' (ticket_payload t)) =
     tk_addresses (canonical_ticket t)"
  by (auto simp: ticket_payload_def pget_or_def clean_relay_def clean_addresses_strings
      canonical_ticket_def split: option.splits)
    (simp_all add: clean_addresses_def)

section \<open>Properties\<close>

text \<open>
  An encoded ticket decodes to the same ticket, up to empty address hints reading as
  absent, even when the text was re-cased or separators (spaces, dashes, line breaks) were put
  into it on the way: any text whose base-32 letters are those of the ticket, in any case,
  decodes. The CBOR library only has to read back the one map that was written.\<close>

theorem ticket_round_trip:
  assumes cbor: "loads (dumps (PDict (ticket_payload t))) = Some (PDict (ticket_payload t))"
    and enc: "ticket_encode dumps t = TICKET_PREFIX @ b"
    and noise: "lower (filter ticket_char b') = b"
  shows "ticket_decode rep loads (TICKET_PREFIX @ b') = Inr (canonical_ticket t)"
proof -
  have "lower (filter ticket_char b') = lower (b32_digits (dumps (PDict (ticket_payload t))))"
    using enc noise by (simp add: ticket_text)
  then have "decode_payload loads (TICKET_PREFIX @ b') = Inr (ticket_payload t)"
    by (simp add: decode_payload_noise cbor pget_or_def decode_payload_fields)
  then show ?thesis
    using decode_payload_hints [of t]
    by (simp add: ticket_decode_def required_field_def pget_or_def decode_payload_fields Let_def)
      (simp add: canonical_ticket_def)
qed

text \<open>The smallest CBOR stand-in that reads back what it wrote: one fixed document.\<close>

definition demo_ticket :: invite_ticket where
  "demo_ticket = \<lparr>tk_code = ''gl6o'', tk_coordinator_node_id = ''c843'', tk_network_name = ''homelab'',
     tk_network_id = ''n1'', tk_role = ''device'', tk_bind_to = ''alice'',
     tk_relay_url = Some [], tk_addresses = Some [''10.0.0.1:9'', []]\<rparr>"

theorem ticket_round_trip_witness:
  "ticket_decode (\<lambda>_. []) (\<lambda>_. Some (PDict (ticket_payload demo_ticket))) ''oa1 4-A''
     = Inr (demo_ticket\<lparr>tk_relay_url := None, tk_addresses := Some [''10.0.0.1:9'']\<rparr>)"
proof -
  have two: "replicate 2 False = [False, False]" by (simp add: numeral_2_eq_2)
  have enc: "ticket_encode (\<lambda>_. [224]) demo_ticket = TICKET_PREFIX @ ''4a''"
    by (simp add: ticket_text b32_digits_def byte_bits_def bits_of_def pad_to_def fill_def
        chunks.simps nat_of_bits_def b32_alphabet_def lower_def lower_char_def char_code_def
        char_of_def bit_0 upt_rec two)
  have noise: "lower (filter ticket_char '' 4-A'') = ''4a''"
    by (simp add: ticket_char_def lower_def lower_char_def char_code_def char_of_def bit_0)
  have "ticket_decode (\<lambda>_. []) (\<lambda>_. Some (PDict (ticket_payload demo_ticket)))
      (TICKET_PREFIX @ '' 4-A'') = Inr (canonical_ticket demo_ticket)"
    by (rule ticket_round_trip [OF refl enc noise])
  then show ?thesis
    by (simp add: TICKET_PREFIX_def canonical_ticket_def demo_ticket_def)
qed

end
