(* ===== verification/Peer_Policy.thy ===== *)
theory Peer_Policy
  imports Prelude
begin

text \<open>
  The federation peer policy (\<open>packages/identity/.../auth/peer_policy.py\<close>): how the startup
  environment becomes a policy, and how the policy decides each request that arrives over the
  agent protocol. Audit log lines are not modelled. The compilation of an operator's own regular
  expressions is a parameter (\<open>compile\<close>; \<open>None\<close> is \<open>re.error\<close>), a compiled pattern being the
  predicate \<open>pattern.match(path) is not None\<close>; the four built-in route patterns are written out.
\<close>

type_synonym pattern = "string \<Rightarrow> bool"

datatype peer_mode = Closed | Allowlist | Open

datatype policy_error =
    NotABoolean string string
  | OpenWithAllowlist
  | AllowlistDisabled
  | NoAllowlist

datatype peer_denial = NotConfigured | NotInAllowlist | OutsideScope string string

record peer_policy =
  pp_mode :: peer_mode
  pp_allowlist :: "string set"
  pp_scope :: bool
  pp_extra_paths :: "(string \<times> pattern) list"

definition OPEN_ENV :: string where
  "OPEN_ENV = ''OPENAGENT_NETWORK_PEER_OPEN''"

definition ALLOWLIST_ENABLED_ENV :: string where
  "ALLOWLIST_ENABLED_ENV = ''OPENAGENT_NETWORK_PEER_ALLOWLIST_ENABLED''"

definition ALLOWLIST_ENV :: string where
  "ALLOWLIST_ENV = ''OPENAGENT_NETWORK_PEER_ALLOWLIST''"

definition SCOPE_ENABLED_ENV :: string where
  "SCOPE_ENABLED_ENV = ''OPENAGENT_NETWORK_PEER_SCOPE_ENABLED''"

definition SCOPE_EXTRA_PATHS_ENV :: string where
  "SCOPE_EXTRA_PATHS_ENV = ''OPENAGENT_NETWORK_PEER_SCOPE_EXTRA_PATHS''"

definition PEER_ENVS :: "string list" where
  "PEER_ENVS = [OPEN_ENV, ALLOWLIST_ENABLED_ENV, ALLOWLIST_ENV, SCOPE_ENABLED_ENV,
     SCOPE_EXTRA_PATHS_ENV]"

text \<open>\<open>/?$\<close>: an optional slash, then the end of the text or a final newline before it.\<close>

definition slash_end :: "string \<Rightarrow> bool" where
  "slash_end s = (s \<in> {[], ''/'', [CHR 0x0A], [CHR ''/'', CHR 0x0A]})"

definition fixed_route :: "string \<Rightarrow> pattern" where
  "fixed_route stem path = (startswith path stem \<and> slash_end (drop (length stem) path))"

definition trigger_route :: pattern where
  "trigger_route path =
     (startswith path ''/api/events/'' \<and>
      (let rest = drop (length ''/api/events/'') path;
           ident = takeWhile (\<lambda>c. c \<noteq> CHR ''/'') rest;
           tail = dropWhile (\<lambda>c. c \<noteq> CHR ''/'') rest
       in ident \<noteq> [] \<and> startswith tail ''/trigger'' \<and> slash_end (drop (length ''/trigger'') tail)))"

definition FEDERATION_ROUTES :: "(string \<times> pattern) list" where
  "FEDERATION_ROUTES =
     [(''POST'', fixed_route ''/api/chat''), (''POST'', trigger_route),
      (''GET'', fixed_route ''/api/health''), (''GET'', fixed_route ''/api/agent-info'')]"

definition ON_WORDS :: "string set" where
  "ON_WORDS = {''1'', ''true'', ''yes'', ''on''}"

definition OFF_WORDS :: "string set" where
  "OFF_WORDS = {''0'', ''false'', ''no'', ''off''}"

definition CLOSED_PEER_POLICY :: peer_policy where
  "CLOSED_PEER_POLICY =
     \<lparr>pp_mode = Closed, pp_allowlist = {}, pp_scope = False, pp_extra_paths = []\<rparr>"

definition policy_summary :: "peer_policy \<Rightarrow> peer_mode \<times> nat \<times> bool \<times> nat" where
  "policy_summary p =
     (pp_mode p, card (pp_allowlist p), pp_scope p, length (pp_extra_paths p))"

definition toggle :: "(string, string) dict \<Rightarrow> string \<Rightarrow> policy_error + bool option" where
  "toggle env name =
     (case dict_get env name of
        None \<Rightarrow> Inr None
      | Some raw \<Rightarrow>
          (let value = lower (strip raw)
           in if value = [] then Inr None
              else if value \<in> ON_WORDS then Inr (Some True)
              else if value \<in> OFF_WORDS then Inr (Some False)
              else Inl (NotABoolean name raw)))"

definition parse_allowlist :: "string \<Rightarrow> string set" where
  "parse_allowlist raw =
     set (map (\<lambda>seg. lower (strip seg)) (filter (\<lambda>seg. strip seg \<noteq> []) (split_on CHR '','' raw)))"

text \<open>One \<open>METHOD /path/re\<close> fragment: \<open>frag.split(None, 1)\<close> on an already stripped text.\<close>

definition parse_fragment :: "(string \<Rightarrow> pattern option) \<Rightarrow> string \<Rightarrow> (string \<times> pattern) option" where
  "parse_fragment compile frag =
     (let word = takeWhile (\<lambda>c. \<not> is_space c) frag;
          rest = lstrip (dropWhile (\<lambda>c. \<not> is_space c) frag)
      in if word = [] \<or> rest = [] then None
         else map_option (\<lambda>p. (upper (strip word), p)) (compile (strip rest)))"

definition parse_extra_paths ::
  "(string \<Rightarrow> pattern option) \<Rightarrow> string \<Rightarrow> (string \<times> pattern) list" where
  "parse_extra_paths compile raw =
     List.map_filter (parse_fragment compile)
       (filter (\<lambda>f. f \<noteq> []) (map strip (split_on CHR '','' raw)))"

definition load_peer_policy ::
  "(string \<Rightarrow> pattern option) \<Rightarrow> (string, string) dict \<Rightarrow> policy_error + peer_policy" where
  "load_peer_policy compile env =
     bind_r (toggle env OPEN_ENV) (\<lambda>open_mode.
     bind_r (toggle env ALLOWLIST_ENABLED_ENV) (\<lambda>allowlist_enabled.
     bind_r (toggle env SCOPE_ENABLED_ENV) (\<lambda>scope.
     let listed = map_option parse_allowlist (dict_get env ALLOWLIST_ENV);
         extra_paths = parse_extra_paths compile
           (strip (case dict_get env SCOPE_EXTRA_PATHS_ENV of None \<Rightarrow> [] | Some s \<Rightarrow> s))
     in if \<not> (\<exists>name\<in>set PEER_ENVS. dict_get env name \<noteq> None) then Inr CLOSED_PEER_POLICY
        else if open_mode = Some True then
          (if allowlist_enabled = Some True \<or> (listed \<noteq> None \<and> listed \<noteq> Some {})
           then Inl OpenWithAllowlist
           else Inr \<lparr>pp_mode = Open, pp_allowlist = {}, pp_scope = (scope = Some True),
                     pp_extra_paths = extra_paths\<rparr>)
        else if allowlist_enabled = Some False then Inl AllowlistDisabled
        else if listed = None \<and> allowlist_enabled = None then Inl NoAllowlist
        else Inr \<lparr>pp_mode = Allowlist,
                  pp_allowlist = (case listed of None \<Rightarrow> {} | Some l \<Rightarrow> l),
                  pp_scope = (scope = Some True), pp_extra_paths = extra_paths\<rparr>)))"

definition scope_permits :: "peer_policy \<Rightarrow> string \<Rightarrow> string \<Rightarrow> bool" where
  "scope_permits policy meth path =
     (if list_ex (\<lambda>(m, pat). m = meth \<and> pat path) FEDERATION_ROUTES then True
      else list_ex (\<lambda>(m, pat). m = meth \<and> pat path) (pp_extra_paths policy))"

definition check_peer_request ::
  "peer_policy \<Rightarrow> string \<Rightarrow> string \<Rightarrow> string \<Rightarrow> peer_denial option" where
  "check_peer_request policy node_id meth path =
     (if pp_mode policy \<noteq> Open \<and> lower (strip node_id) \<notin> pp_allowlist policy
      then (if pp_mode policy = Closed then Some NotConfigured else Some NotInAllowlist)
      else if pp_scope policy \<and> \<not> scope_permits policy meth path
      then Some (OutsideScope meth path)
      else None)"

section \<open>Lemmas\<close>

lemma toggle_SomeD:
  "toggle env name = Inr (Some b) \<Longrightarrow>
     \<exists>raw. dict_get env name = Some raw \<and> lower (strip raw) \<in> (if b then ON_WORDS else OFF_WORDS)"
  by (auto simp: toggle_def Let_def split: option.splits if_splits)

lemma load_Inr_cases:
  assumes "load_peer_policy compile env = Inr pol"
  obtains (closed) "pol = CLOSED_PEER_POLICY" "\<forall>name\<in>set PEER_ENVS. dict_get env name = None"
  | (opened) "toggle env OPEN_ENV = Inr (Some True)" "pp_mode pol = Open"
      "pp_scope pol = (toggle env SCOPE_ENABLED_ENV = Inr (Some True))"
      "toggle env ALLOWLIST_ENABLED_ENV \<noteq> Inr (Some True)"
      "\<And>raw. dict_get env ALLOWLIST_ENV = Some raw \<Longrightarrow> parse_allowlist raw = {}"
  | (listed) "toggle env OPEN_ENV \<noteq> Inr (Some True)" "pp_mode pol = Allowlist"
      "pp_scope pol = (toggle env SCOPE_ENABLED_ENV = Inr (Some True))"
      "pp_allowlist pol =
        (case dict_get env ALLOWLIST_ENV of None \<Rightarrow> {} | Some raw \<Rightarrow> parse_allowlist raw)"
  using assms
  by (auto simp: load_peer_policy_def bind_r_Inr_iff Let_def CLOSED_PEER_POLICY_def
      split: if_splits option.splits)

lemma allowed_iff:
  "check_peer_request pol node meth path = None \<longleftrightarrow>
     (pp_mode pol = Open \<or> lower (strip node) \<in> pp_allowlist pol) \<and>
     (pp_scope pol \<longrightarrow> scope_permits pol meth path)"
  by (simp add: check_peer_request_def)

lemma parse_allowlist_normal:
  assumes "n \<in> parse_allowlist raw"
  shows "n \<noteq> []" and "lower n = n"
  using assms by (auto simp: parse_allowlist_def lower_def)

lemma strip_subset: "set (strip s) \<subseteq> set s"
proof -
  have "set (rev (dropWhile is_space (rev t))) \<subseteq> set t" for t
    by (metis set_dropWhileD set_rev subsetI)
  then show ?thesis
    unfolding strip_def lstrip_def rstrip_def by (meson set_dropWhileD subset_eq)
qed

section \<open>Properties\<close>

text \<open>
  C34: the agent protocol is closed unless the operator opened it. Whatever the startup
  environment is, if the policy it loads lets a peer's request through, then either the
  \<open>OPEN\<close> variable holds an affirmative word, or that peer's node id (trimmed, in any case) is one of
  the comma-separated ids of the \<open>ALLOWLIST\<close> variable.\<close>

theorem peer_admission_sound:
  assumes load: "load_peer_policy compile env = Inr pol"
    and ok: "check_peer_request pol node meth path = None"
  shows "(\<exists>raw. dict_get env OPEN_ENV = Some raw \<and> lower (strip raw) \<in> ON_WORDS) \<or>
    (\<exists>raw seg. dict_get env ALLOWLIST_ENV = Some raw \<and> seg \<in> set (split_on CHR '','' raw) \<and>
       strip seg \<noteq> [] \<and> lower (strip seg) = lower (strip node))"
  using load
proof (cases rule: load_Inr_cases)
  case closed
  with ok show ?thesis by (simp add: check_peer_request_def CLOSED_PEER_POLICY_def)
next
  case opened
  then show ?thesis by (auto dest: toggle_SomeD)
next
  case listed
  with ok have "lower (strip node) \<in> pp_allowlist pol" by (simp add: allowed_iff)
  with listed(4) show ?thesis
    by (auto simp: parse_allowlist_def split: option.splits)
qed

theorem peer_admission_sound_witness:
  "(\<exists>raw. dict_get [(ALLOWLIST_ENV, ''ab12, CD '')] OPEN_ENV = Some raw \<and>
      lower (strip raw) \<in> ON_WORDS) \<or>
   (\<exists>raw seg. dict_get [(ALLOWLIST_ENV, ''ab12, CD '')] ALLOWLIST_ENV = Some raw \<and>
      seg \<in> set (split_on CHR '','' raw) \<and> strip seg \<noteq> [] \<and>
      lower (strip seg) = lower (strip ''cd''))"
proof -
  let ?pol = "\<lparr>pp_mode = Allowlist, pp_allowlist = parse_allowlist ''ab12, CD '', pp_scope = False,
      pp_extra_paths = []\<rparr>"
  have load: "load_peer_policy (\<lambda>_. None) [(ALLOWLIST_ENV, ''ab12, CD '')] = Inr ?pol"
    by (simp add: load_peer_policy_def toggle_def PEER_ENVS_def OPEN_ENV_def
        ALLOWLIST_ENABLED_ENV_def ALLOWLIST_ENV_def SCOPE_ENABLED_ENV_def SCOPE_EXTRA_PATHS_ENV_def
        parse_extra_paths_def strip_def lstrip_def rstrip_def map_filter_simps)
  have ok: "check_peer_request ?pol ''cd'' ''POST'' ''/api/chat'' = None"
    by (simp add: allowed_iff parse_allowlist_def strip_def lstrip_def rstrip_def is_space_def
        char_code_def lower_def lower_char_def char_of_def bit_0)
  show ?thesis by (rule peer_admission_sound [OF load ok])
qed

text \<open>
  C35: with the scope switched on, an admitted request is collaboration, not administration:
  a chat turn, an event trigger, the health or the identity probe, or a route the operator added
  as an extra path; every other method and path is refused with its own reason.\<close>

theorem peer_scope_sound:
  assumes load: "load_peer_policy compile env = Inr pol"
    and scoped: "toggle env SCOPE_ENABLED_ENV = Inr (Some True)"
    and ok: "check_peer_request pol node meth path = None"
  shows "meth = ''POST'' \<and> fixed_route ''/api/chat'' path \<or>
    meth = ''POST'' \<and> trigger_route path \<or>
    meth = ''GET'' \<and> (fixed_route ''/api/health'' path \<or> fixed_route ''/api/agent-info'' path) \<or>
    (\<exists>pat. (meth, pat) \<in> set (pp_extra_paths pol) \<and> pat path)"
proof -
  have "pp_scope pol"
    using load
  proof (cases rule: load_Inr_cases)
    case closed
    with scoped show ?thesis by (auto simp: toggle_def PEER_ENVS_def)
  qed (simp_all add: scoped)
  with ok have "scope_permits pol meth path" by (simp add: allowed_iff)
  then show ?thesis
    by (auto simp: scope_permits_def FEDERATION_ROUTES_def list_ex_iff split: if_splits)
qed

theorem peer_scope_sound_witness:
  "\<not> trigger_route ''/api/mcps'' \<and>
   (''POST'' = ''POST'' \<and> fixed_route ''/api/chat'' ''/api/events/e1/trigger'' \<or>
    ''POST'' = ''POST'' \<and> trigger_route ''/api/events/e1/trigger'' \<or>
    ''POST'' = ''GET'' \<and> (fixed_route ''/api/health'' ''/api/events/e1/trigger'' \<or>
      fixed_route ''/api/agent-info'' ''/api/events/e1/trigger'') \<or>
    (\<exists>pat. (''POST'', pat) \<in> set ([] :: (string \<times> pattern) list) \<and> pat ''/api/events/e1/trigger''))"
proof -
  let ?env = "[(OPEN_ENV, ''on''), (SCOPE_ENABLED_ENV, ''1'')]"
  let ?pol = "\<lparr>pp_mode = Open, pp_allowlist = {}, pp_scope = True, pp_extra_paths = []\<rparr>"
  have words: "toggle ?env OPEN_ENV = Inr (Some True)"
    "toggle ?env SCOPE_ENABLED_ENV = Inr (Some True)" "toggle ?env ALLOWLIST_ENABLED_ENV = Inr None"
    "dict_get ?env ALLOWLIST_ENV = None" "dict_get ?env SCOPE_EXTRA_PATHS_ENV = None"
    "dict_get ?env OPEN_ENV = Some ''on''"
    by (simp_all add: toggle_def OPEN_ENV_def SCOPE_ENABLED_ENV_def ALLOWLIST_ENABLED_ENV_def
        ALLOWLIST_ENV_def SCOPE_EXTRA_PATHS_ENV_def strip_def lstrip_def rstrip_def is_space_def
        char_code_def lower_def lower_char_def ON_WORDS_def)
  have load: "load_peer_policy (\<lambda>_. None) ?env = Inr ?pol"
    unfolding load_peer_policy_def words
    by (simp add: words PEER_ENVS_def parse_extra_paths_def strip_def lstrip_def rstrip_def
        map_filter_simps)
  have ok: "check_peer_request ?pol ''n'' ''POST'' ''/api/events/e1/trigger'' = None"
    by (simp add: allowed_iff scope_permits_def FEDERATION_ROUTES_def trigger_route_def
        startswith_def slash_end_def)
  have "\<not> trigger_route ''/api/mcps''"
    by (simp add: trigger_route_def startswith_def)
  with peer_scope_sound [OF load words(2) ok] show ?thesis by simp
qed

text \<open>
  C5: every environment has exactly one of four outcomes, decided by the variables alone. A
  toggle that is no boolean refuses to start; no variable at all means closed; an affirmative
  \<open>OPEN\<close> means open, and conflicts with an allowlist that is enabled or names a peer; otherwise an
  allowlist has to be present and not disabled.\<close>

theorem load_peer_policy_outcomes:
  assumes op: "toggle env OPEN_ENV = Inr a" and al: "toggle env ALLOWLIST_ENABLED_ENV = Inr b"
    and sc: "toggle env SCOPE_ENABLED_ENV = Inr c"
  shows "map_sum id pp_mode (load_peer_policy compile env) =
    (if \<forall>name\<in>set PEER_ENVS. dict_get env name = None then Inr Closed
     else if a = Some True
       then (if b = Some True \<or> (\<exists>raw n. dict_get env ALLOWLIST_ENV = Some raw \<and> n \<in> parse_allowlist raw)
             then Inl OpenWithAllowlist else Inr Open)
     else if b = Some False then Inl AllowlistDisabled
     else if dict_get env ALLOWLIST_ENV = None \<and> b = None then Inl NoAllowlist
     else Inr Allowlist)"
  unfolding load_peer_policy_def op al sc
  by (cases "dict_get env ALLOWLIST_ENV") (auto simp: CLOSED_PEER_POLICY_def Let_def)

theorem load_peer_policy_outcomes_witness:
  "map_sum id pp_mode (load_peer_policy (\<lambda>_. None) [(SCOPE_ENABLED_ENV, ''yes'')]) = Inl NoAllowlist"
proof -
  let ?env = "[(SCOPE_ENABLED_ENV, ''yes'')]"
  have sc: "toggle ?env SCOPE_ENABLED_ENV = Inr (Some True)"
    by (simp add: toggle_def strip_def lstrip_def rstrip_def is_space_def char_code_def lower_def
        lower_char_def ON_WORDS_def)
  have op: "toggle ?env OPEN_ENV = Inr None" and al: "toggle ?env ALLOWLIST_ENABLED_ENV = Inr None"
    by (simp_all add: toggle_def OPEN_ENV_def SCOPE_ENABLED_ENV_def ALLOWLIST_ENABLED_ENV_def)
  show ?thesis
    unfolding load_peer_policy_outcomes [OF op al sc]
    by (simp add: PEER_ENVS_def OPEN_ENV_def SCOPE_ENABLED_ENV_def ALLOWLIST_ENABLED_ENV_def
        ALLOWLIST_ENV_def SCOPE_EXTRA_PATHS_ENV_def)
qed

end
