(* ===== verification/Coordinator_Store.thy ===== *)
theory Coordinator_Store
  imports Base32
begin

text \<open>
  The coordinator's persistence (\<open>packages/identity/.../coordinator/store.py\<close>): users, devices,
  agents, invitations and the singleton network row, with one definition per method. Each SQL
  statement is written out as the change it makes to its table.

  A table is a dictionary from its key column to its row, in insertion order: \<open>handle\<close> for users
  and agents, \<open>device_pubkey\<close> for devices, \<open>code\<close> for invitations. The conflict targets of the
  upserts name these keys; an insert that repeats a key is SQLite's \<open>IntegrityError\<close>. Whether the
  connection also enforces the foreign key of devices to users belongs to the schema, which is
  outside the package: it is the argument \<open>fk\<close>. \<open>ORDER BY\<close> is a stable sort. A successful method
  has committed; a raising one has rolled back.
\<close>

record user_row =
  u_handle :: string
  u_pake_record :: bytes
  u_pake_algo :: string
  u_status :: string
  u_created_at :: real

record device_row =
  d_device_pubkey :: bytes
  d_user_handle :: string
  d_label :: "string option"
  d_status :: string
  d_added_at :: real
  d_last_seen :: "real option"

record agent_row =
  a_handle :: string
  a_node_id :: string
  a_label :: "string option"
  a_owner_handle :: string
  a_added_at :: real
  a_last_seen :: "real option"

record invitation_row =
  i_code :: string
  i_role :: string
  i_created_by :: "string option"
  i_bind_to_handle :: "string option"
  i_uses_left :: int
  i_expires_at :: real
  i_created_at :: real
  i_used_at :: "real option"

record network_row =
  n_role :: string
  n_network_id :: "string option"
  n_name :: "string option"
  n_coordinator_node_id :: "string option"
  n_coordinator_pubkey :: "bytes option"
  n_created_at :: real

record coord_db =
  db_network :: "network_row option"
  db_users :: "(string, user_row) dict"
  db_devices :: "(bytes, device_row) dict"
  db_agents :: "(string, agent_row) dict"
  db_invitations :: "(string, invitation_row) dict"

datatype db_error = IntegrityError | BadValue string

section \<open>Invite codes\<close>

definition gen_invite_code :: "bytes \<Rightarrow> string" where
  "gen_invite_code raw = lower (rstrip_eq (b32encode raw))"

fun join_with :: "char \<Rightarrow> string list \<Rightarrow> string" where
  "join_with c [] = []"
| "join_with c [s] = s"
| "join_with c (s # t # ts) = s @ c # join_with c (t # ts)"

definition format_invite_for_display :: "string \<Rightarrow> string" where
  "format_invite_for_display code = join_with CHR ''-'' (chunks 4 code)"

definition normalize_invite_code :: "string \<Rightarrow> string" where
  "normalize_invite_code s = remove_char CHR '' '' (remove_char CHR ''-'' (lower (strip s)))"

definition display_code :: "invitation_row \<Rightarrow> string" where
  "display_code i = format_invite_for_display (i_code i)"

section \<open>SQL\<close>

definition update_where :: "('r \<Rightarrow> bool) \<Rightarrow> ('r \<Rightarrow> 'r) \<Rightarrow> ('k, 'r) dict \<Rightarrow> ('k, 'r) dict" where
  "update_where p f t = map (\<lambda>(k, r). (k, if p r then f r else r)) t"

definition delete_where :: "('r \<Rightarrow> bool) \<Rightarrow> ('k, 'r) dict \<Rightarrow> ('k, 'r) dict" where
  "delete_where p t = filter (\<lambda>(k, r). \<not> p r) t"

definition row_count :: "('r \<Rightarrow> bool) \<Rightarrow> ('k, 'r) dict \<Rightarrow> nat" where
  "row_count p t = length (filter (\<lambda>(k, r). p r) t)"

text \<open>\<open>UPDATE ... WHERE key=?\<close>.\<close>

definition update_key :: "'k \<Rightarrow> ('r \<Rightarrow> 'r) \<Rightarrow> ('k, 'r) dict \<Rightarrow> ('k, 'r) dict" where
  "update_key k f t = (case dict_get t k of None \<Rightarrow> t | Some r \<Rightarrow> dict_set k (f r) t)"

text \<open>SQLite's \<open>NOCASE\<close> collation folds the 26 ASCII letters only.\<close>

definition nocase_char :: "char \<Rightarrow> char" where
  "nocase_char c = (let n = char_code c in if 65 \<le> n \<and> n \<le> 90 then char_of (n + 32) else c)"

definition nocase :: "string \<Rightarrow> string" where
  "nocase s = map nocase_char s"

section \<open>The network row\<close>

definition get_network_role :: "coord_db \<Rightarrow> network_row option" where
  "get_network_role db = db_network db"

definition set_network_role ::
  "string \<Rightarrow> string option \<Rightarrow> string option \<Rightarrow> string option \<Rightarrow> bytes option \<Rightarrow> real
     \<Rightarrow> coord_db \<Rightarrow> coord_db" where
  "set_network_role role network_id name node_id pubkey now db =
     db\<lparr>db_network := Some
       (case db_network db of
          None \<Rightarrow> \<lparr>n_role = role, n_network_id = network_id, n_name = name,
                   n_coordinator_node_id = node_id, n_coordinator_pubkey = pubkey,
                   n_created_at = now\<rparr>
        | Some r \<Rightarrow> r\<lparr>n_role := role, n_network_id := network_id, n_name := name,
                   n_coordinator_node_id := node_id, n_coordinator_pubkey := pubkey\<rparr>)\<rparr>"

definition rename_network :: "string \<Rightarrow> coord_db \<Rightarrow> bool \<times> coord_db" where
  "rename_network new_name db =
     (case db_network db of
        None \<Rightarrow> (False, db)
      | Some r \<Rightarrow> (True, db\<lparr>db_network := Some (r\<lparr>n_name := Some new_name\<rparr>)\<rparr>))"

section \<open>Users\<close>

definition get_user :: "coord_db \<Rightarrow> string \<Rightarrow> user_row option" where
  "get_user db handle = dict_get (db_users db) handle"

text \<open>The agents a bootstrap registration may claim: the coordinator's own, still unowned.\<close>

definition claimable :: "coord_db \<Rightarrow> agent_row \<Rightarrow> bool" where
  "claimable db a =
     (a_owner_handle a = ''system'' \<and>
      (case db_network db of
         None \<Rightarrow> False | Some n \<Rightarrow> n_coordinator_node_id n = Some (a_node_id a)))"

definition create_user ::
  "string \<Rightarrow> bytes \<Rightarrow> string \<Rightarrow> bool \<Rightarrow> real \<Rightarrow> coord_db \<Rightarrow> db_error + bool \<times> coord_db" where
  "create_user handle pake_record pake_algo claim now db =
     (if dict_get (db_users db) handle \<noteq> None then Inl IntegrityError
      else let row = \<lparr>u_handle = handle, u_pake_record = pake_record, u_pake_algo = pake_algo,
                      u_status = ''active'', u_created_at = now\<rparr>;
               db1 = db\<lparr>db_users := dict_set handle row (db_users db)\<rparr>
           in if claim
              then Inr (0 < row_count (claimable db1) (db_agents db1),
                        db1\<lparr>db_agents := update_where (claimable db1)
                          (\<lambda>a. a\<lparr>a_owner_handle := handle\<rparr>) (db_agents db1)\<rparr>)
              else Inr (False, db1))"

definition list_users :: "coord_db \<Rightarrow> user_row list" where
  "list_users db = sort_key u_created_at (dict_values (db_users db))"

definition set_user_status ::
  "string \<Rightarrow> string \<Rightarrow> coord_db \<Rightarrow> db_error + bool \<times> coord_db" where
  "set_user_status handle status db =
     (if status \<notin> {''active'', ''suspended''} then Inl (BadValue status)
      else Inr (dict_get (db_users db) handle \<noteq> None,
                db\<lparr>db_users := update_key handle (\<lambda>u. u\<lparr>u_status := status\<rparr>) (db_users db)\<rparr>))"

definition delete_user :: "string \<Rightarrow> coord_db \<Rightarrow> bool \<times> coord_db" where
  "delete_user handle db =
     (dict_get (db_users db) handle \<noteq> None,
      db\<lparr>db_devices := delete_where (\<lambda>d. d_user_handle d = handle) (db_devices db),
         db_users := dict_pop handle (db_users db)\<rparr>)"

section \<open>Devices\<close>

definition add_device ::
  "bool \<Rightarrow> bytes \<Rightarrow> string \<Rightarrow> string option \<Rightarrow> real \<Rightarrow> coord_db \<Rightarrow> db_error + coord_db" where
  "add_device fk pubkey handle label now db =
     (if fk \<and> dict_get (db_users db) handle = None then Inl IntegrityError
      else Inr (db\<lparr>db_devices := dict_set pubkey
        (case dict_get (db_devices db) pubkey of
           None \<Rightarrow> \<lparr>d_device_pubkey = pubkey, d_user_handle = handle, d_label = label,
                    d_status = ''active'', d_added_at = now, d_last_seen = None\<rparr>
         | Some d \<Rightarrow> d\<lparr>d_user_handle := handle, d_label := label, d_status := ''active''\<rparr>)
        (db_devices db)\<rparr>))"

definition user_has_devices :: "coord_db \<Rightarrow> string \<Rightarrow> bool" where
  "user_has_devices db handle = (\<exists>d\<in>set (dict_values (db_devices db)). d_user_handle d = handle)"

definition list_device_pubkeys_for_user :: "coord_db \<Rightarrow> string \<Rightarrow> bytes set" where
  "list_device_pubkeys_for_user db handle =
     set (map d_device_pubkey (filter (\<lambda>d. d_user_handle d = handle) (dict_values (db_devices db))))"

definition get_device :: "coord_db \<Rightarrow> bytes \<Rightarrow> device_row option" where
  "get_device db pubkey = dict_get (db_devices db) pubkey"

definition owner_active :: "coord_db \<Rightarrow> device_row \<Rightarrow> bool" where
  "owner_active db d =
     (case dict_get (db_users db) (d_user_handle d) of
        None \<Rightarrow> False | Some u \<Rightarrow> u_status u = ''active'')"

definition get_active_device :: "coord_db \<Rightarrow> bytes \<Rightarrow> device_row option" where
  "get_active_device db pubkey =
     (case dict_get (db_devices db) pubkey of
        None \<Rightarrow> None
      | Some d \<Rightarrow> if d_status d = ''active'' \<and> owner_active db d then Some d else None)"

definition revoke_device :: "bytes \<Rightarrow> coord_db \<Rightarrow> bool \<times> coord_db" where
  "revoke_device pubkey db =
     (case dict_get (db_devices db) pubkey of
        Some d \<Rightarrow>
          if d_status d = ''active''
          then (True, db\<lparr>db_devices := dict_set pubkey (d\<lparr>d_status := ''revoked''\<rparr>) (db_devices db)\<rparr>)
          else (False, db)
      | None \<Rightarrow> (False, db))"

definition list_revoked_pubkeys :: "coord_db \<Rightarrow> bytes set" where
  "list_revoked_pubkeys db =
     set (map d_device_pubkey (filter (\<lambda>d. d_status d = ''revoked'') (dict_values (db_devices db))))"

definition touch_device :: "bytes \<Rightarrow> real \<Rightarrow> coord_db \<Rightarrow> coord_db" where
  "touch_device pubkey now db =
     db\<lparr>db_devices := update_key pubkey (\<lambda>d. d\<lparr>d_last_seen := Some now\<rparr>) (db_devices db)\<rparr>"

section \<open>Agents\<close>

definition register_agent ::
  "string \<Rightarrow> string \<Rightarrow> string \<Rightarrow> string option \<Rightarrow> real \<Rightarrow> coord_db \<Rightarrow> coord_db" where
  "register_agent handle node_id owner_handle label now db =
     db\<lparr>db_agents := dict_set handle
       (case dict_get (db_agents db) handle of
          None \<Rightarrow> \<lparr>a_handle = handle, a_node_id = node_id, a_label = label,
                   a_owner_handle = owner_handle, a_added_at = now, a_last_seen = None\<rparr>
        | Some a \<Rightarrow> a\<lparr>a_node_id := node_id, a_label := label, a_owner_handle := owner_handle\<rparr>)
       (db_agents db)\<rparr>"

definition coord_node_id :: "coord_db \<Rightarrow> string" where
  "coord_node_id db =
     (case get_network_role db of
        None \<Rightarrow> []
      | Some r \<Rightarrow> (case n_coordinator_node_id r of None \<Rightarrow> [] | Some n \<Rightarrow> n))"

text \<open>\<open>ORDER BY (node_id = ?) DESC, added_at\<close>.\<close>

definition list_agents :: "coord_db \<Rightarrow> agent_row list" where
  "list_agents db =
     sort_key (\<lambda>a. a_node_id a \<noteq> coord_node_id db)
       (sort_key a_added_at (dict_values (db_agents db)))"

definition agent_is_registered :: "coord_db \<Rightarrow> string \<Rightarrow> bool" where
  "agent_is_registered db node_id =
     (\<exists>a\<in>set (dict_values (db_agents db)). nocase (a_node_id a) = nocase node_id)"

definition update_agent ::
  "string \<Rightarrow> string option \<Rightarrow> string option \<Rightarrow> coord_db \<Rightarrow> bool \<times> coord_db" where
  "update_agent handle label owner_handle db =
     (if label = None \<and> owner_handle = None then (False, db)
      else (dict_get (db_agents db) handle \<noteq> None,
            db\<lparr>db_agents := update_key handle
              (\<lambda>a. (case owner_handle of None \<Rightarrow> id | Some h \<Rightarrow> a_owner_handle_update (\<lambda>_. h))
                   ((case label of None \<Rightarrow> id | Some l \<Rightarrow> a_label_update (\<lambda>_. Some l)) a))
              (db_agents db)\<rparr>))"

definition remove_agent :: "string \<Rightarrow> coord_db \<Rightarrow> bool \<times> coord_db" where
  "remove_agent handle db =
     (dict_get (db_agents db) handle \<noteq> None, db\<lparr>db_agents := dict_pop handle (db_agents db)\<rparr>)"

section \<open>Invitations\<close>

definition create_invitation ::
  "bytes \<Rightarrow> string \<Rightarrow> string option \<Rightarrow> real \<Rightarrow> int \<Rightarrow> string option \<Rightarrow> real \<Rightarrow> coord_db
     \<Rightarrow> db_error + invitation_row \<times> coord_db" where
  "create_invitation raw role created_by ttl_seconds uses bind_to_handle now db =
     (if role \<notin> {''user'', ''device'', ''agent''} then Inl (BadValue role)
      else let code = gen_invite_code raw;
               row = \<lparr>i_code = code, i_role = role, i_created_by = created_by,
                      i_bind_to_handle = bind_to_handle, i_uses_left = uses,
                      i_expires_at = now + ttl_seconds, i_created_at = now, i_used_at = None\<rparr>
           in if dict_get (db_invitations db) code \<noteq> None then Inl IntegrityError
              else Inr (row, db\<lparr>db_invitations := dict_set code row (db_invitations db)\<rparr>))"

text \<open>Redeeming an invitation is two statements with a suspension point between them: a \<open>SELECT\<close>
  whose row is checked in Python, and an \<open>UPDATE\<close> that is not conditional on the check.\<close>

definition consume_select :: "string \<Rightarrow> real \<Rightarrow> coord_db \<Rightarrow> invitation_row option" where
  "consume_select code_input now db =
     (case dict_get (db_invitations db) (normalize_invite_code code_input) of
        None \<Rightarrow> None
      | Some invite \<Rightarrow>
          if i_uses_left invite \<le> 0 then None
          else if i_expires_at invite < now then None
          else Some invite)"

definition consume_update :: "string \<Rightarrow> real \<Rightarrow> coord_db \<Rightarrow> coord_db" where
  "consume_update code now db =
     db\<lparr>db_invitations := update_key code
       (\<lambda>i. i\<lparr>i_uses_left := i_uses_left i - 1,
             i_used_at := (case i_used_at i of None \<Rightarrow> Some now | Some t \<Rightarrow> Some t)\<rparr>)
       (db_invitations db)\<rparr>"

definition consumed_row :: "real \<Rightarrow> invitation_row \<Rightarrow> invitation_row" where
  "consumed_row now invite =
     invite\<lparr>i_uses_left := i_uses_left invite - 1,
            i_used_at := (case i_used_at invite of
                None \<Rightarrow> Some now | Some t \<Rightarrow> if t = 0 then Some now else Some t)\<rparr>"

definition consume_invitation ::
  "string \<Rightarrow> real \<Rightarrow> coord_db \<Rightarrow> invitation_row option \<times> coord_db" where
  "consume_invitation code_input now db =
     (case consume_select code_input now db of
        None \<Rightarrow> (None, db)
      | Some invite \<Rightarrow>
          (Some (consumed_row now invite), consume_update (normalize_invite_code code_input) now db))"

definition list_invitations :: "bool \<Rightarrow> real \<Rightarrow> coord_db \<Rightarrow> invitation_row list" where
  "list_invitations include_expired now db =
     sort_key (\<lambda>i. - i_created_at i)
       (filter (\<lambda>i. include_expired \<or> now \<le> i_expires_at i) (dict_values (db_invitations db)))"

section \<open>The runtime directory\<close>

definition hex_digit :: "nat \<Rightarrow> char" where
  "hex_digit n = ''0123456789abcdef'' ! n"

definition hex_of :: "bytes \<Rightarrow> string" where
  "hex_of bs = concat (map (\<lambda>b. [hex_digit (unat b div 16), hex_digit (unat b mod 16)]) bs)"

record directory =
  dir_users :: "string list"
  dir_agents :: "string list"
  dir_devices :: "(string \<times> string) list"

definition runtime_directory :: "coord_db \<Rightarrow> directory" where
  "runtime_directory db =
     \<lparr>dir_users = map u_handle (filter (\<lambda>u. u_status u = ''active'') (list_users db)),
      dir_agents = map a_handle (list_agents db),
      dir_devices = map (\<lambda>d. (hex_of (d_device_pubkey d), d_user_handle d))
        (filter (\<lambda>d. d_status d = ''active'' \<and> owner_active db d) (dict_values (db_devices db)))\<rparr>"

section \<open>The store as a system of operations\<close>

datatype store_op =
    SetNetworkRole string "string option" "string option" "string option" "bytes option" real
  | RenameNetwork string
  | CreateUser string bytes string bool real
  | SetUserStatus string string
  | DeleteUser string
  | AddDevice bytes string "string option" real
  | RevokeDevice bytes
  | TouchDevice bytes real
  | RegisterAgent string string string "string option" real
  | UpdateAgent string "string option" "string option"
  | RemoveAgent string
  | CreateInvitation bytes string "string option" real int "string option" real
  | ConsumeInvitation string real

text \<open>The state after an operation; one that raises leaves the state as it was.\<close>

definition committed :: "coord_db \<Rightarrow> db_error + 'a \<times> coord_db \<Rightarrow> coord_db" where
  "committed db r = (case r of Inl _ \<Rightarrow> db | Inr (_, db') \<Rightarrow> db')"

fun store_step :: "bool \<Rightarrow> coord_db \<Rightarrow> store_op \<Rightarrow> coord_db" where
  "store_step fk db (SetNetworkRole r i n c p t) = set_network_role r i n c p t db"
| "store_step fk db (RenameNetwork n) = snd (rename_network n db)"
| "store_step fk db (CreateUser h r a c t) = committed db (create_user h r a c t db)"
| "store_step fk db (SetUserStatus h s) = committed db (set_user_status h s db)"
| "store_step fk db (DeleteUser h) = snd (delete_user h db)"
| "store_step fk db (AddDevice k h l t) = (case add_device fk k h l t db of Inl _ \<Rightarrow> db | Inr d \<Rightarrow> d)"
| "store_step fk db (RevokeDevice k) = snd (revoke_device k db)"
| "store_step fk db (TouchDevice k t) = touch_device k t db"
| "store_step fk db (RegisterAgent h n ow l t) = register_agent h n ow l t db"
| "store_step fk db (UpdateAgent h l ow) = snd (update_agent h l ow db)"
| "store_step fk db (RemoveAgent h) = snd (remove_agent h db)"
| "store_step fk db (CreateInvitation raw r c ttl u b t) =
     committed db (create_invitation raw r c ttl u b t db)"
| "store_step fk db (ConsumeInvitation c t) = snd (consume_invitation c t db)"

text \<open>Well-formed tables: distinct keys, and every row's key column is the key it is stored under.\<close>

definition keyed :: "('r \<Rightarrow> 'k) \<Rightarrow> ('k, 'r) dict \<Rightarrow> bool" where
  "keyed key t \<longleftrightarrow> dict_ok t \<and> (\<forall>(k, r)\<in>set t. key r = k)"

definition db_ok :: "coord_db \<Rightarrow> bool" where
  "db_ok db \<longleftrightarrow> keyed u_handle (db_users db) \<and> keyed d_device_pubkey (db_devices db) \<and>
     keyed a_handle (db_agents db) \<and> keyed i_code (db_invitations db)"

definition empty_db :: coord_db where
  "empty_db = \<lparr>db_network = None, db_users = [], db_devices = [], db_agents = [], db_invitations = []\<rparr>"

section \<open>Table lemmas\<close>

lemma dict_get_update_key:
  "dict_get (update_key k f t) = (dict_get t)(k := map_option f (dict_get t k))"
  by (cases "dict_get t k") (auto simp: update_key_def fun_eq_iff dict_get_set)

lemma dict_get_update_where:
  "dict_get (update_where p f t) k = map_option (\<lambda>r. if p r then f r else r) (dict_get t k)"
  by (induction t) (auto simp: update_where_def)

lemma dict_get_delete_where:
  "dict_ok t \<Longrightarrow> dict_get (delete_where p t) k =
     (case dict_get t k of None \<Rightarrow> None | Some r \<Rightarrow> if p r then None else Some r)"
proof (induction t)
  case Nil
  then show ?case by (simp add: delete_where_def)
next
  case (Cons x t)
  obtain k' r where x: "x = (k', r)" by (cases x)
  have fresh: "dict_get (delete_where p t) k' = None"
    using Cons.prems
    by (auto simp: x dict_ok_def dict_get_None_iff dict_keys_def delete_where_def)
  show ?case
    using Cons fresh by (auto simp: x dict_ok_def delete_where_def)
qed

lemma keyed_get: "keyed key t \<Longrightarrow> dict_get t k = Some r \<Longrightarrow> key r = k"
  unfolding keyed_def using dict_get_in by fastforce

lemma keyed_Nil [simp]: "keyed key []"
  by (simp add: keyed_def)

lemma keyed_set: "keyed key t \<Longrightarrow> key r = k \<Longrightarrow> keyed key (dict_set k r t)"
  unfolding keyed_def using dict_ok_set in_dict_set by fastforce

lemma keyed_pop: "keyed key t \<Longrightarrow> keyed key (dict_pop k t)"
  unfolding keyed_def using dict_ok_pop in_dict_pop by fastforce

lemma keyed_update_key:
  "keyed key t \<Longrightarrow> (\<And>r. key (f r) = key r) \<Longrightarrow> keyed key (update_key k f t)"
  unfolding update_key_def
  by (auto split: option.splits intro!: keyed_set dest: keyed_get)

lemma keyed_update_where:
  "keyed key t \<Longrightarrow> (\<And>r. key (f r) = key r) \<Longrightarrow> keyed key (update_where p f t)"
  unfolding keyed_def dict_ok_def update_where_def
  by (auto simp: case_prod_beta o_def)

lemma keyed_delete_where: "keyed key t \<Longrightarrow> keyed key (delete_where p t)"
  unfolding keyed_def dict_ok_def delete_where_def
  by (auto simp: distinct_map_filter)

lemmas keyed_intros = keyed_set keyed_pop keyed_update_key keyed_update_where keyed_delete_where

lemma store_step_ok: "db_ok db \<Longrightarrow> db_ok (store_step fk db op)"
  by (cases op)
    (auto simp: db_ok_def committed_def set_network_role_def rename_network_def create_user_def
      set_user_status_def delete_user_def add_device_def revoke_device_def touch_device_def
      register_agent_def update_agent_def remove_agent_def create_invitation_def
      consume_invitation_def consume_update_def Let_def
      intro!: keyed_intros dest: keyed_get split: option.splits if_splits)

lemma empty_db_ok: "db_ok empty_db"
  by (simp add: db_ok_def empty_db_def)

interpretation store: invariant_system "store_step fk" db_ok for fk
  by unfold_locales (rule store_step_ok)

section \<open>Redeeming invitations\<close>

definition redeems :: "string \<Rightarrow> coord_db \<Rightarrow> store_op \<Rightarrow> bool" where
  "redeems code db op =
     (case op of
        ConsumeInvitation c t \<Rightarrow>
          normalize_invite_code c = code \<and> fst (consume_invitation c t db) \<noteq> None
      | _ \<Rightarrow> False)"

lemma consume_select_Some:
  "consume_select c now db = Some i \<longleftrightarrow>
     dict_get (db_invitations db) (normalize_invite_code c) = Some i \<and> 0 < i_uses_left i \<and>
     now \<le> i_expires_at i"
  by (auto simp: consume_select_def split: option.splits if_splits)

lemma invitations_consume_update:
  "dict_get (db_invitations (consume_update c now db)) =
     (dict_get (db_invitations db))(c := map_option
       (\<lambda>i. i\<lparr>i_uses_left := i_uses_left i - 1,
             i_used_at := (case i_used_at i of None \<Rightarrow> Some now | Some t \<Rightarrow> Some t)\<rparr>)
       (dict_get (db_invitations db) c))"
  by (simp add: consume_update_def dict_get_update_key)

lemma step_invitation:
  assumes "dict_get (db_invitations db) code = Some i"
  shows "\<exists>i'. dict_get (db_invitations (store_step fk db op)) code = Some i' \<and>
    i_uses_left i' = i_uses_left i - (if redeems code db op then 1 else 0) \<and>
    (redeems code db op \<longrightarrow> 0 < i_uses_left i) \<and> i_expires_at i' = i_expires_at i \<and>
    i_role i' = i_role i \<and> i_bind_to_handle i' = i_bind_to_handle i"
proof (cases op)
  case (ConsumeInvitation c t)
  show ?thesis
  proof (cases "consume_select c t db")
    case None
    with assms show ?thesis
      by (simp add: ConsumeInvitation redeems_def consume_invitation_def)
  next
    case (Some inv)
    then have "0 < i_uses_left inv"
      "dict_get (db_invitations db) (normalize_invite_code c) = Some inv"
      by (simp_all add: consume_select_Some)
    with assms Some show ?thesis
      by (auto simp: ConsumeInvitation redeems_def consume_invitation_def
          invitations_consume_update)
  qed
qed (use assms in \<open>auto simp: redeems_def committed_def set_network_role_def rename_network_def
      create_user_def set_user_status_def delete_user_def add_device_def revoke_device_def
      touch_device_def register_agent_def update_agent_def remove_agent_def create_invitation_def
      dict_get_set Let_def split: option.splits if_splits\<close>)

text \<open>Several redemptions in flight: \<open>Select\<close> is a task's \<open>SELECT\<close> and check, \<open>Update\<close> its
  \<open>UPDATE\<close>. The event loop may schedule other tasks between the two: other redemptions, or any other
  store operation (\<open>Elsewhere\<close>).\<close>

datatype redeem_event = Select nat string real | Update nat real | Elsewhere store_op

record redeem_state =
  rs_db :: coord_db
  rs_pending :: "(nat, string) dict"
  rs_won :: "(nat \<times> string) list"

fun redeem_step :: "bool \<Rightarrow> redeem_state \<Rightarrow> redeem_event \<Rightarrow> redeem_state" where
  "redeem_step fk s (Select task c now) =
     (case consume_select c now (rs_db s) of
        None \<Rightarrow> s
      | Some _ \<Rightarrow> s\<lparr>rs_pending := dict_set task (normalize_invite_code c) (rs_pending s)\<rparr>)"
| "redeem_step fk s (Update task now) =
     (case dict_get (rs_pending s) task of
        None \<Rightarrow> s
      | Some code \<Rightarrow>
          s\<lparr>rs_db := consume_update code now (rs_db s),
            rs_pending := dict_pop task (rs_pending s), rs_won := rs_won s @ [(task, code)]\<rparr>)"
| "redeem_step fk s (Elsewhere op) = s\<lparr>rs_db := store_step fk (rs_db s) op\<rparr>"

definition in_flight :: "string \<Rightarrow> redeem_state \<Rightarrow> nat" where
  "in_flight code s = length (filter (\<lambda>p. snd p = code) (rs_pending s))"

definition won :: "string \<Rightarrow> redeem_state \<Rightarrow> nat" where
  "won code s = length (filter (\<lambda>p. snd p = code) (rs_won s))"

text \<open>At no moment of the run are more than \<open>n\<close> redemptions of the code between their statements.\<close>

fun overlap_at_most :: "bool \<Rightarrow> nat \<Rightarrow> string \<Rightarrow> redeem_state \<Rightarrow> redeem_event list \<Rightarrow> bool" where
  "overlap_at_most fk n code s [] \<longleftrightarrow> in_flight code s \<le> n"
| "overlap_at_most fk n code s (e # es) \<longleftrightarrow>
     in_flight code s \<le> n \<and> overlap_at_most fk n code (redeem_step fk s e) es"

lemma overlap_now: "overlap_at_most fk n code s es \<Longrightarrow> in_flight code s \<le> n"
  by (cases es) auto

lemma set_count:
  "length (filter (\<lambda>p. snd p = code) (dict_set task c d)) \<le>
     length (filter (\<lambda>p. snd p = code) d) + (if c = code then 1 else 0)"
  by (induction d) auto

lemma pop_count:
  "length (filter (\<lambda>p. snd p = code) (dict_pop task d)) +
     (if dict_get d task = Some code then 1 else 0) \<le> length (filter (\<lambda>p. snd p = code) d)"
proof (induction d)
  case Nil
  show ?case by (simp add: dict_pop_def)
next
  case (Cons p d)
  then show ?case by (cases p) (auto simp: dict_pop_def split: if_splits)
qed

text \<open>The uses left, less what is still in flight, never go below what the overlap allows.\<close>

definition metered :: "nat \<Rightarrow> string \<Rightarrow> int \<Rightarrow> redeem_state \<Rightarrow> bool" where
  "metered n code total0 s \<longleftrightarrow>
     (\<exists>i. dict_get (db_invitations (rs_db s)) code = Some i \<and>
        i_uses_left i + int (won code s) = total0 \<and> 1 - int n + int (in_flight code s) \<le> i_uses_left i)"

lemma metered_step:
  assumes "metered n code total0 s" and "in_flight code (redeem_step fk s e) \<le> n"
    and "\<And>c t. e \<noteq> Elsewhere (ConsumeInvitation c t)"
  shows "metered n code total0 (redeem_step fk s e)"
proof -
  obtain i where i: "dict_get (db_invitations (rs_db s)) code = Some i"
    "i_uses_left i + int (won code s) = total0" "1 - int n + int (in_flight code s) \<le> i_uses_left i"
    using assms(1) unfolding metered_def by blast
  show ?thesis
  proof (cases e)
    case (Select task c now)
    show ?thesis
    proof (cases "consume_select c now (rs_db s)")
      case None
      then show ?thesis using assms(1) Select by simp
    next
      case (Some j)
      have "1 - int n + int (in_flight code (redeem_step fk s e)) \<le> i_uses_left i"
      proof (cases "normalize_invite_code c = code")
        case True
        then have "0 < i_uses_left i" using Some i(1) by (simp add: consume_select_Some)
        then show ?thesis using assms(2) by simp
      next
        case False
        then show ?thesis
          using i(3) set_count [of code task "normalize_invite_code c" "rs_pending s"] Some Select
          by (simp add: in_flight_def)
      qed
      then show ?thesis using i(1,2) Some Select by (simp add: metered_def won_def)
    qed
  next
    case (Update task now)
    show ?thesis
    proof (cases "dict_get (rs_pending s) task")
      case None
      then show ?thesis using assms(1) Update by simp
    next
      case (Some c)
      then show ?thesis
        using i pop_count [of code task "rs_pending s"] Update
        by (auto simp: metered_def won_def in_flight_def invitations_consume_update)
    qed
  next
    case (Elsewhere op)
    then have "\<not> redeems code (rs_db s) op"
      using assms(3) by (cases op) (auto simp: redeems_def)
    with step_invitation [OF i(1), of fk op] obtain i' where
      "dict_get (db_invitations (store_step fk (rs_db s) op)) code = Some i'" "i_uses_left i' = i_uses_left i"
      by auto
    then show ?thesis using i(2,3) Elsewhere by (auto simp: metered_def won_def in_flight_def)
  qed
qed

lemma metered_run:
  assumes "metered n code total0 s" and "overlap_at_most fk n code s es"
    and "\<And>c t. Elsewhere (ConsumeInvitation c t) \<notin> set es"
  shows "metered n code total0 (run_ops (redeem_step fk) s es)"
  using assms
proof (induction es arbitrary: s)
  case Nil
  then show ?case by simp
next
  case (Cons e es)
  have "in_flight code (redeem_step fk s e) \<le> n" using Cons.prems(2) overlap_now by auto
  then have "metered n code total0 (redeem_step fk s e)"
    using Cons.prems(1,3) by (intro metered_step) auto
  then show ?case using Cons.IH Cons.prems(2,3) by simp
qed

section \<open>Device liveness\<close>

lemma get_active_device_iff:
  "get_active_device db k = Some d \<longleftrightarrow>
     dict_get (db_devices db) k = Some d \<and> d_status d = ''active'' \<and>
     (\<exists>u. dict_get (db_users db) (d_user_handle d) = Some u \<and> u_status u = ''active'')"
  by (auto simp: get_active_device_def owner_active_def split: option.splits if_splits)

definition out_of_roster :: "bytes \<Rightarrow> coord_db \<Rightarrow> bool" where
  "out_of_roster k db \<longleftrightarrow> (\<forall>d. dict_get (db_devices db) k = Some d \<longrightarrow> d_status d \<noteq> ''active'')"

lemma out_of_roster_inactive: "out_of_roster k db \<Longrightarrow> get_active_device db k = None"
  by (auto simp: out_of_roster_def get_active_device_def split: option.splits)

lemma step_out_of_roster:
  assumes "db_ok db" and "out_of_roster k db" and "\<And>h l t. op \<noteq> AddDevice k h l t"
  shows "out_of_roster k (store_step fk db op)"
proof (cases op)
  case (AddDevice k' h l t)
  with assms show ?thesis
    by (auto simp: out_of_roster_def add_device_def dict_get_set)
next
  case (DeleteUser h)
  have "dict_ok (db_devices db)" using assms(1) by (simp add: db_ok_def keyed_def)
  with DeleteUser assms(2) show ?thesis
    by (auto simp: out_of_roster_def delete_user_def dict_get_delete_where split: option.splits
        if_splits)
qed (use assms(2) in \<open>auto simp: out_of_roster_def committed_def set_network_role_def
      rename_network_def create_user_def set_user_status_def revoke_device_def touch_device_def
      register_agent_def update_agent_def remove_agent_def create_invitation_def
      consume_invitation_def consume_update_def dict_get_update_key dict_get_set Let_def
      split: option.splits if_splits\<close>)

lemma revoke_out_of_roster: "out_of_roster k (snd (revoke_device k db))"
  by (auto simp: out_of_roster_def revoke_device_def split: option.splits if_splits)

lemma run_out_of_roster:
  "db_ok db \<Longrightarrow> out_of_roster k db \<Longrightarrow> (\<And>h l t. AddDevice k h l t \<notin> set ops) \<Longrightarrow>
     out_of_roster k (run_ops (store_step fk) db ops)"
proof (induction ops arbitrary: db)
  case Nil
  then show ?case by simp
next
  case (Cons op ops)
  have "out_of_roster k (store_step fk db op)"
    using Cons.prems(1,2) by (rule step_out_of_roster) (use Cons.prems(3) in auto)
  then show ?case
    using Cons.IH [OF store_step_ok [OF Cons.prems(1)]] Cons.prems(3) by simp
qed

section \<open>Referential integrity\<close>

definition owned :: "coord_db \<Rightarrow> bool" where
  "owned db \<longleftrightarrow>
     (\<forall>k d. dict_get (db_devices db) k = Some d \<longrightarrow> dict_get (db_users db) (d_user_handle d) \<noteq> None)"

lemma step_owned:
  assumes "db_ok db" and "owned db"
  shows "owned (store_step True db op)"
proof (cases op)
  case (DeleteUser h)
  have "dict_ok (db_devices db)" using assms(1) by (simp add: db_ok_def keyed_def)
  with DeleteUser assms(2) show ?thesis
    by (auto simp: owned_def delete_user_def dict_get_delete_where dict_get_pop
        split: option.splits if_splits)
qed (use assms(2) in \<open>auto simp: owned_def committed_def set_network_role_def rename_network_def
      create_user_def set_user_status_def add_device_def revoke_device_def touch_device_def
      register_agent_def update_agent_def remove_agent_def create_invitation_def
      consume_invitation_def consume_update_def dict_get_update_key dict_get_set Let_def
      split: option.splits if_splits\<close>)

interpretation store_fk: invariant_system "store_step True" "\<lambda>db. db_ok db \<and> owned db"
  by unfold_locales (simp add: store_step_ok step_owned)

section \<open>Displayed invite codes\<close>

lemma set_join_with: "set (join_with c ss) \<subseteq> insert c (\<Union> (set ` set ss))"
  by (induction c ss rule: join_with.induct) auto

lemma remove_char_append: "remove_char c (s @ t) = remove_char c s @ remove_char c t"
  by (simp add: remove_char_def)

lemma remove_char_absent: "c \<notin> set s \<Longrightarrow> remove_char c s = s"
  unfolding remove_char_def by (rule filter_True) auto

lemma remove_char_join:
  "(\<And>s. s \<in> set ss \<Longrightarrow> c \<notin> set s) \<Longrightarrow> remove_char c (join_with c ss) = concat ss"
proof (induction c ss rule: join_with.induct)
  case (3 c s t ts)
  have "remove_char c (c # join_with c (t # ts)) = remove_char c (join_with c (t # ts))"
    by (simp add: remove_char_def)
  with 3 show ?case by (simp add: remove_char_append remove_char_absent)
qed (auto simp: remove_char_absent)

lemma chunks_subset: "s \<in> set (chunks n xs) \<Longrightarrow> set s \<subseteq> set xs"
proof (induction n xs rule: chunks.induct)
  case (1 n xs)
  then show ?case
    using set_take_subset [of n xs] set_drop_subset [of n xs]
    by (subst (asm) (2) chunks.simps) (auto split: if_splits)
qed

lemma lowered_alphabet:
  "c \<in> set b32_alphabet \<Longrightarrow>
     lower_char c \<noteq> CHR ''-'' \<and> lower_char c \<noteq> CHR '' ''"
proof -
  have "list_all (\<lambda>c. lower_char c \<noteq> CHR ''-'' \<and> lower_char c \<noteq> CHR '' '') b32_alphabet"
    by (simp add: b32_alphabet_def lower_char_def char_code_def char_of_def bit_0)
  then show "c \<in> set b32_alphabet \<Longrightarrow> ?thesis" by (simp add: list_all_iff)
qed

lemma code_chars:
  assumes "c \<in> set (gen_invite_code raw)"
  shows "c \<noteq> CHR ''-''" "c \<noteq> CHR '' ''" "\<not> is_space c" "lower_char c = c"
proof -
  obtain d where "d \<in> set b32_alphabet" and "c = lower_char d"
    using assms set_b32_digits [of raw]
    by (auto simp: gen_invite_code_def rstrip_eq_b32encode lower_def)
  then show "c \<noteq> CHR ''-''" "c \<noteq> CHR '' ''" "\<not> is_space c" "lower_char c = c"
    by (simp_all add: lowered_alphabet alphabet_not_space)
qed

lemma display_no_space:
  "\<forall>c\<in>set (format_invite_for_display (gen_invite_code raw)).
     \<not> is_space c \<and> c \<noteq> CHR '' '' \<and> lower_char c = c"
proof
  fix c assume "c \<in> set (format_invite_for_display (gen_invite_code raw))"
  then have "c = CHR ''-'' \<or> c \<in> set (gen_invite_code raw)"
    using set_join_with chunks_subset unfolding format_invite_for_display_def by fastforce
  then show "\<not> is_space c \<and> c \<noteq> CHR '' '' \<and> lower_char c = c"
    using code_chars [of c raw]
    by (auto simp: is_space_def char_code_def lower_char_def)
qed

section \<open>Suspension and deletion\<close>

lemma users_set_status:
  "set_user_status h st db = Inr (ok, db') \<Longrightarrow>
     dict_get (db_users db') = (dict_get (db_users db))
       (h := map_option (\<lambda>u. u\<lparr>u_status := st\<rparr>) (dict_get (db_users db) h)) \<and>
     db_devices db' = db_devices db"
  by (auto simp: set_user_status_def dict_get_update_key split: if_splits)

section \<open>Properties\<close>

text \<open>
  C29: Starting from a well-formed database in which every device belongs to a registered user,
  any sequence of store operations, raising ones included, leads to a database of the same kind
  when the connection enforces foreign keys: keys stay unique, each row sits under its own key
  and no device outlives its user.
\<close>

theorem store_integrity:
  assumes "db_ok db" and "owned db"
  shows "db_ok (run_ops (store_step True) db ops) \<and> owned (run_ops (store_step True) db ops)"
  using store_fk.run_inv assms by blast

theorem store_integrity_witness:
  "let db = run_ops (store_step True) empty_db
     [CreateUser ''ann'' [1] ''srp6a'' False 1, AddDevice [7] ''ann'' None 2,
      AddDevice [8] ''bob'' None 3, DeleteUser ''ann'']
   in db_ok db \<and> owned db \<and> db_devices db = [] \<and> db_users db = []"
  using store_integrity [of empty_db "[CreateUser ''ann'' [1] ''srp6a'' False 1,
      AddDevice [7] ''ann'' None 2, AddDevice [8] ''bob'' None 3, DeleteUser ''ann'']"]
  by (simp add: db_ok_def owned_def empty_db_def committed_def create_user_def add_device_def
      delete_user_def delete_where_def dict_pop_def)

text \<open>
  C33: Invitations are metered up to the overlap of their redemptions. The check and the decrement of a
  redemption are separate statements, and other tasks may run between them. Over every interleaving
  of redemptions with each other and with the other store operations, the uses left drop by exactly
  one for each redemption that went through, and if at most \<open>n\<close> redemptions of the code are ever
  between their two statements they end no lower than \<open>1 - n\<close>: an invitation is redeemed at most
  \<open>n - 1\<close> times too often, and never when its redemptions do not overlap. (A redemption occurs as its
  two statements, not as the atomic operation of the store's own histories.)
\<close>

theorem invitation_accounting:
  assumes "dict_get (db_invitations (rs_db s)) code = Some i" and "0 \<le> i_uses_left i"
    and "rs_pending s = []" and "0 < n" and "overlap_at_most fk n code s es"
    and "\<forall>c t. Elsewhere (ConsumeInvitation c t) \<notin> set es"
  shows "let s' = run_ops (redeem_step fk) s es in
    \<exists>i'. dict_get (db_invitations (rs_db s')) code = Some i' \<and>
      i_uses_left i' = i_uses_left i - (int (won code s') - int (won code s)) \<and>
      1 - int n \<le> i_uses_left i'"
proof -
  have "metered n code (i_uses_left i + int (won code s)) s"
    using assms(1-4) by (simp add: metered_def in_flight_def)
  then have "metered n code (i_uses_left i + int (won code s)) (run_ops (redeem_step fk) s es)"
    using assms(5,6) by (intro metered_run) auto
  then show ?thesis by (fastforce simp: metered_def Let_def)
qed

definition single_use :: invitation_row where
  "single_use = \<lparr>i_code = ''abcd'', i_role = ''user'', i_created_by = None,
     i_bind_to_handle = None, i_uses_left = 1, i_expires_at = 100, i_created_at = 0,
     i_used_at = None\<rparr>"

definition one_invite_db :: coord_db where
  "one_invite_db = empty_db\<lparr>db_invitations := [(''abcd'', single_use)]\<rparr>"

lemma normalize_abcd: "normalize_invite_code ''abcd'' = ''abcd''"
  by (simp add: normalize_invite_code_def strip_def lstrip_def rstrip_def is_space_def lower_def
      lower_char_def remove_char_def char_code_def)

lemmas one_invite_simps =
  one_invite_db_def single_use_def empty_db_def consume_invitation_def consume_select_def
  consume_update_def update_key_def normalize_abcd

definition invited :: redeem_state where
  "invited = \<lparr>rs_db = one_invite_db, rs_pending = [], rs_won = []\<rparr>"

definition two_tries :: "redeem_event list" where
  "two_tries = [Select 1 ''abcd'' 5, Elsewhere (CreateUser ''ann'' [1] ''srp6a'' False 5), Update 1 5,
     Select 2 ''abcd'' 6, Update 2 6]"

lemmas redeem_run_simps = invited_def two_tries_def one_invite_simps committed_def create_user_def
  in_flight_def won_def dict_pop_def

theorem invitation_accounting_witness:
  "\<exists>i'. dict_get (db_invitations (rs_db (run_ops (redeem_step True) invited two_tries))) ''abcd'' = Some i' \<and>
     i_uses_left i' = 0 \<and> rs_won (run_ops (redeem_step True) invited two_tries) = [(1, ''abcd'')]"
proof -
  have won: "rs_won (run_ops (redeem_step True) invited two_tries) = [(1, ''abcd'')]"
    by (simp add: redeem_run_simps)
  have "overlap_at_most True 1 ''abcd'' invited two_tries" by (simp add: redeem_run_simps)
  moreover have "\<forall>c t. Elsewhere (ConsumeInvitation c t) \<notin> set two_tries" by (simp add: two_tries_def)
  moreover have "dict_get (db_invitations (rs_db invited)) ''abcd'' = Some single_use"
    by (simp add: invited_def one_invite_db_def)
  ultimately show ?thesis
    using invitation_accounting [of invited "''abcd''" single_use 1 True two_tries] won
    by (auto simp: invited_def single_use_def won_def Let_def simp del: run_ops.simps)
qed

text \<open>
  The read and the write of a redemption are separate statements and the write is not
  conditional on the use still being there: if two tasks both read a single-use invitation before
  either writes, both redeem it and its counter ends at \<open>-1\<close>.
\<close>

theorem overlapping_redemption_overspends:
  assumes "consume_select c now (rs_db s) = Some i" and "i_uses_left i = 1"
    and "t1 \<noteq> t2" and "rs_pending s = []"
  shows "let s' = run_ops (redeem_step fk) s
        [Select t1 c now, Select t2 c now, Update t1 now, Update t2 now];
      code = normalize_invite_code c
    in rs_won s' = rs_won s @ [(t1, code), (t2, code)] \<and>
       (\<exists>i'. dict_get (db_invitations (rs_db s')) code = Some i' \<and> i_uses_left i' = - 1)"
proof -
  have "dict_get (db_invitations (rs_db s)) (normalize_invite_code c) = Some i"
    using assms(1) by (simp add: consume_select_Some)
  then show ?thesis
    using assms by (simp add: invitations_consume_update dict_get_pop dict_pop_def)
qed

theorem overlapping_redemption_overspends_witness:
  "map fst (rs_won (run_ops (redeem_step True) invited
     [Select 1 ''abcd'' 5, Select 2 ''abcd'' 5, Update 1 5, Update 2 5])) = [1, 2]"
  using overlapping_redemption_overspends [of "''abcd''" 5 invited single_use 1 2 True]
  by (simp add: consume_select_def normalize_abcd invited_def one_invite_db_def single_use_def Let_def
      del: redeem_step.simps run_ops.simps)

text \<open>
  Revocation lasts. Once a device key is revoked no sequence of store operations makes it an
  active device again, short of one that enrols that very key anew.
\<close>

theorem revocation_lasts:
  assumes "db_ok db" and "\<forall>h l t. AddDevice k h l t \<notin> set ops"
  shows "get_active_device (run_ops (store_step fk) (snd (revoke_device k db)) ops) k = None"
proof -
  have "db_ok (store_step fk db (RevokeDevice k))" using assms(1) by (rule store_step_ok)
  then have "db_ok (snd (revoke_device k db))" by simp
  then show ?thesis
    using run_out_of_roster [OF _ revoke_out_of_roster [of k db], of ops fk] assms(2)
    by (simp add: out_of_roster_inactive)
qed

definition enrolled_db :: coord_db where
  "enrolled_db = run_ops (store_step True) empty_db
     [CreateUser ''ann'' [1] ''srp6a'' False 1, AddDevice [7] ''ann'' None 2]"

lemma enrolled_db_ok: "db_ok enrolled_db"
  unfolding enrolled_db_def by (rule store.run_inv) (rule empty_db_ok)

lemmas enrolled_simps =
  enrolled_db_def empty_db_def committed_def create_user_def add_device_def get_active_device_def
  owner_active_def

theorem revocation_lasts_witness:
  "get_active_device enrolled_db [7] \<noteq> None \<and>
   get_active_device (run_ops (store_step True) (snd (revoke_device [7] enrolled_db))
     [SetUserStatus ''ann'' ''active'', AddDevice [9] ''ann'' None 3, TouchDevice [7] 4]) [7] = None"
proof
  show "get_active_device enrolled_db [7] \<noteq> None"
    by (simp add: enrolled_simps)
  show "get_active_device (run_ops (store_step True) (snd (revoke_device [7] enrolled_db))
     [SetUserStatus ''ann'' ''active'', AddDevice [9] ''ann'' None 3, TouchDevice [7] 4]) [7] = None"
    by (rule revocation_lasts [OF enrolled_db_ok]) simp
qed

text \<open>
  A user's standing governs all of the user's devices. Suspension makes every one of them
  inactive and leaves other users' devices as they were, reactivation brings back exactly the
  ones that were not revoked, and deletion removes them for good.
\<close>

theorem user_standing_governs_devices:
  assumes "db_ok db" and "dict_get (db_devices db) k = Some d"
    and "set_user_status h ''suspended'' db = Inr (ok1, db1)"
    and "set_user_status h ''active'' db1 = Inr (ok2, db2)"
    and "dict_get (db_users db) h \<noteq> None"
  shows "get_active_device db1 k = (if d_user_handle d = h then None else get_active_device db k) \<and>
    get_active_device db2 k =
      (if d_user_handle d = h then if d_status d = ''active'' then Some d else None
       else get_active_device db k) \<and>
    get_active_device (snd (delete_user h db)) k =
      (if d_user_handle d = h then None else get_active_device db k)"
proof (intro conjI)
  note db1 = users_set_status [OF assms(3)]
  note db2 = users_set_status [OF assms(4)]
  obtain u where u: "dict_get (db_users db) h = Some u" using assms(5) by blast
  show "get_active_device db1 k = (if d_user_handle d = h then None else get_active_device db k)"
    using assms(2) db1 u by (simp add: get_active_device_def owner_active_def)
  show "get_active_device db2 k =
      (if d_user_handle d = h then if d_status d = ''active'' then Some d else None
       else get_active_device db k)"
    using assms(2) db1 db2 u by (simp add: get_active_device_def owner_active_def)
  have "dict_ok (db_devices db)" using assms(1) by (simp add: db_ok_def keyed_def)
  then show "get_active_device (snd (delete_user h db)) k =
      (if d_user_handle d = h then None else get_active_device db k)"
    using assms(2)
    by (simp add: get_active_device_def owner_active_def delete_user_def dict_get_delete_where)
qed

theorem user_standing_governs_devices_witness:
  "\<exists>d db1. set_user_status ''ann'' ''suspended'' enrolled_db = Inr (True, db1) \<and>
     get_active_device enrolled_db [7] = Some d \<and> get_active_device db1 [7] = None"
proof -
  obtain d where d: "get_active_device enrolled_db [7] = Some d" "d_user_handle d = ''ann''"
    by (simp add: enrolled_simps)
  obtain db1 where 1: "set_user_status ''ann'' ''suspended'' enrolled_db = Inr (True, db1)"
    by (simp add: set_user_status_def enrolled_simps)
  obtain ok2 db2 where 2: "set_user_status ''ann'' ''active'' db1 = Inr (ok2, db2)"
    by (simp add: set_user_status_def)
  have "get_active_device db1 [7] = None"
    using user_standing_governs_devices [OF enrolled_db_ok _ 1 2, of "[7]" d] d
    by (simp add: get_active_device_iff) (simp add: enrolled_simps)
  with d 1 show ?thesis by blast
qed

text \<open>
  Registering a user claims only what bootstrap may claim: each agent row keeps its handle,
  node and label, and its owner changes (to the new user) only if claiming was asked for, the
  agent is the coordinator's own node and it was still owned by \<open>system\<close>.
\<close>

theorem bootstrap_claim_scope:
  assumes "create_user h r alg claim now db = Inr (claimed, db')"
    and "dict_get (db_agents db') ah = Some a'"
  shows "\<exists>a. dict_get (db_agents db) ah = Some a \<and> a_node_id a' = a_node_id a \<and>
    a_label a' = a_label a \<and>
    (a_owner_handle a' \<noteq> a_owner_handle a \<longrightarrow>
       claim \<and> a_owner_handle a = ''system'' \<and> coord_node_id db = a_node_id a \<and>
       a_owner_handle a' = h)"
  using assms
  by (auto simp: create_user_def claimable_def coord_node_id_def get_network_role_def Let_def
      dict_get_update_where split: if_splits option.splits)

definition two_agents_db :: coord_db where
  "two_agents_db = run_ops (store_step True) empty_db
     [SetNetworkRole ''coordinator'' None None (Some ''n1'') None 1,
      RegisterAgent ''home'' ''n1'' ''system'' None 2, RegisterAgent ''lab'' ''n2'' ''system'' None 3]"

theorem bootstrap_claim_scope_witness:
  "\<exists>db' a'. create_user ''ann'' [1] ''srp6a'' True 4 two_agents_db = Inr (True, db') \<and>
     dict_get (db_agents db') ''lab'' = Some a' \<and> a_node_id a' = ''n2'' \<and>
     a_owner_handle a' = ''system''"
proof -
  obtain db' a' where db': "create_user ''ann'' [1] ''srp6a'' True 4 two_agents_db = Inr (True, db')"
    "dict_get (db_agents db') ''lab'' = Some a'"
    by (simp add: two_agents_db_def empty_db_def set_network_role_def register_agent_def
        create_user_def Let_def row_count_def claimable_def update_where_def)
  with bootstrap_claim_scope [OF db'] show ?thesis
    by (fastforce simp: two_agents_db_def empty_db_def set_network_role_def register_agent_def
        coord_node_id_def get_network_role_def)
qed

text \<open>
  A generated invite code survives its human-friendly display: grouping it by four with
  hyphens normalises back to the stored code.
\<close>

theorem display_code_round_trip:
  "normalize_invite_code (format_invite_for_display (gen_invite_code raw)) = gen_invite_code raw"
proof -
  let ?d = "format_invite_for_display (gen_invite_code raw)"
  have "strip ?d = ?d" using display_no_space by (intro strip_no_space) blast
  moreover have "lower ?d = ?d"
    unfolding lower_def using display_no_space [of raw] by (intro map_idI) blast
  moreover have "remove_char CHR ''-'' ?d = gen_invite_code raw"
    unfolding format_invite_for_display_def
    using chunks_subset code_chars(1) [of _ raw]
    by (subst remove_char_join) (fastforce, simp add: concat_chunks)
  moreover have "remove_char CHR '' '' (gen_invite_code raw) = gen_invite_code raw"
    using code_chars(2) [of _ raw] by (intro remove_char_absent) blast
  ultimately show ?thesis by (simp add: normalize_invite_code_def)
qed

end
