(* ===== verification/Device_Cert.thy ===== *)
theory Device_Cert
  imports Prelude
begin

text \<open>
  Coordinator-signed device certificates (\<open>packages/identity/.../auth/device_cert.py\<close>): minting,
  the wire frame \<open>length || payload || signature\<close>, and local verification. CBOR (\<open>dumps\<close>,
  \<open>loads\<close>), Ed25519 (\<open>sign\<close>, \<open>vrf\<close>) and the parsing of numeric text (\<open>parse\<close>) are parameters. The
  results: an issued certificate verifies until it expires, and a certificate that verifies was
  signed over exactly the bytes that carry its claims, is unexpired and is for the expected
  network.
\<close>

definition CERT_VERSION :: int where
  "CERT_VERSION = 1"

definition CERT_TTL_SECONDS :: real where
  "CERT_TTL_SECONDS = 30 * 24 * 3600"

definition SIGNATURE_LEN :: nat where
  "SIGNATURE_LEN = 64"

record device_cert =
  c_handle :: string
  c_device_pubkey :: bytes
  c_network_id :: string
  c_issued_at :: pyfloat
  c_expires_at :: pyfloat
  c_capabilities :: "pyval list"

text \<open>\<open>CertRejected\<close> is \<open>CertVerificationError\<close>, which callers catch. \<open>CborDecodeError\<close> is the
  library's own exception, which \<open>_decode_payload\<close> lets through.\<close>

datatype reject_reason =
    TooShort | LengthMismatch | InvalidSignature | PayloadNotMap | UnsupportedCertVersion
  | MalformedField | Expired | NetworkMismatch

datatype cert_error = CertRejected reject_reason | CborDecodeError

datatype issue_error = BadPubkeyLength nat | LengthOverflow

text \<open>\<open>now or time.time()\<close>: a missing or zero \<open>now\<close> reads the clock.\<close>

definition now_or :: "real option \<Rightarrow> real \<Rightarrow> real" where
  "now_or now clock = (case now of None \<Rightarrow> clock | Some t \<Rightarrow> if t = 0 then clock else t)"

fun reached :: "real \<Rightarrow> pyfloat \<Rightarrow> bool" where
  "reached t (Finite e) = (e \<le> t)"
| "reached t PosInf = False"
| "reached t NegInf = True"
| "reached t NotANumber = False"

definition is_expired :: "device_cert \<Rightarrow> real option \<Rightarrow> real \<Rightarrow> bool" where
  "is_expired c now clock = reached (now_or now clock) (c_expires_at c)"

definition cert_payload :: "device_cert \<Rightarrow> (pyval \<times> pyval) list" where
  "cert_payload c =
     [(PStr ''v'', PInt CERT_VERSION),
      (PStr ''handle'', PStr (c_handle c)),
      (PStr ''device_pubkey'', PBytes (c_device_pubkey c)),
      (PStr ''network_id'', PStr (c_network_id c)),
      (PStr ''issued_at'', PFloat (c_issued_at c)),
      (PStr ''expires_at'', PFloat (c_expires_at c)),
      (PStr ''capabilities'', PList (c_capabilities c))]"

text \<open>\<open>bytes(v)\<close>, \<open>float(v)\<close> and \<open>list(v)\<close>; \<open>None\<close> is the \<open>TypeError\<close> or \<open>ValueError\<close> they raise.\<close>

fun byte_of :: "pyval \<Rightarrow> 8 word option" where
  "byte_of (PInt i) = (if 0 \<le> i \<and> i < 256 then Some (word_of_int i) else None)"
| "byte_of (PBool b) = Some (of_bool b)"
| "byte_of _ = None"

definition bytes_of_items :: "pyval list \<Rightarrow> bytes option" where
  "bytes_of_items xs = those (map byte_of xs)"

fun py_bytes :: "pyval \<Rightarrow> bytes option" where
  "py_bytes (PBytes b) = Some b"
| "py_bytes (PInt n) = (if n < 0 then None else Some (replicate (nat n) 0))"
| "py_bytes (PBool b) = Some (replicate (of_bool b) 0)"
| "py_bytes (PList xs) = bytes_of_items xs"
| "py_bytes (PDict kvs) = bytes_of_items (map fst kvs)"
| "py_bytes _ = None"

fun py_float :: "(pyval \<Rightarrow> pyfloat option) \<Rightarrow> pyval \<Rightarrow> pyfloat option" where
  "py_float parse (PFloat f) = Some f"
| "py_float parse (PInt i) = Some (Finite (of_int i))"
| "py_float parse (PBool b) = Some (Finite (of_bool b))"
| "py_float parse (PStr s) = parse (PStr s)"
| "py_float parse (PBytes b) = parse (PBytes b)"
| "py_float parse _ = None"

fun py_list :: "pyval \<Rightarrow> pyval list option" where
  "py_list (PList xs) = Some xs"
| "py_list (PStr s) = Some (map (\<lambda>c. PStr [c]) s)"
| "py_list (PBytes b) = Some (map (\<lambda>w. PInt (uint w)) b)"
| "py_list (PDict kvs) = Some (map fst kvs)"
| "py_list _ = None"

definition cert_field :: "(pyval \<times> pyval) list \<Rightarrow> string \<Rightarrow> (pyval \<Rightarrow> 'a option) \<Rightarrow> cert_error + 'a" where
  "cert_field obj k conv =
     of_opt (CertRejected MalformedField) (Option.bind (pget k obj) conv)"

definition decode_cert ::
  "(pyval \<Rightarrow> string) \<Rightarrow> (pyval \<Rightarrow> pyfloat option) \<Rightarrow> (bytes \<Rightarrow> pyval option) \<Rightarrow> bytes
     \<Rightarrow> cert_error + device_cert" where
  "decode_cert rep parse loads payload =
     (case loads payload of
        None \<Rightarrow> Inl CborDecodeError
      | Some (PDict obj) \<Rightarrow>
          if \<not> eq_int (pget_or PNone ''v'' obj) CERT_VERSION
          then Inl (CertRejected UnsupportedCertVersion)
          else
            bind_r (cert_field obj ''handle'' (\<lambda>v. Some (py_str rep v))) (\<lambda>handle.
            bind_r (cert_field obj ''device_pubkey'' py_bytes) (\<lambda>device_pubkey.
            bind_r (cert_field obj ''network_id'' (\<lambda>v. Some (py_str rep v))) (\<lambda>network_id.
            bind_r (cert_field obj ''issued_at'' (py_float parse)) (\<lambda>issued_at.
            bind_r (cert_field obj ''expires_at'' (py_float parse)) (\<lambda>expires_at.
            bind_r (of_opt (CertRejected MalformedField)
              (let caps = pget_or PNone ''capabilities'' obj
               in py_list (if truthy caps then caps else PList []))) (\<lambda>capabilities.
            Inr \<lparr>c_handle = handle, c_device_pubkey = device_pubkey, c_network_id = network_id,
                 c_issued_at = issued_at, c_expires_at = expires_at,
                 c_capabilities = capabilities\<rparr>))))))
      | Some _ \<Rightarrow> Inl (CertRejected PayloadNotMap))"

definition new_cert ::
  "string \<Rightarrow> bytes \<Rightarrow> string \<Rightarrow> pyval list \<Rightarrow> real \<Rightarrow> real \<Rightarrow> device_cert" where
  "new_cert handle device_pubkey network_id capabilities ttl_seconds issued =
     \<lparr>c_handle = handle, c_device_pubkey = device_pubkey, c_network_id = network_id,
      c_issued_at = Finite issued, c_expires_at = Finite (issued + ttl_seconds),
      c_capabilities = capabilities\<rparr>"

text \<open>\<open>issue_cert\<close>. A missing capability list and an empty one mint the same certificate.\<close>

definition issue_cert ::
  "(pyval \<Rightarrow> bytes) \<Rightarrow> (bytes \<Rightarrow> bytes) \<Rightarrow> string \<Rightarrow> bytes \<Rightarrow> string \<Rightarrow> pyval list \<Rightarrow> real
     \<Rightarrow> real option \<Rightarrow> real \<Rightarrow> issue_error + bytes" where
  "issue_cert dumps sign handle device_pubkey network_id capabilities ttl_seconds now clock =
     (if length device_pubkey \<noteq> 32 then Inl (BadPubkeyLength (length device_pubkey))
      else let cert = new_cert handle device_pubkey network_id capabilities ttl_seconds
                        (now_or now clock);
               payload = dumps (PDict (cert_payload cert));
               sig = sign payload
           in case to_bytes4 (length payload) of
                None \<Rightarrow> Inl LengthOverflow
              | Some hdr \<Rightarrow> Inr (hdr @ payload @ sig))"

definition wire_payload :: "bytes \<Rightarrow> bytes" where
  "wire_payload wire = take (from_bytes (take 4 wire)) (drop 4 wire)"

definition wire_sig :: "bytes \<Rightarrow> bytes" where
  "wire_sig wire = drop (4 + from_bytes (take 4 wire)) wire"

definition verify_cert ::
  "(pyval \<Rightarrow> string) \<Rightarrow> (pyval \<Rightarrow> pyfloat option) \<Rightarrow> (bytes \<Rightarrow> pyval option)
     \<Rightarrow> (bytes \<Rightarrow> bytes \<Rightarrow> bool) \<Rightarrow> string option \<Rightarrow> real option \<Rightarrow> real \<Rightarrow> bytes
     \<Rightarrow> cert_error + device_cert" where
  "verify_cert rep parse loads vrf expected_network_id now clock wire =
     (if length wire < 4 + SIGNATURE_LEN then Inl (CertRejected TooShort)
      else let payload_len = from_bytes (take 4 wire)
           in if length wire \<noteq> 4 + payload_len + SIGNATURE_LEN
              then Inl (CertRejected LengthMismatch)
              else if \<not> vrf (wire_sig wire) (wire_payload wire)
              then Inl (CertRejected InvalidSignature)
              else bind_r (decode_cert rep parse loads (wire_payload wire)) (\<lambda>cert.
                if is_expired cert now clock then Inl (CertRejected Expired)
                else if expected_network_id \<noteq> None \<and>
                        expected_network_id \<noteq> Some (c_network_id cert)
                then Inl (CertRejected NetworkMismatch)
                else Inr cert))"

section \<open>Lemmas\<close>

lemma decode_cert_payload:
  assumes "loads payload = Some (PDict (cert_payload c))"
  shows "decode_cert rep parse loads payload = Inr c"
  using assms
  by (simp add: decode_cert_def cert_payload_def pget_or_def cert_field_def)

lemma wire_frame:
  assumes "to_bytes4 (length payload) = Some hdr"
  shows "wire_payload (hdr @ payload @ sig) = payload" and "wire_sig (hdr @ payload @ sig) = sig"
    and "from_bytes (take 4 (hdr @ payload @ sig)) = length payload"
proof -
  have len: "length hdr = 4" and val: "from_bytes hdr = length payload"
    using assms by (auto dest: length_to_bytes4 from_to_bytes4)
  then show "wire_payload (hdr @ payload @ sig) = payload"
    and "wire_sig (hdr @ payload @ sig) = sig"
    and "from_bytes (take 4 (hdr @ payload @ sig)) = length payload"
    by (simp_all add: wire_payload_def wire_sig_def)
qed

lemma guard_chain:
  "(if A then Inl e1 else if B then Inl e2 else if C then Inl e3
    else bind_r D (\<lambda>x. if X x then Inl e4 else if Y x then Inl e5 else Inr x)) = Inr c \<longleftrightarrow>
   \<not> A \<and> \<not> B \<and> \<not> C \<and> D = Inr c \<and> \<not> X c \<and> \<not> Y c"
  by (cases D) auto

lemma verify_cert_Inr_iff:
  "verify_cert rep parse loads vrf net now clock wire = Inr c \<longleftrightarrow>
     \<not> length wire < 4 + SIGNATURE_LEN \<and>
     length wire = 4 + from_bytes (take 4 wire) + SIGNATURE_LEN \<and>
     vrf (wire_sig wire) (wire_payload wire) \<and>
     decode_cert rep parse loads (wire_payload wire) = Inr c \<and>
     \<not> is_expired c now clock \<and> (net = None \<or> net = Some (c_network_id c))"
  unfolding verify_cert_def Let_def guard_chain by blast

lemma verify_cert_accepts:
  assumes "verify_cert rep parse loads vrf net now clock wire = Inr c"
  shows "length wire = 4 + from_bytes (take 4 wire) + SIGNATURE_LEN"
    and "vrf (wire_sig wire) (wire_payload wire)"
    and "decode_cert rep parse loads (wire_payload wire) = Inr c"
    and "\<not> is_expired c now clock"
    and "net = None \<or> net = Some (c_network_id c)"
  using assms unfolding verify_cert_Inr_iff by blast+

text \<open>The contract the coordinator service and the gateway middleware rely on: whatever
  \<open>verify\<close> returns was signed by the pinned key, is still valid and is for this network.\<close>

locale cert_gate =
  fixes verify :: "bytes \<Rightarrow> cert_error + device_cert"
    and signed :: "device_cert \<Rightarrow> bool"
    and valid_now :: "device_cert \<Rightarrow> bool"
    and home :: string
  assumes verify_signed: "verify wire = Inr c \<Longrightarrow> signed c"
    and verify_valid: "verify wire = Inr c \<Longrightarrow> valid_now c"
    and verify_home: "verify wire = Inr c \<Longrightarrow> c_network_id c = home"
begin

lemma accepted: "verify wire = Inr c \<Longrightarrow> signed c \<and> valid_now c \<and> c_network_id c = home"
  by (simp add: verify_signed verify_valid verify_home)

lemma foreign_rejected: "c_network_id c \<noteq> home \<Longrightarrow> verify wire \<noteq> Inr c"
  using verify_home by blast

lemma unsigned_rejected: "\<not> signed c \<Longrightarrow> verify wire \<noteq> Inr c"
  using verify_signed by blast

end

definition signed_claims ::
  "(pyval \<Rightarrow> string) \<Rightarrow> (pyval \<Rightarrow> pyfloat option) \<Rightarrow> (bytes \<Rightarrow> pyval option)
     \<Rightarrow> (bytes \<Rightarrow> bytes \<Rightarrow> bool) \<Rightarrow> device_cert \<Rightarrow> bool" where
  "signed_claims rep parse loads vrf c \<longleftrightarrow>
     (\<exists>payload sig. vrf sig payload \<and> decode_cert rep parse loads payload = Inr c)"

interpretation vcert: cert_gate "verify_cert rep parse loads vrf (Some net) now clock"
    "signed_claims rep parse loads vrf" "\<lambda>c. \<not> is_expired c now clock" net
  for rep parse loads vrf net now clock
  by unfold_locales (auto simp: signed_claims_def dest: verify_cert_accepts)

section \<open>Properties\<close>

text \<open>
  C13: what \<open>verify_cert\<close> accepts. The wire is a four-byte length, exactly that many payload
  bytes and a 64-byte signature with nothing before, between or after; the coordinator's key
  verifies that signature over those payload bytes; the returned claims are the decoding of
  those same bytes; the certificate has not expired; and its network is the expected one.\<close>

theorem verify_cert_sound:
  assumes "verify_cert rep parse loads vrf (Some net) now clock wire = Inr c"
  shows "\<exists>hdr payload sig. wire = hdr @ payload @ sig \<and> length hdr = 4 \<and>
      from_bytes hdr = length payload \<and> length sig = SIGNATURE_LEN \<and> vrf sig payload \<and>
      decode_cert rep parse loads payload = Inr c \<and>
      \<not> reached (now_or now clock) (c_expires_at c) \<and> c_network_id c = net"
proof (intro exI conjI)
  note ok = verify_cert_accepts [OF assms]
  obtain n where n: "from_bytes (take 4 wire) = n" by blast
  have len: "length wire = 4 + n + SIGNATURE_LEN" using ok(1) unfolding n .
  have "wire_sig wire = drop (from_bytes (take 4 wire)) (drop 4 wire)"
    by (simp add: wire_sig_def add.commute)
  then have "drop 4 wire = wire_payload wire @ wire_sig wire"
    by (simp only: wire_payload_def append_take_drop_id)
  then show "wire = take 4 wire @ wire_payload wire @ wire_sig wire"
    using append_take_drop_id [of 4 wire] by simp
  show "length (take 4 wire) = 4" by (simp add: len)
  show "from_bytes (take 4 wire) = length (wire_payload wire)"
    by (simp add: wire_payload_def n len)
  show "length (wire_sig wire) = SIGNATURE_LEN"
    by (simp add: wire_sig_def n len)
  show "vrf (wire_sig wire) (wire_payload wire)" by (rule ok(2))
  show "decode_cert rep parse loads (wire_payload wire) = Inr c" by (rule ok(3))
  show "\<not> reached (now_or now clock) (c_expires_at c)"
    using ok(4) by (simp add: is_expired_def)
  show "c_network_id c = net" by (rule vcert.verify_home [OF assms])
qed

text \<open>
  A freshly issued certificate verifies on its own network at every moment before its
  expiry, to exactly the claims it was issued with, and is rejected as expired from then on. The
  hypotheses are what the libraries document: a 64-byte signature that the matching public key
  accepts, and CBOR that reads back the map it wrote.\<close>

theorem issued_cert_verifies:
  assumes issued: "issue_cert dumps sign handle pubkey net caps ttl (Some t0) clock0 = Inr wire"
    and t0: "t0 \<noteq> 0"
    and c: "c = new_cert handle pubkey net caps ttl t0"
    and sig_len: "length (sign (dumps (PDict (cert_payload c)))) = SIGNATURE_LEN"
    and sig_ok: "vrf (sign (dumps (PDict (cert_payload c)))) (dumps (PDict (cert_payload c)))"
    and cbor: "loads (dumps (PDict (cert_payload c))) = Some (PDict (cert_payload c))"
  shows "verify_cert rep parse loads vrf (Some net) None clock wire =
    (if clock < t0 + ttl then Inr c else Inl (CertRejected Expired))"
proof -
  let ?payload = "dumps (PDict (cert_payload c))"
  obtain hdr where hdr: "to_bytes4 (length ?payload) = Some hdr"
    and wire: "wire = hdr @ ?payload @ sign ?payload"
    using issued t0
    by (auto simp: issue_cert_def now_or_def c Let_def split: if_splits option.splits)
  have "length hdr = 4" using hdr by (rule length_to_bytes4)
  then have "length wire = 4 + length ?payload + SIGNATURE_LEN"
    by (simp add: wire sig_len)
  moreover have "c_expires_at c = Finite (t0 + ttl)" and "c_network_id c = net"
    by (simp_all add: c new_cert_def)
  moreover have "wire_payload wire = ?payload" and "wire_sig wire = sign ?payload"
    and "from_bytes (take 4 wire) = length ?payload"
    using wire_frame [OF hdr] by (simp_all only: wire)
  ultimately show ?thesis
    using sig_ok decode_cert_payload [of loads ?payload c, OF cbor]
    by (simp add: verify_cert_def Let_def is_expired_def now_or_def)
qed

definition demo_cert :: device_cert where
  "demo_cert = new_cert ''alice'' (replicate 32 7) ''net'' [PStr ''bridge''] 100 1000"

theorem issued_cert_verifies_witness:
  "verify_cert (\<lambda>_. []) (\<lambda>_. None) (\<lambda>_. Some (PDict (cert_payload demo_cert))) (\<lambda>s p. s = replicate 64 1)
     (Some ''net'') None 1050 ([0, 0, 0, 2] @ [5, 6] @ replicate 64 1) = Inr demo_cert"
proof -
  let ?dumps = "\<lambda>_::pyval. [5, 6] :: bytes" and ?sign = "\<lambda>_::bytes. replicate 64 1 :: bytes"
  have issued: "issue_cert ?dumps ?sign ''alice'' (replicate 32 7) ''net'' [PStr ''bridge''] 100
      (Some 1000) 5 = Inr ([0, 0, 0, 2] @ [5, 6] @ replicate 64 1)"
    by (simp add: issue_cert_def to_bytes4_def)
  show ?thesis
    using issued_cert_verifies [OF issued _ demo_cert_def,
        where vrf = "\<lambda>s p. s = replicate 64 1" and rep = "\<lambda>_. []" and parse = "\<lambda>_. None"
          and loads = "\<lambda>_. Some (PDict (cert_payload demo_cert))" and clock = 1050]
    by (simp add: SIGNATURE_LEN_def)
qed

theorem verify_cert_sound_witness:
  "\<exists>hdr payload sig. [0, 0, 0, 2] @ [5, 6] @ replicate 64 (1 :: 8 word) = hdr @ payload @ sig \<and>
     length hdr = 4 \<and> from_bytes hdr = length payload \<and> length sig = SIGNATURE_LEN \<and>
     sig = replicate 64 1 \<and>
     decode_cert (\<lambda>_. []) (\<lambda>_. None) (\<lambda>_. Some (PDict (cert_payload demo_cert))) payload
       = Inr demo_cert \<and>
     \<not> reached (now_or None 1050) (c_expires_at demo_cert) \<and> c_network_id demo_cert = ''net''"
proof -
  have ok: "verify_cert (\<lambda>_. []) (\<lambda>_. None) (\<lambda>_. Some (PDict (cert_payload demo_cert)))
      (\<lambda>s p. s = replicate 64 1) (Some ''net'') None 1050
      ([0, 0, 0, 2] @ [5, 6] @ replicate 64 1) = Inr demo_cert"
    by (simp add: verify_cert_def SIGNATURE_LEN_def from_bytes_def wire_sig_def wire_payload_def
        decode_cert_payload is_expired_def now_or_def demo_cert_def new_cert_def Let_def)
  show ?thesis by (rule verify_cert_sound [OF ok])
qed

end
