(* ===== verification/Pake.thy ===== *)
theory Pake
  imports Prelude
begin

text \<open>
  The password-authenticated key exchange layer (\<open>packages/identity/.../coordinator/pake.py\<close>): the
  framing of registration records and login messages around the SRP library, on both sides. The
  library (\<open>srptools\<close>) is a parameter: a record of the functions the source calls on it, with the
  type of its sessions left open. Random values are arguments.
\<close>

datatype pake_error =
    EmptyRecord
  | UnreasonableSaltLen nat
  | RecordLengthMismatch nat nat
  | BadClientPublic nat
  | NoSessionKey
  | BadProofLength nat
  | ProofFailed
  | SaltTooLong nat
  | ResponseTruncated
  | ResponseSaltLen nat
  | ResponseLengthMismatch nat nat
  | ClientNoKey
  | ClientProofLength nat
  | VerifyBeforeRespond
  | ServerProofMismatch

record 's srp_lib =
  srp_server :: "string \<Rightarrow> bytes \<Rightarrow> bytes \<Rightarrow> bytes \<Rightarrow> bytes \<Rightarrow> 's"
    \<comment> \<open>\<open>SRPServerSession(ctx, verifier, private)\<close> after \<open>process(A, salt)\<close>\<close>
  srp_client :: "string \<Rightarrow> string \<Rightarrow> bytes \<Rightarrow> bytes \<Rightarrow> bytes \<Rightarrow> 's"
    \<comment> \<open>\<open>SRPClientSession(ctx, private)\<close> after \<open>process(B, salt)\<close>\<close>
  srp_public :: "'s \<Rightarrow> bytes"
  srp_key :: "'s \<Rightarrow> bytes"
    \<comment> \<open>\<open>session.key\<close>; a falsy key is the empty one\<close>
  srp_proof :: "'s \<Rightarrow> bytes"
  srp_proof_is_bytes :: "'s \<Rightarrow> bool"
  srp_proof_hash :: "'s \<Rightarrow> bytes"
  srp_verify_proof :: "'s \<Rightarrow> bytes \<Rightarrow> bool"
  srp_user_data :: "string \<Rightarrow> string \<Rightarrow> bytes \<times> bytes"
    \<comment> \<open>\<open>get_user_data_triplet()\<close>: verifier and salt\<close>
  srp_client_public :: "string \<Rightarrow> string \<Rightarrow> bytes \<Rightarrow> bytes"

definition VERIFIER_LEN :: nat where "VERIFIER_LEN = 384"
definition PUB_LEN :: nat where "PUB_LEN = 384"
definition PROOF_LEN :: nat where "PROOF_LEN = 64"
definition MAX_SALT_LEN :: nat where "MAX_SALT_LEN = 64"

text \<open>\<open>b.rjust(n, b"\x00")\<close>.\<close>

definition rjust0 :: "nat \<Rightarrow> bytes \<Rightarrow> bytes" where
  "rjust0 n b = replicate (n - length b) 0 @ b"

record 's login_in_progress =
  li_handle :: string
  li_session :: 's
  li_created_at :: real

definition split_record :: "bytes \<Rightarrow> pake_error + bytes \<times> bytes" where
  "split_record record =
     (case record of
        [] \<Rightarrow> Inl EmptyRecord
      | b # _ \<Rightarrow>
          (let salt_len = unat b
           in if salt_len = 0 \<or> salt_len > MAX_SALT_LEN then Inl (UnreasonableSaltLen salt_len)
              else if length record \<noteq> 1 + salt_len + VERIFIER_LEN
              then Inl (RecordLengthMismatch (1 + salt_len + VERIFIER_LEN) (length record))
              else Inr (take salt_len (drop 1 record), drop (1 + salt_len) record)))"

definition register_finalize :: "string \<Rightarrow> bytes \<Rightarrow> pake_error + bytes" where
  "register_finalize handle payload = bind_r (split_record payload) (\<lambda>_. Inr payload)"

definition srp_login_init ::
  "'s srp_lib \<Rightarrow> bytes \<Rightarrow> real \<Rightarrow> string \<Rightarrow> bytes \<Rightarrow> bytes
     \<Rightarrow> pake_error + 's login_in_progress \<times> bytes" where
  "srp_login_init L private now handle stored_record ke1 =
     bind_r (split_record stored_record) (\<lambda>(salt, verifier).
     if length ke1 \<noteq> PUB_LEN then Inl (BadClientPublic (length ke1))
     else let session = srp_server L handle verifier private ke1 salt
          in if srp_key L session = [] then Inl NoSessionKey
             else let B = srp_public L session;
                      B' = (if length B \<noteq> PUB_LEN then rjust0 PUB_LEN B else B)
                  in Inr (\<lparr>li_handle = handle, li_session = session, li_created_at = now\<rparr>,
                          [word_of_nat (length salt)] @ salt @ B'))"

text \<open>The proof is handed to the library as it arrived, except that a library exposing its own
  proof as text is given text, which only exists for ASCII bytes.\<close>

definition srp_login_finish ::
  "'s srp_lib \<Rightarrow> 's login_in_progress \<Rightarrow> bytes \<Rightarrow> pake_error + bytes" where
  "srp_login_finish L state ke3 =
     (let s = li_session state
      in if length ke3 \<noteq> PROOF_LEN then Inl (BadProofLength (length ke3))
         else if \<not> srp_proof_is_bytes L s \<and> (\<exists>b\<in>set ke3. 128 \<le> unat b) then Inl ProofFailed
         else if \<not> srp_verify_proof L s ke3 then Inl ProofFailed
         else Inr (srp_proof_hash L s))"

definition make_registration :: "'s srp_lib \<Rightarrow> string \<Rightarrow> string \<Rightarrow> pake_error + bytes" where
  "make_registration L handle password =
     (let (verifier, salt) = srp_user_data L handle password;
          verifier' = (if length verifier \<noteq> VERIFIER_LEN then rjust0 VERIFIER_LEN verifier
                       else verifier)
      in if length salt > MAX_SALT_LEN then Inl (SaltTooLong (length salt))
         else Inr ([word_of_nat (length salt)] @ salt @ verifier'))"

record client_login =
  cl_handle :: string
  cl_password :: string
  cl_private :: bytes
  cl_A :: bytes
  cl_session_key :: "bytes option"
  cl_expected_M2 :: "bytes option"

definition client_start :: "'s srp_lib \<Rightarrow> bytes \<Rightarrow> string \<Rightarrow> string \<Rightarrow> client_login" where
  "client_start L priv handle password =
     (let A = srp_client_public L handle password priv;
          A' = (if length A \<noteq> PUB_LEN then rjust0 PUB_LEN A else A)
      in \<lparr>cl_handle = handle, cl_password = password, cl_private = priv, cl_A = A',
          cl_session_key = None, cl_expected_M2 = None\<rparr>)"

definition parse_login_response :: "bytes \<Rightarrow> pake_error + bytes \<times> bytes" where
  "parse_login_response response =
     (case response of
        [] \<Rightarrow> Inl ResponseTruncated
      | b # _ \<Rightarrow>
          (let salt_len = unat b; expected = 1 + salt_len + PUB_LEN
           in if salt_len = 0 \<or> salt_len > MAX_SALT_LEN then Inl (ResponseSaltLen salt_len)
              else if length response \<noteq> expected
              then Inl (ResponseLengthMismatch expected (length response))
              else Inr (take salt_len (drop 1 response), drop (1 + salt_len) response)))"

definition client_respond ::
  "'s srp_lib \<Rightarrow> client_login \<Rightarrow> bytes \<Rightarrow> pake_error + client_login \<times> bytes" where
  "client_respond L c response =
     bind_r (parse_login_response response) (\<lambda>(salt, B).
     let s = srp_client L (cl_handle c) (cl_password c) (cl_private c) B salt
     in if srp_key L s = [] then Inl ClientNoKey
        else let M1 = srp_proof L s
             in if length M1 \<noteq> PROOF_LEN then Inl (ClientProofLength (length M1))
                else Inr (c\<lparr>cl_session_key := Some (srp_key L s),
                          cl_expected_M2 := Some (srp_proof_hash L s)\<rparr>, M1))"

definition verify_server :: "client_login \<Rightarrow> bytes \<Rightarrow> pake_error + unit" where
  "verify_server c M2 =
     (case cl_expected_M2 c of
        None \<Rightarrow> Inl VerifyBeforeRespond
      | Some e \<Rightarrow> if M2 \<noteq> e then Inl ServerProofMismatch else Inr ())"

section \<open>Framing lemmas\<close>

text \<open>A salt and a fixed-width tail behind a one-byte salt length: the shape of both the
  registration record and the login response.\<close>

definition salted :: "bytes \<times> bytes \<Rightarrow> bytes" where
  "salted p = [word_of_nat (length (fst p))] @ fst p @ snd p"

definition salted_ok :: "bytes \<times> bytes \<Rightarrow> bool" where
  "salted_ok p \<longleftrightarrow> 0 < length (fst p) \<and> length (fst p) \<le> MAX_SALT_LEN \<and> length (snd p) = 384"

lemma unat_salt_len: "length s \<le> MAX_SALT_LEN \<Longrightarrow> unat (word_of_nat (length s) :: 8 word) = length s"
  by (simp add: unat_of_nat MAX_SALT_LEN_def)

lemma split_salted: "salted_ok p \<Longrightarrow> split_record (salted p) = Inr p"
  by (cases p) (auto simp: split_record_def salted_def salted_ok_def unat_salt_len VERIFIER_LEN_def
      Let_def)

lemma parse_salted: "salted_ok p \<Longrightarrow> parse_login_response (salted p) = Inr p"
  by (cases p) (auto simp: parse_login_response_def salted_def salted_ok_def unat_salt_len
      PUB_LEN_def Let_def)

definition sum_opt :: "'e + 'a \<Rightarrow> 'a option" where
  "sum_opt r = (case r of Inl _ \<Rightarrow> None | Inr x \<Rightarrow> Some x)"

interpretation salted_record: codec salted "\<lambda>b. sum_opt (split_record b)" salted_ok
  by unfold_locales (simp add: split_salted sum_opt_def)

interpretation salted_response: codec salted "\<lambda>b. sum_opt (parse_login_response b)" salted_ok
  by unfold_locales (simp add: parse_salted sum_opt_def)

lemma split_record_Inr:
  assumes "split_record record = Inr (salt, verifier)"
  shows "record = salted (salt, verifier)" and "salted_ok (salt, verifier)"
proof -
  obtain b rest where rc: "record = b # rest" and small: "unat b \<noteq> 0" "unat b \<le> MAX_SALT_LEN"
    and len: "length rest = unat b + VERIFIER_LEN"
    and parts: "salt = take (unat b) rest" "verifier = drop (unat b) rest"
    using assms by (auto simp: split_record_def Let_def split: list.splits if_splits)
  have "length salt = unat b" using len by (simp add: parts)
  then have "(word_of_nat (length salt) :: 8 word) = b" by simp
  with rc parts show "record = salted (salt, verifier)" by (simp add: salted_def)
  show "salted_ok (salt, verifier)"
    using small len \<open>length salt = unat b\<close> by (simp add: salted_ok_def parts VERIFIER_LEN_def)
qed

lemma length_rjust0: "length b \<le> n \<Longrightarrow> length (rjust0 n b) = n"
  by (simp add: rjust0_def)

lemma rjust0_fit: "length b \<le> n \<Longrightarrow> (if length b \<noteq> n then rjust0 n b else b) = rjust0 n b"
  by (simp add: rjust0_def)

section \<open>Properties\<close>

text \<open>
  Registration and login agree on the record. What the client builds from a salt of 1 to
  64 bytes and a verifier of at most 384 bytes is stored verbatim by the coordinator and splits
  back, at login time, into that same salt and the left-padded verifier.\<close>

theorem registration_record_round_trip:
  assumes data: "srp_user_data L handle password = (verifier, salt)"
    and salt: "0 < length salt" "length salt \<le> MAX_SALT_LEN"
    and verifier: "length verifier \<le> VERIFIER_LEN"
  shows "\<exists>payload. make_registration L handle password = Inr payload \<and>
    register_finalize handle payload = Inr payload \<and>
    split_record payload = Inr (salt, rjust0 VERIFIER_LEN verifier)"
proof -
  let ?p = "(salt, rjust0 VERIFIER_LEN verifier)"
  have ok: "salted_ok ?p"
    using salt verifier by (simp add: salted_ok_def length_rjust0 VERIFIER_LEN_def)
  have "make_registration L handle password = Inr (salted ?p)"
    using data salt rjust0_fit [OF verifier] by (simp add: make_registration_def salted_def Let_def)
  then show ?thesis
    using split_salted [OF ok] by (simp add: register_finalize_def)
qed

definition demo_srp :: "bytes srp_lib" where
  "demo_srp = \<lparr>srp_server = (\<lambda>_ v _ A _. A), srp_client = (\<lambda>_ _ _ B _. B), srp_public = (\<lambda>s. [9, 9]),
     srp_key = (\<lambda>_. [1]), srp_proof = (\<lambda>_. replicate 64 48),
     srp_proof_is_bytes = (\<lambda>_. False), srp_proof_hash = (\<lambda>_. [1]),
     srp_verify_proof = (\<lambda>_ p. p = replicate 64 48), srp_user_data = (\<lambda>_ _. ([3, 4], [1, 2])),
     srp_client_public = (\<lambda>_ _ _. [7])\<rparr>"

theorem registration_record_round_trip_witness:
  "\<exists>payload. make_registration demo_srp ''alice'' ''pw'' = Inr payload \<and>
     register_finalize ''alice'' payload = Inr payload \<and>
     split_record payload = Inr ([1, 2], rjust0 VERIFIER_LEN [3, 4])"
  by (rule registration_record_round_trip)
    (simp_all add: demo_srp_def MAX_SALT_LEN_def VERIFIER_LEN_def)

text \<open>
  the two halves of the login exchange understand each other. If the coordinator answers
  a login request, with a library whose public value fits the group, then the record it was given
  is a well-formed one, the client's 384-byte public value was presented, and the client parses the
  response into exactly the stored salt and the coordinator's padded public value.\<close>

theorem login_response_understood:
  assumes init: "srp_login_init L private now handle record ke1 = Inr (state, response)"
    and fits: "length (srp_public L (li_session state)) \<le> PUB_LEN"
  shows "\<exists>salt verifier. record = salted (salt, verifier) \<and> length ke1 = PUB_LEN \<and>
    li_handle state = handle \<and> li_session state = srp_server L handle verifier private ke1 salt \<and>
    parse_login_response response =
      Inr (salt, rjust0 PUB_LEN (srp_public L (li_session state)))"
proof -
  obtain salt verifier where rec: "split_record record = Inr (salt, verifier)"
    and ke1: "length ke1 = PUB_LEN"
    and st: "li_session state = srp_server L handle verifier private ke1 salt"
      "li_handle state = handle"
    and resp: "response = [word_of_nat (length salt)] @ salt @
       (if length (srp_public L (li_session state)) \<noteq> PUB_LEN
        then rjust0 PUB_LEN (srp_public L (li_session state))
        else srp_public L (li_session state))"
    using init by (auto simp: srp_login_init_def bind_r_Inr_iff Let_def split: if_splits)
  let ?B = "rjust0 PUB_LEN (srp_public L (li_session state))"
  have "response = salted (salt, ?B)"
    using resp rjust0_fit [OF fits] by (simp add: salted_def)
  moreover have "salted_ok (salt, ?B)"
    using split_record_Inr(2) [OF rec] fits by (simp add: salted_ok_def length_rjust0 PUB_LEN_def)
  ultimately have "parse_login_response response = Inr (salt, ?B)"
    by (simp add: parse_salted)
  then show ?thesis using split_record_Inr(1) [OF rec] ke1 st by blast
qed

theorem login_response_understood_witness:
  "\<exists>salt verifier. salted ([5], replicate 384 0) = salted (salt, verifier) \<and>
     length (replicate 384 1 :: bytes) = PUB_LEN \<and> ''bob'' = ''bob'' \<and>
     replicate 384 1 = srp_server demo_srp ''bob'' verifier [] (replicate 384 1) salt \<and>
     parse_login_response (salted ([5], rjust0 PUB_LEN [9, 9])) =
       Inr (salt, rjust0 PUB_LEN (srp_public demo_srp (replicate 384 1)))"
proof -
  let ?st = "\<lparr>li_handle = ''bob'', li_session = replicate 384 1, li_created_at = 7\<rparr>"
  have rec: "split_record (salted ([5], replicate 384 0)) = Inr ([5], replicate 384 0)"
    by (rule split_salted) (simp add: salted_ok_def MAX_SALT_LEN_def)
  have "srp_login_init demo_srp [] 7 ''bob'' (salted ([5], replicate 384 0)) (replicate 384 1) =
      Inr (?st, salted ([5], rjust0 PUB_LEN [9, 9]))"
    unfolding srp_login_init_def rec by (simp add: demo_srp_def PUB_LEN_def salted_def)
  from login_response_understood [OF this] show ?thesis
    by (simp add: demo_srp_def PUB_LEN_def)
qed

end
