(* ===== verification/Identity.thy ===== *)
theory Identity
  imports Prelude
begin

text \<open>
  Ed25519 identities (\<open>packages/identity/.../identity.py\<close>): reading and migrating the key file,
  publishing a new one without replacing another process's, and the decoding of Iroh node ids.
  Several processes (desktop app, command line, agent) may run \<open>load_or_create_identity\<close> on one
  path at once, so the procedure is also given as a machine whose steps are the system calls that
  touch the path; the result is that all of them end up with the persisted key.

  A key file is its permission bits and its content. Parsing a PEM key is a parameter (\<open>None\<close> is
  any failure of it), as are whether the system is POSIX and the parser of node ids.
\<close>

record key_file =
  kf_mode :: nat
  kf_data :: bytes

datatype id_error = MissingFile | BadPermissions nat | BadKeyFile | BadSecretLength nat

definition SECRET_KEY_LEN :: nat where
  "SECRET_KEY_LEN = 32"

definition from_secret_bytes :: "bytes \<Rightarrow> id_error + bytes" where
  "from_secret_bytes secret =
     (if length secret \<noteq> SECRET_KEY_LEN then Inl (BadSecretLength (length secret)) else Inr secret)"

text \<open>\<open>0o600\<close>, and the bits \<open>0o077\<close> of group and others.\<close>

definition private_file :: "bytes \<Rightarrow> key_file" where
  "private_file data = \<lparr>kf_mode = 6 * 64, kf_data = data\<rparr>"

definition atomic_write_secret :: "bytes \<Rightarrow> key_file option \<Rightarrow> key_file option" where
  "atomic_write_secret data _ = Some (private_file data)"

definition publish_new_secret :: "bytes \<Rightarrow> key_file option \<Rightarrow> bool \<times> key_file option" where
  "publish_new_secret data fs =
     (case fs of None \<Rightarrow> (True, Some (private_file data)) | Some f \<Rightarrow> (False, Some f))"

definition read_identity ::
  "bool \<Rightarrow> (bytes \<Rightarrow> bytes option) \<Rightarrow> key_file option \<Rightarrow> (id_error + bytes) \<times> key_file option" where
  "read_identity posix pem fs =
     (case fs of
        None \<Rightarrow> (Inl MissingFile, fs)
      | Some f \<Rightarrow>
          if posix \<and> kf_mode f mod 64 \<noteq> 0 then (Inl (BadPermissions (kf_mode f mod 512)), fs)
          else if length (kf_data f) \<noteq> SECRET_KEY_LEN then
            (case pem (kf_data f) of
               None \<Rightarrow> (Inl BadKeyFile, fs)
             | Some secret \<Rightarrow> (from_secret_bytes secret, atomic_write_secret secret fs))
          else (from_secret_bytes (kf_data f), fs))"

text \<open>One process on its own; \<open>secret\<close> is what \<open>secrets.token_bytes\<close> returns.\<close>

definition load_or_create_identity ::
  "bool \<Rightarrow> (bytes \<Rightarrow> bytes option) \<Rightarrow> bytes \<Rightarrow> key_file option
     \<Rightarrow> (id_error + bytes) \<times> key_file option" where
  "load_or_create_identity posix pem secret fs =
     (case read_identity posix pem fs of
        (Inl MissingFile, fs1) \<Rightarrow>
          (case from_secret_bytes secret of
             Inl e \<Rightarrow> (Inl e, fs1)
           | Inr key \<Rightarrow>
               (case publish_new_secret key fs1 of
                  (True, fs2) \<Rightarrow> (Inr key, fs2)
                | (False, fs2) \<Rightarrow> read_identity posix pem fs2))
      | r \<Rightarrow> r)"

text \<open>\<open>iroh_node_id_public_bytes\<close>: \<open>None\<close> is its \<open>ValueError\<close>.\<close>

definition iroh_node_id_public_bytes :: "(string \<Rightarrow> bytes option) \<Rightarrow> string \<Rightarrow> bytes option" where
  "iroh_node_id_public_bytes node_key node_id =
     (let value = strip node_id
      in if value = [] then None
         else case node_key value of
                None \<Rightarrow> None
              | Some raw \<Rightarrow> if length raw \<noteq> 32 then None else Some raw)"

section \<open>Concurrent first creation\<close>

datatype id_pc = Starting | Creating | Losing | Finished "id_error + bytes"

text \<open>One step of process \<open>i\<close>, whose random secret is \<open>secrets i\<close>.\<close>

fun id_step ::
  "bool \<Rightarrow> (bytes \<Rightarrow> bytes option) \<Rightarrow> (nat \<Rightarrow> bytes) \<Rightarrow> key_file option \<times> (nat \<Rightarrow> id_pc) \<Rightarrow> nat
     \<Rightarrow> key_file option \<times> (nat \<Rightarrow> id_pc)" where
  "id_step posix pem secrets (fs, pc) i =
     (case pc i of
        Starting \<Rightarrow>
          (case read_identity posix pem fs of
             (Inl MissingFile, fs1) \<Rightarrow> (fs1, pc(i := Creating))
           | (r, fs1) \<Rightarrow> (fs1, pc(i := Finished r)))
      | Creating \<Rightarrow>
          (case from_secret_bytes (secrets i) of
             Inl e \<Rightarrow> (fs, pc(i := Finished (Inl e)))
           | Inr key \<Rightarrow>
               (case publish_new_secret key fs of
                  (True, fs1) \<Rightarrow> (fs1, pc(i := Finished (Inr key)))
                | (False, fs1) \<Rightarrow> (fs1, pc(i := Losing))))
      | Losing \<Rightarrow> (case read_identity posix pem fs of (r, fs1) \<Rightarrow> (fs1, pc(i := Finished r)))
      | Finished r \<Rightarrow> (fs, pc))"

lemma read_private:
  "length data = SECRET_KEY_LEN \<Longrightarrow>
     read_identity posix pem (Some (private_file data)) = (Inr data, Some (private_file data))"
  by (simp add: read_identity_def private_file_def from_secret_bytes_def)

text \<open>The invariant: nothing is published and nobody has finished or lost, or one proper secret is
  published and whoever has finished holds it.\<close>

definition id_agree :: "key_file option \<times> (nat \<Rightarrow> id_pc) \<Rightarrow> bool" where
  "id_agree st \<longleftrightarrow>
     (case st of
        (None, pc) \<Rightarrow> (\<forall>i. pc i \<in> {Starting, Creating})
      | (Some f, pc) \<Rightarrow>
          f = private_file (kf_data f) \<and> length (kf_data f) = SECRET_KEY_LEN \<and>
          (\<forall>i r. pc i = Finished r \<longrightarrow> r = Inr (kf_data f)))"

lemma id_step_agree:
  assumes "\<forall>i. length (secrets i) = SECRET_KEY_LEN" and "id_agree st"
  shows "id_agree (id_step posix pem secrets st i)"
proof -
  obtain fs pc where st: "st = (fs, pc)" by (cases st)
  have gen: "from_secret_bytes (secrets i) = Inr (secrets i)"
    using assms(1) by (simp add: from_secret_bytes_def)
  show ?thesis
  proof (cases fs)
    case None
    with assms(2) have start: "\<forall>j. pc j = Starting \<or> pc j = Creating" by (simp add: st id_agree_def)
    then have "\<forall>j. pc j \<noteq> Losing \<and> (\<forall>r. pc j \<noteq> Finished r)" by (metis id_pc.distinct)
    with start assms(1) gen None show ?thesis
      by (cases "pc i")
        (auto simp: st id_agree_def read_identity_def publish_new_secret_def private_file_def)
  next
    case (Some f)
    with assms(2) have f: "f = private_file (kf_data f)" "length (kf_data f) = SECRET_KEY_LEN"
      and fin: "\<forall>j r. pc j = Finished r \<longrightarrow> r = Inr (kf_data f)"
      by (simp_all add: st id_agree_def)
    have rd: "read_identity posix pem (Some f) = (Inr (kf_data f), Some f)"
      using read_private [OF f(2)] f(1) by metis
    from fin show ?thesis
      using gen rd f
      by (cases "pc i") (auto simp: st Some id_agree_def publish_new_secret_def)
  qed
qed

interpretation creation: invariant_system "id_step posix pem secrets"
    "\<lambda>st. (\<forall>i. length (secrets i) = SECRET_KEY_LEN) \<longrightarrow> id_agree st"
  for posix pem secrets
  by unfold_locales (blast intro: id_step_agree)

text \<open>Steps a process still has to take.\<close>

fun id_work :: "id_pc \<Rightarrow> nat" where
  "id_work Starting = 3" | "id_work Creating = 2" | "id_work Losing = 1" | "id_work (Finished _) = 0"

lemma id_step_work:
  "id_work (snd (id_step posix pem secrets st i) j) \<le> id_work (snd st j) - (if i = j then 1 else 0)"
proof (cases st)
  case (Pair fs pc)
  then show ?thesis
    by (cases "pc i")
      (auto simp: publish_new_secret_def split: prod.splits sum.splits id_error.splits option.splits)
qed

lemma run_work:
  "id_work (snd (run_ops (id_step posix pem secrets) st sched) j) \<le>
     id_work (snd st j) - length (filter (\<lambda>i. i = j) sched)"
proof (induction sched arbitrary: st)
  case Nil
  show ?case by simp
next
  case (Cons i sched)
  have "id_work (snd (run_ops (id_step posix pem secrets) st (i # sched)) j) \<le>
      id_work (snd (id_step posix pem secrets st i) j) - length (filter (\<lambda>i. i = j) sched)"
    using Cons.IH by simp
  also have "\<dots> \<le> id_work (snd st j) - length (filter (\<lambda>k. k = j) (i # sched))"
    using id_step_work [of posix pem secrets st i j] by (cases "i = j") simp_all
  finally show ?case .
qed

lemma id_work_0: "id_work p = 0 \<longleftrightarrow> (\<exists>r. p = Finished r)"
  by (cases p) auto

section \<open>Properties\<close>

text \<open>
  Any number of processes may create the identity at once, in any interleaving of their steps.
  Every process that has been scheduled three times has returned, and all of them hold one and the
  same key: the one on disk, in a private file.
\<close>

theorem first_creation_agrees:
  assumes "\<forall>i. length (secrets i) = SECRET_KEY_LEN"
    and "run_ops (id_step posix pem secrets) (None, \<lambda>_. Starting) sched = (fs, pc)"
    and "3 \<le> length (filter (\<lambda>i. i = j) sched)"
  shows "\<exists>key. pc j = Finished (Inr key) \<and> fs = Some (private_file key) \<and>
    length key = SECRET_KEY_LEN"
proof -
  have "id_agree (None, \<lambda>_. Starting)" by (simp add: id_agree_def)
  then have inv: "id_agree (fs, pc)"
    using creation.run_inv [of secrets "(None, \<lambda>_. Starting)" posix pem sched] assms(1,2) by simp
  have "id_work (pc j) \<le> 3 - length (filter (\<lambda>i. i = j) sched)"
    using run_work [of posix pem secrets "(None, \<lambda>_. Starting)" sched j] assms(2) by simp
  then obtain r where r: "pc j = Finished r" using assms(3) id_work_0 by force
  have "fs \<noteq> None"
  proof
    assume "fs = None"
    with inv have "pc j = Starting \<or> pc j = Creating" by (simp add: id_agree_def)
    with r show False by simp
  qed
  then obtain f where fs: "fs = Some f" by blast
  with inv r have "r = Inr (kf_data f)" "f = private_file (kf_data f)"
    "length (kf_data f) = SECRET_KEY_LEN" by (simp_all add: id_agree_def)
  with fs r show ?thesis by metis
qed

theorem first_creation_agrees_witness:
  "\<exists>fs pc key. run_ops (id_step True (\<lambda>_. None) (\<lambda>i. replicate 32 (word_of_nat i)))
       (None, \<lambda>_. Starting) [1, 2, 2, 1, 2, 1] = (fs, pc) \<and>
     pc 1 = Finished (Inr key) \<and> fs = Some (private_file key)"
proof -
  obtain fs pc where run: "run_ops (id_step True (\<lambda>_. None) (\<lambda>i. replicate 32 (word_of_nat i)))
       (None, \<lambda>_. Starting) [1, 2, 2, 1, 2, 1] = (fs, pc)" by fastforce
  have "\<exists>key. pc 1 = Finished (Inr key) \<and> fs = Some (private_file key) \<and>
      length key = SECRET_KEY_LEN"
    using first_creation_agrees [OF _ run, of 1] by (simp add: SECRET_KEY_LEN_def)
  with run show ?thesis by blast
qed

text \<open>
  C2: A persisted identity is stable. Once \<open>load_or_create_identity\<close> has returned a key, calling
  it again, with any other random secret, returns the same key and leaves the file alone; a file
  that group or others can access is never used on a POSIX system.
\<close>

theorem identity_is_stable:
  assumes "load_or_create_identity posix pem secret fs = (Inr key, fs')"
  shows "load_or_create_identity posix pem secret' fs' = (Inr key, fs') \<and> length key = SECRET_KEY_LEN \<and>
    (posix \<longrightarrow> (\<forall>f. fs = Some f \<longrightarrow> kf_mode f mod 64 = 0))"
proof -
  have kf: "private_file d = \<lparr>kf_mode = 384, kf_data = d\<rparr>" for d by (simp add: private_file_def)
  show ?thesis
    using assms
    by (auto simp: load_or_create_identity_def read_identity_def publish_new_secret_def
        from_secret_bytes_def atomic_write_secret_def kf
        split: option.splits if_splits prod.splits sum.splits id_error.splits)
qed

theorem identity_is_stable_witness:
  "load_or_create_identity True (\<lambda>_. None) (replicate 32 7)
     (Some (private_file (replicate 32 9))) = (Inr (replicate 32 9), Some (private_file (replicate 32 9)))"
proof -
  have "load_or_create_identity True (\<lambda>_. None) (replicate 32 9) None =
      (Inr (replicate 32 9), Some (private_file (replicate 32 9)))"
    by (simp add: load_or_create_identity_def read_identity_def from_secret_bytes_def
        SECRET_KEY_LEN_def publish_new_secret_def)
  from identity_is_stable [OF this, of "replicate 32 7"] show ?thesis by blast
qed

end
