(* ===== verification/Coordinator_Service.thy ===== *)
theory Coordinator_Service
  imports Coordinator_Store Device_Cert Pake Identity
begin

text \<open>
  The coordinator's RPC service (\<open>packages/identity/.../coordinator/service.py\<close>): the twelve
  methods with their guards in the order of the code, the dispatcher, the frame reader and writer,
  and the collector of stale logins. Handlers run against the store, certificate and PAKE models
  of the imported theories.

  The state of a service is the database, the table of logins in progress and the calls made to
  the revocation callback. A handler returns its result or exception together with the state, so
  a use of an invitation stays spent when the handler raises afterwards. Human-readable error
  texts and log lines are not modelled; an error is its code. Methods run one at a time here:
  overlapping redemptions are the subject of the store theory.

  Outside the package, hence fields of the environment: the CBOR library, Ed25519 signing and
  verification, the SRP library, the parser of Iroh node ids, the text of non-text values, and
  whether the database enforces foreign keys. Clock, random values and the peer's node id are the
  inputs of a call.
\<close>

section \<open>Environment, inputs and state\<close>

text \<open>\<open>RpcError code\<close> is \<open>_CoordinatorRpcError\<close>; \<open>ValueErr\<close> is a \<open>ValueError\<close> or \<open>PakeError\<close>
  escaping from a handler, \<open>Other\<close> any other exception.\<close>

datatype rpc_exn = RpcError string | ValueErr | Other

record 's rpc_env =
  e_network_id :: string
  e_network_name :: string
  e_sign :: "bytes \<Rightarrow> bytes"
  e_vrf :: "bytes \<Rightarrow> bytes \<Rightarrow> bool"
  e_dumps :: "pyval \<Rightarrow> bytes"
  e_loads :: "bytes \<Rightarrow> pyval option"
  e_cbor_value_error :: bool
    \<comment> \<open>whether the exception of a failed \<open>cbor2.loads\<close> is a \<open>ValueError\<close>\<close>
  e_rep :: "pyval \<Rightarrow> string"
  e_parse_float :: "pyval \<Rightarrow> pyfloat option"
  e_parse_int :: "pyval \<Rightarrow> int option"
    \<comment> \<open>\<open>int(v)\<close> on text\<close>
  e_column_text :: "pyval \<Rightarrow> string"
    \<comment> \<open>what a text column holds after a number or blob was bound to it\<close>
  e_srp :: "'s srp_lib"
  e_node_key :: "string \<Rightarrow> bytes option"
    \<comment> \<open>\<open>iroh.PublicKey.from_string(s).to_bytes()\<close>, \<open>None\<close> when it raises\<close>
  e_fk :: bool
  e_has_callback :: bool
  e_message :: "rpc_exn \<Rightarrow> string"
    \<comment> \<open>the human-readable text of an error\<close>

record rpc_call =
  k_peer :: string
  k_now :: real
  k_private :: bytes
  k_uuid :: string
  k_code_bytes :: bytes
  k_busy :: bool
    \<comment> \<open>the \<open>last_seen\<close> write meets \<open>sqlite3.OperationalError\<close>\<close>

record 's service =
  sv_db :: coord_db
  sv_logins :: "(string, 's login_in_progress) dict"
  sv_notified :: "bytes list"

type_synonym ('s, 'a) rpc = "('s service, rpc_exn, 'a) handler"

definition LOGIN_STATE_TTL :: real where
  "LOGIN_STATE_TTL = 30"

definition bad_request :: rpc_exn where "bad_request = RpcError ''bad_request''"
definition unauthorized :: rpc_exn where "unauthorized = RpcError ''unauthorized''"
definition invalid_invite :: rpc_exn where "invalid_invite = RpcError ''invalid_invite''"

lemmas rpc_codes = bad_request_def unauthorized_def invalid_invite_def

section \<open>Parameters\<close>

definition substring :: "string \<Rightarrow> string \<Rightarrow> bool" where
  "substring p s = list_ex (\<lambda>i. startswith (drop i s) p) [0..<Suc (length s)]"

text \<open>\<open>name in params\<close>, \<open>params[name]\<close> and \<open>params.get(name)\<close>. The parameters are whatever truthy
  value the request carries; anything but a map fails sooner or later.\<close>

fun has_param :: "pyval \<Rightarrow> string \<Rightarrow> rpc_exn + bool" where
  "has_param (PDict d) name = Inr (pget name d \<noteq> None)"
| "has_param (PList xs) name = Inr (PStr name \<in> set xs)"
| "has_param (PStr s) name = Inr (substring name s)"
| "has_param _ name = Inl Other"

fun subscript :: "pyval \<Rightarrow> string \<Rightarrow> rpc_exn + pyval" where
  "subscript (PDict d) name = of_opt Other (pget name d)"
| "subscript _ name = Inl Other"

fun get_param :: "pyval \<Rightarrow> string \<Rightarrow> rpc_exn + pyval" where
  "get_param (PDict d) name = Inr (pget_or PNone name d)"
| "get_param _ name = Inl Other"

definition required :: "pyval \<Rightarrow> string \<Rightarrow> (pyval \<Rightarrow> 'a option) \<Rightarrow> rpc_exn + 'a" where
  "required params name ty =
     bind_r (has_param params name) (\<lambda>present.
     if \<not> present then Inl bad_request
     else bind_r (subscript params name) (\<lambda>val. of_opt bad_request (ty val)))"

fun as_str :: "pyval \<Rightarrow> string option" where
  "as_str (PStr s) = Some s" | "as_str _ = None"

fun as_bytes :: "pyval \<Rightarrow> bytes option" where
  "as_bytes (PBytes b) = Some b" | "as_bytes _ = None"

text \<open>\<open>int(v)\<close>.\<close>

fun py_int :: "(pyval \<Rightarrow> int option) \<Rightarrow> pyval \<Rightarrow> rpc_exn + int" where
  "py_int parse (PInt i) = Inr i"
| "py_int parse (PBool b) = Inr (of_bool b)"
| "py_int parse (PFloat (Finite r)) = Inr (if r < 0 then \<lceil>r\<rceil> else \<lfloor>r\<rfloor>)"
| "py_int parse (PFloat NotANumber) = Inl ValueErr"
| "py_int parse (PFloat _) = Inl Other"
| "py_int parse (PStr s) = of_opt ValueErr (parse (PStr s))"
| "py_int parse (PBytes b) = of_opt ValueErr (parse (PBytes b))"
| "py_int parse _ = Inl Other"

text \<open>Binding an optional text column: SQLite takes \<open>None\<close>, text, numbers and blobs, and refuses
  containers.\<close>

fun column :: "(pyval \<Rightarrow> string) \<Rightarrow> pyval \<Rightarrow> rpc_exn + string option" where
  "column txt PNone = Inr None"
| "column txt (PStr s) = Inr (Some s)"
| "column txt (PList _) = Inl Other"
| "column txt (PDict _) = Inl Other"
| "column txt v = Inr (Some (txt v))"

section \<open>Store calls\<close>

text \<open>\<open>consume_invitation\<close> on whatever the caller sent: anything but text raises before the
  database is read.\<close>

definition redeem :: "rpc_call \<Rightarrow> pyval \<Rightarrow> ('s, invitation_row option) rpc" where
  "redeem k code s =
     (case code of
        PStr c \<Rightarrow>
          (let (ivt, db) = consume_invitation c (k_now k) (sv_db s)
           in (Inr ivt, s\<lparr>sv_db := db\<rparr>))
      | _ \<Rightarrow> (Inl Other, s))"

definition add_user :: "rpc_call \<Rightarrow> string \<Rightarrow> bytes \<Rightarrow> bool \<Rightarrow> ('s, bool) rpc" where
  "add_user k handle record claim s =
     (case create_user handle record ''srp6a'' claim (k_now k) (sv_db s) of
        Inl _ \<Rightarrow> (Inl Other, s)
      | Inr (claimed, db) \<Rightarrow> (Inr claimed, s\<lparr>sv_db := db\<rparr>))"

definition enrol_device ::
  "'s rpc_env \<Rightarrow> rpc_call \<Rightarrow> bytes \<Rightarrow> string \<Rightarrow> string option \<Rightarrow> ('s, unit) rpc" where
  "enrol_device E k pubkey handle label s =
     (case add_device (e_fk E) pubkey handle label (k_now k) (sv_db s) of
        Inl _ \<Rightarrow> (Inl Other, s)
      | Inr db \<Rightarrow> (Inr (), s\<lparr>sv_db := db\<rparr>))"

definition enrol_agent ::
  "rpc_call \<Rightarrow> string \<Rightarrow> string \<Rightarrow> string \<Rightarrow> string option \<Rightarrow> ('s, unit) rpc" where
  "enrol_agent k handle node_id owner label s =
     (Inr (), s\<lparr>sv_db := register_agent handle node_id owner label (k_now k) (sv_db s)\<rparr>)"

text \<open>The \<open>last_seen\<close> write of a returning device; a busy database is tolerated.\<close>

definition refresh_device :: "rpc_call \<Rightarrow> bytes \<Rightarrow> ('s, unit) rpc" where
  "refresh_device k pubkey s =
     (Inr (), if k_busy k then s else s\<lparr>sv_db := touch_device pubkey (k_now k) (sv_db s)\<rparr>)"

definition mint ::
  "'s rpc_env \<Rightarrow> rpc_call \<Rightarrow> string \<Rightarrow> bytes \<Rightarrow> pyval list \<Rightarrow> rpc_exn + bytes" where
  "mint E k handle pubkey caps =
     (case issue_cert (e_dumps E) (e_sign E) handle pubkey (e_network_id E) caps CERT_TTL_SECONDS
             None (k_now k) of
        Inl (BadPubkeyLength _) \<Rightarrow> Inl ValueErr
      | Inl LengthOverflow \<Rightarrow> Inl Other
      | Inr wire \<Rightarrow> Inr wire)"

section \<open>Registration and login\<close>

definition m_register :: "rpc_call \<Rightarrow> pyval \<Rightarrow> ('s, pyval) rpc" where
  "m_register k params =
     bind_s (lift_s (required params ''invite'' as_str)) (\<lambda>invite_code.
     bind_s (lift_s (required params ''handle'' as_str)) (\<lambda>handle0.
     let handle = lower (strip handle0) in
     bind_s (lift_s (required params ''pake_record'' as_bytes)) (\<lambda>record.
     bind_s (redeem k (PStr invite_code)) (\<lambda>invite s.
     case invite of
       None \<Rightarrow> raise_s invalid_invite s
     | Some ivt \<Rightarrow>
         if i_role ivt \<noteq> ''user'' then raise_s invalid_invite s
         else if get_user (sv_db s) handle \<noteq> None then raise_s (RpcError ''conflict'') s
         else
           (let claim = (i_created_by ivt = Some ''auto-bootstrap'' \<and> list_users (sv_db s) = [])
            in case register_finalize handle record of
                 Inl _ \<Rightarrow> raise_s ValueErr s
               | Inr validated \<Rightarrow>
                   bind_s (add_user k handle validated claim) (\<lambda>_.
                   ret_s (PDict [(PStr ''ok'', PBool True), (PStr ''handle'', PStr handle)])) s)))))"

definition m_login_init :: "'s rpc_env \<Rightarrow> rpc_call \<Rightarrow> pyval \<Rightarrow> ('s, pyval) rpc" where
  "m_login_init E k params =
     bind_s (lift_s (required params ''handle'' as_str)) (\<lambda>handle0.
     let handle = lower (strip handle0) in
     bind_s (lift_s (required params ''ke1'' as_bytes)) (\<lambda>ke1 s.
     case get_user (sv_db s) handle of
       None \<Rightarrow> raise_s unauthorized s
     | Some user \<Rightarrow>
         if u_status user \<noteq> ''active'' then raise_s unauthorized s
         else
           (case srp_login_init (e_srp E) (k_private k) (k_now k) handle (u_pake_record user) ke1 of
              Inl _ \<Rightarrow> raise_s unauthorized s
            | Inr (state, response) \<Rightarrow>
                ret_s (PDict [(PStr ''state_id'', PStr (k_uuid k)),
                              (PStr ''response'', PBytes response)])
                  (s\<lparr>sv_logins := dict_set (k_uuid k) state (sv_logins s)\<rparr>))))"

text \<open>The proof of possession: outside the process-local transport, the device key is the key the
  QUIC handshake authenticated.\<close>

definition check_peer_key :: "'s rpc_env \<Rightarrow> string \<Rightarrow> bytes \<Rightarrow> rpc_exn + unit" where
  "check_peer_key E peer device_pubkey =
     (if startswith peer ''inproc:'' then Inr ()
      else case iroh_node_id_public_bytes (e_node_key E) peer of
             None \<Rightarrow> Inl unauthorized
           | Some k \<Rightarrow> if k \<noteq> device_pubkey then Inl unauthorized else Inr ())"

definition pop_login :: "string \<Rightarrow> ('s, 's login_in_progress) rpc" where
  "pop_login state_id s =
     (case dict_get (sv_logins s) state_id of
        None \<Rightarrow> (Inl (RpcError ''expired''), s)
      | Some st \<Rightarrow> (Inr st, s\<lparr>sv_logins := dict_pop state_id (sv_logins s)\<rparr>))"

text \<open>Binding an unknown device: a user's first device needs nothing more, a further one a user or
  device invitation that is not bound to somebody else.\<close>

definition check_device_invite :: "string \<Rightarrow> invitation_row option \<Rightarrow> ('s, unit) rpc" where
  "check_device_invite handle ivt =
     (case ivt of
        None \<Rightarrow> raise_s invalid_invite
      | Some i \<Rightarrow>
          if i_role i \<notin> {''user'', ''device''} then raise_s invalid_invite
          else if i_bind_to_handle i \<noteq> None \<and> i_bind_to_handle i \<noteq> Some [] \<and>
                  i_bind_to_handle i \<noteq> Some handle
          then raise_s invalid_invite
          else ret_s ())"

definition admit_device :: "rpc_call \<Rightarrow> string \<Rightarrow> pyval \<Rightarrow> ('s, unit) rpc" where
  "admit_device k handle invite_code s =
     (if \<not> user_has_devices (sv_db s) handle then ret_s () s
      else if \<not> truthy invite_code then raise_s invalid_invite s
      else bind_s (redeem k invite_code) (check_device_invite handle) s)"

definition bind_device ::
  "'s rpc_env \<Rightarrow> rpc_call \<Rightarrow> string \<Rightarrow> bytes \<Rightarrow> pyval \<Rightarrow> pyval \<Rightarrow> ('s, unit) rpc" where
  "bind_device E k handle pubkey label invite_code s =
     (case get_device (sv_db s) pubkey of
        None \<Rightarrow>
          bind_s (admit_device k handle invite_code) (\<lambda>_.
          bind_s (lift_s (column (e_column_text E) label)) (\<lambda>lbl.
          enrol_device E k pubkey handle lbl)) s
      | Some d \<Rightarrow>
          if d_status d \<noteq> ''active'' then raise_s (RpcError ''revoked'') s
          else refresh_device k pubkey s)"

definition m_login_finish :: "'s rpc_env \<Rightarrow> rpc_call \<Rightarrow> pyval \<Rightarrow> ('s, pyval) rpc" where
  "m_login_finish E k params =
     bind_s (lift_s (required params ''state_id'' as_str)) (\<lambda>state_id.
     bind_s (lift_s (required params ''ke3'' as_bytes)) (\<lambda>ke3.
     bind_s (lift_s (required params ''device_pubkey'' as_bytes)) (\<lambda>device_pubkey.
     bind_s (lift_s (get_param params ''label'')) (\<lambda>label.
     bind_s (lift_s (get_param params ''invite'')) (\<lambda>invite_code.
     bind_s (lift_s (check_peer_key E (k_peer k) device_pubkey)) (\<lambda>_.
     bind_s (pop_login state_id) (\<lambda>state.
     case srp_login_finish (e_srp E) state ke3 of
       Inl _ \<Rightarrow> raise_s unauthorized
     | Inr m2 \<Rightarrow>
         bind_s (bind_device E k (li_handle state) device_pubkey label invite_code) (\<lambda>_.
         bind_s (lift_s (mint E k (li_handle state) device_pubkey [])) (\<lambda>cert.
         ret_s (PDict [(PStr ''cert'', PBytes cert), (PStr ''m2'', PBytes m2)]))))))))))"

section \<open>Directory and device status\<close>

definition opt_str :: "string option \<Rightarrow> pyval" where
  "opt_str x = (case x of None \<Rightarrow> PNone | Some s \<Rightarrow> PStr s)"

definition opt_time :: "real option \<Rightarrow> pyval" where
  "opt_time x = (case x of None \<Rightarrow> PNone | Some t \<Rightarrow> PFloat (Finite t))"

definition agent_entry :: "agent_row \<Rightarrow> pyval" where
  "agent_entry r = PDict
     [(PStr ''handle'', PStr (a_handle r)), (PStr ''node_id'', PStr (a_node_id r)),
      (PStr ''label'', opt_str (a_label r)), (PStr ''owner_handle'', PStr (a_owner_handle r)),
      (PStr ''added_at'', PFloat (Finite (a_added_at r))),
      (PStr ''last_seen'', opt_time (a_last_seen r))]"

definition m_list_agents :: "('s, pyval) rpc" where
  "m_list_agents s =
     ret_s (PDict [(PStr ''agents'', PList (map agent_entry (list_agents (sv_db s))))]) s"

definition device_entry :: "string \<times> string \<Rightarrow> pyval" where
  "device_entry p = PDict [(PStr ''device_id'', PStr (fst p)), (PStr ''handle'', PStr (snd p))]"

definition directory_entry :: "directory \<Rightarrow> pyval" where
  "directory_entry d = PDict
     [(PStr ''users'', PList (map PStr (dir_users d))),
      (PStr ''agents'', PList (map PStr (dir_agents d))),
      (PStr ''devices'', PList (map device_entry (dir_devices d)))]"

definition m_runtime_directory :: "rpc_call \<Rightarrow> ('s, pyval) rpc" where
  "m_runtime_directory k s =
     (if \<not> agent_is_registered (sv_db s) (k_peer k) then raise_s unauthorized s
      else ret_s (directory_entry (runtime_directory (sv_db s))) s)"

definition m_device_status :: "rpc_call \<Rightarrow> pyval \<Rightarrow> ('s, pyval) rpc" where
  "m_device_status k params s =
     (if \<not> agent_is_registered (sv_db s) (k_peer k) then raise_s unauthorized s
      else bind_s (lift_s (required params ''device_pubkey'' as_bytes)) (\<lambda>pubkey s.
        if length pubkey \<noteq> 32 then raise_s bad_request s
        else ret_s (PDict [(PStr ''active'', PBool (get_active_device (sv_db s) pubkey \<noteq> None))]) s) s)"

section \<open>Administration\<close>

text \<open>The first of the four length bytes that is not a byte value decides how
  \<open>int.from_bytes(wire[:4])\<close> fails on a list.\<close>

fun first_bad :: "pyval list \<Rightarrow> rpc_exn option" where
  "first_bad [] = None"
| "first_bad (PInt i # xs) = (if 0 \<le> i \<and> i < 256 then first_bad xs else Some ValueErr)"
| "first_bad (PBool _ # xs) = first_bad xs"
| "first_bad (_ # xs) = Some Other"

definition short_or :: "nat \<Rightarrow> rpc_exn \<Rightarrow> rpc_exn" where
  "short_or n e = (if n < 4 + SIGNATURE_LEN then unauthorized else e)"

definition list_cert_error :: "pyval list \<Rightarrow> rpc_exn" where
  "list_cert_error xs = short_or (length xs)
     (case first_bad (take 4 xs) of
        Some e \<Rightarrow> e
      | None \<Rightarrow>
          (case bytes_of_items (take 4 xs) of
             None \<Rightarrow> Other
           | Some hdr \<Rightarrow>
               if length xs \<noteq> 4 + from_bytes hdr + SIGNATURE_LEN then unauthorized else Other))"

definition admin_cert :: "'s rpc_env \<Rightarrow> rpc_call \<Rightarrow> bytes \<Rightarrow> rpc_exn + device_cert" where
  "admin_cert E k wire =
     (case verify_cert (e_rep E) (e_parse_float E) (e_loads E) (e_vrf E) (Some (e_network_id E))
             None (k_now k) wire of
        Inl (CertRejected _) \<Rightarrow> Inl unauthorized
      | Inl CborDecodeError \<Rightarrow> Inl (if e_cbor_value_error E then ValueErr else Other)
      | Inr cert \<Rightarrow>
          if PStr ''coordinator_admin'' \<notin> set (c_capabilities cert)
          then Inl (RpcError ''forbidden'') else Inr cert)"

fun verify_admin_cert :: "'s rpc_env \<Rightarrow> rpc_call \<Rightarrow> pyval \<Rightarrow> rpc_exn + device_cert" where
  "verify_admin_cert E k (PBytes wire) = admin_cert E k wire"
| "verify_admin_cert E k (PStr s) = Inl (short_or (length s) Other)"
| "verify_admin_cert E k (PDict d) = Inl (short_or (length d) Other)"
| "verify_admin_cert E k (PList xs) = Inl (list_cert_error xs)"
| "verify_admin_cert E k _ = Inl Other"

text \<open>The owner an agent is registered under: the certificate's holder, or the handle the agent
  invitation is bound to.\<close>

definition agent_invite_owner :: "rpc_call \<Rightarrow> pyval \<Rightarrow> ('s, string) rpc" where
  "agent_invite_owner k invite_code =
     bind_s (redeem k invite_code) (\<lambda>ivt.
     case ivt of
       None \<Rightarrow> raise_s invalid_invite
     | Some i \<Rightarrow>
         if i_role i \<noteq> ''agent'' then raise_s invalid_invite
         else ret_s (case i_bind_to_handle i of
                None \<Rightarrow> ''system'' | Some h \<Rightarrow> if h = [] then ''system'' else h))"

definition m_add_agent :: "'s rpc_env \<Rightarrow> rpc_call \<Rightarrow> pyval \<Rightarrow> ('s, pyval) rpc" where
  "m_add_agent E k params =
     bind_s (lift_s (get_param params ''cert'')) (\<lambda>cert_wire.
     bind_s (lift_s (get_param params ''invite'')) (\<lambda>invite_code.
     bind_s (if truthy cert_wire
             then bind_s (lift_s (verify_admin_cert E k cert_wire)) (\<lambda>cert. ret_s (c_handle cert))
             else if truthy invite_code then agent_invite_owner k invite_code
             else raise_s unauthorized) (\<lambda>owner_handle.
     bind_s (lift_s (required params ''handle'' as_str)) (\<lambda>handle.
     bind_s (lift_s (required params ''node_id'' as_str)) (\<lambda>node_id.
     bind_s (lift_s (get_param params ''label'')) (\<lambda>label.
     bind_s (lift_s (column (e_column_text E) label)) (\<lambda>lbl.
     bind_s (enrol_agent k (lower (strip handle)) node_id owner_handle lbl) (\<lambda>_.
     ret_s (PDict [(PStr ''ok'', PBool True)])))))))))"

definition m_agent_login :: "'s rpc_env \<Rightarrow> rpc_call \<Rightarrow> pyval \<Rightarrow> ('s, pyval) rpc" where
  "m_agent_login E k params =
     bind_s (lift_s (required params ''invite'' as_str)) (\<lambda>invite_code.
     bind_s (lift_s (required params ''handle'' as_str)) (\<lambda>handle0.
     let handle = lower (strip handle0) in
     bind_s (lift_s (required params ''node_id'' as_str)) (\<lambda>node_id.
     bind_s (lift_s (get_param params ''label'')) (\<lambda>label.
     if lower (k_peer k) \<noteq> lower node_id then raise_s unauthorized
     else
       bind_s (agent_invite_owner k (PStr invite_code)) (\<lambda>owner_handle.
       bind_s (lift_s (column (e_column_text E) label)) (\<lambda>lbl.
       bind_s (enrol_agent k handle node_id owner_handle lbl) (\<lambda>_.
       bind_s (lift_s (of_opt Other (e_node_key E node_id))) (\<lambda>device_pubkey.
       bind_s (lift_s (mint E k handle device_pubkey [PStr ''agent''])) (\<lambda>cert_wire.
       ret_s (PDict [(PStr ''cert'', PBytes cert_wire),
                     (PStr ''network_id'', PStr (e_network_id E)),
                     (PStr ''name'', PStr (e_network_name E))]))))))))))"

definition admin_gate :: "'s rpc_env \<Rightarrow> rpc_call \<Rightarrow> pyval \<Rightarrow> rpc_exn + device_cert" where
  "admin_gate E k params =
     bind_r (required params ''cert'' as_bytes) (admin_cert E k)"

definition m_remove_agent :: "'s rpc_env \<Rightarrow> rpc_call \<Rightarrow> pyval \<Rightarrow> ('s, pyval) rpc" where
  "m_remove_agent E k params =
     bind_s (lift_s (admin_gate E k params)) (\<lambda>cert.
     bind_s (lift_s (required params ''handle'' as_str)) (\<lambda>handle s.
     let (ok, db) = remove_agent handle (sv_db s)
     in ret_s (PDict [(PStr ''ok'', PBool ok), (PStr ''removed_by'', PStr (c_handle cert))])
          (s\<lparr>sv_db := db\<rparr>)))"

definition notify_device_revoked :: "'s rpc_env \<Rightarrow> bytes \<Rightarrow> 's service \<Rightarrow> 's service" where
  "notify_device_revoked E pubkey s =
     (if e_has_callback E then s\<lparr>sv_notified := sv_notified s @ [pubkey]\<rparr> else s)"

definition m_revoke_device :: "'s rpc_env \<Rightarrow> rpc_call \<Rightarrow> pyval \<Rightarrow> ('s, pyval) rpc" where
  "m_revoke_device E k params =
     bind_s (lift_s (admin_gate E k params)) (\<lambda>cert.
     bind_s (lift_s (required params ''device_pubkey'' as_bytes)) (\<lambda>pubkey s.
     let (ok, db) = revoke_device pubkey (sv_db s);
         s' = s\<lparr>sv_db := db\<rparr>
     in ret_s (PDict [(PStr ''ok'', PBool ok), (PStr ''revoked_by'', PStr (c_handle cert))])
          (if ok then notify_device_revoked E pubkey s' else s')))"

definition or_default :: "pyval \<Rightarrow> int \<Rightarrow> pyval" where
  "or_default v d = (if truthy v then v else PInt d)"

definition sql_int :: "int \<Rightarrow> rpc_exn + int" where
  "sql_int i = (if - (2 ^ 63) \<le> i \<and> i < 2 ^ 63 then Inr i else Inl Other)"

definition m_create_invitation :: "'s rpc_env \<Rightarrow> rpc_call \<Rightarrow> pyval \<Rightarrow> ('s, pyval) rpc" where
  "m_create_invitation E k params =
     bind_s (lift_s (admin_gate E k params)) (\<lambda>cert.
     bind_s (lift_s (required params ''role'' as_str)) (\<lambda>role.
     bind_s (lift_s (get_param params ''ttl_seconds'')) (\<lambda>ttl0.
     bind_s (lift_s (py_int (e_parse_int E) (or_default ttl0 (7 * 24 * 3600)))) (\<lambda>ttl_seconds.
     bind_s (lift_s (get_param params ''uses'')) (\<lambda>uses0.
     bind_s (lift_s (py_int (e_parse_int E) (or_default uses0 1))) (\<lambda>uses.
     bind_s (lift_s (get_param params ''bind_to_handle'')) (\<lambda>bind_to.
     if role \<notin> {''user'', ''device'', ''agent''} then raise_s ValueErr
     else
       bind_s (lift_s (column (e_column_text E) bind_to)) (\<lambda>bind_to_handle.
       bind_s (lift_s (sql_int uses)) (\<lambda>_ s.
       case create_invitation (k_code_bytes k) role (Some (c_handle cert)) (of_int ttl_seconds) uses
              bind_to_handle (k_now k) (sv_db s) of
         Inl _ \<Rightarrow> raise_s Other s
       | Inr (invite, db) \<Rightarrow>
           ret_s (PDict [(PStr ''code'', PStr (i_code invite)),
                         (PStr ''display_code'', PStr (display_code invite)),
                         (PStr ''role'', PStr (i_role invite)),
                         (PStr ''expires_at'', PFloat (Finite (i_expires_at invite))),
                         (PStr ''uses_left'', PInt (i_uses_left invite))])
             (s\<lparr>sv_db := db\<rparr>))))))))))"

definition m_network_info :: "'s rpc_env \<Rightarrow> ('s, pyval) rpc" where
  "m_network_info E =
     ret_s (PDict [(PStr ''network_id'', PStr (e_network_id E)),
                   (PStr ''name'', PStr (e_network_name E)),
                   (PStr ''pake_algo'', PStr ''srp6a'')])"

section \<open>Dispatch\<close>

definition METHODS :: "'s rpc_env \<Rightarrow> rpc_call \<Rightarrow> (string, pyval \<Rightarrow> ('s, pyval) rpc) dict" where
  "METHODS E k =
     [(''register'', m_register k),
      (''login_init'', m_login_init E k),
      (''login_finish'', m_login_finish E k),
      (''list_agents'', \<lambda>_. m_list_agents),
      (''device_status'', m_device_status k),
      (''runtime_directory'', \<lambda>_. m_runtime_directory k),
      (''add_agent'', m_add_agent E k),
      (''agent_login'', m_agent_login E k),
      (''remove_agent'', m_remove_agent E k),
      (''revoke_device'', m_revoke_device E k),
      (''create_invitation'', m_create_invitation E k),
      (''network_info'', \<lambda>_. m_network_info E)]"

definition value_errors :: "('s, 'a) rpc \<Rightarrow> ('s, 'a) rpc" where
  "value_errors m s =
     (case m s of (Inl ValueErr, s') \<Rightarrow> (Inl bad_request, s') | r \<Rightarrow> r)"

definition dispatch :: "'s rpc_env \<Rightarrow> rpc_call \<Rightarrow> pyval \<Rightarrow> ('s, pyval) rpc" where
  "dispatch E k request =
     (case request of
        PDict r \<Rightarrow>
          (let corr = pget_or PNone ''id'' r;
               meth = pget_or PNone ''method'' r;
               params0 = pget_or PNone ''params'' r;
               params = (if truthy params0 then params0 else PDict [])
           in case meth of
                PStr m \<Rightarrow>
                  (case dict_get (METHODS E k) m of
                     None \<Rightarrow> raise_s (RpcError ''unknown_method'')
                   | Some h \<Rightarrow>
                       bind_s (value_errors (h params)) (\<lambda>result.
                       ret_s (PDict [(PStr ''id'', corr), (PStr ''result'', result)])))
              | _ \<Rightarrow> raise_s bad_request)
      | _ \<Rightarrow> raise_s bad_request)"

section \<open>Frames\<close>

text \<open>A receive stream is the list of segments still to arrive. \<open>read(k)\<close> returns at most \<open>k\<close>
  bytes of the next segment, and nothing at the end of the stream.\<close>

fun stream_read :: "nat \<Rightarrow> bytes list \<Rightarrow> bytes \<times> bytes list" where
  "stream_read k [] = ([], [])"
| "stream_read k (c # cs) = (if length c \<le> k then (c, cs) else (take k c, drop k c # cs))"

function read_loop :: "nat \<Rightarrow> bytes \<Rightarrow> bytes list \<Rightarrow> (rpc_exn + bytes) \<times> bytes list" where
  "read_loop n out st =
     (if n \<le> length out then (Inr out, st)
      else let (chunk, st') = stream_read (n - length out) st
           in if chunk = [] then (Inl (RpcError ''eof''), st') else read_loop n (out @ chunk) st')"
  by pat_completeness auto
termination
  by (relation "measure (\<lambda>(n, out, st). n - length out)") (auto simp: length_greater_0_conv [symmetric]
      simp del: length_greater_0_conv)

declare read_loop.simps [simp del]

definition read_exact :: "nat \<Rightarrow> (bytes list, rpc_exn, bytes) handler" where
  "read_exact n st = read_loop n [] st"

definition FRAME_MAX :: nat where
  "FRAME_MAX = 1 * 1024 * 1024"

definition read_cbor_frame :: "(bytes \<Rightarrow> pyval option) \<Rightarrow> nat \<Rightarrow> (bytes list, rpc_exn, pyval) handler" where
  "read_cbor_frame loads max_size =
     bind_s (read_exact 4) (\<lambda>length_bytes.
     let n = from_bytes length_bytes
     in if n > max_size then raise_s (RpcError ''too_large'')
        else bind_s (read_exact n) (\<lambda>payload. lift_s (of_opt Other (loads payload))))"

text \<open>\<open>None\<close> is the \<open>OverflowError\<close> of a payload longer than the header can say.\<close>

definition write_cbor_frame :: "(pyval \<Rightarrow> bytes) \<Rightarrow> pyval \<Rightarrow> bytes option" where
  "write_cbor_frame dumps obj =
     (let payload = dumps obj in map_option (\<lambda>hdr. hdr @ payload) (to_bytes4 (length payload)))"

definition error_body :: "string \<Rightarrow> string \<Rightarrow> pyval" where
  "error_body code msg = PDict [(PStr ''code'', PStr code), (PStr ''message'', PStr msg)]"

definition error_response :: "'s rpc_env \<Rightarrow> pyval \<Rightarrow> rpc_exn \<Rightarrow> pyval" where
  "error_response E corr e =
     (case e of
        RpcError code \<Rightarrow>
          PDict [(PStr ''id'', corr), (PStr ''error'', error_body code (e_message E e))]
      | _ \<Rightarrow> PDict [(PStr ''error'', error_body ''internal'' (e_message E e))])"

definition request_id :: "pyval \<Rightarrow> pyval" where
  "request_id request = (case request of PDict r \<Rightarrow> pget_or PNone ''id'' r | _ \<Rightarrow> PNone)"

definition handle_one_rpc ::
  "'s rpc_env \<Rightarrow> rpc_call \<Rightarrow> bytes list \<Rightarrow> 's service \<Rightarrow> bytes option \<times> 's service" where
  "handle_one_rpc E k stream s =
     (case read_cbor_frame (e_loads E) FRAME_MAX stream of
        (Inl e, _) \<Rightarrow> (write_cbor_frame (e_dumps E) (error_response E PNone e), s)
      | (Inr request, _) \<Rightarrow>
          (case dispatch E k request s of
             (Inl e, s') \<Rightarrow>
               (write_cbor_frame (e_dumps E) (error_response E (request_id request) e), s')
           | (Inr response, s') \<Rightarrow> (write_cbor_frame (e_dumps E) response, s')))"

section \<open>Stale logins\<close>

definition gc_pass :: "real \<Rightarrow> 's service \<Rightarrow> 's service" where
  "gc_pass now s =
     (let stale = map fst (filter (\<lambda>(k, st). now - li_created_at st > LOGIN_STATE_TTL) (sv_logins s))
      in s\<lparr>sv_logins := fold dict_pop stale (sv_logins s)\<rparr>)"

section \<open>Frame lemmas\<close>

lemma stream_read_concat: "stream_read k st = (chunk, st') \<Longrightarrow> concat st = chunk @ concat st'"
  by (cases "(k, st)" rule: stream_read.cases) (auto split: if_splits)

lemma stream_read_length: "stream_read k st = (chunk, st') \<Longrightarrow> length chunk \<le> k"
  by (cases "(k, st)" rule: stream_read.cases) (auto split: if_splits)

lemma stream_read_live:
  assumes "stream_read k st = (chunk, st')" and "[] \<notin> set st" and "0 < k"
  shows "[] \<notin> set st'" and "chunk = [] \<longleftrightarrow> st = []"
  using assms by (cases "(k, st)" rule: stream_read.cases; auto split: if_splits)+

lemma read_loop_step:
  assumes "\<not> n \<le> length out" and "stream_read (n - length out) st = (chunk, st')" and "chunk \<noteq> []"
  shows "read_loop n out st = read_loop n (out @ chunk) st'"
    and "length (out @ chunk) \<le> n"
    and "concat st = chunk @ concat st'"
  using assms stream_read_length [OF assms(2)] stream_read_concat [OF assms(2)]
  by (simp_all add: read_loop.simps [of n out])

lemma read_loop_enough:
  assumes "[] \<notin> set st" and "length out \<le> n" and "n - length out \<le> length (concat st)"
  shows "\<exists>st'. read_loop n out st = (Inr (out @ take (n - length out) (concat st)), st') \<and>
    concat st' = drop (n - length out) (concat st) \<and> [] \<notin> set st'"
  using assms
proof (induction n out st rule: read_loop.induct)
  case (1 n out st)
  show ?case
  proof (cases "n \<le> length out")
    case True
    with "1.prems" show ?thesis by (simp add: read_loop.simps)
  next
    case False
    obtain chunk st' where rd: "stream_read (n - length out) st = (chunk, st')" by fastforce
    note live = stream_read_live [OF rd "1.prems"(1)]
    have more: "chunk \<noteq> []" using live(2) "1.prems"(3) False by auto
    note step = read_loop_step [OF False rd more]
    have "0 < n - length out" using False by simp
    from "1.IH" [OF False rd [symmetric] refl more live(1) [OF this] step(2)] "1.prems"(3)
    have "\<exists>st''. read_loop n (out @ chunk) st' =
        (Inr ((out @ chunk) @ take (n - length (out @ chunk)) (concat st')), st'') \<and>
        concat st'' = drop (n - length (out @ chunk)) (concat st') \<and> [] \<notin> set st''"
      by (simp add: step(3))
    then show ?thesis using step(1,2) by (simp add: step(3))
  qed
qed

lemma read_loop_short:
  assumes "[] \<notin> set st" and "length out \<le> n" and "length (concat st) < n - length out"
  shows "read_loop n out st = (Inl (RpcError ''eof''), [])"
  using assms
proof (induction n out st rule: read_loop.induct)
  case (1 n out st)
  then have False: "\<not> n \<le> length out" by simp
  obtain chunk st' where rd: "stream_read (n - length out) st = (chunk, st')" by fastforce
  have pos: "0 < n - length out" using False by simp
  note live = stream_read_live [OF rd "1.prems"(1) pos]
  show ?case
  proof (cases "chunk = []")
    case True
    then show ?thesis using live(2) rd False by (simp add: read_loop.simps)
  next
    case more: False
    note step = read_loop_step [OF False rd more]
    from "1.IH" [OF False rd [symmetric] refl more live(1) step(2)] "1.prems"(3)
    show ?thesis using step by simp
  qed
qed

lemma read_exact_enough:
  assumes "[] \<notin> set st" and "n \<le> length (concat st)"
  obtains st' where "read_exact n st = (Inr (take n (concat st)), st')"
    "concat st' = drop n (concat st)" "[] \<notin> set st'"
  using read_loop_enough [OF assms(1), of "[]" n] assms(2) unfolding read_exact_def by auto

lemma read_exact_short:
  "[] \<notin> set st \<Longrightarrow> length (concat st) < n \<Longrightarrow> read_exact n st = (Inl (RpcError ''eof''), [])"
  using read_loop_short [of st "[]" n] unfolding read_exact_def by auto

section \<open>How the service evolves\<close>

text \<open>The store operations that RPCs can cause. Deleting, suspending or renaming are not among
  them.\<close>

fun rpc_op :: "store_op \<Rightarrow> bool" where
  "rpc_op (CreateUser h r a c t) = True"
| "rpc_op (AddDevice k h l t) = True"
| "rpc_op (RevokeDevice k) = True"
| "rpc_op (TouchDevice k t) = True"
| "rpc_op (RegisterAgent h n ow l t) = True"
| "rpc_op (RemoveAgent h) = True"
| "rpc_op (CreateInvitation raw r c ttl u b t) = True"
| "rpc_op (ConsumeInvitation c t) = True"
| "rpc_op _ = False"

definition users_stable :: "coord_db \<Rightarrow> coord_db \<Rightarrow> bool" where
  "users_stable db db' \<longleftrightarrow>
     (\<forall>h u. dict_get (db_users db) h = Some u \<longrightarrow> dict_get (db_users db') h = Some u)"

definition devices_stable :: "coord_db \<Rightarrow> coord_db \<Rightarrow> bool" where
  "devices_stable db db' \<longleftrightarrow>
     (\<forall>k d. dict_get (db_devices db) k = Some d \<longrightarrow>
        (\<exists>d'. dict_get (db_devices db') k = Some d' \<and> d_user_handle d' = d_user_handle d \<and>
          (d_status d \<noteq> ''active'' \<longrightarrow> d_status d' \<noteq> ''active'')))"

definition evolves_db :: "bool \<Rightarrow> coord_db \<Rightarrow> coord_db \<Rightarrow> bool" where
  "evolves_db fk db db' \<longleftrightarrow>
     (\<exists>ops. list_all rpc_op ops \<and> db' = run_ops (store_step fk) db ops) \<and>
     users_stable db db' \<and> devices_stable db db'"

definition evolves :: "bool \<Rightarrow> 's service \<Rightarrow> 's service \<Rightarrow> bool" where
  "evolves fk s s' \<longleftrightarrow> evolves_db fk (sv_db s) (sv_db s')"

lemma users_stable_trans: "users_stable a b \<Longrightarrow> users_stable b c \<Longrightarrow> users_stable a c"
  by (simp add: users_stable_def)

lemma devices_stable_trans: "devices_stable a b \<Longrightarrow> devices_stable b c \<Longrightarrow> devices_stable a c"
  unfolding devices_stable_def
proof (intro allI impI)
  fix k d
  assume ab: "\<forall>k d. dict_get (db_devices a) k = Some d \<longrightarrow>
      (\<exists>d'. dict_get (db_devices b) k = Some d' \<and> d_user_handle d' = d_user_handle d \<and>
        (d_status d \<noteq> ''active'' \<longrightarrow> d_status d' \<noteq> ''active''))"
    and bc: "\<forall>k d. dict_get (db_devices b) k = Some d \<longrightarrow>
      (\<exists>d'. dict_get (db_devices c) k = Some d' \<and> d_user_handle d' = d_user_handle d \<and>
        (d_status d \<noteq> ''active'' \<longrightarrow> d_status d' \<noteq> ''active''))"
    and "dict_get (db_devices a) k = Some d"
  then obtain d1 where d1: "dict_get (db_devices b) k = Some d1" "d_user_handle d1 = d_user_handle d"
    "d_status d \<noteq> ''active'' \<longrightarrow> d_status d1 \<noteq> ''active''" by blast
  with bc obtain d2 where "dict_get (db_devices c) k = Some d2" "d_user_handle d2 = d_user_handle d1"
    "d_status d1 \<noteq> ''active'' \<longrightarrow> d_status d2 \<noteq> ''active''" by blast
  with d1 show "\<exists>d'. dict_get (db_devices c) k = Some d' \<and> d_user_handle d' = d_user_handle d \<and>
        (d_status d \<noteq> ''active'' \<longrightarrow> d_status d' \<noteq> ''active'')" by auto
qed

lemma evolves_refl: "evolves fk s s"
proof -
  have "list_all rpc_op [] \<and> sv_db s = run_ops (store_step fk) (sv_db s) []" by simp
  moreover have "users_stable (sv_db s) (sv_db s)" by (simp add: users_stable_def)
  moreover have "devices_stable (sv_db s) (sv_db s)" by (simp add: devices_stable_def)
  ultimately show ?thesis unfolding evolves_def evolves_db_def by blast
qed

lemma evolves_trans: "evolves fk s t \<Longrightarrow> evolves fk t u \<Longrightarrow> evolves fk s u"
proof -
  assume "evolves fk s t" "evolves fk t u"
  then obtain xs ys where "list_all rpc_op (xs @ ys)"
    and "sv_db u = run_ops (store_step fk) (sv_db s) (xs @ ys)"
    unfolding evolves_def evolves_db_def by (auto simp: run_ops_append)
  with \<open>evolves fk s t\<close> \<open>evolves fk t u\<close> show ?thesis
    unfolding evolves_def evolves_db_def
    by (blast intro: users_stable_trans devices_stable_trans)
qed

interpretation evolve: preorder_rel "evolves fk" for fk
  by unfold_locales (rule evolves_refl, erule (1) evolves_trans)

lemma snd_results [simp]: "snd (ret_s x s) = s" "snd (raise_s e s) = s" "snd (lift_s r s) = s"
  by (simp_all add: ret_s_def raise_s_def lift_s_def)

text \<open>Evolution by a single store operation that leaves users and devices alone.\<close>

lemma evolves_op:
  assumes "rpc_op op" and "sv_db s' = store_step fk (sv_db s) op"
    and "users_stable (sv_db s) (sv_db s')" and "devices_stable (sv_db s) (sv_db s')"
  shows "evolves fk s s'"
proof -
  have "list_all rpc_op [op]" and "sv_db s' = run_ops (store_step fk) (sv_db s) [op]"
    using assms by simp_all
  with assms(3,4) show ?thesis unfolding evolves_def evolves_db_def by blast
qed

lemma evolves_same_tables:
  assumes "rpc_op op" and "sv_db s' = store_step fk (sv_db s) op"
    and "db_users (sv_db s') = db_users (sv_db s)" and "db_devices (sv_db s') = db_devices (sv_db s)"
  shows "evolves fk s s'"
  using assms(1,2) by (rule evolves_op) (simp_all add: assms(3,4) users_stable_def devices_stable_def)

lemma evolves_same_db: "sv_db s' = sv_db s \<Longrightarrow> evolves fk s s'"
  using evolves_refl [of fk s] by (simp add: evolves_def)

lemma consume_tables:
  "db_users (snd (consume_invitation c t db)) = db_users db"
  "db_devices (snd (consume_invitation c t db)) = db_devices db"
  by (simp_all add: consume_invitation_def consume_update_def split: option.splits)

lemma keeps_redeem: "keeps (evolves fk) (redeem k code)"
  unfolding keeps_def
proof
  fix s :: "'a service"
  show "evolves fk s (snd (redeem k code s))"
  proof (cases code)
    case (PStr c)
    then have db: "sv_db (snd (redeem k code s)) = snd (consume_invitation c (k_now k) (sv_db s))"
      by (simp add: redeem_def case_prod_beta)
    show ?thesis
      by (rule evolves_same_tables [of "ConsumeInvitation c (k_now k)"])
        (simp_all add: db consume_tables)
  qed (simp_all add: redeem_def evolves_refl)
qed

lemma keeps_add_user: "keeps (evolves fk) (add_user k handle rec claim)"
  unfolding keeps_def
proof
  fix s :: "'a service"
  let ?op = "CreateUser handle rec ''srp6a'' claim (k_now k)"
  have db: "sv_db (snd (add_user k handle rec claim s)) = store_step fk (sv_db s) ?op"
    by (simp add: add_user_def committed_def split: sum.splits prod.splits)
  show "evolves fk s (snd (add_user k handle rec claim s))"
    by (rule evolves_op [of ?op])
      (auto simp: db users_stable_def devices_stable_def committed_def create_user_def Let_def
        dict_get_set)
qed

lemma keeps_enrol_agent: "keeps (evolves fk) (enrol_agent k handle node ow label)"
  unfolding keeps_def enrol_agent_def
  by (auto intro!: evolves_same_tables [of "RegisterAgent handle node ow label (k_now k)"]
      simp: register_agent_def)

lemma keeps_refresh: "keeps (evolves fk) (refresh_device k pubkey)"
  unfolding keeps_def
proof
  fix s :: "'a service"
  show "evolves fk s (snd (refresh_device k pubkey s))"
  proof (cases "k_busy k")
    case True
    then show ?thesis by (simp add: refresh_device_def evolves_refl)
  next
    case False
    then show ?thesis
      by (intro evolves_op [of "TouchDevice pubkey (k_now k)"])
        (auto simp: refresh_device_def users_stable_def devices_stable_def touch_device_def
          dict_get_update_key)
  qed
qed

lemma keeps_pop_login: "keeps (evolves fk) (pop_login i)"
  unfolding keeps_def
  by (auto simp: pop_login_def split: option.splits intro!: evolves_same_db)

lemma check_device_invite_state: "snd (check_device_invite handle ivt s) = s"
  by (simp add: check_device_invite_def split: option.split)

lemma keeps_admit: "keeps (evolves fk) (admit_device k handle code)"
proof -
  have "keeps (evolves fk) (bind_s (redeem k code) (check_device_invite handle))"
    by (intro evolve.keeps_bind keeps_redeem)
      (simp add: keeps_def check_device_invite_state evolves_refl)
  then show ?thesis
    by (auto simp: keeps_def admit_device_def evolves_refl)
qed

text \<open>Nothing before the enrolment of an unknown key adds that key.\<close>

lemma redeem_devices: "db_devices (sv_db (snd (redeem k code s))) = db_devices (sv_db s)"
  by (simp add: redeem_def case_prod_beta consume_tables split: pyval.splits)

lemma admit_devices:
  "admit_device k handle code s = (r, s') \<Longrightarrow> db_devices (sv_db s') = db_devices (sv_db s)"
proof -
  assume adm: "admit_device k handle code s = (r, s')"
  show ?thesis
  proof (cases "user_has_devices (sv_db s) handle \<and> truthy code")
    case False
    with adm show ?thesis by (auto simp: admit_device_def result_simps split: if_splits)
  next
    case True
    obtain r1 s1 where rd: "redeem k code s = (r1, s1)" by fastforce
    have "db_devices (sv_db s1) = db_devices (sv_db s)" using redeem_devices [of k code s] rd by simp
    with adm rd True show ?thesis
      by (auto simp: admit_device_def bind_s_def split: sum.splits
          dest!: arg_cong [where f = snd] simp: check_device_invite_state)
  qed
qed

lemma evolves_enrol_new:
  assumes "dict_get (db_devices (sv_db s)) pubkey = None"
  shows "evolves (e_fk E) s (snd (enrol_device E k pubkey handle label s))"
proof -
  let ?op = "AddDevice pubkey handle label (k_now k)"
  have db: "sv_db (snd (enrol_device E k pubkey handle label s)) = store_step (e_fk E) (sv_db s) ?op"
    by (simp add: enrol_device_def split: sum.splits)
  show ?thesis
    using assms
    by (intro evolves_op [of ?op])
      (auto simp: db users_stable_def devices_stable_def add_device_def dict_get_set
        split: sum.splits)
qed

lemma keeps_bind_device: "keeps (evolves (e_fk E)) (bind_device E k handle pubkey label code)"
  unfolding keeps_def
proof
  fix s :: "'a service"
  show "evolves (e_fk E) s (snd (bind_device E k handle pubkey label code s))"
  proof (cases "get_device (sv_db s) pubkey")
    case None
    obtain r1 s1 where adm: "admit_device k handle code s = (r1, s1)" by fastforce
    have new: "dict_get (db_devices (sv_db s1)) pubkey = None"
      using None admit_devices [OF adm] by (simp add: get_device_def)
    have one: "evolves (e_fk E) s s1"
      using keeps_admit [of "e_fk E" k handle code] adm unfolding keeps_def by (metis snd_conv)
    have "snd (bind_device E k handle pubkey label code s) = s1 \<or>
      (\<exists>lbl. snd (bind_device E k handle pubkey label code s) =
         snd (enrol_device E k pubkey handle lbl s1))"
      using None adm
      by (auto simp: bind_device_def bind_s_def lift_s_def split: sum.splits)
    then show ?thesis
      using one evolves_enrol_new [OF new] evolves_trans by metis
  next
    case (Some d)
    then show ?thesis
      using keeps_refresh [of "e_fk E" k pubkey]
      by (auto simp: bind_device_def keeps_def evolves_refl)
  qed
qed

lemmas keeps_primitives = keeps_redeem keeps_add_user keeps_enrol_agent keeps_refresh keeps_pop_login
  keeps_admit keeps_bind_device

lemma keepsI: "(\<And>s. R s (snd (m s))) \<Longrightarrow> keeps R m"
  by (simp add: keeps_def)

lemma keepsD: "keeps R m \<Longrightarrow> R s (snd (m s))"
  by (simp add: keeps_def)

lemma evolves_add_user: "evolves fk s (snd (bind_s (add_user k h rec c) (\<lambda>_. ret_s v) s))"
  using evolve.keeps_bind [OF keeps_add_user evolve.keeps_ret] by (rule keepsD)

lemma keeps_register: "keeps (evolves fk) (m_register k params)"
  unfolding m_register_def Let_def
proof (intro evolve.keeps_bind evolve.keeps_lift keeps_redeem, rule keepsI)
  fix code handle rec ivt and s :: "'a service"
  show "evolves fk s (snd (case ivt of None \<Rightarrow> raise_s invalid_invite s
       | Some ivt \<Rightarrow> if i_role ivt \<noteq> ''user'' then raise_s invalid_invite s
           else if get_user (sv_db s) (lower (strip handle)) \<noteq> None
           then raise_s (RpcError ''conflict'') s
           else case register_finalize (lower (strip handle)) rec of Inl _ \<Rightarrow> raise_s ValueErr s
             | Inr validated \<Rightarrow>
                 bind_s (add_user k (lower (strip handle)) validated
                   (i_created_by ivt = Some ''auto-bootstrap'' \<and> list_users (sv_db s) = []))
                 (\<lambda>_. ret_s (PDict [(PStr ''ok'', PBool True),
                    (PStr ''handle'', PStr (lower (strip handle)))])) s))"
    by (simp add: evolves_refl evolves_add_user split: option.split sum.split)
qed

lemma keeps_login_init: "keeps (evolves fk) (m_login_init E k params)"
  unfolding m_login_init_def Let_def
  by (intro evolve.keeps_bind evolve.keeps_lift keepsI)
    (auto split: option.splits sum.splits if_splits intro!: evolves_refl evolves_same_db)

lemma keeps_login_finish: "keeps (evolves (e_fk E)) (m_login_finish E k params)"
  unfolding m_login_finish_def
  by (intro evolve.keeps_bind evolve.keeps_lift keeps_pop_login)
    (auto split: sum.splits intro!: evolve.keeps_intros keeps_bind_device)

lemma keeps_invite_owner: "keeps (evolves fk) (agent_invite_owner k code)"
  unfolding agent_invite_owner_def
  by (intro evolve.keeps_bind keeps_redeem)
    (auto split: option.splits intro!: evolve.keeps_intros)

lemma keeps_add_agent: "keeps (evolves fk) (m_add_agent E k params)"
  unfolding m_add_agent_def
  by (intro evolve.keeps_bind evolve.keeps_lift evolve.keeps_ret keeps_enrol_agent)
    (auto intro!: evolve.keeps_intros keeps_invite_owner)

lemma keeps_agent_login: "keeps (evolves fk) (m_agent_login E k params)"
  unfolding m_agent_login_def Let_def
  by (intro evolve.keeps_bind evolve.keeps_lift)
    (auto intro!: evolve.keeps_intros keeps_invite_owner keeps_enrol_agent)

lemma keeps_remove_agent: "keeps (evolves fk) (m_remove_agent E k params)"
  unfolding m_remove_agent_def Let_def
proof (intro evolve.keeps_bind evolve.keeps_lift, rule keepsI)
  fix cert handle and s :: "'a service"
  show "evolves fk s (snd (case remove_agent handle (sv_db s) of (ok, db) \<Rightarrow>
      ret_s (PDict [(PStr ''ok'', PBool ok), (PStr ''removed_by'', PStr (c_handle cert))])
        (s\<lparr>sv_db := db\<rparr>)))"
    by (rule evolves_same_tables [of "RemoveAgent handle"]) (simp_all add: remove_agent_def)
qed

lemma evolves_revoke:
  assumes "sv_db s' = snd (revoke_device pubkey (sv_db s))"
  shows "evolves fk s s'"
proof -
  have "sv_db s' = store_step fk (sv_db s) (RevokeDevice pubkey)" using assms by simp
  then show ?thesis
    by (rule evolves_op [rotated])
      (auto simp: assms users_stable_def devices_stable_def revoke_device_def dict_get_set
        split: option.splits if_splits)
qed

lemma keeps_revoke_device: "keeps (evolves fk) (m_revoke_device E k params)"
  unfolding m_revoke_device_def Let_def
  by (intro evolve.keeps_bind evolve.keeps_lift keepsI)
    (auto simp: case_prod_beta notify_device_revoked_def intro!: evolves_revoke)

lemma keeps_create_invitation: "keeps (evolves fk) (m_create_invitation E k params)"
proof -
  have create: "keeps (evolves fk) (\<lambda>s :: 'a service.
       case create_invitation raw role cb ttl uses bd now (sv_db s) of
         Inl _ \<Rightarrow> raise_s Other s
       | Inr (invite, db) \<Rightarrow> ret_s (f invite) (s\<lparr>sv_db := db\<rparr>))"
    for raw role cb ttl uses bd now and f :: "invitation_row \<Rightarrow> 'b"
  proof (rule keepsI)
    fix s :: "'a service"
    show "evolves fk s (snd (case create_invitation raw role cb ttl uses bd now (sv_db s) of
         Inl _ \<Rightarrow> raise_s Other s
       | Inr (invite, db) \<Rightarrow> ret_s (f invite) (s\<lparr>sv_db := db\<rparr>)))"
      by (cases "create_invitation raw role cb ttl uses bd now (sv_db s)")
        (auto simp: evolves_refl committed_def create_invitation_def Let_def split: if_splits
          intro!: evolves_same_tables [of "CreateInvitation raw role cb ttl uses bd now"])
  qed
  show ?thesis
    unfolding m_create_invitation_def
    by (intro evolve.keeps_bind evolve.keeps_lift)
      (auto intro!: evolve.keeps_intros create)
qed

lemma keeps_queries:
  "keeps (evolves fk) m_list_agents" "keeps (evolves fk) (m_runtime_directory k)"
  "keeps (evolves fk) (m_network_info E)" "keeps (evolves fk) (m_device_status k params)"
proof -
  show "keeps (evolves fk) m_list_agents" "keeps (evolves fk) (m_runtime_directory k)"
    "keeps (evolves fk) (m_network_info E)"
    by (auto simp: keeps_def m_list_agents_def m_runtime_directory_def m_network_info_def
        evolves_refl)
  show "keeps (evolves fk) (m_device_status k params)"
    by (auto simp: keeps_def m_device_status_def bind_s_def lift_s_def evolves_refl
        split: sum.splits)
qed

lemmas keeps_methods = keeps_register keeps_login_init keeps_login_finish keeps_add_agent
  keeps_agent_login keeps_remove_agent keeps_revoke_device keeps_create_invitation keeps_queries

lemma keeps_method:
  "dict_get (METHODS E k) m = Some h \<Longrightarrow> keeps (evolves (e_fk E)) (h params)"
  by (auto simp: METHODS_def keeps_methods split: if_splits)

lemma keeps_value_errors: "keeps R m \<Longrightarrow> keeps R (value_errors m)"
  unfolding keeps_def value_errors_def
proof (intro allI)
  fix s assume "\<forall>s. R s (snd (m s))"
  then have "R s (snd (m s))" by blast
  then show "R s (snd (case m s of (Inl ValueErr, s') \<Rightarrow> (Inl bad_request, s') | r \<Rightarrow> r))"
    by (auto split: prod.splits sum.splits rpc_exn.splits)
qed

lemma keeps_call:
  "dict_get (METHODS E k) m = Some h \<Longrightarrow>
     keeps (evolves (e_fk E)) (bind_s (value_errors (h params)) (\<lambda>r. ret_s (f r)))"
  by (rule evolve.keeps_bind [OF keeps_value_errors [OF keeps_method] evolve.keeps_ret])

lemma keeps_dispatch: "keeps (evolves (e_fk E)) (dispatch E k request)"
  unfolding dispatch_def Let_def
  by (auto split: pyval.splits option.splits intro!: evolve.keeps_raise intro: keeps_call)

text \<open>The service over time: RPCs and passes of the collector.\<close>

datatype service_event = Rpc rpc_call pyval | Gc real

fun service_step :: "'s rpc_env \<Rightarrow> 's service \<Rightarrow> service_event \<Rightarrow> 's service" where
  "service_step E s (Rpc k request) = snd (dispatch E k request s)"
| "service_step E s (Gc now) = gc_pass now s"

lemma service_step_evolves: "evolves (e_fk E) s (service_step E s e)"
  by (cases e) (auto simp: gc_pass_def Let_def intro: keepsD [OF keeps_dispatch] evolves_same_db)

lemma service_run_evolves: "evolves (e_fk E) s (run_ops (service_step E) s es)"
proof (induction es arbitrary: s)
  case Nil
  show ?case by (simp add: evolves_refl)
next
  case (Cons e es)
  show ?case using evolves_trans [OF service_step_evolves Cons.IH] by simp
qed

section \<open>Which certificates are minted\<close>

lemma required_Inr:
  "required params name ty = Inr x \<longleftrightarrow>
     (\<exists>d v. params = PDict d \<and> pget name d = Some v \<and> ty v = Some x)"
  by (cases params) (auto simp: required_def bind_r_Inr_iff of_opt_Inr_iff split: if_splits)

lemma mint_Inr:
  "mint E k h pk caps = Inr wire \<longleftrightarrow>
     issue_cert (e_dumps E) (e_sign E) h pk (e_network_id E) caps CERT_TTL_SECONDS None (k_now k) =
       Inr wire"
  by (auto simp: mint_def split: sum.splits issue_error.splits)

lemma as_str_Some [simp]: "as_str v = Some x \<longleftrightarrow> v = PStr x"
  by (cases v) auto

lemma as_bytes_Some [simp]: "as_bytes v = Some x \<longleftrightarrow> v = PBytes x"
  by (cases v) auto

lemma pop_login_Inr:
  "pop_login i s = (Inr st, s') \<longleftrightarrow>
     dict_get (sv_logins s) i = Some st \<and> s' = s\<lparr>sv_logins := dict_pop i (sv_logins s)\<rparr>"
  by (auto simp: pop_login_def split: option.splits)

lemma login_finish_Inr:
  assumes "m_login_finish E k params s = (Inr result, s')"
  obtains d state_id ke3 pubkey state m2 label code cert where
    "params = PDict d" "pget ''state_id'' d = Some (PStr state_id)"
    "pget ''ke3'' d = Some (PBytes ke3)" "pget ''device_pubkey'' d = Some (PBytes pubkey)"
    "pget_or PNone ''invite'' d = code"
    "check_peer_key E (k_peer k) pubkey = Inr ()"
    "dict_get (sv_logins s) state_id = Some state"
    "srp_login_finish (e_srp E) state ke3 = Inr m2"
    "bind_device E k (li_handle state) pubkey label code
       (s\<lparr>sv_logins := dict_pop state_id (sv_logins s)\<rparr>) = (Inr (), s')"
    "mint E k (li_handle state) pubkey [] = Inr cert"
    "result = PDict [(PStr ''cert'', PBytes cert), (PStr ''m2'', PBytes m2)]"
proof -
  have finish: "(case r of Inl _ \<Rightarrow> raise_s unauthorized | Inr m2 \<Rightarrow> f m2) s1 = (Inr v, s2) \<longleftrightarrow>
      (\<exists>m2. r = Inr m2 \<and> f m2 s1 = (Inr v, s2))"
    for r :: "pake_error + bytes" and f :: "bytes \<Rightarrow> ('a, pyval) rpc" and s1 v s2
    by (cases r) (auto simp: raise_s_iff)
  show thesis
    using assms
    unfolding m_login_finish_def bind_s_Inr_iff lift_s_iff pop_login_Inr required_Inr finish ret_s_iff
    by clarsimp (rule that; simp)
qed

lemma redeem_Inr:
  assumes "redeem k code s = (Inr r, s')"
  obtains c where "code = PStr c" "r = fst (consume_invitation c (k_now k) (sv_db s))"
    "s' = s\<lparr>sv_db := snd (consume_invitation c (k_now k) (sv_db s))\<rparr>"
  using assms by (auto simp: redeem_def case_prod_beta split: pyval.splits)

text \<open>The invitations that let a user add a further device.\<close>

definition device_invite_ok :: "coord_db \<Rightarrow> real \<Rightarrow> string \<Rightarrow> pyval \<Rightarrow> bool" where
  "device_invite_ok db now handle code \<longleftrightarrow>
     (\<exists>c i. code = PStr c \<and> consume_select c now db = Some i \<and> i_role i \<in> {''user'', ''device''} \<and>
        (i_bind_to_handle i = None \<or> i_bind_to_handle i = Some [] \<or> i_bind_to_handle i = Some handle))"

lemma check_device_invite_Inr:
  "check_device_invite handle r s = (Inr u, s') \<longleftrightarrow>
     s' = s \<and> (\<exists>i. r = Some i \<and> i_role i \<in> {''user'', ''device''} \<and>
        (i_bind_to_handle i = None \<or> i_bind_to_handle i = Some [] \<or> i_bind_to_handle i = Some handle))"
  by (cases r) (auto simp: check_device_invite_def result_simps)

lemma admit_Inr:
  assumes "admit_device k handle code s = (Inr u, s')"
  shows "db_devices (sv_db s') = db_devices (sv_db s) \<and> sv_logins s' = sv_logins s \<and>
    db_users (sv_db s') = db_users (sv_db s) \<and>
    (user_has_devices (sv_db s) handle \<longrightarrow>
       device_invite_ok (sv_db s) (k_now k) handle code \<and>
       (\<exists>c. code = PStr c \<and> sv_db s' = consume_update (normalize_invite_code c) (k_now k) (sv_db s)))"
proof (cases "user_has_devices (sv_db s) handle")
  case False
  with assms show ?thesis by (simp add: admit_device_def result_simps)
next
  case True
  from True assms obtain r s1 where rd: "redeem k code s = (Inr r, s1)" and s1: "s' = s1"
    and r: "\<exists>i. r = Some i \<and> i_role i \<in> {''user'', ''device''} \<and>
        (i_bind_to_handle i = None \<or> i_bind_to_handle i = Some [] \<or> i_bind_to_handle i = Some handle)"
    by (auto simp: admit_device_def bind_s_Inr_iff check_device_invite_Inr raise_s_iff
        split: if_splits)
  obtain c where c: "code = PStr c" "r = fst (consume_invitation c (k_now k) (sv_db s))"
    "s1 = s\<lparr>sv_db := snd (consume_invitation c (k_now k) (sv_db s))\<rparr>"
    using rd by (rule redeem_Inr)
  from r c(2) obtain i where sel: "consume_select c (k_now k) (sv_db s) = Some i"
    and i: "r = Some (consumed_row (k_now k) i)"
    by (auto simp: consume_invitation_def split: option.splits)
  then have "device_invite_ok (sv_db s) (k_now k) handle code"
    using r c(1) by (auto simp: device_invite_ok_def consumed_row_def)
  then show ?thesis
    using True c s1 sel by (simp add: consume_tables) (simp add: consume_invitation_def)
qed

lemma refresh_Inr:
  assumes "refresh_device k pubkey s = (Inr u, s')" and "get_device (sv_db s) pubkey = Some d"
  shows "sv_logins s' = sv_logins s \<and>
    (\<exists>d'. get_device (sv_db s') pubkey = Some d' \<and> d_status d' = d_status d \<and>
      d_user_handle d' = d_user_handle d)"
  using assms
  by (auto simp: refresh_device_def get_device_def touch_device_def dict_get_update_key
      split: if_splits)

lemma bind_device_Inr:
  assumes "bind_device E k handle pubkey label code s = (Inr u, s')"
  shows "sv_logins s' = sv_logins s \<and>
    (\<exists>d'. get_device (sv_db s') pubkey = Some d' \<and> d_status d' = ''active'' \<and>
      (get_device (sv_db s) pubkey = None \<longrightarrow> d_user_handle d' = handle)) \<and>
    (case get_device (sv_db s) pubkey of
       Some d \<Rightarrow> d_status d = ''active''
     | None \<Rightarrow> user_has_devices (sv_db s) handle \<longrightarrow>
                 device_invite_ok (sv_db s) (k_now k) handle code)"
proof (cases "get_device (sv_db s) pubkey")
  case None
  with assms obtain s1 lbl u1 where adm: "admit_device k handle code s = (Inr u1, s1)"
    and en: "enrol_device E k pubkey handle lbl s1 = (Inr u, s')"
    by (auto simp: bind_device_def bind_s_Inr_iff lift_s_iff)
  note a = admit_Inr [OF adm]
  have "dict_get (db_devices (sv_db s1)) pubkey = None"
    using a None by (simp add: get_device_def)
  with en have "sv_logins s' = sv_logins s1 \<and> (\<exists>d'. get_device (sv_db s') pubkey = Some d' \<and>
      d_status d' = ''active'' \<and> d_user_handle d' = handle)"
    by (auto simp: enrol_device_def add_device_def get_device_def split: sum.splits if_splits)
  with a None show ?thesis by auto
next
  case (Some d)
  with assms have act: "d_status d = ''active''" and rf: "refresh_device k pubkey s = (Inr u, s')"
    by (auto simp: bind_device_def result_simps split: if_splits)
  from refresh_Inr [OF rf Some] act Some show ?thesis by auto
qed

section \<open>Logins in progress\<close>

text \<open>The part of a login after its state is taken leaves the other logins alone.\<close>

definition same_logins :: "'s service \<Rightarrow> 's service \<Rightarrow> bool" where
  "same_logins s s' \<longleftrightarrow> sv_logins s' = sv_logins s"

interpretation logins: preorder_rel same_logins
  by unfold_locales (simp_all add: same_logins_def)

lemma keeps_logins:
  "keeps same_logins (redeem k code)" "keeps same_logins (enrol_device E k pk h l)"
  "keeps same_logins (refresh_device k pk)" "keeps same_logins (check_device_invite h ivt)"
  by (auto simp: keeps_def same_logins_def redeem_def case_prod_beta enrol_device_def
      refresh_device_def check_device_invite_state split: pyval.splits sum.splits)

lemma keeps_logins_admit: "keeps same_logins (admit_device k h code)"
proof -
  have "keeps same_logins (bind_s (redeem k code) (check_device_invite h))"
    by (intro logins.keeps_bind keeps_logins)
  then show ?thesis by (auto simp: keeps_def admit_device_def same_logins_def)
qed

lemma keeps_logins_bind_device: "keeps same_logins (bind_device E k h pk label code)"
proof -
  have "keeps same_logins (bind_s (admit_device k h code) (\<lambda>_.
      bind_s (lift_s (column (e_column_text E) label)) (\<lambda>lbl. enrol_device E k pk h lbl)))"
    by (intro logins.keeps_bind logins.keeps_lift keeps_logins keeps_logins_admit)
  then show ?thesis
    using keeps_logins(3) [of k pk]
    by (auto simp: keeps_def bind_device_def same_logins_def split: option.splits)
qed

lemma keeps_logins_finish:
  "keeps same_logins (case srp_login_finish L state ke3 of
       Inl _ \<Rightarrow> raise_s unauthorized
     | Inr m2 \<Rightarrow>
         bind_s (bind_device E k (li_handle state) pk label code) (\<lambda>_.
         bind_s (lift_s (mint E k (li_handle state) pk [])) (\<lambda>cert. ret_s (f cert m2))))"
  by (cases "srp_login_finish L state ke3")
    (auto intro!: logins.keeps_intros keeps_logins_bind_device)

lemma gc_logins:
  "dict_get (sv_logins (gc_pass now s)) i =
     (case filter (\<lambda>(k, st). k = i \<and> now - li_created_at st > LOGIN_STATE_TTL) (sv_logins s) of
        [] \<Rightarrow> dict_get (sv_logins s) i | _ \<Rightarrow> None)"
proof -
  have pops: "dict_get (fold dict_pop ks d) i = (if i \<in> set ks then None else dict_get d i)"
    for ks and d :: "(string, 'a login_in_progress) dict"
    by (induction ks arbitrary: d) (auto simp: dict_get_pop)
  show ?thesis
    by (auto simp: gc_pass_def Let_def pops filter_empty_conv image_iff split: list.splits)
      (auto simp: filter_eq_Cons_iff)
qed

section \<open>Results that carry a certificate\<close>

definition carries_cert :: "pyval \<Rightarrow> bytes \<Rightarrow> bool" where
  "carries_cert result wire \<longleftrightarrow> (\<exists>r. result = PDict r \<and> pget ''cert'' r = Some (PBytes wire))"

definition minted :: "'s rpc_env \<Rightarrow> bytes \<Rightarrow> bool" where
  "minted E wire \<longleftrightarrow>
     (\<exists>h pk caps now. set caps \<subseteq> {PStr ''agent''} \<and>
        issue_cert (e_dumps E) (e_sign E) h pk (e_network_id E) caps CERT_TTL_SECONDS None now =
          Inr wire)"

lemma mint_minted:
  "mint E k h pk caps = Inr wire \<Longrightarrow> set caps \<subseteq> {PStr ''agent''} \<Longrightarrow> minted E wire"
  unfolding mint_Inr minted_def by blast

lemma login_finish_minted:
  "m_login_finish E k params s = (Inr r, s') \<Longrightarrow> carries_cert r wire \<Longrightarrow> minted E wire"
  by (erule login_finish_Inr) (auto simp: carries_cert_def intro: mint_minted)

lemma agent_login_minted:
  assumes "m_agent_login E k params s = (Inr r, s')" and "carries_cert r wire"
  shows "minted E wire"
proof -
  have "\<exists>h pk w. mint E k h pk [PStr ''agent''] = Inr w \<and>
      r = PDict [(PStr ''cert'', PBytes w), (PStr ''network_id'', PStr (e_network_id E)),
                 (PStr ''name'', PStr (e_network_name E))]"
    using assms(1)
    by (auto simp: m_agent_login_def Let_def bind_s_Inr_iff result_simps split: if_splits)
  then show ?thesis using assms(2) by (auto simp: carries_cert_def intro: mint_minted)
qed

abbreviation no_cert :: "bytes \<Rightarrow> pyval \<Rightarrow> bool" where
  "no_cert wire r \<equiv> \<not> carries_cert r wire"

lemma no_cert_handlers:
  "yields (no_cert w) (m_register k params)" "yields (no_cert w) (m_login_init E k params)"
  "yields (no_cert w) (m_add_agent E k params)" "yields (no_cert w) (m_remove_agent E k params)"
  "yields (no_cert w) (m_revoke_device E k params)"
proof -
  show "yields (no_cert w) (m_register k params)"
    unfolding m_register_def Let_def
    by (intro yields_bind yieldsI)
      (auto simp: carries_cert_def bind_s_Inr_iff result_simps
        split: option.split_asm sum.split_asm if_split_asm)
  show "yields (no_cert w) (m_login_init E k params)"
    unfolding m_login_init_def Let_def
    by (intro yields_bind yieldsI)
      (auto simp: carries_cert_def result_simps split: option.split_asm sum.split_asm if_split_asm)
  show "yields (no_cert w) (m_add_agent E k params)"
    unfolding m_add_agent_def by (intro yields_bind yields_ret) (simp add: carries_cert_def)
  show "yields (no_cert w) (m_remove_agent E k params)" "yields (no_cert w) (m_revoke_device E k params)"
    unfolding m_remove_agent_def m_revoke_device_def Let_def
    by (intro yields_bind yieldsI; auto simp: carries_cert_def result_simps case_prod_beta)+
qed

lemma no_cert_create_invitation: "yields (no_cert w) (m_create_invitation E k params)"
proof -
  have last: "yields (no_cert w) (\<lambda>s. case f s of Inl _ \<Rightarrow> raise_s Other s
      | Inr (invite, db) \<Rightarrow>
           ret_s (PDict [(PStr ''code'', PStr (i_code invite)),
                         (PStr ''display_code'', PStr (display_code invite)),
                         (PStr ''role'', PStr (i_role invite)),
                         (PStr ''expires_at'', PFloat (Finite (i_expires_at invite))),
                         (PStr ''uses_left'', PInt (i_uses_left invite))])
             (s\<lparr>sv_db := db\<rparr>))" for f :: "'a service \<Rightarrow> 'e + invitation_row \<times> coord_db"
    by (rule yieldsI)
      (auto simp: carries_cert_def result_simps split: sum.split_asm prod.split_asm)
  show ?thesis
    unfolding m_create_invitation_def
    by (intro yields_bind) (auto intro!: yields_bind yields_raise last)
qed

lemma no_cert_queries:
  "yields (no_cert w) m_list_agents" "yields (no_cert w) (m_runtime_directory k)"
  "yields (no_cert w) (m_network_info E)" "yields (no_cert w) (m_device_status k params)"
  by (auto simp: yields_def carries_cert_def m_list_agents_def m_runtime_directory_def
      directory_entry_def m_network_info_def m_device_status_def bind_s_Inr_iff result_simps
      split: if_split_asm)

lemma other_methods_no_cert:
  assumes "dict_get (METHODS E k) m = Some h" and "m \<notin> {''login_finish'', ''agent_login''}"
  shows "yields (no_cert w) (h params)"
  using assms
  by (auto simp: METHODS_def no_cert_handlers no_cert_create_invitation no_cert_queries
      split: if_split_asm)

lemma value_errors_Inr: "value_errors m s = (Inr r, s') \<longleftrightarrow> m s = (Inr r, s')"
  by (auto simp: value_errors_def split: prod.splits sum.splits rpc_exn.splits)

lemma dispatch_Inr:
  assumes "dispatch E k request s = (Inr response, s')"
  obtains rq m h params result where "request = PDict rq" "pget ''method'' rq = Some (PStr m)"
    "params = (let p = pget_or PNone ''params'' rq in if truthy p then p else PDict [])"
    "dict_get (METHODS E k) m = Some h" "h params s = (Inr result, s')"
    "response = PDict [(PStr ''id'', pget_or PNone ''id'' rq), (PStr ''result'', result)]"
proof -
  obtain rq where rq: "request = PDict rq"
    using assms by (cases request) (auto simp: dispatch_def result_simps)
  obtain m where m: "pget_or PNone ''method'' rq = PStr m"
    using assms rq
    by (cases "pget_or PNone ''method'' rq") (auto simp: dispatch_def result_simps Let_def)
  then have m': "pget ''method'' rq = Some (PStr m)"
    by (auto simp: pget_or_def split: option.splits)
  obtain h where h: "dict_get (METHODS E k) m = Some h"
    using assms rq m
    by (cases "dict_get (METHODS E k) m") (auto simp: dispatch_def result_simps Let_def)
  define params where "params = (let p = pget_or PNone ''params'' rq in if truthy p then p else PDict [])"
  have "\<exists>result. h params s = (Inr result, s') \<and>
      response = PDict [(PStr ''id'', pget_or PNone ''id'' rq), (PStr ''result'', result)]"
    using assms rq m h
    by (auto simp: dispatch_def params_def Let_def bind_s_Inr_iff value_errors_Inr result_simps)
  then show thesis using that rq m' params_def h by blast
qed

end
