(* ===== verification/Service_Guarantees.thy ===== *)
theory Service_Guarantees
  imports Coordinator_Service
begin

text \<open>
  What the coordinator's RPC service guarantees: when certificates are issued and to whom, what an
  administrator's certificate is needed for, how the roster and the accounts can change over a
  history of calls, the life of a login in progress, and the framing of requests.
\<close>

section \<open>A concrete service\<close>

definition demo_env :: "bytes rpc_env" where
  "demo_env = \<lparr>e_network_id = ''net1'', e_network_name = ''home'', e_sign = (\<lambda>_. replicate 64 0),
     e_vrf = (\<lambda>sig _. sig = replicate 64 0), e_dumps = (\<lambda>_. [1, 2]),
     e_loads = (\<lambda>b. if b = [1, 2] then Some (PDict [(PStr ''method'', PStr ''network_info'')]) else None),
     e_cbor_value_error = False, e_rep = (\<lambda>_. ''?''), e_parse_float = (\<lambda>_. None),
     e_parse_int = (\<lambda>_. None), e_column_text = (\<lambda>_. ''?''), e_srp = demo_srp,
     e_node_key = (\<lambda>_. Some (replicate 32 5)), e_fk = True, e_has_callback = True,
     e_message = (\<lambda>_. ''error'')\<rparr>"

definition demo_call :: rpc_call where
  "demo_call = \<lparr>k_peer = ''peer'', k_now = 50, k_private = [], k_uuid = ''s2'', k_code_bytes = [1],
     k_busy = False\<rparr>"

definition ann_db :: coord_db where
  "ann_db = empty_db\<lparr>db_users := [(''ann'', \<lparr>u_handle = ''ann'', u_pake_record = [1],
     u_pake_algo = ''srp6a'', u_status = ''active'', u_created_at = 1\<rparr>)]\<rparr>"

definition demo_service :: "bytes service" where
  "demo_service = \<lparr>sv_db = ann_db,
     sv_logins = [(''s1'', \<lparr>li_handle = ''ann'', li_session = [], li_created_at = 40\<rparr>)],
     sv_notified = []\<rparr>"

definition finish_params :: "(pyval \<times> pyval) list" where
  "finish_params = [(PStr ''state_id'', PStr ''s1''), (PStr ''ke3'', PBytes (replicate 64 48)),
     (PStr ''device_pubkey'', PBytes (replicate 32 5))]"

lemma strip_peer: "strip ''peer'' = ''peer''"
  by (rule strip_no_space) (simp add: is_space_def char_code_def)

lemma demo_peer_key: "check_peer_key demo_env ''peer'' (replicate 32 5) = Inr ()"
  unfolding check_peer_key_def iroh_node_id_public_bytes_def strip_peer
  by (simp add: demo_env_def startswith_def)

lemma demo_mint: "\<exists>w. mint demo_env demo_call ''ann'' (replicate 32 5) [] = Inr w"
  by (simp add: mint_def issue_cert_def to_bytes4_def demo_env_def Let_def)

lemma demo_finish:
  "\<exists>r s'. m_login_finish demo_env demo_call (PDict finish_params) demo_service = (Inr r, s')"
proof -
  have p: "k_peer demo_call = ''peer''" by (simp add: demo_call_def)
  have fin: "srp_login_finish (e_srp demo_env) st (replicate 64 48) = Inr [1]" for st
    by (simp add: srp_login_finish_def demo_env_def demo_srp_def PROOF_LEN_def)
  have fk: "e_fk demo_env" by (simp add: demo_env_def)
  obtain w where w: "mint demo_env demo_call ''ann'' (replicate 32 5) [] = Inr w"
    using demo_mint by blast
  show ?thesis
    by (simp add: m_login_finish_def finish_params_def required_def bind_s_def lift_s_def p
        demo_peer_key pop_login_def demo_service_def fin bind_device_def get_device_def ann_db_def
        empty_db_def admit_device_def user_has_devices_def dict_values_def pget_or_def
        enrol_device_def add_device_def fk w dict_pop_def ret_s_def)
qed

section \<open>Properties\<close>

text \<open>
  C1: When a login finishes with a certificate, everything that should have happened did: a login
  state of that id existed and is gone, the library verified the client's proof against it, the
  device key is the key the transport authenticated (outside the process-local transport), the
  certificate is the one issued for that user and device with no capabilities, and the device is
  enrolled and active. If the device was unknown and the user already had devices, a valid user or
  device invitation not bound to somebody else was presented; if it was known it was not revoked.
\<close>

theorem login_finish_grants:
  assumes "m_login_finish E k (PDict d) s = (Inr result, s')"
  shows "\<exists>state_id ke3 pubkey state m2 cert.
    pget ''state_id'' d = Some (PStr state_id) \<and> pget ''ke3'' d = Some (PBytes ke3) \<and>
    pget ''device_pubkey'' d = Some (PBytes pubkey) \<and>
    dict_get (sv_logins s) state_id = Some state \<and> dict_get (sv_logins s') state_id = None \<and>
    srp_verify_proof (e_srp E) (li_session state) ke3 \<and>
    (startswith (k_peer k) ''inproc:'' \<or> iroh_node_id_public_bytes (e_node_key E) (k_peer k) = Some pubkey) \<and>
    issue_cert (e_dumps E) (e_sign E) (li_handle state) pubkey (e_network_id E) []
      CERT_TTL_SECONDS None (k_now k) = Inr cert \<and>
    result = PDict [(PStr ''cert'', PBytes cert), (PStr ''m2'', PBytes m2)] \<and>
    (\<exists>dev. get_device (sv_db s') pubkey = Some dev \<and> d_status dev = ''active'' \<and>
       (get_device (sv_db s) pubkey = None \<longrightarrow> d_user_handle dev = li_handle state)) \<and>
    (case get_device (sv_db s) pubkey of
       Some dev \<Rightarrow> d_status dev = ''active''
     | None \<Rightarrow> user_has_devices (sv_db s) (li_handle state) \<longrightarrow>
         device_invite_ok (sv_db s) (k_now k) (li_handle state) (pget_or PNone ''invite'' d))"
proof -
  obtain d' state_id ke3 pubkey state m2 label code cert where f:
    "PDict d = PDict d'" "pget ''state_id'' d' = Some (PStr state_id)"
    "pget ''ke3'' d' = Some (PBytes ke3)" "pget ''device_pubkey'' d' = Some (PBytes pubkey)"
    "pget_or PNone ''invite'' d' = code"
    "check_peer_key E (k_peer k) pubkey = Inr ()"
    "dict_get (sv_logins s) state_id = Some state"
    "srp_login_finish (e_srp E) state ke3 = Inr m2"
    "bind_device E k (li_handle state) pubkey label code
       (s\<lparr>sv_logins := dict_pop state_id (sv_logins s)\<rparr>) = (Inr (), s')"
    "mint E k (li_handle state) pubkey [] = Inr cert"
    "result = PDict [(PStr ''cert'', PBytes cert), (PStr ''m2'', PBytes m2)]"
    using assms by (rule login_finish_Inr)
  have peer: "startswith (k_peer k) ''inproc:'' \<or> iroh_node_id_public_bytes (e_node_key E) (k_peer k) = Some pubkey"
    using f(6) by (auto simp: check_peer_key_def split: if_splits option.splits)
  have proof_ok: "srp_verify_proof (e_srp E) (li_session state) ke3"
    using f(8) by (auto simp: srp_login_finish_def Let_def split: if_splits)
  have b: "sv_logins s' = dict_pop state_id (sv_logins s) \<and>
    (\<exists>dev. get_device (sv_db s') pubkey = Some dev \<and> d_status dev = ''active'' \<and>
      (get_device (sv_db s) pubkey = None \<longrightarrow> d_user_handle dev = li_handle state)) \<and>
    (case get_device (sv_db s) pubkey of
       Some dev \<Rightarrow> d_status dev = ''active''
     | None \<Rightarrow> user_has_devices (sv_db s) (li_handle state) \<longrightarrow>
                 device_invite_ok (sv_db s) (k_now k) (li_handle state) (pget_or PNone ''invite'' d))"
    using bind_device_Inr [OF f(9)] f(1,5) by (simp split: option.splits)
  have gone: "dict_get (sv_logins s') state_id = None" using b by simp
  show ?thesis
    using f(1-4,5,7,10,11) peer proof_ok gone b unfolding mint_Inr
    by - (rule exI [of _ state_id], rule exI [of _ ke3], rule exI [of _ pubkey],
        rule exI [of _ state], rule exI [of _ m2], rule exI [of _ cert], simp)
qed

theorem login_finish_grants_witness:
  "\<exists>r s' cert m2. m_login_finish demo_env demo_call (PDict finish_params) demo_service = (Inr r, s') \<and>
     r = PDict [(PStr ''cert'', PBytes cert), (PStr ''m2'', PBytes m2)] \<and>
     get_device (sv_db s') (replicate 32 5) \<noteq> None"
proof -
  obtain r s' where
    fin: "m_login_finish demo_env demo_call (PDict finish_params) demo_service = (Inr r, s')"
    using demo_finish by blast
  from login_finish_grants [OF fin] obtain cert m2 pubkey dev where
    "pget ''device_pubkey'' finish_params = Some (PBytes pubkey)"
    and r: "r = PDict [(PStr ''cert'', PBytes cert), (PStr ''m2'', PBytes m2)]"
    and dev: "get_device (sv_db s') pubkey = Some dev" by blast
  then have "pubkey = replicate 32 5" by (simp add: finish_params_def)
  with fin r dev show ?thesis by blast
qed

text \<open>
  C36: A login state buys exactly one attempt. Whatever \<open>login_finish\<close> returns once its parameters
  are well formed and the peer's key matches, be it a certificate, a wrong proof or a refused
  device, the login state it names is gone afterwards, so every further proof needs a new
  \<open>login_init\<close>; every other login in progress is untouched.
\<close>

theorem login_state_used_once:
  assumes "pget ''state_id'' d = Some (PStr state_id)" and "pget ''ke3'' d = Some (PBytes ke3)"
    and "pget ''device_pubkey'' d = Some (PBytes pubkey)"
    and "check_peer_key E (k_peer k) pubkey = Inr ()"
  shows "dict_get (sv_logins (snd (m_login_finish E k (PDict d) s))) =
    (dict_get (sv_logins s))(state_id := None)"
proof -
  define rest where "rest = (\<lambda>state. case srp_login_finish (e_srp E) state ke3 of
         Inl _ \<Rightarrow> raise_s unauthorized
       | Inr m2 \<Rightarrow>
           bind_s (bind_device E k (li_handle state) pubkey (pget_or PNone ''label'' d)
             (pget_or PNone ''invite'' d)) (\<lambda>_.
           bind_s (lift_s (mint E k (li_handle state) pubkey [])) (\<lambda>cert.
           ret_s (PDict [(PStr ''cert'', PBytes cert), (PStr ''m2'', PBytes m2)]))))"
  have fin: "m_login_finish E k (PDict d) = bind_s (pop_login state_id) rest"
    using assms by (simp add: m_login_finish_def required_def rest_def)
  have keep: "same_logins s1 (snd (rest state s1))" for state s1
    unfolding rest_def by (rule keepsD [OF keeps_logins_finish])
  show ?thesis
  proof (cases "dict_get (sv_logins s) state_id")
    case None
    then show ?thesis unfolding fin by (auto simp: bind_s_def pop_login_def)
  next
    case (Some state)
    then show ?thesis
      using keep [of "s\<lparr>sv_logins := dict_pop state_id (sv_logins s)\<rparr>" state]
      unfolding fin by (simp add: bind_s_def pop_login_def same_logins_def dict_get_pop)
  qed
qed

theorem login_state_used_once_witness:
  "dict_get (sv_logins (snd (m_login_finish demo_env demo_call (PDict finish_params) demo_service)))
     ''s1'' = None \<and> dict_get (sv_logins demo_service) ''s1'' \<noteq> None"
proof -
  have "k_peer demo_call = ''peer''" by (simp add: demo_call_def)
  then have "dict_get (sv_logins (snd (m_login_finish demo_env demo_call (PDict finish_params)
      demo_service))) = (dict_get (sv_logins demo_service))(''s1'' := None)"
    using login_state_used_once [of finish_params "''s1''" "replicate 64 48" "replicate 32 5" demo_env
        demo_call demo_service]
    by (simp add: finish_params_def demo_peer_key)
  then show ?thesis by (simp add: demo_service_def)
qed

text \<open>
  C4: Administration needs an administrator. \<open>remove_agent\<close>, \<open>revoke_device\<close> and
  \<open>create_invitation\<close> return a result or change anything at all only if the request carries a
  certificate that the coordinator's key signed, that has not expired, that is for this network
  and that has the \<open>coordinator_admin\<close> capability.
\<close>

theorem admin_methods_guarded:
  assumes "m \<in> {''remove_agent'', ''revoke_device'', ''create_invitation''}"
    and "dict_get (METHODS E k) m = Some h"
    and "snd (h params s) \<noteq> s \<or> (\<exists>r. fst (h params s) = Inr r)"
  shows "\<exists>wire cert. required params ''cert'' as_bytes = Inr wire \<and>
    verify_cert (e_rep E) (e_parse_float E) (e_loads E) (e_vrf E) (Some (e_network_id E)) None
      (k_now k) wire = Inr cert \<and>
    signed_claims (e_rep E) (e_parse_float E) (e_loads E) (e_vrf E) cert \<and>
    \<not> is_expired cert None (k_now k) \<and> c_network_id cert = e_network_id E \<and>
    PStr ''coordinator_admin'' \<in> set (c_capabilities cert)"
proof -
  have "\<exists>cert. admin_gate E k params = Inr cert"
  proof (rule ccontr)
    assume "\<not> ?thesis"
    then obtain e where e: "admin_gate E k params = Inl e" by (cases "admin_gate E k params") auto
    then have "h params s = (Inl e, s)"
      using assms(1,2)
      by (auto simp: METHODS_def m_remove_agent_def m_revoke_device_def m_create_invitation_def
          raise_s_def split: if_splits)
    with assms(3) show False by simp
  qed
  then obtain cert wire where w: "required params ''cert'' as_bytes = Inr wire"
    and ac: "admin_cert E k wire = Inr cert" by (auto simp: admin_gate_def bind_r_Inr_iff)
  then have v: "verify_cert (e_rep E) (e_parse_float E) (e_loads E) (e_vrf E)
      (Some (e_network_id E)) None (k_now k) wire = Inr cert"
    and cap: "PStr ''coordinator_admin'' \<in> set (c_capabilities cert)"
    by (auto simp: admin_cert_def split: sum.splits cert_error.splits if_splits)
  from w v cap vcert.accepted [OF v] show ?thesis by blast
qed

definition admin_payload :: device_cert where
  "admin_payload = new_cert ''root'' (replicate 32 1) ''net1'' [PStr ''coordinator_admin''] 1000 10"

definition admin_env :: "bytes rpc_env" where
  "admin_env = demo_env\<lparr>e_loads := (\<lambda>_. Some (PDict (cert_payload admin_payload)))\<rparr>"

definition admin_wire :: bytes where
  "admin_wire = [0, 0, 0, 2, 1, 2] @ replicate 64 0"

lemma admin_wire_verifies:
  "verify_cert (e_rep admin_env) (e_parse_float admin_env) (e_loads admin_env) (e_vrf admin_env)
     (Some ''net1'') None 50 admin_wire = Inr admin_payload"
proof -
  have len: "from_bytes (take 4 admin_wire) = 2" by (simp add: admin_wire_def from_bytes_def)
  have sig: "wire_sig admin_wire = replicate 64 0"
    unfolding wire_sig_def len by (simp add: admin_wire_def)
  have dec: "decode_cert (e_rep admin_env) (e_parse_float admin_env) (e_loads admin_env) p =
      Inr admin_payload" for p
    by (rule decode_cert_payload) (simp add: admin_env_def)
  have "length admin_wire = 70" by (simp add: admin_wire_def)
  then show ?thesis
    unfolding verify_cert_Inr_iff len sig dec
    by (simp add: SIGNATURE_LEN_def admin_env_def demo_env_def is_expired_def now_or_def
        admin_payload_def new_cert_def)
qed

theorem admin_methods_guarded_witness:
  "\<exists>cert. PStr ''coordinator_admin'' \<in> set (c_capabilities cert) \<and> \<not> is_expired cert None 50 \<and>
     c_network_id cert = ''net1''"
proof -
  let ?p = "PDict [(PStr ''cert'', PBytes admin_wire), (PStr ''handle'', PStr ''lab'')]"
  have net: "e_network_id admin_env = ''net1''" by (simp add: admin_env_def demo_env_def)
  have now: "k_now demo_call = 50" by (simp add: demo_call_def)
  have gate: "admin_gate admin_env demo_call ?p = Inr admin_payload"
    using admin_wire_verifies
    by (simp add: admin_gate_def required_def admin_cert_def net now)
      (simp add: admin_payload_def new_cert_def)
  then have ok: "\<exists>r. fst (m_remove_agent admin_env demo_call ?p demo_service) = Inr r"
    by (simp add: m_remove_agent_def required_def ret_s_def remove_agent_def)
  have "dict_get (METHODS admin_env demo_call) ''remove_agent'' = Some (m_remove_agent admin_env demo_call)"
    by (simp add: METHODS_def)
  from admin_methods_guarded [OF _ this, of ?p demo_service] ok show ?thesis
    by (auto simp: net now)
qed

text \<open>
  C17: No RPC hands out administration. A certificate returned by any method was issued with at most
  the \<open>agent\<close> capability, and if its payload decodes to what was encoded, the administration gate
  refuses it at every later call.
\<close>

theorem rpc_never_mints_admin:
  assumes "dispatch E k request s = (Inr (PDict resp), s')"
    and "pget ''result'' resp = Some result" and "carries_cert result wire"
  shows "\<exists>h pk caps now. set caps \<subseteq> {PStr ''agent''} \<and>
    issue_cert (e_dumps E) (e_sign E) h pk (e_network_id E) caps CERT_TTL_SECONDS None now = Inr wire \<and>
    (e_loads E (wire_payload wire) =
        Some (PDict (cert_payload (new_cert h pk (e_network_id E) caps CERT_TTL_SECONDS now))) \<longrightarrow>
      (\<forall>k' c. admin_cert E k' wire \<noteq> Inr c))"
proof -
  obtain rq m h params r where h: "dict_get (METHODS E k) m = Some h" "h params s = (Inr r, s')"
    and resp: "PDict resp = PDict [(PStr ''id'', pget_or PNone ''id'' rq), (PStr ''result'', r)]"
    using assms(1) by (rule dispatch_Inr)
  have r: "r = result" using resp assms(2) by simp
  have "minted E wire"
  proof (cases "m \<in> {''login_finish'', ''agent_login''}")
    case True
    then consider "h = m_login_finish E k" | "h = m_agent_login E k"
      using h(1) by (auto simp: METHODS_def)
    then show ?thesis
      using h(2) assms(3) r login_finish_minted agent_login_minted by cases blast+
  next
    case False
    from yieldsD [OF other_methods_no_cert [OF h(1) False] h(2)] assms(3) r show ?thesis by blast
  qed
  then obtain u pk caps now where caps: "set caps \<subseteq> {PStr ''agent''}"
    and iss: "issue_cert (e_dumps E) (e_sign E) u pk (e_network_id E) caps CERT_TTL_SECONDS None now =
      Inr wire" unfolding minted_def by blast
  let ?c = "new_cert u pk (e_network_id E) caps CERT_TTL_SECONDS now"
  have "admin_cert E k' wire \<noteq> Inr c" if "e_loads E (wire_payload wire) = Some (PDict (cert_payload ?c))"
    for k' c
  proof
    assume ac: "admin_cert E k' wire = Inr c"
    then have v: "verify_cert (e_rep E) (e_parse_float E) (e_loads E) (e_vrf E)
        (Some (e_network_id E)) None (k_now k') wire = Inr c"
      and cap: "PStr ''coordinator_admin'' \<in> set (c_capabilities c)"
      by (auto simp: admin_cert_def split: sum.splits cert_error.splits if_splits)
    have "c = ?c" using verify_cert_accepts(3) [OF v] decode_cert_payload [where loads = "e_loads E", OF that] by simp
    with cap caps show False by (auto simp: new_cert_def)
  qed
  with caps iss show ?thesis by blast
qed

theorem rpc_never_mints_admin_witness:
  "\<exists>resp s' cert h pk caps now.
     dispatch demo_env demo_call (PDict [(PStr ''method'', PStr ''login_finish''),
       (PStr ''params'', PDict finish_params)]) demo_service = (Inr (PDict resp), s') \<and>
     set caps \<subseteq> {PStr ''agent''} \<and>
     issue_cert (e_dumps demo_env) (e_sign demo_env) h pk ''net1'' caps CERT_TTL_SECONDS None now =
       Inr cert"
proof -
  obtain r s' where
    fin: "m_login_finish demo_env demo_call (PDict finish_params) demo_service = (Inr r, s')"
    using demo_finish by blast
  then obtain cert m2 where r: "r = PDict [(PStr ''cert'', PBytes cert), (PStr ''m2'', PBytes m2)]"
    by (rule login_finish_Inr)
  have "truthy (PDict finish_params)" by (simp add: finish_params_def)
  then have d: "dispatch demo_env demo_call (PDict [(PStr ''method'', PStr ''login_finish''),
      (PStr ''params'', PDict finish_params)]) demo_service =
      (Inr (PDict [(PStr ''id'', PNone), (PStr ''result'', r)]), s')"
    using fin by (simp add: dispatch_def METHODS_def pget_or_def bind_s_def value_errors_def ret_s_def)
  have "e_network_id demo_env = ''net1''" by (simp add: demo_env_def)
  moreover have "carries_cert r cert" by (simp add: r carries_cert_def)
  ultimately obtain h pk caps now where "set caps \<subseteq> {PStr ''agent''}"
    "issue_cert (e_dumps demo_env) (e_sign demo_env) h pk ''net1'' caps CERT_TTL_SECONDS None now =
       Inr cert"
    using rpc_never_mints_admin [OF d, of r cert] by auto
  with d show ?thesis by blast
qed






text \<open>
  C7: The login collector is exact. After a pass at time \<open>now\<close> a login state is still there if and
  only if it was there before and is at most thirty seconds old.
\<close>

theorem gc_pass_exact:
  assumes "dict_ok (sv_logins s)"
  shows "dict_get (sv_logins (gc_pass now s)) i = Some st \<longleftrightarrow>
    dict_get (sv_logins s) i = Some st \<and> now - li_created_at st \<le> LOGIN_STATE_TTL"
proof (cases "filter (\<lambda>(k, st). k = i \<and> now - li_created_at st > LOGIN_STATE_TTL) (sv_logins s)")
  case Nil
  then have "\<And>st. (i, st) \<in> set (sv_logins s) \<Longrightarrow> \<not> now - li_created_at st > LOGIN_STATE_TTL"
    by (auto simp: filter_empty_conv)
  with Nil show ?thesis unfolding gc_logins using dict_get_in by fastforce
next
  case (Cons x xs)
  then have "x \<in> set (filter (\<lambda>(k, st). k = i \<and> now - li_created_at st > LOGIN_STATE_TTL) (sv_logins s))"
    by simp
  then obtain st' where "(i, st') \<in> set (sv_logins s)" "now - li_created_at st' > LOGIN_STATE_TTL"
    by (auto split: prod.splits)
  with dict_in_get [OF assms] Cons show ?thesis unfolding gc_logins by fastforce
qed

theorem gc_pass_exact_witness:
  "dict_get (sv_logins (gc_pass 70 demo_service)) ''s1'' \<noteq> None \<and>
   dict_get (sv_logins (gc_pass 71 demo_service)) ''s1'' = None"
proof -
  have ok: "dict_ok (sv_logins demo_service)" by (simp add: demo_service_def dict_ok_def)
  show ?thesis
    using gc_pass_exact [OF ok, of 70 "''s1''"] gc_pass_exact [OF ok, of 71 "''s1''"]
    by (cases "dict_get (sv_logins (gc_pass 71 demo_service)) ''s1''")
      (auto simp: demo_service_def LOGIN_STATE_TTL_def split: if_splits)
qed

text \<open>
  C38: Framing does not depend on how the network cuts the stream. If the bytes that arrive begin with
  the frame of a value within the size limit, then however they are split into non-empty segments
  the reader returns that value and consumes exactly the frame; if they end early it reports the
  end of the stream; and a frame over the limit is refused after its four header bytes, with no
  payload read.
\<close>

theorem frame_reading:
  assumes "[] \<notin> set st" and "to_bytes4 (length payload) = Some hdr"
  shows "(concat st = hdr @ payload @ rest \<longrightarrow> length payload \<le> max_size \<longrightarrow> loads payload = Some v \<longrightarrow>
      (\<exists>st'. read_cbor_frame loads max_size st = (Inr v, st') \<and> concat st' = rest)) \<and>
    (length payload \<le> max_size \<longrightarrow> length (concat st) < 4 + length payload \<longrightarrow>
      concat st = take (length (concat st)) (hdr @ payload) \<longrightarrow>
      fst (read_cbor_frame loads max_size st) = Inl (RpcError ''eof'')) \<and>
    (concat st = hdr @ rest \<longrightarrow> max_size < length payload \<longrightarrow>
      (\<exists>st'. read_cbor_frame loads max_size st = (Inl (RpcError ''too_large''), st') \<and>
        concat st' = rest))"
proof (intro conjI impI)
  note hdr = length_to_bytes4 [OF assms(2)] from_to_bytes4 [OF assms(2)]
  { assume c: "concat st = hdr @ payload @ rest" and small: "length payload \<le> max_size"
      and v: "loads payload = Some v"
    obtain st1 where 1: "read_exact 4 st = (Inr hdr, st1)" "concat st1 = payload @ rest" "[] \<notin> set st1"
      using read_exact_enough [OF assms(1), of 4] c hdr by auto
    obtain st2 where 2: "read_exact (length payload) st1 = (Inr payload, st2)" "concat st2 = rest"
      using read_exact_enough [OF 1(3), of "length payload"] 1(2) by auto
    show "\<exists>st'. read_cbor_frame loads max_size st = (Inr v, st') \<and> concat st' = rest"
      using 1 2 small v hdr(2)
      by (simp add: read_cbor_frame_def bind_s_Inr [where m = "read_exact 4", OF 1(1)] Let_def bind_s_def lift_s_def) }
  { assume small: "length payload \<le> max_size" and short: "length (concat st) < 4 + length payload"
      and c: "concat st = take (length (concat st)) (hdr @ payload)"
    show "fst (read_cbor_frame loads max_size st) = Inl (RpcError ''eof'')"
    proof (cases "length (concat st) < 4")
      case True
      then show ?thesis
        using read_exact_short [OF assms(1) True] by (simp add: read_cbor_frame_def bind_s_def)
    next
      case False
      then have "take 4 (concat st) = hdr" using c hdr(1)
        by (metis append_eq_conv_conj le_Suc_ex not_less take_add take_append take_take min_def)
      then obtain st1 where 1: "read_exact 4 st = (Inr hdr, st1)"
        "concat st1 = drop 4 (concat st)" "[] \<notin> set st1"
        using read_exact_enough [OF assms(1), of 4] False by (metis not_less)
      have "length (concat st1) < length payload" using 1(2) short False by simp
      from read_exact_short [OF 1(3) this] small hdr(2) show ?thesis
        by (simp add: read_cbor_frame_def bind_s_Inr [where m = "read_exact 4", OF 1(1)] Let_def) (simp add: bind_s_def)
    qed }
  { assume c: "concat st = hdr @ rest" and big: "max_size < length payload"
    obtain st1 where 1: "read_exact 4 st = (Inr hdr, st1)" "concat st1 = rest"
      using read_exact_enough [OF assms(1), of 4] c hdr by auto
    then show "\<exists>st'. read_cbor_frame loads max_size st = (Inl (RpcError ''too_large''), st') \<and>
        concat st' = rest"
      using big hdr(2) by (simp add: read_cbor_frame_def bind_s_Inr [where m = "read_exact 4", OF 1(1)] raise_s_def) }
qed

theorem frame_reading_witness:
  "\<exists>st'. read_cbor_frame (\<lambda>_. Some PNone) 10 [[0, 0], [0, 2, 1], [2, 9]] = (Inr PNone, st') \<and>
     concat st' = [9]"
proof -
  have "to_bytes4 (length [1, 2 :: 8 word]) = Some [0, 0, 0, 2]" by (simp add: to_bytes4_def)
  from frame_reading [OF _ this, of "[[0, 0], [0, 2, 1], [2, 9]]" "[9]" 10 "\<lambda>_. Some PNone" PNone]
  show ?thesis by simp
qed

end
