(* ===== verification/Service_Spec.thy ===== *)
theory Service_Spec
  imports Service_Guarantees
begin

text \<open>
  What an RPC may do to the coordinator's database, and on what authority: an abstract specification
  of the service, as a relation between the database before and after a call, and the proof that the
  dispatcher implements it. Every rule names the credential that the request has to carry: an
  invitation that can be redeemed, a proof of the password for a login in progress and the key of the
  authenticated peer, or an administrator's certificate.
\<close>

section \<open>The specification\<close>

text \<open>Parameters as the request carries them.\<close>

definition sends_text :: "(pyval \<times> pyval) list \<Rightarrow> string \<Rightarrow> string \<Rightarrow> bool" where
  "sends_text d name t \<longleftrightarrow> pget name d = Some (PStr t)"

definition sends_bytes :: "(pyval \<times> pyval) list \<Rightarrow> string \<Rightarrow> bytes \<Rightarrow> bool" where
  "sends_bytes d name b \<longleftrightarrow> pget name d = Some (PBytes b)"

text \<open>The account a request names: its handle, stripped and lower-cased.\<close>

definition names_handle :: "(pyval \<times> pyval) list \<Rightarrow> string \<Rightarrow> bool" where
  "names_handle d h \<longleftrightarrow> (\<exists>raw. sends_text d ''handle'' raw \<and> h = lower (strip raw))"

text \<open>The request's invitation is redeemed: it exists, has uses left and has not expired.\<close>

definition redeemed ::
  "rpc_call \<Rightarrow> (pyval \<times> pyval) list \<Rightarrow> coord_db \<Rightarrow> invitation_row \<Rightarrow> coord_db \<Rightarrow> bool" where
  "redeemed k d db i db' \<longleftrightarrow>
     (\<exists>c row. sends_text d ''invite'' c \<and> consume_select c (k_now k) db = Some row \<and>
        i = consumed_row (k_now k) row \<and> db' = consume_update (normalize_invite_code c) (k_now k) db)"

text \<open>The request proves the password of \<open>h\<close> and comes from the device it names.\<close>

definition proved ::
  "'s rpc_env \<Rightarrow> rpc_call \<Rightarrow> (pyval \<times> pyval) list \<Rightarrow> 's service \<Rightarrow> string \<Rightarrow> bytes \<Rightarrow> bool" where
  "proved E k d s h pubkey \<longleftrightarrow>
     (\<exists>sid ke3 st. sends_text d ''state_id'' sid \<and> sends_bytes d ''ke3'' ke3 \<and>
        sends_bytes d ''device_pubkey'' pubkey \<and> dict_get (sv_logins s) sid = Some st \<and>
        li_handle st = h \<and> srp_verify_proof (e_srp E) (li_session st) ke3 \<and>
        (startswith (k_peer k) ''inproc:'' \<or>
         iroh_node_id_public_bytes (e_node_key E) (k_peer k) = Some pubkey))"

text \<open>The request carries a certificate that verifies now and makes its holder an administrator.\<close>

definition administrator ::
  "'s rpc_env \<Rightarrow> rpc_call \<Rightarrow> (pyval \<times> pyval) list \<Rightarrow> string \<Rightarrow> bool" where
  "administrator E k d holder \<longleftrightarrow>
     (\<exists>wire cert. sends_bytes d ''cert'' wire \<and>
        verify_cert (e_rep E) (e_parse_float E) (e_loads E) (e_vrf E) (Some (e_network_id E)) None
          (k_now k) wire = Inr cert \<and>
        PStr ''coordinator_admin'' \<in> set (c_capabilities cert) \<and> holder = c_handle cert)"

definition bound_to_other :: "invitation_row \<Rightarrow> string \<Rightarrow> bool" where
  "bound_to_other i h \<longleftrightarrow> i_bind_to_handle i \<notin> {None, Some [], Some h}"

definition invite_owner :: "invitation_row \<Rightarrow> string" where
  "invite_owner i =
     (case i_bind_to_handle i of None \<Rightarrow> ''system'' | Some h \<Rightarrow> if h = [] then ''system'' else h)"

inductive granted ::
  "'s rpc_env \<Rightarrow> rpc_call \<Rightarrow> (pyval \<times> pyval) list \<Rightarrow> 's service \<Rightarrow> string \<Rightarrow> coord_db \<Rightarrow> bool"
  for E k d s where
  invitation_spent: "redeemed k d (sv_db s) i db \<Longrightarrow>
    m \<in> {''register'', ''login_finish'', ''add_agent'', ''agent_login''} \<Longrightarrow> granted E k d s m db"
| account_registered: "redeemed k d (sv_db s) i db1 \<Longrightarrow> i_role i = ''user'' \<Longrightarrow> names_handle d h \<Longrightarrow>
    get_user db1 h = None \<Longrightarrow> sends_bytes d ''pake_record'' r \<Longrightarrow> split_record r = Inr parts \<Longrightarrow>
    claim = (i_created_by i = Some ''auto-bootstrap'' \<and> list_users db1 = []) \<Longrightarrow>
    create_user h r ''srp6a'' claim (k_now k) db1 = Inr (claimed, db) \<Longrightarrow> granted E k d s ''register'' db"
| known_device: "proved E k d s h pubkey \<Longrightarrow> get_device (sv_db s) pubkey = Some dev \<Longrightarrow>
    d_status dev = ''active'' \<Longrightarrow> db = touch_device pubkey (k_now k) (sv_db s) \<Longrightarrow>
    granted E k d s ''login_finish'' db"
| first_device: "proved E k d s h pubkey \<Longrightarrow> get_device (sv_db s) pubkey = None \<Longrightarrow>
    \<not> user_has_devices (sv_db s) h \<Longrightarrow>
    add_device (e_fk E) pubkey h label (k_now k) (sv_db s) = Inr db \<Longrightarrow> granted E k d s ''login_finish'' db"
| further_device: "proved E k d s h pubkey \<Longrightarrow> get_device (sv_db s) pubkey = None \<Longrightarrow>
    redeemed k d (sv_db s) i db1 \<Longrightarrow> i_role i \<in> {''user'', ''device''} \<Longrightarrow> \<not> bound_to_other i h \<Longrightarrow>
    add_device (e_fk E) pubkey h label (k_now k) db1 = Inr db \<Longrightarrow> granted E k d s ''login_finish'' db"
| agent_by_admin: "administrator E k d holder \<Longrightarrow> names_handle d h \<Longrightarrow> sends_text d ''node_id'' n \<Longrightarrow>
    db = register_agent h n holder label (k_now k) (sv_db s) \<Longrightarrow> granted E k d s ''add_agent'' db"
| agent_by_invite: "redeemed k d (sv_db s) i db1 \<Longrightarrow> i_role i = ''agent'' \<Longrightarrow> names_handle d h \<Longrightarrow>
    sends_text d ''node_id'' n \<Longrightarrow> m = ''agent_login'' \<longrightarrow> lower (k_peer k) = lower n \<Longrightarrow>
    m \<in> {''add_agent'', ''agent_login''} \<Longrightarrow>
    db = register_agent h n (invite_owner i) label (k_now k) db1 \<Longrightarrow> granted E k d s m db"
| agent_removed: "administrator E k d holder \<Longrightarrow> sends_text d ''handle'' h \<Longrightarrow>
    db = snd (remove_agent h (sv_db s)) \<Longrightarrow> granted E k d s ''remove_agent'' db"
| device_revoked: "administrator E k d holder \<Longrightarrow> sends_bytes d ''device_pubkey'' pubkey \<Longrightarrow>
    db = snd (revoke_device pubkey (sv_db s)) \<Longrightarrow> granted E k d s ''revoke_device'' db"
| invitation_created: "administrator E k d holder \<Longrightarrow> sends_text d ''role'' role \<Longrightarrow>
    create_invitation (k_code_bytes k) role (Some holder) ttl uses bind (k_now k) (sv_db s) = Inr (i, db) \<Longrightarrow>
    granted E k d s ''create_invitation'' db"

section \<open>Effects of handlers\<close>

text \<open>Run from \<open>s\<close>, a handler leaves the database as it was or in a state that \<open>P\<close> admits.\<close>

definition affects :: "(coord_db \<Rightarrow> bool) \<Rightarrow> 's service \<Rightarrow> ('s, 'a) rpc \<Rightarrow> bool" where
  "affects P s m \<longleftrightarrow> sv_db (snd (m s)) = sv_db s \<or> P (sv_db (snd (m s)))"

definition quiet :: "('s, 'a) rpc \<Rightarrow> bool" where
  "quiet m \<longleftrightarrow> (\<forall>s. sv_db (snd (m s)) = sv_db s)"

lemma quiet_results [simp]: "quiet (ret_s x)" "quiet (raise_s e)" "quiet (lift_s r)"
  by (simp_all add: quiet_def)

lemma quietD: "quiet m \<Longrightarrow> sv_db (snd (m s)) = sv_db s"
  by (simp add: quiet_def)

lemma affects_quiet: "quiet m \<Longrightarrow> affects P s m"
  by (simp add: quiet_def affects_def)

lemma affects_same: "sv_db (snd (m s)) = sv_db s \<Longrightarrow> affects P s m"
  by (simp add: affects_def)

lemma affects_lift:
  "(\<And>x. r = Inr x \<Longrightarrow> affects P s (f x)) \<Longrightarrow> affects P s (bind_s (lift_s r) f)"
  by (cases r) (simp_all add: affects_def)

text \<open>A quiet end does not change the effect; neither does a quiet beginning, run to its end.\<close>

lemma snd_bind_s: "snd (bind_s m f s) = (case m s of (Inl e, s1) \<Rightarrow> s1 | (Inr x, s1) \<Rightarrow> snd (f x s1))"
  by (simp add: bind_s_def split: prod.split sum.split)

lemma affects_quiet_end:
  assumes "affects P s m" and "\<And>x. quiet (f x)"
  shows "affects P s (bind_s m f)"
proof -
  have "sv_db (snd (f x t)) = sv_db t" for x t using quietD [OF assms(2)] .
  then show ?thesis
    using assms(1) unfolding affects_def snd_bind_s by (cases "m s"; cases "fst (m s)") auto
qed

lemma affects_begin:
  assumes "\<And>e s1. m s = (Inl e, s1) \<Longrightarrow> sv_db s1 = sv_db s \<or> P (sv_db s1)"
    and "\<And>x s1. m s = (Inr x, s1) \<Longrightarrow> sv_db (snd (f x s1)) = sv_db s \<or> P (sv_db (snd (f x s1)))"
  shows "affects P s (bind_s m f)"
  using assms unfolding affects_def snd_bind_s by (cases "m s"; cases "fst (m s)") auto

lemma affectsD: "affects P s m \<Longrightarrow> sv_db (snd (m s)) = sv_db s \<or> P (sv_db (snd (m s)))"
  by (simp add: affects_def)

lemma quiet_bind: "quiet m \<Longrightarrow> (\<And>x. quiet (f x)) \<Longrightarrow> quiet (bind_s m f)"
  unfolding quiet_def snd_bind_s by (auto split: prod.split sum.split) (metis snd_conv)+

section \<open>The parts of a handler\<close>

lemma required_text:
  "required params name as_str = Inr t \<longleftrightarrow> (\<exists>d. params = PDict d \<and> sends_text d name t)"
  unfolding required_Inr sends_text_def by auto

lemma required_bytes:
  "required params name as_bytes = Inr b \<longleftrightarrow> (\<exists>d. params = PDict d \<and> sends_bytes d name b)"
  unfolding required_Inr sends_bytes_def by auto

lemma consume_cases:
  assumes "sends_text d ''invite'' c" and "consume_invitation c (k_now k) db = (r, db')"
  obtains (refused) "r = None" "db' = db" | (accepted) i where "r = Some i" "redeemed k d db i db'"
  using assms
  by (cases "consume_select c (k_now k) db") (auto simp: consume_invitation_def redeemed_def)

lemma redeem_PStr:
  "redeem k (PStr c) s =
     (let (ivt, db) = consume_invitation c (k_now k) (sv_db s) in (Inr ivt, s\<lparr>sv_db := db\<rparr>))"
  by (simp add: redeem_def)

text \<open>What follows a redemption runs from the state in which the invitation is used.\<close>

lemma affects_redeem:
  assumes "sends_text d ''invite'' c"
    and none: "quiet (f None)"
    and some: "\<And>i db1. redeemed k d (sv_db s) i db1 \<Longrightarrow>
      P (sv_db (snd (f (Some i) (s\<lparr>sv_db := db1\<rparr>))))"
  shows "affects P s (bind_s (redeem k (PStr c)) f)"
proof (rule affects_begin)
  fix e s1 assume "redeem k (PStr c) s = (Inl e, s1)"
  then show "sv_db s1 = sv_db s \<or> P (sv_db s1)" by (simp add: redeem_PStr case_prod_beta)
next
  fix r s1 assume rd: "redeem k (PStr c) s = (Inr r, s1)"
  obtain db1 where c: "consume_invitation c (k_now k) (sv_db s) = (r, db1)" "s1 = s\<lparr>sv_db := db1\<rparr>"
    using rd by (cases "consume_invitation c (k_now k) (sv_db s)") (simp add: redeem_PStr)
  from assms(1) c(1) show "sv_db (snd (f r s1)) = sv_db s \<or> P (sv_db (snd (f r s1)))"
  proof (cases rule: consume_cases)
    case refused
    then show ?thesis using quietD [OF none] c(2) by simp
  next
    case (accepted i)
    then show ?thesis using some c(2) by simp
  qed
qed

lemma admin_cert_admin:
  assumes "admin_cert E k wire = Inr cert" and "sends_bytes d ''cert'' wire"
  shows "administrator E k d (c_handle cert)"
  using assms by (auto simp: admin_cert_def administrator_def split: sum.splits cert_error.splits if_splits)

lemma admin_gate_admin:
  assumes "admin_gate E k params = Inr cert"
  obtains d where "params = PDict d" "administrator E k d (c_handle cert)"
proof -
  obtain d wire where d: "params = PDict d" "sends_bytes d ''cert'' wire" "admin_cert E k wire = Inr cert"
    using assms unfolding admin_gate_def bind_r_Inr_iff required_bytes by blast
  show thesis by (rule that [OF d(1) admin_cert_admin [OF d(3,2)]])
qed

section \<open>The methods\<close>

lemma create_user_fresh:
  assumes "get_user db h = None"
  obtains claimed db' where "create_user h r a claim now db = Inr (claimed, db')"
  using assms by (cases "create_user h r a claim now db") (auto simp: create_user_def get_user_def Let_def
      split: if_splits)

lemma register_granted:
  assumes "params = PDict d"
  shows "affects (granted E k d s ''register'') s (m_register k params)"
  unfolding m_register_def Let_def assms
proof (intro affects_lift)
  fix c raw r
  assume c: "required (PDict d) ''invite'' as_str = Inr c"
    and raw: "required (PDict d) ''handle'' as_str = Inr raw"
    and r: "required (PDict d) ''pake_record'' as_bytes = Inr r"
  let ?h = "lower (strip raw)"
  have h: "names_handle d ?h" using raw unfolding required_text names_handle_def by blast
  have sent: "sends_text d ''invite'' c" "sends_bytes d ''pake_record'' r"
    using c r unfolding required_text required_bytes by simp_all
  let ?rest = "\<lambda>ivt s. case ivt of None \<Rightarrow> raise_s invalid_invite s
     | Some ivt \<Rightarrow> if i_role ivt \<noteq> ''user'' then raise_s invalid_invite s
         else if get_user (sv_db s) ?h \<noteq> None then raise_s (RpcError ''conflict'') s
         else case register_finalize ?h r of Inl _ \<Rightarrow> raise_s ValueErr s
           | Inr validated \<Rightarrow> bind_s (add_user k ?h validated
               (i_created_by ivt = Some ''auto-bootstrap'' \<and> list_users (sv_db s) = []))
               (\<lambda>_. ret_s (PDict [(PStr ''ok'', PBool True), (PStr ''handle'', PStr ?h)])) s"
  show "affects (granted E k d s ''register'') s (bind_s (redeem k (PStr c)) ?rest)"
  proof (rule affects_redeem [OF sent(1)])
    show "quiet (?rest None)" by (simp add: quiet_def)
  next
    fix i db1
    assume red: "redeemed k d (sv_db s) i db1"
    have spent: "granted E k d s ''register'' db1"
      by (rule invitation_spent [OF red]) simp
    let ?s1 = "s\<lparr>sv_db := db1\<rparr>"
    show "granted E k d s ''register'' (sv_db (snd (?rest (Some i) ?s1)))"
    proof (cases "i_role i = ''user'' \<and> get_user db1 ?h = None \<and> register_finalize ?h r = Inr r")
      case False
      moreover have "\<exists>e. register_finalize ?h r = Inl e" if "register_finalize ?h r \<noteq> Inr r"
        using that by (cases "split_record r") (simp_all add: register_finalize_def)
      ultimately show ?thesis using spent by auto
    next
      case True
      let ?claim = "i_created_by i = Some ''auto-bootstrap'' \<and> list_users db1 = []"
      obtain parts where parts: "split_record r = Inr parts"
        using True by (cases "split_record r") (auto simp: register_finalize_def)
      obtain claimed db where cu: "create_user ?h r ''srp6a'' ?claim (k_now k) db1 = Inr (claimed, db)"
        using True create_user_fresh by blast
      have "granted E k d s ''register'' db"
        by (rule account_registered [OF red _ h _ sent(2) parts refl cu]) (use True in simp_all)
      then show ?thesis
        using True cu by (simp add: add_user_def bind_s_def ret_s_def)
    qed
  qed
qed

lemma login_init_granted: "quiet (m_login_init E k params)"
proof -
  have "quiet (\<lambda>s. case get_user (sv_db s) h of None \<Rightarrow> raise_s unauthorized s
     | Some user \<Rightarrow> if u_status user \<noteq> ''active'' then raise_s unauthorized s
         else case srp_login_init (e_srp E) (k_private k) (k_now k) h (u_pake_record user) ke1 of
            Inl _ \<Rightarrow> raise_s unauthorized s
          | Inr (state, response) \<Rightarrow> ret_s (PDict [(PStr ''state_id'', PStr (k_uuid k)),
              (PStr ''response'', PBytes response)])
              (s\<lparr>sv_logins := dict_set (k_uuid k) state (sv_logins s)\<rparr>))" for h ke1
    by (auto simp: quiet_def split: option.split sum.split)
  then show ?thesis
    unfolding m_login_init_def Let_def by (intro quiet_bind quiet_results)
qed

lemma add_device_cases:
  "sv_db (snd (enrol_device E k pubkey h label s)) = sv_db s \<or>
   add_device (e_fk E) pubkey h label (k_now k) (sv_db s) =
     Inr (sv_db (snd (enrol_device E k pubkey h label s)))"
  by (simp add: enrol_device_def split: sum.split)

text \<open>Enrolment after the admission of a device, whatever the label was.\<close>

abbreviation enrol_labelled ::
  "'s rpc_env \<Rightarrow> rpc_call \<Rightarrow> bytes \<Rightarrow> string \<Rightarrow> pyval \<Rightarrow> ('s, unit) rpc" where
  "enrol_labelled E k pubkey h label \<equiv>
     bind_s (lift_s (column (e_column_text E) label)) (\<lambda>lbl. enrol_device E k pubkey h lbl)"

lemma enrol_labelled_cases:
  obtains (same) "sv_db (snd (enrol_labelled E k pubkey h label s)) = sv_db s"
  | (added) lbl where "add_device (e_fk E) pubkey h lbl (k_now k) (sv_db s) =
      Inr (sv_db (snd (enrol_labelled E k pubkey h label s)))"
proof (cases "column (e_column_text E) label")
  case (Inl e)
  then show ?thesis using same by simp
next
  case (Inr lbl)
  then show ?thesis using add_device_cases [of E k pubkey h lbl s] same added by fastforce
qed

lemma check_device_invite_Some:
  "check_device_invite h (Some i) =
     (if i_role i \<in> {''user'', ''device''} \<and> \<not> bound_to_other i h then ret_s ()
      else raise_s invalid_invite)"
  by (auto simp: check_device_invite_def bound_to_other_def)

lemma bind_device_granted:
  assumes pr: "proved E k d s h pubkey" and same: "sv_db s1 = sv_db s"
    and inv: "pget_or PNone ''invite'' d = code"
  shows "sv_db (snd (bind_device E k h pubkey label code s1)) = sv_db s \<or>
    granted E k d s ''login_finish'' (sv_db (snd (bind_device E k h pubkey label code s1)))"
proof (cases "get_device (sv_db s) pubkey")
  case (Some dev)
  then show ?thesis
    using same known_device [OF pr Some _ refl]
    by (simp add: bind_device_def refresh_device_def raise_s_def)
next
  case None
  have bd: "bind_device E k h pubkey label code s1 =
      bind_s (admit_device k h code) (\<lambda>_. enrol_labelled E k pubkey h label) s1"
    using None same by (simp add: bind_device_def)
  consider (first) "\<not> user_has_devices (sv_db s) h"
    | (refused) "user_has_devices (sv_db s) h" "\<not> (\<exists>c. code = PStr c)"
    | (invite) c where "user_has_devices (sv_db s) h" "code = PStr c" by blast
  then show ?thesis
  proof cases
    case first
    then have "bind_device E k h pubkey label code s1 = enrol_labelled E k pubkey h label s1"
      using same by (simp add: bd admit_device_def bind_s_def ret_s_def)
    then show ?thesis
      using first_device [OF pr None first] same by (cases rule: enrol_labelled_cases [of E label k pubkey h s1]) auto
  next
    case refused
    then have "redeem k code s1 = (Inl Other, s1)" by (cases code) (simp_all add: redeem_def)
    then show ?thesis
      using refused(1) same by (simp add: bd admit_device_def bind_s_def raise_s_def)
  next
    case (invite c)
    show ?thesis
    proof (cases "c = []")
      case True
      then show ?thesis unfolding bd using invite same by (simp add: admit_device_def bind_s_def raise_s_def)
    next
      case False
      have sent: "sends_text d ''invite'' c"
        using inv invite(2) by (auto simp: sends_text_def pget_or_def split: option.splits)
      let ?rest = "\<lambda>ivt. bind_s (check_device_invite h ivt) (\<lambda>_. enrol_labelled E k pubkey h label)"
      have "affects (granted E k d s ''login_finish'') s1 (bind_s (redeem k (PStr c)) ?rest)"
      proof (rule affects_redeem [OF sent])
        show "quiet (?rest None)" by (simp add: check_device_invite_def)
      next
        fix i db1
        assume red: "redeemed k d (sv_db s1) i db1"
        then have red: "redeemed k d (sv_db s) i db1" by (simp add: same)
        have spent: "granted E k d s ''login_finish'' db1" by (rule invitation_spent [OF red]) simp
        let ?s2 = "s1\<lparr>sv_db := db1\<rparr>"
        show "granted E k d s ''login_finish'' (sv_db (snd (?rest (Some i) ?s2)))"
        proof (cases "i_role i \<in> {''user'', ''device''} \<and> \<not> bound_to_other i h")
          case False
          then show ?thesis using spent by (auto simp: check_device_invite_Some)
        next
          case True
          then have rest: "?rest (Some i) = enrol_labelled E k pubkey h label"
            by (simp add: check_device_invite_Some)
          from True have "i_role i \<in> {''user'', ''device''}" "\<not> bound_to_other i h" by simp_all
          note further = further_device [OF pr None red this]
          show ?thesis
          proof (cases rule: enrol_labelled_cases [of E label k pubkey h ?s2])
            case same
            then show ?thesis unfolding rest using spent by simp
          next
            case (added lbl)
            then show ?thesis unfolding rest using further by simp
          qed
        qed
      qed
      moreover have "bind_device E k h pubkey label code s1 = bind_s (redeem k (PStr c)) ?rest s1"
        unfolding bd using invite False same
        by (simp add: admit_device_def bind_s_def split: prod.split sum.split)
      ultimately show ?thesis unfolding affects_def same by simp
    qed
  qed
qed

lemma pop_login_db: "pop_login sid s = (r, s1) \<Longrightarrow> sv_db s1 = sv_db s"
  by (auto simp: pop_login_def split: option.splits)

lemma srp_login_finish_proof:
  "srp_login_finish L st ke3 = Inr m2 \<Longrightarrow> srp_verify_proof L (li_session st) ke3"
  by (auto simp: srp_login_finish_def Let_def split: if_splits)

lemma check_peer_key_Inr:
  "check_peer_key E peer pubkey = Inr () \<Longrightarrow>
     startswith peer ''inproc:'' \<or> iroh_node_id_public_bytes (e_node_key E) peer = Some pubkey"
  by (auto simp: check_peer_key_def split: if_splits option.splits)

lemma get_param_PDict [simp]: "get_param (PDict d) name = Inr (pget_or PNone name d)"
  by simp

lemma login_finish_granted:
  assumes "params = PDict d"
  shows "affects (granted E k d s ''login_finish'') s (m_login_finish E k params)"
  unfolding m_login_finish_def assms
proof (intro affects_lift)
  fix sid ke3 pubkey label code
  fix u :: unit
  assume sid: "required (PDict d) ''state_id'' as_str = Inr sid"
    and ke3: "required (PDict d) ''ke3'' as_bytes = Inr ke3"
    and pk: "required (PDict d) ''device_pubkey'' as_bytes = Inr pubkey"
    and code: "get_param (PDict d) ''invite'' = Inr code"
    and key: "check_peer_key E (k_peer k) pubkey = Inr u"
  let ?rest = "\<lambda>st. case srp_login_finish (e_srp E) st ke3 of Inl _ \<Rightarrow> raise_s unauthorized
     | Inr m2 \<Rightarrow> bind_s (bind_device E k (li_handle st) pubkey label code) (\<lambda>_.
         bind_s (lift_s (mint E k (li_handle st) pubkey [])) (\<lambda>cert.
         ret_s (PDict [(PStr ''cert'', PBytes cert), (PStr ''m2'', PBytes m2)])))"
  show "affects (granted E k d s ''login_finish'') s (bind_s (pop_login sid) ?rest)"
  proof (rule affects_begin)
    show "sv_db s1 = sv_db s \<or> granted E k d s ''login_finish'' (sv_db s1)"
      if "pop_login sid s = (Inl e, s1)" for e s1
      using pop_login_db [OF that] by simp
  next
    fix st s1
    assume pop: "pop_login sid s = (Inr st, s1)"
    then have st: "dict_get (sv_logins s) sid = Some st" by (simp add: pop_login_Inr)
    have db: "sv_db s1 = sv_db s" using pop_login_db [OF pop] .
    show "sv_db (snd (?rest st s1)) = sv_db s \<or>
        granted E k d s ''login_finish'' (sv_db (snd (?rest st s1)))"
    proof (cases "srp_login_finish (e_srp E) st ke3")
      case (Inl e)
      then show ?thesis using db by simp
    next
      case (Inr m2)
      have "proved E k d s (li_handle st) pubkey"
        using sid ke3 pk st srp_login_finish_proof [OF Inr] check_peer_key_Inr [of E "k_peer k" pubkey] key
        unfolding required_text required_bytes proved_def by auto
      from bind_device_granted [OF this db, of code label] code
      have "affects (granted E k d s ''login_finish'') s1 (bind_device E k (li_handle st) pubkey label code)"
        by (simp add: affects_def db)
      then have "affects (granted E k d s ''login_finish'') s1
          (bind_s (bind_device E k (li_handle st) pubkey label code) (\<lambda>_.
            bind_s (lift_s (mint E k (li_handle st) pubkey [])) (\<lambda>cert.
            ret_s (PDict [(PStr ''cert'', PBytes cert), (PStr ''m2'', PBytes m2)]))))"
        by (rule affects_quiet_end) (intro quiet_bind quiet_results)
      then show ?thesis using Inr db by (simp add: affects_def)
    qed
  qed
qed

text \<open>Registering an agent, under an owner that the certificate or the invitation gives.\<close>

lemma enrol_agent_db:
  "sv_db (snd (bind_s (enrol_agent k h n owner lbl) (\<lambda>_. ret_s v) s)) =
     register_agent h n owner lbl (k_now k) (sv_db s)"
  by (simp add: enrol_agent_def bind_s_def ret_s_def)

lemma invite_owner_redeem:
  "agent_invite_owner k code = bind_s (redeem k code) (\<lambda>ivt. case ivt of
       None \<Rightarrow> raise_s invalid_invite
     | Some i \<Rightarrow> if i_role i \<noteq> ''agent'' then raise_s invalid_invite else ret_s (invite_owner i))"
  by (simp only: agent_invite_owner_def invite_owner_def)

text \<open>What comes after the owner is known: \<open>granted\<close> in the state with the invitation used, or in the
  unchanged state for an administrator.\<close>

lemma affects_invite_owner:
  assumes code: "sends_text d ''invite'' c" and m: "m \<in> {''add_agent'', ''agent_login''}"
    and rest: "\<And>i db1. redeemed k d (sv_db s) i db1 \<Longrightarrow> i_role i = ''agent'' \<Longrightarrow>
      affects (granted E k d s m) (s\<lparr>sv_db := db1\<rparr>) (f (invite_owner i))"
  shows "affects (granted E k d s m) s (bind_s (agent_invite_owner k (PStr c)) f)"
  unfolding invite_owner_redeem bind_s_assoc
proof (rule affects_redeem [OF code])
  show "quiet (bind_s (case None of None \<Rightarrow> raise_s invalid_invite
     | Some i \<Rightarrow> if i_role i \<noteq> ''agent'' then raise_s invalid_invite else ret_s (invite_owner i)) f)"
    by simp
next
  fix i db1
  assume red: "redeemed k d (sv_db s) i db1"
  have spent: "granted E k d s m db1" using m by (intro invitation_spent [OF red]) auto
  show "granted E k d s m (sv_db (snd (bind_s (case Some i of None \<Rightarrow> raise_s invalid_invite
     | Some i \<Rightarrow> if i_role i \<noteq> ''agent'' then raise_s invalid_invite else ret_s (invite_owner i)) f
       (s\<lparr>sv_db := db1\<rparr>))))"
  proof (cases "i_role i = ''agent''")
    case True
    with rest [OF red True] spent show ?thesis by (auto simp: affects_def)
  next
    case False
    then show ?thesis using spent by simp
  qed
qed

lemma agent_login_granted:
  assumes "params = PDict d"
  shows "affects (granted E k d s ''agent_login'') s (m_agent_login E k params)"
  unfolding m_agent_login_def Let_def assms
proof (intro affects_lift)
  fix c raw n label
  assume c: "required (PDict d) ''invite'' as_str = Inr c"
    and raw: "required (PDict d) ''handle'' as_str = Inr raw"
    and n: "required (PDict d) ''node_id'' as_str = Inr n"
  let ?h = "lower (strip raw)"
  let ?rest = "\<lambda>owner. bind_s (lift_s (column (e_column_text E) label)) (\<lambda>lbl.
       bind_s (enrol_agent k ?h n owner lbl) (\<lambda>_.
       bind_s (lift_s (of_opt Other (e_node_key E n))) (\<lambda>device_pubkey.
       bind_s (lift_s (mint E k ?h device_pubkey [PStr ''agent''])) (\<lambda>cert_wire.
       ret_s (PDict [(PStr ''cert'', PBytes cert_wire), (PStr ''network_id'', PStr (e_network_id E)),
                     (PStr ''name'', PStr (e_network_name E))])))))"
  have h: "names_handle d ?h" using raw unfolding required_text names_handle_def by blast
  have sent: "sends_text d ''invite'' c" "sends_text d ''node_id'' n"
    using c n unfolding required_text by simp_all
  show "affects (granted E k d s ''agent_login'') s
     (if lower (k_peer k) \<noteq> lower n then raise_s unauthorized
      else bind_s (agent_invite_owner k (PStr c)) ?rest)"
  proof (cases "lower (k_peer k) = lower n")
    case True
    have "affects (granted E k d s ''agent_login'') s (bind_s (agent_invite_owner k (PStr c)) ?rest)"
    proof (rule affects_invite_owner [OF sent(1)])
      fix i db1
      assume red: "redeemed k d (sv_db s) i db1" "i_role i = ''agent''"
      show "affects (granted E k d s ''agent_login'') (s\<lparr>sv_db := db1\<rparr>) (?rest (invite_owner i))"
      proof (rule affects_lift)
        fix lbl
        have "granted E k d s ''agent_login'' (register_agent ?h n (invite_owner i) lbl (k_now k) db1)"
          by (rule agent_by_invite [OF red h sent(2) _ _ refl]) (use True in simp_all)
        then have "affects (granted E k d s ''agent_login'') (s\<lparr>sv_db := db1\<rparr>)
            (enrol_agent k ?h n (invite_owner i) lbl)"
          by (simp add: affects_def enrol_agent_def)
        then show "affects (granted E k d s ''agent_login'') (s\<lparr>sv_db := db1\<rparr>)
            (bind_s (enrol_agent k ?h n (invite_owner i) lbl) (\<lambda>_.
             bind_s (lift_s (of_opt Other (e_node_key E n))) (\<lambda>device_pubkey.
             bind_s (lift_s (mint E k ?h device_pubkey [PStr ''agent''])) (\<lambda>cert_wire.
             ret_s (PDict [(PStr ''cert'', PBytes cert_wire), (PStr ''network_id'', PStr (e_network_id E)),
                           (PStr ''name'', PStr (e_network_name E))])))))"
          by (rule affects_quiet_end) (intro quiet_bind quiet_results)
      qed
    qed simp
    then show ?thesis using True by simp
  next
    case False
    then show ?thesis by (simp add: affects_quiet)
  qed
qed

lemma add_agent_granted:
  assumes "params = PDict d"
  shows "affects (granted E k d s ''add_agent'') s (m_add_agent E k params)"
  unfolding m_add_agent_def assms get_param_PDict
proof (intro affects_lift)
  fix cert code
  assume "Inr (pget_or PNone ''cert'' d) = Inr cert" "Inr (pget_or PNone ''invite'' d) = Inr code"
  then have cert: "pget_or PNone ''cert'' d = cert" and code: "pget_or PNone ''invite'' d = code"
    by simp_all
  let ?rest = "\<lambda>owner_handle. bind_s (lift_s (required (PDict d) ''handle'' as_str)) (\<lambda>handle.
     bind_s (lift_s (required (PDict d) ''node_id'' as_str)) (\<lambda>node_id.
     bind_s (lift_s (Inr (pget_or PNone ''label'' d))) (\<lambda>label.
     bind_s (lift_s (column (e_column_text E) label)) (\<lambda>lbl.
     bind_s (enrol_agent k (lower (strip handle)) node_id owner_handle lbl) (\<lambda>_.
     ret_s (PDict [(PStr ''ok'', PBool True)]))))))"
  have rest: "affects (granted E k d s ''add_agent'') t (?rest owner)"
    if "\<And>h n lbl. names_handle d h \<Longrightarrow> sends_text d ''node_id'' n \<Longrightarrow>
      granted E k d s ''add_agent'' (register_agent h n owner lbl (k_now k) (sv_db t))" for t owner
  proof (intro affects_lift)
    fix raw n label lbl
    assume "required (PDict d) ''handle'' as_str = Inr raw" "required (PDict d) ''node_id'' as_str = Inr n"
    then have "names_handle d (lower (strip raw))" "sends_text d ''node_id'' n"
      unfolding required_text names_handle_def by blast+
    note g = that [OF this]
    show "affects (granted E k d s ''add_agent'') t
        (bind_s (enrol_agent k (lower (strip raw)) n owner lbl) (\<lambda>_. ret_s (PDict [(PStr ''ok'', PBool True)])))"
      unfolding affects_def enrol_agent_db using g by blast
  qed
  show "affects (granted E k d s ''add_agent'') s
     (bind_s (if truthy cert then bind_s (lift_s (verify_admin_cert E k cert)) (\<lambda>cert. ret_s (c_handle cert))
              else if truthy code then agent_invite_owner k code else raise_s unauthorized) ?rest)"
  proof (cases "truthy cert")
    case True
    show ?thesis
    proof (cases "verify_admin_cert E k cert")
      case (Inl e)
      then show ?thesis using True by (simp add: affects_quiet)
    next
      case (Inr c)
      then obtain wire where wire: "cert = PBytes wire" by (cases cert) auto
      then have "sends_bytes d ''cert'' wire"
        using cert by (auto simp: sends_bytes_def pget_or_def split: option.splits)
      with Inr wire have "administrator E k d (c_handle c)" by (intro admin_cert_admin) simp_all
      then have "affects (granted E k d s ''add_agent'') s (?rest (c_handle c))"
        by (intro rest agent_by_admin [OF _ _ _ refl])
      then show ?thesis using True Inr by simp
    qed
  next
    case no_cert: False
    show ?thesis
    proof (cases "truthy code \<and> (\<exists>c. code = PStr c)")
      case True
      then obtain c where c: "code = PStr c" by blast
      then have sent: "sends_text d ''invite'' c"
        using code by (auto simp: sends_text_def pget_or_def split: option.splits)
      have "affects (granted E k d s ''add_agent'') s (bind_s (agent_invite_owner k (PStr c)) ?rest)"
      proof (rule affects_invite_owner [OF sent])
        fix i db1
        assume red: "redeemed k d (sv_db s) i db1" "i_role i = ''agent''"
        show "affects (granted E k d s ''add_agent'') (s\<lparr>sv_db := db1\<rparr>) (?rest (invite_owner i))"
        proof (rule rest)
          fix h n lbl
          assume hn: "names_handle d h" "sends_text d ''node_id'' n"
          show "granted E k d s ''add_agent''
              (register_agent h n (invite_owner i) lbl (k_now k) (sv_db (s\<lparr>sv_db := db1\<rparr>)))"
            by (rule agent_by_invite [OF red hn]) simp_all
        qed
      qed simp
      then show ?thesis using True no_cert c by simp
    next
      case False
      show ?thesis
      proof (cases "truthy code")
        case True
        with False have "redeem k code s = (Inl Other, s)" by (cases code) (simp_all add: redeem_def)
        then have own: "agent_invite_owner k code s = (Inl Other, s)"
          unfolding invite_owner_redeem by (rule bind_s_Inl)
        then have "bind_s (agent_invite_owner k code) ?rest s = (Inl Other, s)" by (rule bind_s_Inl)
        then show ?thesis using no_cert True by (simp add: affects_def)
      next
        case False
        then show ?thesis using no_cert by (simp add: affects_quiet)
      qed
    qed
  qed
qed

lemma admin_methods_granted:
  assumes "params = PDict d"
  shows "affects (granted E k d s ''remove_agent'') s (m_remove_agent E k params)"
    and "affects (granted E k d s ''revoke_device'') s (m_revoke_device E k params)"
    and "affects (granted E k d s ''create_invitation'') s (m_create_invitation E k params)"
proof -
  have admin: "administrator E k d (c_handle cert)" if "admin_gate E k (PDict d) = Inr cert" for cert
    using that by (rule admin_gate_admin) simp
  show "affects (granted E k d s ''remove_agent'') s (m_remove_agent E k params)"
    unfolding m_remove_agent_def assms
  proof (intro affects_lift)
    fix cert h
    assume "admin_gate E k (PDict d) = Inr cert" "required (PDict d) ''handle'' as_str = Inr h"
    then have "granted E k d s ''remove_agent'' (snd (remove_agent h (sv_db s)))"
      using admin unfolding required_text by (blast intro: agent_removed [OF _ _ refl])
    then show "affects (granted E k d s ''remove_agent'') s (\<lambda>s. let (ok, db) = remove_agent h (sv_db s)
        in ret_s (PDict [(PStr ''ok'', PBool ok), (PStr ''removed_by'', PStr (c_handle cert))])
             (s\<lparr>sv_db := db\<rparr>))"
      by (simp add: affects_def case_prod_beta Let_def)
  qed
  show "affects (granted E k d s ''revoke_device'') s (m_revoke_device E k params)"
    unfolding m_revoke_device_def assms
  proof (intro affects_lift)
    fix cert pubkey
    assume "admin_gate E k (PDict d) = Inr cert" "required (PDict d) ''device_pubkey'' as_bytes = Inr pubkey"
    then have "granted E k d s ''revoke_device'' (snd (revoke_device pubkey (sv_db s)))"
      using admin unfolding required_bytes by (blast intro: device_revoked [OF _ _ refl])
    then show "affects (granted E k d s ''revoke_device'') s
        (\<lambda>s. let (ok, db) = revoke_device pubkey (sv_db s); s' = s\<lparr>sv_db := db\<rparr>
           in ret_s (PDict [(PStr ''ok'', PBool ok), (PStr ''revoked_by'', PStr (c_handle cert))])
                (if ok then notify_device_revoked E pubkey s' else s'))"
      by (simp add: affects_def case_prod_beta Let_def notify_device_revoked_def)
  qed
  show "affects (granted E k d s ''create_invitation'') s (m_create_invitation E k params)"
    unfolding m_create_invitation_def assms
  proof (intro affects_lift)
    fix cert role ttl0 ttl uses0 uses bnd
    assume gate: "admin_gate E k (PDict d) = Inr cert" and role: "required (PDict d) ''role'' as_str = Inr role"
    have step: "affects (granted E k d s ''create_invitation'') s (\<lambda>s.
        case create_invitation (k_code_bytes k) role (Some (c_handle cert)) (of_int ttl) uses b
               (k_now k) (sv_db s) of
          Inl _ \<Rightarrow> raise_s Other s
        | Inr (invite, db) \<Rightarrow> ret_s (f invite) (s\<lparr>sv_db := db\<rparr>))" for b and f :: "invitation_row \<Rightarrow> pyval"
    proof (cases "create_invitation (k_code_bytes k) role (Some (c_handle cert)) (of_int ttl) uses b
        (k_now k) (sv_db s)")
      case (Inl e)
      then show ?thesis by (simp add: affects_def)
    next
      case (Inr p)
      obtain i db where p: "p = (i, db)" by fastforce
      have "granted E k d s ''create_invitation'' db"
        using admin [OF gate] role Inr unfolding p required_text by (blast intro: invitation_created)
      then show ?thesis using Inr p by (simp add: affects_def)
    qed
    show "affects (granted E k d s ''create_invitation'') s
      (if role \<notin> {''user'', ''device'', ''agent''} then raise_s ValueErr
       else bind_s (lift_s (column (e_column_text E) bnd)) (\<lambda>bind_to_handle.
         bind_s (lift_s (sql_int uses)) (\<lambda>_ s.
         case create_invitation (k_code_bytes k) role (Some (c_handle cert)) (of_int ttl) uses
                bind_to_handle (k_now k) (sv_db s) of
           Inl _ \<Rightarrow> raise_s Other s
         | Inr (invite, db) \<Rightarrow>
             ret_s (PDict [(PStr ''code'', PStr (i_code invite)),
                           (PStr ''display_code'', PStr (display_code invite)),
                           (PStr ''role'', PStr (i_role invite)),
                           (PStr ''expires_at'', PFloat (Finite (i_expires_at invite))),
                           (PStr ''uses_left'', PInt (i_uses_left invite))])
               (s\<lparr>sv_db := db\<rparr>))))"
      by (cases "role \<notin> {''user'', ''device'', ''agent''}")
        (simp add: affects_quiet, simp, intro affects_lift step)
  qed
qed

lemma queries_quiet: "quiet m_list_agents" "quiet (m_runtime_directory k)" "quiet (m_network_info E)"
  "quiet (m_device_status k params)"
  by (auto simp: quiet_def m_list_agents_def m_runtime_directory_def m_network_info_def m_device_status_def
      snd_bind_s lift_s_def raise_s_def ret_s_def split: sum.split)

section \<open>The service implements the specification\<close>

definition rpc_params :: "(pyval \<times> pyval) list \<Rightarrow> pyval" where
  "rpc_params rq = (let p = pget_or PNone ''params'' rq in if truthy p then p else PDict [])"

lemma method_granted:
  assumes "dict_get (METHODS E k) m = Some h" and "params = PDict d"
  shows "affects (granted E k d s m) s (h params)"
  using assms(1)
  by (auto simp: METHODS_def affects_quiet login_init_granted queries_quiet
      register_granted [OF assms(2)] login_finish_granted [OF assms(2)] add_agent_granted [OF assms(2)]
      agent_login_granted [OF assms(2)] admin_methods_granted [OF assms(2)] split: if_splits)

text \<open>Anything but a map of parameters changes nothing.\<close>

lemma required_not_map: "\<nexists>d. params = PDict d \<Longrightarrow> \<exists>e. required params name ty = Inl e"
  using required_Inr [of params name ty] by (cases "required params name ty") auto

lemma get_param_not_map: "\<nexists>d. params = PDict d \<Longrightarrow> get_param params name = Inl Other"
  by (cases params) auto

lemma methods_not_map:
  assumes "\<nexists>d. params = PDict d" and "dict_get (METHODS E k) m = Some h"
  shows "quiet (h params)"
proof -
  have r: "quiet (bind_s (lift_s (required params name ty)) f)" for name ty and f :: "'c \<Rightarrow> ('a, pyval) rpc"
    using required_not_map [OF assms(1), of name ty] by auto
  have g: "quiet (bind_s (lift_s (get_param params name)) f)" for name and f :: "pyval \<Rightarrow> ('a, pyval) rpc"
    by (simp add: get_param_not_map [OF assms(1)])
  have a: "quiet (bind_s (lift_s (admin_gate E k params)) f)" for f :: "device_cert \<Rightarrow> ('a, pyval) rpc"
  proof -
    have "\<exists>e. admin_gate E k params = Inl e"
      using required_not_map [OF assms(1), of "''cert''" as_bytes] by (auto simp: admin_gate_def)
    then show ?thesis by auto
  qed
  show ?thesis
    using assms(2)
    by (auto simp: METHODS_def m_register_def m_login_finish_def m_add_agent_def m_agent_login_def
        m_remove_agent_def m_revoke_device_def m_create_invitation_def r g a login_init_granted
        queries_quiet split: if_splits)
qed

lemma value_errors_snd: "snd (value_errors m s) = snd (m s)"
  by (auto simp: value_errors_def split: prod.splits sum.splits rpc_exn.splits)

lemma dispatch_db:
  "sv_db (snd (dispatch E k request s)) = sv_db s \<or>
   (\<exists>rq m h. request = PDict rq \<and> pget ''method'' rq = Some (PStr m) \<and>
      dict_get (METHODS E k) m = Some h \<and>
      sv_db (snd (dispatch E k request s)) = sv_db (snd (h (rpc_params rq) s)))"
proof (cases "\<exists>rq m h. request = PDict rq \<and> pget_or PNone ''method'' rq = PStr m \<and>
    dict_get (METHODS E k) m = Some h")
  case True
  then obtain rq m h where rq: "request = PDict rq" "pget_or PNone ''method'' rq = PStr m"
    "dict_get (METHODS E k) m = Some h" by blast
  have "sv_db (snd (bind_s (value_errors (h (rpc_params rq))) (\<lambda>result. ret_s (f result)) s)) =
      sv_db (snd (h (rpc_params rq) s))" for f :: "pyval \<Rightarrow> pyval"
    unfolding snd_bind_s value_errors_snd [of "h (rpc_params rq)" s, symmetric]
    by (auto simp: ret_s_def split: prod.split sum.split)
  then have "sv_db (snd (dispatch E k request s)) = sv_db (snd (h (rpc_params rq) s))"
    using rq by (simp add: dispatch_def rpc_params_def Let_def)
  moreover have "pget ''method'' rq = Some (PStr m)"
    using rq(2) by (auto simp: pget_or_def split: option.splits)
  ultimately show ?thesis using rq(1,3) by blast
next
  case False
  then show ?thesis
    by (auto simp: dispatch_def Let_def split: pyval.split option.split)
qed

section \<open>Properties\<close>

text \<open>
  C18: The service implements its specification. Whatever request arrives, in whatever state, the
  database afterwards is the one before or a step the specification grants to this very request: an
  account only for an invitation of a user that the request redeems, and under the request's handle
  and password record; a device only after a proof of the account's password against a login in
  progress, from the device that holds the key (or over the host's own in-process link, which has no
  peer key), and beyond the account's first device only for a
  suitable invitation as well; an agent, a removal, a revocation or an invitation only on an
  administrator's certificate, or for an agent on an agent's invitation. A call that is refused may
  have used up the invitation it carried and changes nothing else.
\<close>

theorem service_refines_spec:
  "sv_db (snd (dispatch E k request s)) = sv_db s \<or>
   (\<exists>rq m d. request = PDict rq \<and> pget ''method'' rq = Some (PStr m) \<and> rpc_params rq = PDict d \<and>
      granted E k d s m (sv_db (snd (dispatch E k request s))))"
proof -
  consider (same) "sv_db (snd (dispatch E k request s)) = sv_db s"
    | (call) rq m h where "request = PDict rq" "pget ''method'' rq = Some (PStr m)"
      "dict_get (METHODS E k) m = Some h"
      "sv_db (snd (dispatch E k request s)) = sv_db (snd (h (rpc_params rq) s))"
    using dispatch_db by blast
  then show ?thesis
  proof cases
    case (call rq m h)
    show ?thesis
    proof (cases "\<exists>d. rpc_params rq = PDict d")
      case True
      then obtain d where d: "rpc_params rq = PDict d" by blast
      from affectsD [OF method_granted [OF call(3) d, of s]] call d show ?thesis by auto
    next
      case False
      from quietD [OF methods_not_map [OF False call(3)]] show ?thesis using call(4) by simp
    qed
  qed simp
qed

end
