(* ===== verification/Auth_Middleware.thy ===== *)
theory Auth_Middleware
  imports Peer_Policy Device_Cert Identity Coordinator_Store
begin

text \<open>
  The gateway's authentication middleware (\<open>packages/identity/.../auth/middleware.py\<close>): the pinned
  per-gateway state with its device epochs, and the decision taken for every request, in the order
  of the code: preflight and liveness exemptions, shared-secret tokens, the agent protocol, and
  device certificates.

  The roster lookup of a device certificate may suspend the request; what other tasks do to the
  state meanwhile is the argument \<open>during\<close>, a list of state events. Log lines are not modelled.
  Parameters: the certificate libraries as in the certificate theory, the parser of node ids, the
  SHA-256 digest, random bytes, and the answer of the roster.
\<close>

section \<open>State\<close>

text \<open>The answer of \<open>device_lookup\<close>: an exception, no row, or a row with a status.\<close>

datatype roster_answer = LookupRaises | NoRow | Row string

record auth_state =
  as_network_id :: string
  as_peer_policy :: "peer_policy option"
  as_revoked :: "bytes set"
  as_has_lookup :: bool
  as_listeners :: "nat list"
  as_observed :: "bytes set"
  as_epochs :: "(bytes, nat) dict"
  as_called :: "(nat \<times> bytes) list"
    \<comment> \<open>calls made to revocation listeners; a listener that raises is logged and skipped\<close>

definition device_epoch :: "auth_state \<Rightarrow> bytes \<Rightarrow> nat" where
  "device_epoch st key = (case dict_get (as_epochs st) key of None \<Rightarrow> 0 | Some n \<Rightarrow> n)"

definition row_active :: "roster_answer \<Rightarrow> bool" where
  "row_active a = (a = Row ''active'')"

definition note_observed :: "bytes \<Rightarrow> bool \<Rightarrow> auth_state \<Rightarrow> auth_state" where
  "note_observed key active st =
     st\<lparr>as_observed := (if active then insert key (as_observed st) else as_observed st - {key})\<rparr>"

text \<open>\<open>device_is_active\<close> from the point where the lookup has answered; \<open>None\<close> is the lookup's
  exception.\<close>

definition device_is_active :: "roster_answer \<Rightarrow> bytes \<Rightarrow> auth_state \<Rightarrow> bool option \<times> auth_state" where
  "device_is_active answer key st =
     (if \<not> as_has_lookup st
      then let active = key \<notin> as_revoked st in (Some active, note_observed key active st)
      else if answer = LookupRaises then (None, st)
      else (Some (row_active answer), note_observed key (row_active answer) st))"

definition disconnect :: "bytes \<Rightarrow> auth_state \<Rightarrow> auth_state" where
  "disconnect key st =
     st\<lparr>as_epochs := dict_set key (device_epoch st key + 1) (as_epochs st),
        as_called := as_called st @ map (\<lambda>l. (l, key)) (as_listeners st)\<rparr>"

definition revoke :: "bytes \<Rightarrow> auth_state \<Rightarrow> auth_state" where
  "revoke key st =
     disconnect key (st\<lparr>as_revoked := insert key (as_revoked st),
                       as_observed := as_observed st - {key}\<rparr>)"

definition add_revocation_listener :: "nat \<Rightarrow> auth_state \<Rightarrow> auth_state" where
  "add_revocation_listener l st =
     (if l \<in> set (as_listeners st) then st else st\<lparr>as_listeners := as_listeners st @ [l]\<rparr>)"

text \<open>\<open>revalidate_observed_devices\<close>: \<open>keys\<close> is the snapshot of the observed set in the order Python
  iterates it, \<open>answers\<close> what the roster says of each key; an exception counts as inactive.\<close>

fun revalidate_keys :: "(bytes \<Rightarrow> roster_answer) \<Rightarrow> bytes list \<Rightarrow> auth_state \<Rightarrow> bytes list \<times> auth_state" where
  "revalidate_keys answers [] st = ([], st)"
| "revalidate_keys answers (key # keys) st =
     (if row_active (answers key) then revalidate_keys answers keys st
      else let (out, st') = revalidate_keys answers keys
                 (disconnect key (st\<lparr>as_observed := as_observed st - {key}\<rparr>))
           in (key # out, st'))"

definition revalidate_observed_devices ::
  "(bytes \<Rightarrow> roster_answer) \<Rightarrow> bytes list \<Rightarrow> auth_state \<Rightarrow> bytes list \<times> auth_state" where
  "revalidate_observed_devices answers keys st =
     (if \<not> as_has_lookup st \<or> as_observed st = {} then ([], st) else revalidate_keys answers keys st)"

datatype state_event = Revoke bytes | Disconnect bytes | AddListener nat | Revalidate "bytes list" "bytes list"
  \<comment> \<open>\<open>Revalidate keys live\<close>: the observed keys and those the roster confirms\<close>

fun state_step :: "auth_state \<Rightarrow> state_event \<Rightarrow> auth_state" where
  "state_step st (Revoke key) = revoke key st"
| "state_step st (Disconnect key) = disconnect key st"
| "state_step st (AddListener l) = add_revocation_listener l st"
| "state_step st (Revalidate keys live) =
     snd (revalidate_observed_devices (\<lambda>k. if k \<in> set live then Row ''active'' else NoRow) keys st)"

section \<open>Requests\<close>

record http_request =
  rq_method :: string
  rq_path :: string
  rq_header :: "string \<Rightarrow> string option"
  rq_is_agent :: bool
  rq_peer :: "string option"
  rq_cert_wire :: bytes

datatype auth_kind = HttpToken | AgentPeer | DeviceCertificate

record annotations =
  an_cert :: device_cert
  an_client_id :: string
  an_user_handle :: string
  an_network_id :: string
  an_epoch :: "nat option"
  an_kind :: auth_kind

text \<open>\<open>Exempt\<close> passes the request on with no identity; \<open>Crash\<close> is an exception the middleware does
  not catch.\<close>

datatype auth_outcome = Exempt | Pass annotations | Deny nat string | Crash

record auth_lib =
  l_rep :: "pyval \<Rightarrow> string"
  l_parse_float :: "pyval \<Rightarrow> pyfloat option"
  l_loads :: "bytes \<Rightarrow> pyval option"
  l_vrf :: "bytes \<Rightarrow> bytes \<Rightarrow> bool"
  l_node_key :: "string \<Rightarrow> bytes option"
  l_sha256 :: "string \<Rightarrow> bytes"

record auth_inputs =
  x_now :: real
  x_random :: bytes
  x_answer :: roster_answer
  x_during :: "state_event list"

definition header_or_empty :: "http_request \<Rightarrow> string \<Rightarrow> string" where
  "header_or_empty rq name = (case rq_header rq name of None \<Rightarrow> [] | Some v \<Rightarrow> v)"

definition token_candidates :: "http_request \<Rightarrow> string list" where
  "token_candidates rq =
     (let x_token = strip (header_or_empty rq ''X-OpenAgent-Token'');
          authz = strip (header_or_empty rq ''Authorization'');
          bearer = strip (drop 7 authz)
      in (if x_token \<noteq> [] then [x_token] else []) @
         (if lower (take 7 authz) = ''bearer '' \<and> bearer \<noteq> [] then [bearer] else []))"

definition accepted_tokens :: "string \<Rightarrow> string \<Rightarrow> string \<Rightarrow> string list" where
  "accepted_tokens http_token llm_token path =
     (if http_token \<noteq> [] then [http_token] else []) @
     (if llm_token \<noteq> [] \<and> startswith path ''/api/llm/'' then [llm_token] else [])"

definition is_ascii :: "string \<Rightarrow> bool" where
  "is_ascii s = list_all (\<lambda>c. char_code c < 128) s"

text \<open>\<open>any(compare_digest(c, tok) ...)\<close>: comparing text with a non-ASCII character raises.\<close>

fun any_digest :: "(string \<times> string) list \<Rightarrow> bool option" where
  "any_digest [] = Some False"
| "any_digest ((c, tok) # ps) =
     (if \<not> is_ascii c \<or> \<not> is_ascii tok then None else if c = tok then Some True else any_digest ps)"

definition token_match :: "string \<Rightarrow> string \<Rightarrow> http_request \<Rightarrow> bool option" where
  "token_match http_token llm_token rq =
     any_digest (List.product (token_candidates rq)
       (accepted_tokens http_token llm_token (rq_path rq)))"

text \<open>The tokens are only looked at when one is configured.\<close>

definition token_verdict :: "string \<Rightarrow> string \<Rightarrow> http_request \<Rightarrow> bool option" where
  "token_verdict http_token llm_token rq =
     (if http_token \<noteq> [] \<or> llm_token \<noteq> [] then token_match http_token llm_token rq else Some False)"

definition annotate :: "device_cert \<Rightarrow> nat option \<Rightarrow> auth_kind \<Rightarrow> annotations" where
  "annotate cert epoch kind =
     \<lparr>an_cert = cert, an_client_id = hex_of (c_device_pubkey cert), an_user_handle = c_handle cert,
      an_network_id = c_network_id cert, an_epoch = epoch, an_kind = kind\<rparr>"

definition bridge_identity :: "auth_state \<Rightarrow> auth_inputs \<Rightarrow> http_request \<Rightarrow> annotations" where
  "bridge_identity st x rq =
     (let hint = header_or_empty rq ''X-OpenAgent-Handle'';
          handle = (if hint = [] then ''http-bridge'' else hint)
      in annotate (new_cert (take 64 handle) (x_random x) (as_network_id st) [] (365 * 24 * 3600)
           (x_now x)) None HttpToken)"

definition peer_id :: "http_request \<Rightarrow> string" where
  "peer_id rq = (case rq_peer rq of
     None \<Rightarrow> ''unknown-agent'' | Some p \<Rightarrow> if p = [] then ''unknown-agent'' else p)"

definition denial_text :: "peer_denial \<Rightarrow> string" where
  "denial_text d =
     (case d of
        NotConfigured \<Rightarrow> ''agent protocol is closed: network.peers is not configured''
      | NotInAllowlist \<Rightarrow> ''peer not in network.peers.allowlist''
      | OutsideScope m p \<Rightarrow> m @ '' '' @ p @ '' is outside network.peers.scope'')"

definition agent_gate :: "auth_lib \<Rightarrow> auth_state \<Rightarrow> auth_inputs \<Rightarrow> http_request \<Rightarrow> auth_outcome" where
  "agent_gate L st x rq =
     (let policy = (case as_peer_policy st of None \<Rightarrow> CLOSED_PEER_POLICY | Some p \<Rightarrow> p)
      in case check_peer_request policy (peer_id rq) (rq_method rq) (rq_path rq) of
           Some d \<Rightarrow> Deny 403 (denial_text d)
         | None \<Rightarrow>
             Pass (annotate (new_cert (''agent:'' @ take 16 (peer_id rq))
               (l_sha256 L (''agent:'' @ peer_id rq)) (as_network_id st) [PStr ''agent''] 3600 (x_now x))
               None AgentPeer))"

text \<open>The certificate path up to the roster lookup: signature, expiry and network, then possession of
  the key, then the local deny-set.\<close>

definition cert_precheck ::
  "auth_lib \<Rightarrow> auth_state \<Rightarrow> auth_inputs \<Rightarrow> http_request \<Rightarrow> auth_outcome + device_cert" where
  "cert_precheck L st x rq =
     (if rq_cert_wire rq = [] then Inl (Deny 401 ''missing device cert'')
      else case verify_cert (l_rep L) (l_parse_float L) (l_loads L) (l_vrf L)
                  (Some (as_network_id st)) None (x_now x) (rq_cert_wire rq) of
             Inl (CertRejected _) \<Rightarrow> Inl (Deny 401 ''cert rejected'')
           | Inl CborDecodeError \<Rightarrow> Inl Crash
           | Inr cert \<Rightarrow>
               (case iroh_node_id_public_bytes (l_node_key L)
                       (case rq_peer rq of None \<Rightarrow> [] | Some p \<Rightarrow> p) of
                  None \<Rightarrow> Inl (Deny 401 ''device cert peer identity unavailable'')
                | Some peer_pubkey \<Rightarrow>
                    if peer_pubkey \<noteq> c_device_pubkey cert
                    then Inl (Deny 401 ''device cert does not belong to Iroh peer'')
                    else if c_device_pubkey cert \<in> as_revoked st
                    then Inl (Deny 401 ''device revoked'')
                    else Inr cert))"

text \<open>From the roster lookup on. The epoch is read before the lookup and compared after it; the state
  events of \<open>during\<close> happen in between, when there is a lookup to wait for.\<close>

definition cert_gate_tail ::
  "auth_state \<Rightarrow> auth_inputs \<Rightarrow> device_cert \<Rightarrow> auth_outcome \<times> auth_state" where
  "cert_gate_tail st x cert =
     (let key = c_device_pubkey cert;
          epoch = device_epoch st key
      in if PStr ''bridge'' \<in> set (c_capabilities cert)
         then (Pass (annotate cert (Some epoch) DeviceCertificate), st)
         else
           (let st1 = (if as_has_lookup st then run_ops state_step st (x_during x) else st)
            in case device_is_active (x_answer x) key st1 of
                 (None, st2) \<Rightarrow> (Deny 503 ''device membership unavailable'', st2)
               | (Some False, st2) \<Rightarrow> (Deny 401 ''device inactive or removed'', disconnect key st2)
               | (Some True, st2) \<Rightarrow>
                   if device_epoch st2 key \<noteq> epoch
                   then (Deny 401 ''device authorization changed'', st2)
                   else (Pass (annotate cert (Some epoch) DeviceCertificate), st2)))"

definition auth_middleware ::
  "string \<Rightarrow> string \<Rightarrow> auth_lib \<Rightarrow> auth_inputs \<Rightarrow> http_request \<Rightarrow> auth_state
     \<Rightarrow> auth_outcome \<times> auth_state" where
  "auth_middleware http_token llm_token L x rq st =
     (if rq_method rq = ''OPTIONS'' then (Exempt, st)
      else if rq_path rq = ''/api/health'' then (Exempt, st)
      else
        case token_verdict http_token llm_token rq of
          None \<Rightarrow> (Crash, st)
        | Some True \<Rightarrow> (Pass (bridge_identity st x rq), st)
        | Some False \<Rightarrow>
            if rq_is_agent rq then (agent_gate L st x rq, st)
            else case cert_precheck L st x rq of
                   Inl out \<Rightarrow> (out, st)
                 | Inr cert \<Rightarrow> cert_gate_tail st x cert)"

definition token_of_env :: "(string, string) dict \<Rightarrow> string \<Rightarrow> string" where
  "token_of_env env name = strip (case dict_get env name of None \<Rightarrow> [] | Some v \<Rightarrow> v)"

definition make_auth_middleware ::
  "(string, string) dict \<Rightarrow> auth_lib \<Rightarrow> auth_inputs \<Rightarrow> http_request \<Rightarrow> auth_state
     \<Rightarrow> auth_outcome \<times> auth_state" where
  "make_auth_middleware env =
     auth_middleware (token_of_env env ''OPENAGENT_HTTP_TOKEN'')
       (token_of_env env ''OPENAGENT_LLM_TOKEN'')"

section \<open>Helpers for handlers\<close>

text \<open>\<open>request.get("device_cert")\<close> holds a certificate, something else, or nothing.\<close>

datatype cert_slot = Missing | Corrupted | Holds device_cert

definition device_cert_or_401 :: "cert_slot \<Rightarrow> string + device_cert" where
  "device_cert_or_401 slot =
     (case slot of
        Missing \<Rightarrow> Inl ''middleware did not set device_cert''
      | Corrupted \<Rightarrow> Inl ''device cert payload corrupted''
      | Holds c \<Rightarrow> Inr c)"

text \<open>On the finite lifetimes that certificates issued by the coordinator have.\<close>

definition is_cert_due_for_refresh :: "real \<Rightarrow> real \<Rightarrow> real option \<Rightarrow> real \<Rightarrow> bool" where
  "is_cert_due_for_refresh issued_at expires_at now clock =
     (let midpoint = issued_at + (expires_at - issued_at) * (1 / 2) in midpoint \<le> now_or now clock)"

section \<open>Epochs\<close>

lemma device_epoch_disconnect:
  "device_epoch (disconnect key st) k = device_epoch st k + (if k = key then 1 else 0)"
  by (simp add: disconnect_def device_epoch_def dict_get_set)

lemma device_epoch_update [simp]:
  "device_epoch (st\<lparr>as_observed := o1\<rparr>) k = device_epoch st k"
  "device_epoch (st\<lparr>as_revoked := r1\<rparr>) k = device_epoch st k"
  "device_epoch (st\<lparr>as_listeners := l1\<rparr>) k = device_epoch st k"
  by (simp_all add: device_epoch_def)

lemma device_epoch_revoke:
  "device_epoch (revoke key st) k = device_epoch st k + (if k = key then 1 else 0)"
  by (simp add: revoke_def device_epoch_disconnect)

lemma revalidate_keys_epoch:
  "device_epoch (snd (revalidate_keys answers keys st)) k =
     device_epoch st k + length (filter (\<lambda>k'. k' = k \<and> \<not> row_active (answers k')) keys)"
  by (induction answers keys st rule: revalidate_keys.induct)
    (auto simp: case_prod_beta Let_def device_epoch_disconnect)

text \<open>The events that cut a device off.\<close>

definition cuts_off :: "bytes \<Rightarrow> state_event \<Rightarrow> bool" where
  "cuts_off key e \<longleftrightarrow> e = Revoke key \<or> e = Disconnect key"

lemma state_step_epoch:
  "device_epoch st k + (if cuts_off k e then 1 else 0) \<le> device_epoch (state_step st e) k"
  by (cases e)
    (auto simp: cuts_off_def device_epoch_revoke device_epoch_disconnect
      add_revocation_listener_def revalidate_observed_devices_def revalidate_keys_epoch)

lemma run_epoch:
  "device_epoch st k + length (filter (cuts_off k) es) \<le>
     device_epoch (run_ops state_step st es) k"
proof (induction es arbitrary: st)
  case Nil
  show ?case by simp
next
  case (Cons e es)
  show ?case
    using Cons.IH [of "state_step st e"] state_step_epoch [of st k e]
    by (auto split: if_splits)
qed

lemma device_is_active_epoch:
  "device_is_active a key st = (r, st') \<Longrightarrow> device_epoch st' k = device_epoch st k"
  by (auto simp: device_is_active_def note_observed_def Let_def split: if_splits)

section \<open>Which path let a request through\<close>

lemma pass_kind:
  "an_kind (bridge_identity st x rq) = HttpToken"
  "agent_gate L st x rq = Pass an \<Longrightarrow> an_kind an = AgentPeer"
  "cert_gate_tail st x cert = (Pass an, st') \<Longrightarrow> an_kind an = DeviceCertificate"
proof -
  show "an_kind (bridge_identity st x rq) = HttpToken"
    by (simp add: bridge_identity_def annotate_def Let_def)
  show "agent_gate L st x rq = Pass an \<Longrightarrow> an_kind an = AgentPeer"
    by (auto simp: agent_gate_def annotate_def Let_def split: option.splits)
  show "cert_gate_tail st x cert = (Pass an, st') \<Longrightarrow> an_kind an = DeviceCertificate"
    by (auto simp: cert_gate_tail_def annotate_def Let_def
        split: if_splits prod.splits option.splits bool.splits)
qed

lemma middleware_Pass_cases:
  assumes "auth_middleware ht lt L x rq st = (Pass an, st')"
  obtains (token) "token_verdict ht lt rq = Some True"
      "an = bridge_identity st x rq" "st' = st"
  | (agent) "rq_is_agent rq" "agent_gate L st x rq = Pass an" "st' = st"
  | (cert) cert where "\<not> rq_is_agent rq" "cert_precheck L st x rq = Inr cert"
      "cert_gate_tail st x cert = (Pass an, st')"
proof -
  have live: "rq_method rq \<noteq> ''OPTIONS''" "rq_path rq \<noteq> ''/api/health''"
    using assms by (auto simp: auth_middleware_def split: if_split_asm)
  note out = assms [unfolded auth_middleware_def if_not_P [OF live(1)] if_not_P [OF live(2)]]
  show thesis
  proof (cases "token_verdict ht lt rq")
    case None
    with out show thesis by simp
  next
    case (Some b)
    show thesis
    proof (cases b)
      case True
      with out Some have "token_verdict ht lt rq = Some True" "an = bridge_identity st x rq" "st' = st"
        by auto
      then show thesis by (rule token)
    next
      case False
      with out Some have rest: "(if rq_is_agent rq then (agent_gate L st x rq, st)
            else case cert_precheck L st x rq of
                   Inl out \<Rightarrow> (out, st) | Inr cert \<Rightarrow> cert_gate_tail st x cert) = (Pass an, st')"
        by simp
      show thesis
      proof (cases "rq_is_agent rq")
        case True
        with rest have "agent_gate L st x rq = Pass an" "st' = st" by auto
        with True show thesis by (rule agent)
      next
        case False
        have "cert_precheck L st x rq \<noteq> Inl (Pass an)"
          by (simp add: cert_precheck_def split: sum.split option.split cert_error.split)
        with rest False obtain c where "cert_precheck L st x rq = Inr c"
          "cert_gate_tail st x c = (Pass an, st')" by (cases "cert_precheck L st x rq") auto
        with False show thesis by (rule cert)
      qed
    qed
  qed
qed

lemma cert_precheck_Inr:
  assumes "cert_precheck L st x rq = Inr cert"
  shows "verify_cert (l_rep L) (l_parse_float L) (l_loads L) (l_vrf L) (Some (as_network_id st)) None
      (x_now x) (rq_cert_wire rq) = Inr cert"
    and "\<exists>p. rq_peer rq = Some p \<and> iroh_node_id_public_bytes (l_node_key L) p = Some (c_device_pubkey cert)"
    and "c_device_pubkey cert \<notin> as_revoked st"
proof -
  let ?v = "verify_cert (l_rep L) (l_parse_float L) (l_loads L) (l_vrf L) (Some (as_network_id st))
      None (x_now x) (rq_cert_wire rq)"
  let ?k = "iroh_node_id_public_bytes (l_node_key L) (case rq_peer rq of None \<Rightarrow> [] | Some p \<Rightarrow> p)"
  show v: "?v = Inr cert"
  proof (cases ?v)
    case (Inl e)
    with assms show ?thesis by (cases e) (simp_all add: cert_precheck_def split: if_splits)
  next
    case (Inr c)
    with assms show ?thesis
      by (simp add: cert_precheck_def split: if_splits option.splits)
  qed
  have k: "?k = Some (c_device_pubkey cert) \<and> c_device_pubkey cert \<notin> as_revoked st"
    using assms v by (cases ?k) (auto simp: cert_precheck_def split: if_splits)
  have "iroh_node_id_public_bytes (l_node_key L) [] = None"
    by (simp add: iroh_node_id_public_bytes_def strip_no_space)
  with k show "\<exists>p. rq_peer rq = Some p \<and>
      iroh_node_id_public_bytes (l_node_key L) p = Some (c_device_pubkey cert)"
    by (cases "rq_peer rq") auto
  show "c_device_pubkey cert \<notin> as_revoked st" using k by blast
qed

lemma disconnect_has_lookup [simp]: "as_has_lookup (disconnect k st) = as_has_lookup st"
  by (simp add: disconnect_def)

lemma revalidate_has_lookup:
  "as_has_lookup (snd (revalidate_keys answers keys st)) = as_has_lookup st"
  by (induction answers keys st rule: revalidate_keys.induct) (simp_all add: case_prod_beta Let_def)

lemma run_has_lookup: "as_has_lookup (run_ops state_step st es) = as_has_lookup st"
proof (induction es arbitrary: st)
  case (Cons e es)
  have "as_has_lookup (state_step st e) = as_has_lookup st"
    by (cases e) (simp_all add: revoke_def add_revocation_listener_def
        revalidate_observed_devices_def revalidate_has_lookup)
  with Cons show ?case by simp
qed simp

lemma cert_gate_tail_Pass:
  assumes "cert_gate_tail st x cert = (Pass an, st')"
  defines "key \<equiv> c_device_pubkey cert"
  shows "an = annotate cert (Some (device_epoch st key)) DeviceCertificate"
    and "device_epoch st' key = device_epoch st key"
    and "PStr ''bridge'' \<in> set (c_capabilities cert) \<or>
      (if as_has_lookup st
       then row_active (x_answer x) \<and> \<not> (\<exists>e\<in>set (x_during x). cuts_off key e)
       else key \<notin> as_revoked st)"
proof -
  let ?br = "PStr ''bridge'' \<in> set (c_capabilities cert)"
  let ?st1 = "if as_has_lookup st then run_ops state_step st (x_during x) else st"
  have "?br \<and> an = annotate cert (Some (device_epoch st key)) DeviceCertificate \<and> st' = st \<or>
    \<not> ?br \<and> device_is_active (x_answer x) key ?st1 = (Some True, st') \<and>
      device_epoch st' key = device_epoch st key \<and>
      an = annotate cert (Some (device_epoch st key)) DeviceCertificate"
    using assms(1) unfolding key_def
    by (auto simp: cert_gate_tail_def Let_def split: if_splits prod.splits option.splits bool.splits)
  then show "an = annotate cert (Some (device_epoch st key)) DeviceCertificate"
    and ep: "device_epoch st' key = device_epoch st key"
    and "?br \<or> (if as_has_lookup st
       then row_active (x_answer x) \<and> \<not> (\<exists>e\<in>set (x_during x). cuts_off key e)
       else key \<notin> as_revoked st)"
  proof (atomize (full), elim disjE conjE, goal_cases)
    case 2
    have "filter (cuts_off key) (x_during x) = []" if "as_has_lookup st"
    proof -
      have "device_epoch (run_ops state_step st (x_during x)) key = device_epoch st key"
        using device_is_active_epoch [OF 2(2)] 2(3) that by simp
      with run_epoch [of st key "x_during x"] show ?thesis by simp
    qed
    with 2 show ?case
      by (auto simp: device_is_active_def run_has_lookup Let_def filter_empty_conv split: if_splits)
  qed auto
qed

lemma any_digest_True: "any_digest ps = Some True \<Longrightarrow> \<exists>t. (t, t) \<in> set ps"
  by (induction ps rule: any_digest.induct) (auto split: if_splits)

section \<open>Properties\<close>

text \<open>
  C2: A request marked as authenticated by device certificate carries the claims of a certificate
  that the pinned coordinator key signed for this network and that is unexpired; the caller owns
  the certificate's key; the key is not in the deny-set; and, unless the certificate is a bridge's,
  the roster said the device is active and nothing revoked or disconnected the device while the
  roster was being asked. The identity handed to the handlers is the certificate's own.
\<close>

theorem device_cert_auth_sound:
  assumes "auth_middleware ht lt L x rq st = (Pass an, st')" and "an_kind an = DeviceCertificate"
  shows "\<exists>cert p. an_cert an = cert \<and>
    verify_cert (l_rep L) (l_parse_float L) (l_loads L) (l_vrf L) (Some (as_network_id st)) None
      (x_now x) (rq_cert_wire rq) = Inr cert \<and>
    signed_claims (l_rep L) (l_parse_float L) (l_loads L) (l_vrf L) cert \<and>
    \<not> is_expired cert None (x_now x) \<and> c_network_id cert = as_network_id st \<and>
    rq_peer rq = Some p \<and> iroh_node_id_public_bytes (l_node_key L) p = Some (c_device_pubkey cert) \<and>
    c_device_pubkey cert \<notin> as_revoked st \<and>
    (PStr ''bridge'' \<in> set (c_capabilities cert) \<or> \<not> as_has_lookup st \<or>
     x_answer x = Row ''active'' \<and> \<not> (\<exists>e\<in>set (x_during x). cuts_off (c_device_pubkey cert) e)) \<and>
    an_user_handle an = c_handle cert \<and> an_client_id an = hex_of (c_device_pubkey cert) \<and>
    an_epoch an = Some (device_epoch st (c_device_pubkey cert))"
  using assms(1)
proof (cases rule: middleware_Pass_cases)
  case token
  with assms(2) pass_kind(1) show ?thesis by simp
next
  case agent
  with assms(2) pass_kind(2) show ?thesis by fastforce
next
  case (cert cert)
  note pre = cert_precheck_Inr [OF cert(2)]
  note tail = cert_gate_tail_Pass [OF cert(3)]
  from pre(2) obtain p where "rq_peer rq = Some p"
    "iroh_node_id_public_bytes (l_node_key L) p = Some (c_device_pubkey cert)" by blast
  with pre(1,3) tail(1,3) vcert.accepted [OF pre(1)] show ?thesis
    by (auto simp: annotate_def row_active_def split: if_splits)
qed

definition demo_lib :: auth_lib where
  "demo_lib = \<lparr>l_rep = (\<lambda>_. ''?''), l_parse_float = (\<lambda>_. None),
     l_loads = (\<lambda>_. Some (PDict (cert_payload (new_cert ''ann'' (replicate 32 5) ''net1'' [] 1000 10)))),
     l_vrf = (\<lambda>sig _. sig = replicate 64 0), l_node_key = (\<lambda>_. Some (replicate 32 5)),
     l_sha256 = (\<lambda>_. replicate 32 8)\<rparr>"

definition demo_state :: auth_state where
  "demo_state = \<lparr>as_network_id = ''net1'', as_peer_policy = None, as_revoked = {},
     as_has_lookup = True, as_listeners = [1], as_observed = {}, as_epochs = [], as_called = []\<rparr>"

definition demo_request :: http_request where
  "demo_request = \<lparr>rq_method = ''GET'', rq_path = ''/api/chat'', rq_header = (\<lambda>_. None),
     rq_is_agent = False, rq_peer = Some ''p'', rq_cert_wire = [0, 0, 0, 2, 1, 2] @ replicate 64 0\<rparr>"

definition demo_inputs :: auth_inputs where
  "demo_inputs = \<lparr>x_now = 50, x_random = [], x_answer = Row ''active'', x_during = [AddListener 4]\<rparr>"

lemma demo_precheck:
  "cert_precheck demo_lib demo_state demo_inputs demo_request =
     Inr (new_cert ''ann'' (replicate 32 5) ''net1'' [] 1000 10)"
proof -
  let ?c = "new_cert ''ann'' (replicate 32 5) ''net1'' [] 1000 10"
  let ?w = "rq_cert_wire demo_request"
  have len: "from_bytes (take 4 ?w) = 2" "length ?w = 70"
    by (simp_all add: demo_request_def from_bytes_def)
  have sig: "wire_sig ?w = replicate 64 0" unfolding wire_sig_def len by (simp add: demo_request_def)
  have dec: "decode_cert (l_rep demo_lib) (l_parse_float demo_lib) (l_loads demo_lib) p = Inr ?c" for p
    by (rule decode_cert_payload) (simp add: demo_lib_def)
  have v: "verify_cert (l_rep demo_lib) (l_parse_float demo_lib) (l_loads demo_lib) (l_vrf demo_lib)
      (Some ''net1'') None 50 ?w = Inr ?c"
    unfolding verify_cert_Inr_iff len sig dec
    by (simp add: SIGNATURE_LEN_def demo_lib_def is_expired_def now_or_def new_cert_def)
  have "strip ''p'' = ''p''" by (rule strip_no_space) (simp add: is_space_def char_code_def)
  then have k: "iroh_node_id_public_bytes (l_node_key demo_lib) ''p'' = Some (replicate 32 5)"
    by (simp add: iroh_node_id_public_bytes_def demo_lib_def)
  have "rq_peer demo_request = Some ''p''" "as_network_id demo_state = ''net1''"
    "x_now demo_inputs = 50" "as_revoked demo_state = {}" "?w \<noteq> []"
    by (simp_all add: demo_request_def demo_state_def demo_inputs_def)
  then show ?thesis using v k by (simp add: cert_precheck_def) (simp add: new_cert_def)
qed

lemma demo_pass:
  "\<exists>st'. auth_middleware [] [] demo_lib demo_inputs demo_request demo_state =
     (Pass (annotate (new_cert ''ann'' (replicate 32 5) ''net1'' [] 1000 10) (Some 0)
        DeviceCertificate), st')"
proof -
  have tail: "\<exists>st'. cert_gate_tail demo_state demo_inputs
      (new_cert ''ann'' (replicate 32 5) ''net1'' [] 1000 10) =
      (Pass (annotate (new_cert ''ann'' (replicate 32 5) ''net1'' [] 1000 10) (Some 0)
        DeviceCertificate), st')"
    by (simp add: cert_gate_tail_def new_cert_def demo_state_def demo_inputs_def device_epoch_def
        add_revocation_listener_def device_is_active_def row_active_def note_observed_def Let_def)
  have "rq_method demo_request = ''GET''" "rq_path demo_request = ''/api/chat''"
    "\<not> rq_is_agent demo_request" by (simp_all add: demo_request_def)
  then show ?thesis
    using demo_precheck tail by (simp add: auth_middleware_def token_verdict_def)
qed

theorem device_cert_auth_sound_witness:
  "\<exists>an st'. auth_middleware [] [] demo_lib demo_inputs demo_request demo_state = (Pass an, st') \<and>
     c_network_id (an_cert an) = ''net1'' \<and> \<not> is_expired (an_cert an) None 50 \<and>
     iroh_node_id_public_bytes (l_node_key demo_lib) ''p'' = Some (c_device_pubkey (an_cert an))"
proof -
  obtain st' where p: "auth_middleware [] [] demo_lib demo_inputs demo_request demo_state =
     (Pass (annotate (new_cert ''ann'' (replicate 32 5) ''net1'' [] 1000 10) (Some 0)
        DeviceCertificate), st')" using demo_pass by blast
  from device_cert_auth_sound [OF p] p show ?thesis
    by (auto simp: demo_state_def demo_inputs_def demo_request_def annotate_def)
qed

text \<open>
  Revocation is seen by connections that outlive their request. The epoch recorded when a device
  was let in is below the device's current epoch after any later history that revokes or
  disconnects the device, so a handler that compares the two finds out.
\<close>

theorem recorded_epoch_detects_cutoff:
  assumes "auth_middleware ht lt L x rq st = (Pass an, st')" and "an_epoch an = Some epoch"
    and "\<exists>e\<in>set later. cuts_off (c_device_pubkey (an_cert an)) e"
  shows "epoch < device_epoch (run_ops state_step st' later) (c_device_pubkey (an_cert an))"
  using assms(1)
proof (cases rule: middleware_Pass_cases)
  case token
  with assms(2) show ?thesis by (simp add: bridge_identity_def annotate_def Let_def)
next
  case agent
  with assms(2) show ?thesis
    by (auto simp: agent_gate_def annotate_def Let_def split: option.splits)
next
  case (cert cert)
  note tail = cert_gate_tail_Pass [OF cert(3)]
  have key: "an_cert an = cert" and ep: "epoch = device_epoch st (c_device_pubkey cert)"
    using tail(1) assms(2) by (simp_all add: annotate_def)
  have "filter (cuts_off (c_device_pubkey cert)) later \<noteq> []"
    using assms(3) key by (simp add: filter_empty_conv)
  then have "0 < length (filter (cuts_off (c_device_pubkey cert)) later)" by simp
  with run_epoch [of st' "c_device_pubkey cert" later] tail(2) ep show ?thesis
    unfolding key by linarith
qed

theorem recorded_epoch_detects_cutoff_witness:
  "\<exists>st'. 0 < device_epoch (run_ops state_step st' [Revoke (replicate 32 5)]) (replicate 32 5)"
proof -
  obtain st' where p: "auth_middleware [] [] demo_lib demo_inputs demo_request demo_state =
     (Pass (annotate (new_cert ''ann'' (replicate 32 5) ''net1'' [] 1000 10) (Some 0)
        DeviceCertificate), st')" using demo_pass by blast
  from recorded_epoch_detects_cutoff [OF p, of 0 "[Revoke (replicate 32 5)]"] show ?thesis
    by (auto simp: annotate_def new_cert_def cuts_off_def)
qed

text \<open>
  C20: Nothing passes without a credential. Only preflight requests and the exact path
  \<open>/api/health\<close> are exempt; every other request that passes presented the full token, or the LLM
  token on a path under \<open>/api/llm/\<close>, or is an agent peer that the peer policy admits, or passed the
  certificate checks.
\<close>

theorem every_pass_has_a_credential:
  assumes "fst (auth_middleware ht lt L x rq st) = out" and "out = Exempt \<or> out = Pass an"
  shows "out = Exempt \<and> (rq_method rq = ''OPTIONS'' \<or> rq_path rq = ''/api/health'') \<or>
    an_kind an = HttpToken \<and>
      (ht \<noteq> [] \<and> ht \<in> set (token_candidates rq) \<or>
       lt \<noteq> [] \<and> lt \<in> set (token_candidates rq) \<and> startswith (rq_path rq) ''/api/llm/'') \<or>
    an_kind an = AgentPeer \<and> rq_is_agent rq \<and>
      (\<exists>pol. as_peer_policy st = Some pol \<and>
        check_peer_request pol (peer_id rq) (rq_method rq) (rq_path rq) = None) \<or>
    an_kind an = DeviceCertificate \<and> (\<exists>cert. cert_precheck L st x rq = Inr cert)"
proof (cases "out = Exempt")
  case True
  have "fst (auth_middleware ht lt L x rq st) \<noteq> Exempt"
    if "rq_method rq \<noteq> ''OPTIONS''" "rq_path rq \<noteq> ''/api/health''"
  proof -
    have 1: "cert_precheck L st x rq \<noteq> Inl Exempt"
      by (simp add: cert_precheck_def split: sum.split option.split cert_error.split)
    have 2: "fst (cert_gate_tail st x c) \<noteq> Exempt" for c
      by (simp add: cert_gate_tail_def Let_def split: prod.split option.split bool.split)
    have 3: "agent_gate L st x rq \<noteq> Exempt"
      by (simp add: agent_gate_def Let_def split: option.split)
    from 1 2 3 that show ?thesis
      by (auto simp: auth_middleware_def split: option.split bool.split sum.split)
  qed
  with True assms(1) show ?thesis by blast
next
  case False
  then obtain st' where pass: "auth_middleware ht lt L x rq st = (Pass an, st')"
    using assms by (metis prod.collapse)
  then show ?thesis
  proof (cases rule: middleware_Pass_cases)
    case token
    then have "ht \<noteq> [] \<or> lt \<noteq> []" "token_match ht lt rq = Some True"
      by (auto simp: token_verdict_def split: if_splits)
    then obtain t where "t \<in> set (token_candidates rq)"
      "t \<in> set (accepted_tokens ht lt (rq_path rq))"
      unfolding token_match_def using any_digest_True by fastforce
    then show ?thesis
      using token(2) pass_kind(1) by (auto simp: accepted_tokens_def split: if_splits)
  next
    case agent
    then have "\<exists>pol. as_peer_policy st = Some pol \<and>
        check_peer_request pol (peer_id rq) (rq_method rq) (rq_path rq) = None"
    proof (cases "as_peer_policy st")
      case None
      with agent(2) show ?thesis
        by (simp add: agent_gate_def check_peer_request_def CLOSED_PEER_POLICY_def)
    next
      case (Some pol)
      with agent(2) show ?thesis
        by (cases "check_peer_request pol (peer_id rq) (rq_method rq) (rq_path rq)")
          (simp_all add: agent_gate_def)
    qed
    with agent pass_kind(2) show ?thesis by blast
  next
    case (cert cert)
    with pass_kind(3) show ?thesis by blast
  qed
qed

theorem every_pass_has_a_credential_witness:
  "\<exists>an. fst (auth_middleware [] [] demo_lib demo_inputs demo_request demo_state) = Pass an \<and>
     an_kind an = DeviceCertificate"
proof -
  obtain an where p: "fst (auth_middleware [] [] demo_lib demo_inputs demo_request demo_state) = Pass an"
    using demo_pass by fastforce
  have "\<not> rq_is_agent demo_request" by (simp add: demo_request_def)
  with every_pass_has_a_credential [OF p, of an] p show ?thesis by simp
qed

lemma revalidate_keys_effect:
  "distinct keys \<Longrightarrow> revalidate_keys answers keys st = (out, st') \<Longrightarrow>
     out = filter (\<lambda>k. \<not> row_active (answers k)) keys \<and>
     as_observed st' = as_observed st - set out \<and> as_revoked st' = as_revoked st \<and>
     as_called st' = as_called st @ concat (map (\<lambda>k. map (\<lambda>l. (l, k)) (as_listeners st)) out)"
proof (induction answers keys st arbitrary: out st' rule: revalidate_keys.induct)
  case (1 answers st)
  then show ?case by simp
next
  case (2 answers key keys st)
  show ?case
  proof (cases "row_active (answers key)")
    case True
    with 2 show ?thesis by simp
  next
    case False
    let ?st1 = "disconnect key (st\<lparr>as_observed := as_observed st - {key}\<rparr>)"
    obtain out1 where run: "revalidate_keys answers keys ?st1 = (out1, st')" "out = key # out1"
      using "2.prems"(2) False by (auto simp: Let_def split: prod.splits)
    have "distinct keys" using "2.prems"(1) by simp
    note ih = "2.IH"(2) [OF False this run(1)]
    have st1: "as_observed ?st1 = as_observed st - {key}" "as_revoked ?st1 = as_revoked st"
      "as_listeners ?st1 = as_listeners st"
      "as_called ?st1 = as_called st @ map (\<lambda>l. (l, key)) (as_listeners st)"
      by (simp_all add: disconnect_def)
    have "out = filter (\<lambda>k. \<not> row_active (answers k)) (key # keys)"
      unfolding run(2) using ih False by (metis filter.simps(2))
    moreover have "as_observed st' = as_observed st - set out"
      using conjunct1 [OF conjunct2 [OF ih]] unfolding st1 run(2) by auto
    moreover have "as_revoked st' = as_revoked st"
      using conjunct1 [OF conjunct2 [OF conjunct2 [OF ih]]] unfolding st1 .
    moreover have "as_called st' =
        as_called st @ concat (map (\<lambda>k. map (\<lambda>l. (l, k)) (as_listeners st)) out)"
      using conjunct2 [OF conjunct2 [OF conjunct2 [OF ih]]] unfolding st1 run(2) by simp
    ultimately show ?thesis by blast
  qed
qed

text \<open>
  Revalidation fails closed. For the observed devices, each at most once in the snapshot, the
  devices disconnected are exactly those the roster does not confirm, a failed lookup included:
  their epoch rises by one, they are no longer observed and every listener is called with them;
  confirmed devices keep their epoch and stay observed; and nobody is added to the deny-set.
\<close>

theorem revalidation_fails_closed:
  assumes "as_has_lookup st" and "set keys = as_observed st" and "distinct keys"
    and "revalidate_observed_devices answers keys st = (out, st')"
  shows "set out = {k \<in> as_observed st. answers k \<noteq> Row ''active''} \<and>
    as_observed st' = {k \<in> as_observed st. answers k = Row ''active''} \<and>
    (\<forall>k. device_epoch st' k = device_epoch st k + (if k \<in> set out then 1 else 0)) \<and>
    (\<forall>k\<in>set out. \<forall>l\<in>set (as_listeners st). (l, k) \<in> set (as_called st')) \<and>
    as_revoked st' = as_revoked st"
proof (cases "as_observed st = {}")
  case True
  with assms show ?thesis by (auto simp: revalidate_observed_devices_def)
next
  case False
  with assms have run: "revalidate_keys answers keys st = (out, st')"
    by (simp add: revalidate_observed_devices_def)
  note eff = revalidate_keys_effect [OF assms(3) run]
  have ep: "device_epoch st' k = device_epoch st k + (if k \<in> set out then 1 else 0)" for k
  proof -
    have "filter (\<lambda>k'. k' = k \<and> \<not> row_active (answers k')) keys = filter (\<lambda>k'. k' = k) out"
      using eff by (simp add: conj_commute)
    moreover have "distinct out" using eff assms(3) by simp
    then have "length (filter (\<lambda>k'. k' = k) out) = (if k \<in> set out then 1 else 0)"
      by (induction out) auto
    ultimately show ?thesis using revalidate_keys_epoch [of answers keys st k] run by simp
  qed
  have "set out = {k \<in> as_observed st. answers k \<noteq> Row ''active''}"
    using eff assms(2) by (auto simp: row_active_def)
  with eff ep show ?thesis by auto
qed

theorem revalidation_fails_closed_witness:
  "\<exists>out st'. revalidate_observed_devices (\<lambda>k. if k = [1] then Row ''active'' else LookupRaises)
       [[1], [2]] (demo_state\<lparr>as_observed := {[1], [2]}\<rparr>) = (out, st') \<and>
     set out = {[2]} \<and> as_observed st' = {[1]} \<and> device_epoch st' [2] = 1"
proof -
  let ?st = "demo_state\<lparr>as_observed := {[1], [2]}\<rparr>"
  let ?a = "\<lambda>k. if k = [1] then Row ''active'' else LookupRaises"
  obtain out st' where run: "revalidate_observed_devices ?a [[1], [2]] ?st = (out, st')" by fastforce
  have ne: "[2 :: 8 word] \<noteq> [1]" by simp
  have "as_has_lookup ?st" "set [[1], [2]] = as_observed ?st" "distinct [[1], [2 :: 8 word]]"
    by (simp_all add: demo_state_def)
  note fc = revalidation_fails_closed [OF this run]
  then have out: "set out = {[2]}" "as_observed st' = {[1]}" using ne by auto
  have "device_epoch ?st [2] = 0" by (simp add: device_epoch_def demo_state_def)
  with fc out have "device_epoch st' [2] = 1" by simp
  with run out show ?thesis by blast
qed

end
