(* ===== verification/Session_Manager.thy ===== *)
theory Session_Manager
  imports Prelude
begin

text \<open>
  The gateway's session manager (\<open>apps/server/.../gateway/sessions.py\<close>): per-session FIFO queues,
  each drained by its own worker task, with stop, clear, reset, delete and shutdown.

  Runtime state objects (\<open>_SessionState\<close>) live in a heap of their own and the client tables refer
  to them by address, because a worker keeps its object after the object has been taken out of
  the tables. The asyncio scheduler is the environment: a worker runs from one suspension point to
  the next in one \<open>WorkerRuns\<close> event, and a handler ends in a \<open>HandlerEnds\<close> event. Cancelling a
  worker that has not started yet ends it; cancelling one that awaits its handler cancels the
  handler, and the worker's own \<open>except CancelledError\<close> then resumes its loop.

  A handler is a number. Database writes are recorded in the order they are issued. Log lines are
  not modelled, and neither is \<open>list_sessions_persisted\<close>, which only merges rows of the database.
\<close>

section \<open>State\<close>

definition MAX_QUEUE_SIZE :: nat where
  "MAX_QUEUE_SIZE = 20"

record session_meta =
  sm_id :: string
  sm_client_id :: string
  sm_history_mode :: "string option"

record queued_item =
  q_handler :: nat
  q_session_id :: "string option"

datatype task_status = Running | CancelRequested | Finished

text \<open>\<open>Fresh c\<close> is a worker task that was created but has not run; \<open>c\<close> tells whether it has been
  cancelled. \<open>Awaiting\<close> is a worker suspended at \<open>await task\<close>.\<close>

datatype worker = NoWorker | Fresh bool | Awaiting | Ended

record session_obj =
  so_session_id :: string
  so_client_id :: string
  so_pending :: "queued_item list"
  so_current :: "(queued_item \<times> task_status) option"
  so_worker :: worker

record client_state =
  cs_sessions :: "(string, session_meta) dict"
  cs_states :: "(string, nat) dict"

datatype db_write = Upsert string string "string option" string | DeleteRow string

record manager =
  mg_agent_name :: string
  mg_has_db :: bool
  mg_clients :: "(string, client_state) dict"
  mg_heap :: "(nat, session_obj) dict"
  mg_next :: nat
  mg_writes :: "db_write list"
  mg_persisting :: "(string, nat) dict"
    \<comment> \<open>\<open>_persistence_tasks\<close>: the number of the write in progress for a session\<close>

definition empty_client :: client_state where
  "empty_client = \<lparr>cs_sessions = [], cs_states = []\<rparr>"

definition client_of :: "manager \<Rightarrow> string \<Rightarrow> client_state" where
  "client_of m client_id =
     (case dict_get (mg_clients m) client_id of None \<Rightarrow> empty_client | Some st \<Rightarrow> st)"

text \<open>\<open>_state\<close>: the client's entry, created when missing.\<close>

definition client_entry :: "string \<Rightarrow> manager \<Rightarrow> manager" where
  "client_entry client_id m =
     (case dict_get (mg_clients m) client_id of
        None \<Rightarrow> m\<lparr>mg_clients := dict_set client_id empty_client (mg_clients m)\<rparr>
      | Some _ \<Rightarrow> m)"

definition put_client :: "string \<Rightarrow> client_state \<Rightarrow> manager \<Rightarrow> manager" where
  "put_client client_id st m = m\<lparr>mg_clients := dict_set client_id st (mg_clients m)\<rparr>"

definition new_obj :: "string \<Rightarrow> string \<Rightarrow> session_obj" where
  "new_obj client_id session_id =
     \<lparr>so_session_id = session_id, so_client_id = client_id, so_pending = [], so_current = None,
      so_worker = NoWorker\<rparr>"

definition address_of :: "manager \<Rightarrow> string \<Rightarrow> string \<Rightarrow> nat option" where
  "address_of m client_id session_id =
     (case dict_get (mg_clients m) client_id of
        None \<Rightarrow> None | Some st \<Rightarrow> dict_get (cs_states st) session_id)"

definition obj_at :: "manager \<Rightarrow> nat \<Rightarrow> session_obj option" where
  "obj_at m a = dict_get (mg_heap m) a"

definition update_obj :: "nat \<Rightarrow> (session_obj \<Rightarrow> session_obj) \<Rightarrow> manager \<Rightarrow> manager" where
  "update_obj a f m =
     (case obj_at m a of
        None \<Rightarrow> m | Some ob \<Rightarrow> m\<lparr>mg_heap := dict_set a (f ob) (mg_heap m)\<rparr>)"

text \<open>\<open>_session_state\<close>: the address of the runtime object, created when missing.\<close>

definition session_state :: "string \<Rightarrow> string \<Rightarrow> manager \<Rightarrow> nat \<times> manager" where
  "session_state client_id session_id m0 =
     (let m = client_entry client_id m0;
          st = client_of m client_id
      in case dict_get (cs_states st) session_id of
           Some a \<Rightarrow> (a, m)
         | None \<Rightarrow>
             (let a = mg_next m
              in (a, put_client client_id (st\<lparr>cs_states := dict_set session_id a (cs_states st)\<rparr>)
                       (m\<lparr>mg_heap := dict_set a (new_obj client_id session_id) (mg_heap m),
                          mg_next := Suc a\<rparr>))))"

section \<open>Persistence\<close>

definition owner_of :: "string option \<Rightarrow> string \<Rightarrow> string" where
  "owner_of handle client_id =
     (let h = strip (case handle of None \<Rightarrow> [] | Some h \<Rightarrow> h) in if h = [] then client_id else h)"

definition persist_session ::
  "string \<Rightarrow> string \<Rightarrow> string option \<Rightarrow> string option \<Rightarrow> manager \<Rightarrow> manager" where
  "persist_session session_id client_id title handle m =
     (if \<not> mg_has_db m then m
      else m\<lparr>mg_writes := mg_writes m @ [Upsert session_id (owner_of handle client_id) title client_id],
             mg_persisting := dict_set session_id (length (mg_writes m)) (mg_persisting m)\<rparr>)"

text \<open>The done callback of write number \<open>n\<close>.\<close>

definition persistence_finished :: "string \<Rightarrow> nat \<Rightarrow> manager \<Rightarrow> manager" where
  "persistence_finished session_id n m =
     (if dict_get (mg_persisting m) session_id = Some n
      then m\<lparr>mg_persisting := dict_pop session_id (mg_persisting m)\<rparr> else m)"

definition ensure_session_persisted ::
  "string \<Rightarrow> string \<Rightarrow> string option \<Rightarrow> manager \<Rightarrow> manager" where
  "ensure_session_persisted session_id client_id handle m =
     (if \<not> mg_has_db m then m
      else if dict_get (mg_persisting m) session_id \<noteq> None then m
      else m\<lparr>mg_writes := mg_writes m @ [Upsert session_id (owner_of handle client_id) None client_id]\<rparr>)"

definition remove_session_from_db :: "string \<Rightarrow> manager \<Rightarrow> manager" where
  "remove_session_from_db session_id m =
     (if \<not> mg_has_db m then m else m\<lparr>mg_writes := mg_writes m @ [DeleteRow session_id]\<rparr>)"

section \<open>Sessions\<close>

definition new_meta :: "string \<Rightarrow> string \<Rightarrow> session_meta" where
  "new_meta session_id client_id =
     \<lparr>sm_id = session_id, sm_client_id = client_id, sm_history_mode = None\<rparr>"

definition put_meta :: "string \<Rightarrow> string \<Rightarrow> session_meta \<Rightarrow> manager \<Rightarrow> manager" where
  "put_meta client_id session_id meta m0 =
     (let m = client_entry client_id m0; st = client_of m client_id
      in put_client client_id (st\<lparr>cs_sessions := dict_set session_id meta (cs_sessions st)\<rparr>) m)"

text \<open>\<open>uuid8\<close> is \<open>uuid.uuid4().hex[:8]\<close>.\<close>

definition create_session :: "string \<Rightarrow> string \<Rightarrow> string option \<Rightarrow> manager \<Rightarrow> string \<times> manager" where
  "create_session uuid8 client_id handle m =
     (let sid = mg_agent_name m @ '':'' @ client_id @ '':'' @ uuid8
      in (sid, persist_session sid client_id None handle
                 (put_meta client_id sid (new_meta sid client_id) m)))"

definition get_or_create_session ::
  "string \<Rightarrow> string \<Rightarrow> string option \<Rightarrow> manager \<Rightarrow> string \<times> manager" where
  "get_or_create_session client_id session_id handle m0 =
     (let m = client_entry client_id m0
      in if dict_get (cs_sessions (client_of m client_id)) session_id = None
         then (session_id, persist_session session_id client_id None handle
                 (put_meta client_id session_id (new_meta session_id client_id) m))
         else (session_id, m))"

definition worker_live :: "worker \<Rightarrow> bool" where
  "worker_live w = (w = Awaiting \<or> (\<exists>c. w = Fresh c))"

definition task_live :: "(queued_item \<times> task_status) option \<Rightarrow> bool" where
  "task_live t = (case t of None \<Rightarrow> False | Some (_, st) \<Rightarrow> st \<noteq> Finished)"

text \<open>\<open>current_task.cancel()\<close> and \<open>worker_task.cancel()\<close> on tasks that are not done.\<close>

definition cancel_current :: "session_obj \<Rightarrow> session_obj" where
  "cancel_current ob =
     (case so_current ob of
        Some (it, Running) \<Rightarrow> ob\<lparr>so_current := Some (it, CancelRequested)\<rparr> | _ \<Rightarrow> ob)"

definition cancel_worker :: "session_obj \<Rightarrow> session_obj" where
  "cancel_worker ob =
     (case so_worker ob of
        Fresh _ \<Rightarrow> ob\<lparr>so_worker := Fresh True\<rparr>
      | Awaiting \<Rightarrow> cancel_current ob
      | _ \<Rightarrow> ob)"

definition pop_session_meta :: "string \<Rightarrow> string \<Rightarrow> manager \<Rightarrow> manager" where
  "pop_session_meta client_id session_id m =
     (let st = client_of m client_id
      in put_client client_id (st\<lparr>cs_sessions := dict_pop session_id (cs_sessions st)\<rparr>) m)"

definition pop_session_state :: "string \<Rightarrow> string \<Rightarrow> manager \<Rightarrow> manager" where
  "pop_session_state client_id session_id m =
     (let st = client_of m client_id
      in put_client client_id (st\<lparr>cs_states := dict_pop session_id (cs_states st)\<rparr>) m)"

definition reset_session :: "string \<Rightarrow> string \<Rightarrow> string \<Rightarrow> manager \<Rightarrow> string \<times> manager" where
  "reset_session uuid8 client_id session_id m0 =
     (let m1 = remove_session_from_db session_id
                 (pop_session_meta client_id session_id (client_entry client_id m0));
          a = address_of m1 client_id session_id;
          m2 = pop_session_state client_id session_id m1;
          m3 = (case a of None \<Rightarrow> m2 | Some a \<Rightarrow> update_obj a cancel_worker m2)
      in create_session uuid8 client_id None m3)"

text \<open>\<open>bind_history_mode\<close>; \<open>Inl\<close> is the \<open>ValueError\<close> of a session locked to another mode.\<close>

definition bind_history_mode ::
  "string \<Rightarrow> string \<Rightarrow> string option \<Rightarrow> manager \<Rightarrow> (string + string option) \<times> manager" where
  "bind_history_mode client_id session_id history_mode m0 =
     (case history_mode of
        None \<Rightarrow> (Inr None, m0)
      | Some mode \<Rightarrow>
          if mode = [] then (Inr None, m0)
          else
            (let m = client_entry client_id m0;
                 found = dict_get (cs_sessions (client_of m client_id)) session_id;
                 meta = (case found of None \<Rightarrow> new_meta session_id client_id | Some s \<Rightarrow> s);
                 m1 = (case found of None \<Rightarrow> put_meta client_id session_id meta m | Some _ \<Rightarrow> m)
             in if sm_history_mode meta \<noteq> None \<and> sm_history_mode meta \<noteq> Some [] \<and>
                   sm_history_mode meta \<noteq> Some mode
                then (Inl (the (sm_history_mode meta)), m1)
                else (Inr (Some mode),
                      put_meta client_id session_id (meta\<lparr>sm_history_mode := Some mode\<rparr>) m1)))"

definition list_sessions :: "string \<Rightarrow> manager \<Rightarrow> string list \<times> manager" where
  "list_sessions client_id m0 =
     (let m = client_entry client_id m0 in (dict_keys (cs_sessions (client_of m client_id)), m))"

text \<open>\<open>db_ok\<close> tells whether the database deletion succeeds.\<close>

definition delete_session :: "bool \<Rightarrow> string \<Rightarrow> string \<Rightarrow> manager \<Rightarrow> bool \<times> manager" where
  "delete_session db_ok client_id session_id m =
     (let known = dict_get (mg_clients m) client_id \<noteq> None;
          a = address_of m client_id session_id;
          m1 = (if known then pop_session_state client_id session_id
                               (pop_session_meta client_id session_id m) else m);
          m2 = (case a of
                  None \<Rightarrow> m1
                | Some a \<Rightarrow> update_obj a (\<lambda>ob. cancel_worker (cancel_current ob)) m1);
          m3 = (if mg_has_db m2 \<and> db_ok then remove_session_from_db session_id m2 else m2)
      in (a \<noteq> None \<or> mg_has_db m2 \<and> db_ok, m3))"

section \<open>Queues\<close>

definition objs_of_client :: "manager \<Rightarrow> string \<Rightarrow> session_obj list" where
  "objs_of_client m client_id =
     (case dict_get (mg_clients m) client_id of
        None \<Rightarrow> []
      | Some st \<Rightarrow> List.map_filter (obj_at m) (dict_values (cs_states st)))"

definition is_busy :: "manager \<Rightarrow> string \<Rightarrow> bool" where
  "is_busy m client_id = list_ex (\<lambda>ob. task_live (so_current ob)) (objs_of_client m client_id)"

definition session_obj_of :: "manager \<Rightarrow> string \<Rightarrow> string \<Rightarrow> session_obj option" where
  "session_obj_of m client_id session_id =
     (case address_of m client_id session_id of None \<Rightarrow> None | Some a \<Rightarrow> obj_at m a)"

definition is_busy_session :: "manager \<Rightarrow> string \<Rightarrow> string \<Rightarrow> bool" where
  "is_busy_session m client_id session_id =
     (case session_obj_of m client_id session_id of
        None \<Rightarrow> False | Some ob \<Rightarrow> task_live (so_current ob))"

definition queue_depth :: "manager \<Rightarrow> string \<Rightarrow> nat" where
  "queue_depth m client_id =
     sum_list (map (\<lambda>ob. length (so_pending ob)) (objs_of_client m client_id))"

definition queue_depth_for_session :: "manager \<Rightarrow> string \<Rightarrow> string \<Rightarrow> nat" where
  "queue_depth_for_session m client_id session_id =
     (case session_obj_of m client_id session_id of None \<Rightarrow> 0 | Some ob \<Rightarrow> length (so_pending ob))"

definition clear_pending :: "session_obj \<Rightarrow> session_obj" where
  "clear_pending ob = ob\<lparr>so_pending := []\<rparr>"

definition addresses_of :: "manager \<Rightarrow> string \<Rightarrow> nat list" where
  "addresses_of m client_id =
     (case dict_get (mg_clients m) client_id of None \<Rightarrow> [] | Some st \<Rightarrow> dict_values (cs_states st))"

definition clear_queue :: "string \<Rightarrow> manager \<Rightarrow> nat \<times> manager" where
  "clear_queue client_id m =
     (queue_depth m client_id, fold (\<lambda>a. update_obj a clear_pending) (addresses_of m client_id) m)"

text \<open>\<open>enqueue\<close>: a refused message gets position \<open>-1\<close>. A worker is started when the object has none
  that is still alive.\<close>

definition enqueue :: "string \<Rightarrow> nat \<Rightarrow> string option \<Rightarrow> manager \<Rightarrow> int \<times> manager" where
  "enqueue client_id handler session_id m0 =
     (let sid = (case session_id of
                   None \<Rightarrow> ''__anon__:'' @ client_id
                 | Some s \<Rightarrow> if s = [] then ''__anon__:'' @ client_id else s);
          (a, m) = session_state client_id sid m0
      in case obj_at m a of
           None \<Rightarrow> (- 1, m)
         | Some ob \<Rightarrow>
             if length (so_pending ob) \<ge> MAX_QUEUE_SIZE then (- 1, m)
             else
               (let running_here = (if task_live (so_current ob) then 1 else 0);
                    item = \<lparr>q_handler = handler, q_session_id = session_id\<rparr>
                in (int (length (so_pending ob)) + running_here,
                    update_obj a (\<lambda>ob. ob\<lparr>so_pending := so_pending ob @ [item],
                        so_worker := (if worker_live (so_worker ob) then so_worker ob
                                      else Fresh False)\<rparr>) m)))"

text \<open>The worker's loop from \<open>get_nowait\<close> to its next suspension point or its end.\<close>

definition drain :: "session_obj \<Rightarrow> session_obj" where
  "drain ob =
     (case so_pending ob of
        [] \<Rightarrow> ob\<lparr>so_current := None, so_worker := Ended\<rparr>
      | it # rest \<Rightarrow>
          ob\<lparr>so_pending := rest, so_current := Some (it, Running), so_worker := Awaiting\<rparr>)"

definition session_worker :: "session_obj \<Rightarrow> session_obj" where
  "session_worker ob =
     (case so_worker ob of
        Fresh False \<Rightarrow> drain ob
      | Fresh True \<Rightarrow> ob\<lparr>so_worker := Ended\<rparr>
      | Awaiting \<Rightarrow> (if task_live (so_current ob) then ob else drain ob)
      | _ \<Rightarrow> ob)"

definition handler_ends :: "session_obj \<Rightarrow> session_obj" where
  "handler_ends ob =
     (case so_current ob of Some (it, _) \<Rightarrow> ob\<lparr>so_current := Some (it, Finished)\<rparr> | None \<Rightarrow> ob)"

definition stop_current :: "string \<Rightarrow> string option \<Rightarrow> manager \<Rightarrow> bool \<times> manager" where
  "stop_current client_id session_id m =
     (case session_id of
        Some sid \<Rightarrow>
          (case session_obj_of m client_id sid of
             None \<Rightarrow> (False, m)
           | Some ob \<Rightarrow>
               if task_live (so_current ob)
               then (True, update_obj (the (address_of m client_id sid)) cancel_current m)
               else (False, m))
      | None \<Rightarrow>
          (is_busy m client_id, fold (\<lambda>a. update_obj a cancel_current) (addresses_of m client_id) m))"

definition clear_queue_for_session :: "string \<Rightarrow> string \<Rightarrow> manager \<Rightarrow> nat \<times> manager" where
  "clear_queue_for_session client_id session_id m =
     (case address_of m client_id session_id of
        None \<Rightarrow> (0, m)
      | Some a \<Rightarrow>
          (queue_depth_for_session m client_id session_id, update_obj a clear_pending m))"

text \<open>\<open>shutdown\<close> up to its wait for the cancelled tasks, and what it does once they are done.\<close>

definition shutdown_cancel :: "manager \<Rightarrow> manager" where
  "shutdown_cancel m =
     fold (\<lambda>a. update_obj a (\<lambda>ob. cancel_worker (cancel_current ob)))
       (concat (map (addresses_of m) (dict_keys (mg_clients m)))) m"

definition shutdown_finish :: "manager \<Rightarrow> manager" where
  "shutdown_finish m = m\<lparr>mg_persisting := [], mg_clients := []\<rparr>"

section \<open>The manager over time\<close>

datatype manager_event =
    CreateSession string string "string option"
  | GetOrCreate string string "string option"
  | ResetSession string string string
  | BindHistory string string "string option"
  | ListSessions string
  | DeleteSession bool string string
  | Enqueue string nat "string option"
  | ClearQueue string
  | ClearSession string string
  | StopCurrent string "string option"
  | EnsurePersisted string string "string option"
  | PersistenceFinished string nat
  | WorkerRuns nat
  | HandlerEnds nat
  | ShutdownCancel
  | ShutdownFinish

fun manager_step :: "manager \<Rightarrow> manager_event \<Rightarrow> manager" where
  "manager_step m (CreateSession u c h) = snd (create_session u c h m)"
| "manager_step m (GetOrCreate c s h) = snd (get_or_create_session c s h m)"
| "manager_step m (ResetSession u c s) = snd (reset_session u c s m)"
| "manager_step m (BindHistory c s h) = snd (bind_history_mode c s h m)"
| "manager_step m (ListSessions c) = snd (list_sessions c m)"
| "manager_step m (DeleteSession ok c s) = snd (delete_session ok c s m)"
| "manager_step m (Enqueue c h s) = snd (enqueue c h s m)"
| "manager_step m (ClearQueue c) = snd (clear_queue c m)"
| "manager_step m (ClearSession c s) = snd (clear_queue_for_session c s m)"
| "manager_step m (StopCurrent c s) = snd (stop_current c s m)"
| "manager_step m (EnsurePersisted s c h) = ensure_session_persisted s c h m"
| "manager_step m (PersistenceFinished s n) = persistence_finished s n m"
| "manager_step m (WorkerRuns a) = update_obj a session_worker m"
| "manager_step m (HandlerEnds a) = update_obj a handler_ends m"
| "manager_step m ShutdownCancel = shutdown_cancel m"
| "manager_step m ShutdownFinish = shutdown_finish m"

definition empty_manager :: "string \<Rightarrow> bool \<Rightarrow> manager" where
  "empty_manager name has_db =
     \<lparr>mg_agent_name = name, mg_has_db = has_db, mg_clients = [], mg_heap = [], mg_next = 0,
      mg_writes = [], mg_persisting = []\<rparr>"

section \<open>Tables and heap\<close>

lemma address_put_client:
  "address_of (put_client c st m) c' s =
     (if c' = c then dict_get (cs_states st) s else address_of m c' s)"
  by (simp add: address_of_def put_client_def dict_get_set)

lemma states_client_of: "dict_get (cs_states (client_of m c)) s = address_of m c s"
  by (simp add: client_of_def address_of_def empty_client_def split: option.split)

lemma address_client_entry [simp]: "address_of (client_entry c m) c' s = address_of m c' s"
  by (auto simp: client_entry_def address_of_def dict_get_set empty_client_def split: option.split)

lemma frame_simps [simp]:
  "obj_at (put_client c st m) a = obj_at m a" "mg_next (put_client c st m) = mg_next m"
  "obj_at (client_entry c m) a = obj_at m a" "mg_next (client_entry c m) = mg_next m"
  "obj_at (persist_session s c t h m) a = obj_at m a" "mg_next (persist_session s c t h m) = mg_next m"
  "address_of (persist_session s c t h m) c' s' = address_of m c' s'"
  "obj_at (remove_session_from_db s m) a = obj_at m a"
  "mg_next (remove_session_from_db s m) = mg_next m"
  "address_of (remove_session_from_db s m) c' s' = address_of m c' s'"
  by (auto simp: obj_at_def address_of_def put_client_def client_entry_def persist_session_def
      remove_session_from_db_def split: option.split)

lemma meta_frame [simp]:
  "address_of (put_meta c s meta m) c' s' = address_of m c' s'"
  "obj_at (put_meta c s meta m) a = obj_at m a" "mg_next (put_meta c s meta m) = mg_next m"
  "address_of (pop_session_meta c s m) c' s' = address_of m c' s'"
  "obj_at (pop_session_meta c s m) a = obj_at m a" "mg_next (pop_session_meta c s m) = mg_next m"
  by (auto simp: put_meta_def pop_session_meta_def Let_def address_put_client states_client_of)

lemma pop_state_frame [simp]:
  "address_of (pop_session_state c s m) c' s' =
     (if c' = c \<and> s' = s then None else address_of m c' s')"
  "obj_at (pop_session_state c s m) a = obj_at m a" "mg_next (pop_session_state c s m) = mg_next m"
  by (auto simp: pop_session_state_def Let_def address_put_client states_client_of dict_get_pop)

lemma update_obj_frame [simp]:
  "address_of (update_obj a f m) c s = address_of m c s" "mg_next (update_obj a f m) = mg_next m"
  "mg_has_db (update_obj a f m) = mg_has_db m" "mg_writes (update_obj a f m) = mg_writes m"
  by (auto simp: update_obj_def address_of_def split: option.split)

lemma obj_at_update_obj:
  "obj_at (update_obj a f m) b = (if b = a then map_option f (obj_at m a) else obj_at m b)"
  by (auto simp: update_obj_def obj_at_def dict_get_set split: option.split)

lemma create_session_frame [simp]:
  "address_of (snd (create_session u c h m)) c' s = address_of m c' s"
  "obj_at (snd (create_session u c h m)) a = obj_at m a"
  "mg_next (snd (create_session u c h m)) = mg_next m"
  by (simp_all add: create_session_def Let_def)

section \<open>The invariant\<close>

definition obj_ok :: "session_obj \<Rightarrow> bool" where
  "obj_ok ob \<longleftrightarrow> length (so_pending ob) \<le> MAX_QUEUE_SIZE \<and>
     (so_worker ob = Awaiting \<longleftrightarrow> so_current ob \<noteq> None)"

text \<open>Every table entry refers to an object of that very client and session, and every object is
  well formed and was allocated.\<close>

definition mgr_ok :: "manager \<Rightarrow> bool" where
  "mgr_ok m \<longleftrightarrow>
     (\<forall>c s a. address_of m c s = Some a \<longrightarrow>
        (\<exists>ob. obj_at m a = Some ob \<and> so_client_id ob = c \<and> so_session_id ob = s)) \<and>
     (\<forall>a ob. obj_at m a = Some ob \<longrightarrow> a < mg_next m \<and> obj_ok ob)"

text \<open>An update of objects that a manager operation may make.\<close>

definition obj_map :: "(session_obj \<Rightarrow> session_obj) \<Rightarrow> bool" where
  "obj_map f \<longleftrightarrow>
     (\<forall>ob. so_client_id (f ob) = so_client_id ob \<and> so_session_id (f ob) = so_session_id ob \<and>
        (obj_ok ob \<longrightarrow> obj_ok (f ob)))"

lemma obj_map_comp: "obj_map f \<Longrightarrow> obj_map g \<Longrightarrow> obj_map (\<lambda>ob. f (g ob))"
  by (simp add: obj_map_def)

lemma obj_map_cancel_current: "obj_map cancel_current"
  by (auto simp: obj_map_def obj_ok_def cancel_current_def split: option.split task_status.split)

lemma obj_map_cancel_worker: "obj_map cancel_worker"
  using obj_map_cancel_current
  by (auto simp: obj_map_def obj_ok_def cancel_worker_def split: worker.split)

lemma obj_map_clear: "obj_map clear_pending"
  by (auto simp: obj_map_def obj_ok_def clear_pending_def)

lemma obj_map_handler_ends: "obj_map handler_ends"
  by (auto simp: obj_map_def obj_ok_def handler_ends_def split: option.split)

lemma obj_map_drain: "obj_map drain"
  by (auto simp: obj_map_def obj_ok_def drain_def split: list.split)

lemma obj_map_worker: "obj_map session_worker"
  using obj_map_drain
  by (auto simp: obj_map_def obj_ok_def session_worker_def split: worker.split bool.split)

lemmas obj_maps = obj_map_comp obj_map_cancel_current obj_map_cancel_worker obj_map_clear
  obj_map_handler_ends obj_map_worker

lemma mgr_ok_update_obj: "mgr_ok m \<Longrightarrow> obj_map f \<Longrightarrow> mgr_ok (update_obj a f m)"
  unfolding mgr_ok_def obj_map_def
  by (fastforce simp: obj_at_update_obj split: if_splits)

lemma mgr_ok_fold: "mgr_ok m \<Longrightarrow> obj_map f \<Longrightarrow> mgr_ok (fold (\<lambda>a. update_obj a f) as m)"
  by (induction as arbitrary: m) (simp_all add: mgr_ok_update_obj)

lemma mgr_ok_cong:
  "mgr_ok m \<Longrightarrow> (\<And>c s. address_of m' c s = address_of m c s) \<Longrightarrow> (\<And>a. obj_at m' a = obj_at m a) \<Longrightarrow>
     mg_next m' = mg_next m \<Longrightarrow> mgr_ok m'"
  by (simp add: mgr_ok_def)

lemma mgr_ok_pop_state: "mgr_ok m \<Longrightarrow> mgr_ok (pop_session_state c s m)"
  by (simp add: mgr_ok_def)

lemma mgr_ok_pop_meta: "mgr_ok m \<Longrightarrow> mgr_ok (pop_session_meta c s m)"
  by (erule mgr_ok_cong) simp_all

lemma mgr_ok_next_free: "mgr_ok m \<Longrightarrow> obj_at m (mg_next m) = None"
  by (cases "obj_at m (mg_next m)") (auto simp: mgr_ok_def)

lemma session_state_cases:
  assumes "session_state c s m = (a, m')"
  obtains (known) "address_of m c s = Some a" "m' = client_entry c m"
  | (fresh) "address_of m c s = None" "a = mg_next m" "mg_next m' = Suc a"
      "\<And>c' s'. address_of m' c' s' = (if c' = c \<and> s' = s then Some a else address_of m c' s')"
      "\<And>b. obj_at m' b = (if b = a then Some (new_obj c s) else obj_at m b)"
proof (cases "address_of m c s")
  case (Some b)
  with assms known show thesis by (simp add: session_state_def Let_def states_client_of)
next
  case None
  let ?m1 = "client_entry c m"
  let ?st = "client_of ?m1 c"
  have a: "a = mg_next m" and m': "m' = put_client c (?st\<lparr>cs_states := dict_set s a (cs_states ?st)\<rparr>)
      (?m1\<lparr>mg_heap := dict_set a (new_obj c s) (mg_heap ?m1), mg_next := Suc a\<rparr>)"
    using assms None by (auto simp: session_state_def Let_def states_client_of)
  have addr: "address_of (x\<lparr>mg_heap := h, mg_next := n\<rparr>) c' s' = address_of x c' s'" for x h n c' s'
    by (simp add: address_of_def)
  show thesis
  proof (rule fresh)
    show "mg_next m' = Suc a" by (simp add: m')
    show "address_of m' c' s' = (if c' = c \<and> s' = s then Some a else address_of m c' s')" for c' s'
      by (simp add: m' address_put_client addr dict_get_set states_client_of)
    show "obj_at m' b = (if b = a then Some (new_obj c s) else obj_at m b)" for b
    proof -
      have "mg_heap ?m1 = mg_heap m" by (simp add: client_entry_def split: option.split)
      then show ?thesis by (simp add: m') (simp add: obj_at_def dict_get_set)
    qed
  qed (use None a in simp_all)
qed

lemma new_obj_ok: "obj_ok (new_obj c s)" "so_client_id (new_obj c s) = c" "so_session_id (new_obj c s) = s"
  by (simp_all add: obj_ok_def new_obj_def)

lemma mgr_ok_client_entry: "mgr_ok m \<Longrightarrow> mgr_ok (client_entry c m)"
  by (erule mgr_ok_cong) simp_all

lemma session_state_ok:
  assumes ok: "mgr_ok m" and st: "session_state c s m = (a, m')"
  shows "mgr_ok m' \<and> address_of m' c s = Some a"
  using st
proof (cases rule: session_state_cases)
  case known
  with ok show ?thesis by (simp add: mgr_ok_client_entry)
next
  case fresh
  have "obj_at m a = None" using mgr_ok_next_free [OF ok] fresh(2) by simp
  moreover from this have "address_of m c' s' \<noteq> Some a" for c' s'
    using ok unfolding mgr_ok_def by fastforce
  ultimately have "mgr_ok m'"
    using ok unfolding mgr_ok_def fresh(3,4,5)
    by (auto simp: new_obj_ok fresh(2) less_Suc_eq split: if_splits)
  then show ?thesis by (simp add: fresh)
qed

lemma enqueue_ok:
  assumes ok: "mgr_ok m"
  shows "mgr_ok (snd (enqueue c h s m))"
proof -
  obtain sid where sid: "sid = (case s of None \<Rightarrow> ''__anon__:'' @ c
      | Some s \<Rightarrow> if s = [] then ''__anon__:'' @ c else s)" by blast
  obtain a m1 where st: "session_state c sid m = (a, m1)" by fastforce
  note ok1 = conjunct1 [OF session_state_ok [OF ok st]]
  show ?thesis
  proof (cases "obj_at m1 a")
    case None
    with ok1 st show ?thesis by (simp add: enqueue_def Let_def sid [symmetric])
  next
    case (Some ob)
    show ?thesis
    proof (cases "MAX_QUEUE_SIZE \<le> length (so_pending ob)")
      case True
      with ok1 st Some show ?thesis by (simp add: enqueue_def Let_def sid [symmetric])
    next
      case False
      let ?f = "\<lambda>ob. ob\<lparr>so_pending := so_pending ob @ [\<lparr>q_handler = h, q_session_id = s\<rparr>],
          so_worker := (if worker_live (so_worker ob) then so_worker ob else Fresh False)\<rparr>"
      have en: "snd (enqueue c h s m) = update_obj a ?f m1"
        using False st Some by (simp add: enqueue_def Let_def sid [symmetric])
      have "obj_ok ob" using ok1 Some by (simp add: mgr_ok_def)
      then have "obj_ok (?f ob)" using False by (auto simp: obj_ok_def worker_live_def)
      then show ?thesis
        using ok1 Some unfolding en mgr_ok_def
        by (fastforce simp: obj_at_update_obj split: if_splits)
    qed
  qed
qed

lemma manager_step_ok:
  assumes ok: "mgr_ok m"
  shows "mgr_ok (manager_step m e)"
proof (cases e)
  case (ResetSession u c s)
  let ?m1 = "remove_session_from_db s (pop_session_meta c s (client_entry c m))"
  have "mgr_ok ?m1" using ok by (rule mgr_ok_cong) simp_all
  then have m2: "mgr_ok (pop_session_state c s ?m1)" by (rule mgr_ok_pop_state)
  have "mgr_ok (case address_of ?m1 c s of None \<Rightarrow> pop_session_state c s ?m1
      | Some a \<Rightarrow> update_obj a cancel_worker (pop_session_state c s ?m1))"
    using m2 mgr_ok_update_obj [OF m2 obj_map_cancel_worker] by (simp split: option.split)
  then show ?thesis
    unfolding ResetSession manager_step.simps reset_session_def Let_def
    by (rule mgr_ok_cong) simp_all
next
  case (DeleteSession db c s)
  let ?m1 = "if dict_get (mg_clients m) c \<noteq> None
      then pop_session_state c s (pop_session_meta c s m) else m"
  let ?m2 = "case address_of m c s of None \<Rightarrow> ?m1
      | Some a \<Rightarrow> update_obj a (\<lambda>ob. cancel_worker (cancel_current ob)) ?m1"
  have m1: "mgr_ok ?m1" using ok by (simp add: mgr_ok_pop_state mgr_ok_pop_meta)
  have "mgr_ok ?m2"
  proof (cases "address_of m c s")
    case None
    with m1 show ?thesis by (simp only: option.case)
  next
    case (Some a)
    with mgr_ok_update_obj [OF m1 obj_map_comp [OF obj_map_cancel_worker obj_map_cancel_current]]
    show ?thesis by (simp only: option.case)
  qed
  then show ?thesis
    unfolding DeleteSession manager_step.simps delete_session_def Let_def snd_conv
    by (rule mgr_ok_cong) simp_all
next
  case (BindHistory c s h)
  show ?thesis
    unfolding BindHistory manager_step.simps bind_history_mode_def Let_def
    using ok by (rule mgr_ok_cong) (auto split: option.splits)
next
  case (GetOrCreate c s h)
  show ?thesis
    unfolding GetOrCreate manager_step.simps get_or_create_session_def Let_def
    using ok by (rule mgr_ok_cong) auto
next
  case (ListSessions c)
  with ok show ?thesis by (simp add: list_sessions_def Let_def mgr_ok_client_entry)
next
  case (StopCurrent c s)
  with ok show ?thesis
    by (auto simp: stop_current_def mgr_ok_update_obj mgr_ok_fold obj_maps split: option.splits)
next
  case (ShutdownFinish)
  have "address_of (shutdown_finish m) c s = None" for c s
    by (simp add: address_of_def shutdown_finish_def)
  moreover have "obj_at (shutdown_finish m) a = obj_at m a" for a
    by (simp add: obj_at_def shutdown_finish_def)
  moreover have "mg_next (shutdown_finish m) = mg_next m" by (simp add: shutdown_finish_def)
  ultimately show ?thesis using ok ShutdownFinish by (simp add: mgr_ok_def)
next
  case (CreateSession u c h)
  show ?thesis unfolding CreateSession manager_step.simps using ok by (rule mgr_ok_cong) simp_all
next
  case (EnsurePersisted s c h)
  show ?thesis
    unfolding EnsurePersisted manager_step.simps using ok
    by (rule mgr_ok_cong) (auto simp: ensure_session_persisted_def address_of_def obj_at_def)
next
  case (PersistenceFinished s n)
  show ?thesis
    unfolding PersistenceFinished manager_step.simps using ok
    by (rule mgr_ok_cong) (auto simp: persistence_finished_def address_of_def obj_at_def)
qed (use ok in \<open>simp_all add: enqueue_ok clear_queue_def clear_queue_for_session_def shutdown_cancel_def
    mgr_ok_fold mgr_ok_update_obj obj_maps split: option.split\<close>)

lemma empty_manager_ok: "mgr_ok (empty_manager n db)"
  by (simp add: mgr_ok_def empty_manager_def address_of_def obj_at_def)

interpretation sessions: invariant_system manager_step mgr_ok
  by unfold_locales (rule manager_step_ok)

section \<open>Isolation\<close>

lemma address_injective:
  assumes "mgr_ok m" and "address_of m c s = Some a" and "address_of m c' s' = Some a"
  shows "c' = c \<and> s' = s"
proof -
  have table: "\<forall>c s a. address_of m c s = Some a \<longrightarrow>
      (\<exists>ob. obj_at m a = Some ob \<and> so_client_id ob = c \<and> so_session_id ob = s)"
    using assms(1) unfolding mgr_ok_def by (rule conjunct1)
  from table assms(2) obtain ob where "obj_at m a = Some ob" "so_client_id ob = c" "so_session_id ob = s"
    by blast
  moreover from table assms(3) obtain ob' where "obj_at m a = Some ob'" "so_client_id ob' = c'"
    "so_session_id ob' = s'" by blast
  ultimately show ?thesis by simp
qed

definition effective_sid :: "string \<Rightarrow> string option \<Rightarrow> string" where
  "effective_sid c s =
     (case s of None \<Rightarrow> ''__anon__:'' @ c | Some t \<Rightarrow> if t = [] then ''__anon__:'' @ c else t)"

text \<open>What \<open>enqueue\<close> does, in terms of the object it finds or creates.\<close>

definition with_item :: "queued_item \<Rightarrow> session_obj \<Rightarrow> session_obj" where
  "with_item item ob = ob\<lparr>so_pending := so_pending ob @ [item],
     so_worker := (if worker_live (so_worker ob) then so_worker ob else Fresh False)\<rparr>"

lemma enqueue_cases:
  assumes "mgr_ok m" and "enqueue c h s m = (pos, m')"
  obtains a m1 ob where "session_state c (effective_sid c s) m = (a, m1)" "mgr_ok m1"
    "address_of m1 c (effective_sid c s) = Some a" "obj_at m1 a = Some ob"
    "if MAX_QUEUE_SIZE \<le> length (so_pending ob) then pos = - 1 \<and> m' = m1
     else pos = int (length (so_pending ob)) + (if task_live (so_current ob) then 1 else 0) \<and>
       m' = update_obj a (with_item \<lparr>q_handler = h, q_session_id = s\<rparr>) m1"
proof -
  obtain a m1 where st: "session_state c (effective_sid c s) m = (a, m1)" by fastforce
  note ok = session_state_ok [OF assms(1) st]
  then obtain ob where ob: "obj_at m1 a = Some ob" unfolding mgr_ok_def by blast
  have "if MAX_QUEUE_SIZE \<le> length (so_pending ob) then pos = - 1 \<and> m' = m1
     else pos = int (length (so_pending ob)) + (if task_live (so_current ob) then 1 else 0) \<and>
       m' = update_obj a (with_item \<lparr>q_handler = h, q_session_id = s\<rparr>) m1"
    using assms(2) st ob
    by (auto simp: enqueue_def effective_sid_def [symmetric] with_item_def [abs_def] Let_def
        split: if_splits)
  with st ok ob that show thesis by blast
qed

lemma session_state_obj:
  assumes "mgr_ok m" and "session_state c s m = (a, m1)"
  shows "(c', s') \<noteq> (c, s) \<Longrightarrow> session_obj_of m1 c' s' = session_obj_of m c' s'"
    and "session_obj_of m1 c s =
      Some (case session_obj_of m c s of None \<Rightarrow> new_obj c s | Some ob \<Rightarrow> ob)"
    and "obj_at m1 b = (case obj_at m b of
      None \<Rightarrow> if b = a then Some (new_obj c s) else None | Some ob \<Rightarrow> Some ob)"
proof -
  have ex: "\<exists>ob. obj_at m b = Some ob" if "address_of m c' s' = Some b" for c' s' b
    using assms(1) that unfolding mgr_ok_def by blast
  have "((c', s') \<noteq> (c, s) \<longrightarrow> session_obj_of m1 c' s' = session_obj_of m c' s') \<and>
    session_obj_of m1 c s = Some (case session_obj_of m c s of None \<Rightarrow> new_obj c s | Some ob \<Rightarrow> ob) \<and>
    obj_at m1 b = (case obj_at m b of
      None \<Rightarrow> if b = a then Some (new_obj c s) else None | Some ob \<Rightarrow> Some ob)"
    using assms(2)
  proof (cases rule: session_state_cases)
    case known
    with ex [OF known(1)] show ?thesis by (auto simp: session_obj_of_def split: option.split)
  next
    case fresh
    have "obj_at m a = None" using mgr_ok_next_free [OF assms(1)] fresh(2) by simp
    moreover from this have "address_of m c' s' \<noteq> Some a" using ex by fastforce
    ultimately show ?thesis
      by (auto simp: session_obj_of_def fresh(1,4,5) split: option.splits)
  qed
  then show "(c', s') \<noteq> (c, s) \<Longrightarrow> session_obj_of m1 c' s' = session_obj_of m c' s'"
    and "session_obj_of m1 c s =
      Some (case session_obj_of m c s of None \<Rightarrow> new_obj c s | Some ob \<Rightarrow> ob)"
    and "obj_at m1 b = (case obj_at m b of
      None \<Rightarrow> if b = a then Some (new_obj c s) else None | Some ob \<Rightarrow> Some ob)"
    by blast+
qed

lemma update_other_session:
  assumes "mgr_ok m" and "address_of m c s = Some a" and "(c', s') \<noteq> (c, s)"
  shows "session_obj_of (update_obj a f m) c' s' = session_obj_of m c' s'"
proof -
  have "address_of m c' s' \<noteq> Some a" using address_injective [OF assms(1,2), of c' s'] assms(3) by blast
  then show ?thesis by (auto simp: session_obj_of_def obj_at_update_obj split: option.split)
qed

text \<open>The events that address one session.\<close>

fun about_session :: "manager_event \<Rightarrow> (string \<times> string) option" where
  "about_session (Enqueue c h s) = Some (c, effective_sid c s)"
| "about_session (StopCurrent c (Some s)) = Some (c, s)"
| "about_session (ClearSession c s) = Some (c, s)"
| "about_session (DeleteSession ok c s) = Some (c, s)"
| "about_session (ResetSession u c s) = Some (c, s)"
| "about_session (GetOrCreate c s h) = Some (c, s)"
| "about_session (BindHistory c s h) = Some (c, s)"
| "about_session _ = None"

lemma session_obj_cong:
  "(\<And>c s. address_of m' c s = address_of m c s) \<Longrightarrow> (\<And>a. obj_at m' a = obj_at m a) \<Longrightarrow>
     session_obj_of m' c s = session_obj_of m c s"
  by (simp add: session_obj_of_def split: option.split)

lemma session_obj_frame [simp]:
  "session_obj_of (client_entry c m) c' s' = session_obj_of m c' s'"
  "session_obj_of (put_meta c s meta m) c' s' = session_obj_of m c' s'"
  "session_obj_of (pop_session_meta c s m) c' s' = session_obj_of m c' s'"
  "session_obj_of (persist_session s c t h m) c' s' = session_obj_of m c' s'"
  "session_obj_of (remove_session_from_db s m) c' s' = session_obj_of m c' s'"
  "session_obj_of (snd (create_session u c h m)) c' s' = session_obj_of m c' s'"
  by (simp_all add: session_obj_of_def split: option.split)

text \<open>Taking a session out and cancelling its tasks leaves the other sessions' objects alone.\<close>

lemma pop_and_update_other:
  assumes "mgr_ok m" and "(c', s') \<noteq> (c, s)"
  shows "session_obj_of (case address_of m c s of
      None \<Rightarrow> pop_session_state c s m
    | Some a \<Rightarrow> update_obj a f (pop_session_state c s m)) c' s' = session_obj_of m c' s'"
proof (cases "address_of m c s")
  case None
  with assms(2) show ?thesis by (auto simp: session_obj_of_def split: option.split)
next
  case (Some a)
  have "address_of m c' s' \<noteq> Some a"
    using address_injective [OF assms(1) Some, of c' s'] assms(2) by blast
  with Some assms(2) show ?thesis
    by (auto simp: session_obj_of_def obj_at_update_obj split: option.splits)
qed

lemma isolation:
  assumes ok: "mgr_ok m" and ab: "about_session e = Some (c, s)" and ne: "(c', s') \<noteq> (c, s)"
  shows "session_obj_of (manager_step m e) c' s' = session_obj_of m c' s'"
proof (cases e)
  case (Enqueue c1 h s1)
  with ab have cs: "c1 = c" "effective_sid c s1 = s" by auto
  obtain pos m' where en: "enqueue c h s1 m = (pos, m')" by fastforce
  from ok en obtain a m1 ob where st: "session_state c s m = (a, m1)" "mgr_ok m1"
    "address_of m1 c s = Some a"
    and m': "m' = m1 \<or> (\<exists>f. m' = update_obj a f m1)"
    by (rule enqueue_cases) (auto simp: cs(2) split: if_splits)
  have "session_obj_of m' c' s' = session_obj_of m1 c' s'"
    using m' update_other_session [OF st(2,3) ne] by auto
  also have "\<dots> = session_obj_of m c' s'" by (rule session_state_obj(1) [OF ok st(1) ne])
  finally show ?thesis using en by (simp add: Enqueue cs(1))
next
  case (StopCurrent c1 s1)
  with ab have cs: "c1 = c" "s1 = Some s" by (cases s1; simp)+
  show ?thesis
  proof (cases "session_obj_of m c s")
    case None
    then show ?thesis by (simp add: StopCurrent cs stop_current_def)
  next
    case (Some ob)
    then obtain a where "address_of m c s = Some a" by (auto simp: session_obj_of_def split: option.splits)
    with Some update_other_session [OF ok this ne] show ?thesis
      by (simp add: StopCurrent cs stop_current_def)
  qed
next
  case (ClearSession c1 s1)
  with ab update_other_session [OF ok _ ne] show ?thesis
    by (auto simp: clear_queue_for_session_def split: option.splits)
next
  case (DeleteSession db c1 s1)
  with ab have cs: "c1 = c" "s1 = s" by auto
  have addr: "address_of (pop_session_meta c s m) c s = address_of m c s" by simp
  have "session_obj_of (case address_of m c s of
      None \<Rightarrow> pop_session_state c s (pop_session_meta c s m)
    | Some a \<Rightarrow> update_obj a f (pop_session_state c s (pop_session_meta c s m))) c' s' =
      session_obj_of m c' s'" for f
    using pop_and_update_other [OF mgr_ok_pop_meta [OF ok] ne, of c s f] unfolding addr by simp
  moreover have "address_of m c s = None" if "dict_get (mg_clients m) c = None"
    using that by (simp add: address_of_def)
  ultimately show ?thesis
    by (cases "dict_get (mg_clients m) c")
      (simp_all add: DeleteSession cs delete_session_def Let_def)
next
  case (ResetSession u c1 s1)
  with ab have cs: "c1 = c" "s1 = s" by auto
  let ?m1 = "remove_session_from_db s (pop_session_meta c s (client_entry c m))"
  have "mgr_ok ?m1" using ok by (rule mgr_ok_cong) simp_all
  from pop_and_update_other [OF this ne] show ?thesis
    by (simp add: ResetSession cs reset_session_def Let_def)
next
  case (GetOrCreate c1 s1 h)
  then show ?thesis by (simp add: get_or_create_session_def Let_def)
next
  case (BindHistory c1 s1 h)
  then show ?thesis by (auto simp: bind_history_mode_def Let_def split: option.splits)
qed (use ab in simp_all)

section \<open>Order\<close>

definition pend :: "manager \<Rightarrow> nat \<Rightarrow> queued_item list" where
  "pend m a = (case obj_at m a of None \<Rightarrow> [] | Some ob \<Rightarrow> so_pending ob)"

text \<open>The handlers an event appends to the queue of object \<open>a\<close>, and those it starts from it.\<close>

definition accepted :: "nat \<Rightarrow> manager \<Rightarrow> manager_event \<Rightarrow> queued_item list" where
  "accepted a m e =
     (case e of
        Enqueue c h s \<Rightarrow>
          if fst (enqueue c h s m) \<noteq> - 1 \<and> fst (session_state c (effective_sid c s) m) = a
          then [\<lparr>q_handler = h, q_session_id = s\<rparr>] else []
      | _ \<Rightarrow> [])"

definition begun :: "nat \<Rightarrow> manager \<Rightarrow> manager_event \<Rightarrow> queued_item list" where
  "begun a m e =
     (case e of
        WorkerRuns b \<Rightarrow>
          if b = a then
            (case obj_at m a of
               None \<Rightarrow> []
             | Some ob \<Rightarrow>
                 if so_worker ob = Fresh False \<or>
                    so_worker ob = Awaiting \<and> \<not> task_live (so_current ob)
                 then take 1 (so_pending ob) else [])
          else []
      | _ \<Rightarrow> [])"

fun trace :: "(manager \<Rightarrow> manager_event \<Rightarrow> 'b list) \<Rightarrow> manager \<Rightarrow> manager_event list \<Rightarrow> 'b list" where
  "trace f m [] = []"
| "trace f m (e # es) = f m e @ trace f (manager_step m e) es"

fun clears :: "manager_event \<Rightarrow> bool" where
  "clears (ClearQueue c) = True" | "clears (ClearSession c s) = True" | "clears _ = False"

definition keeps_pending :: "(session_obj \<Rightarrow> session_obj) \<Rightarrow> bool" where
  "keeps_pending f \<longleftrightarrow> (\<forall>ob. so_pending (f ob) = so_pending ob)"

lemma keeps_pending_ops:
  "keeps_pending cancel_current" "keeps_pending cancel_worker" "keeps_pending handler_ends"
  "keeps_pending (\<lambda>ob. cancel_worker (cancel_current ob))"
proof -
  show c: "keeps_pending cancel_current"
    by (auto simp: keeps_pending_def cancel_current_def split: option.split task_status.split)
  then show w: "keeps_pending cancel_worker"
    by (auto simp: keeps_pending_def cancel_worker_def split: worker.split)
  show "keeps_pending handler_ends"
    by (auto simp: keeps_pending_def handler_ends_def split: option.split)
  show "keeps_pending (\<lambda>ob. cancel_worker (cancel_current ob))"
    using c w by (simp add: keeps_pending_def)
qed

lemma pend_update_obj: "keeps_pending f \<Longrightarrow> pend (update_obj b f m) a = pend m a"
  by (auto simp: pend_def obj_at_update_obj keeps_pending_def split: option.split)

lemma pend_fold: "keeps_pending f \<Longrightarrow> pend (fold (\<lambda>b. update_obj b f) bs m) a = pend m a"
  by (induction bs arbitrary: m) (simp_all add: pend_update_obj)

lemma pend_cong: "(\<And>b. obj_at m' b = obj_at m b) \<Longrightarrow> pend m' a = pend m a"
  by (simp add: pend_def)

lemma pend_frame [simp]:
  "pend (client_entry c m) a = pend m a" "pend (put_meta c s meta m) a = pend m a"
  "pend (pop_session_meta c s m) a = pend m a" "pend (pop_session_state c s m) a = pend m a"
  "pend (persist_session s c t h m) a = pend m a" "pend (remove_session_from_db s m) a = pend m a"
  "pend (snd (create_session u c h m)) a = pend m a"
  "pend (ensure_session_persisted s c h m) a = pend m a"
  "pend (persistence_finished s n m) a = pend m a" "pend (shutdown_finish m) a = pend m a"
  by (simp_all add: pend_def) (simp_all add: obj_at_def ensure_session_persisted_def
      persistence_finished_def shutdown_finish_def)

lemma enqueue_fifo:
  assumes "mgr_ok m"
  shows "pend (snd (enqueue c h s m)) a = pend m a @ accepted a m (Enqueue c h s)"
proof -
  obtain pos m' where en: "enqueue c h s m = (pos, m')" by fastforce
  from assms en obtain b m1 ob where st: "session_state c (effective_sid c s) m = (b, m1)"
    and ob: "obj_at m1 b = Some ob"
    and r: "if MAX_QUEUE_SIZE \<le> length (so_pending ob) then pos = - 1 \<and> m' = m1
     else pos = int (length (so_pending ob)) + (if task_live (so_current ob) then 1 else 0) \<and>
       m' = update_obj b (with_item \<lparr>q_handler = h, q_session_id = s\<rparr>) m1"
    by (rule enqueue_cases)
  have m1: "pend m1 a = pend m a" for a
    using session_state_obj(3) [OF assms st, of a]
    by (auto simp: pend_def new_obj_def split: option.splits)
  show ?thesis
  proof (cases "MAX_QUEUE_SIZE \<le> length (so_pending ob)")
    case True
    with r en m1 show ?thesis by (simp add: accepted_def)
  next
    case False
    with r have "pos \<noteq> - 1" "m' = update_obj b (with_item \<lparr>q_handler = h, q_session_id = s\<rparr>) m1"
      by auto
    with en st ob m1 [of a] show ?thesis
      by (auto simp: accepted_def pend_def obj_at_update_obj with_item_def)
  qed
qed

lemma step_fifo:
  assumes ok: "mgr_ok m" and "\<not> clears e"
  shows "begun a m e @ pend (manager_step m e) a = pend m a @ accepted a m e"
proof (cases e)
  case (Enqueue c h s)
  then show ?thesis using enqueue_fifo [OF ok] by (simp add: begun_def)
next
  case (WorkerRuns b)
  show ?thesis
  proof (cases "b = a")
    case False
    then show ?thesis by (simp add: WorkerRuns begun_def accepted_def pend_def obj_at_update_obj)
  next
    case True
    then show ?thesis
      by (auto simp: WorkerRuns begun_def accepted_def pend_def obj_at_update_obj session_worker_def
          drain_def split: option.splits worker.splits list.splits bool.splits)
  qed
next
  case (ResetSession u c s)
  show ?thesis
    by (auto simp: ResetSession begun_def accepted_def reset_session_def Let_def
        pend_update_obj keeps_pending_ops split: option.split)
next
  case (DeleteSession db c s)
  then show ?thesis
    using keeps_pending_ops(4)
    by (auto simp: DeleteSession begun_def accepted_def delete_session_def Let_def pend_update_obj
        split: option.split)
next
  case (StopCurrent c s)
  then show ?thesis
    by (auto simp: begun_def accepted_def stop_current_def pend_update_obj pend_fold keeps_pending_ops
        split: option.split)
next
  case (BindHistory c s h)
  have "pend (snd (bind_history_mode c s h m)) a = pend m a"
    by (auto simp: bind_history_mode_def Let_def split: option.splits)
  then show ?thesis by (simp add: BindHistory begun_def accepted_def)
qed (use assms(2) in \<open>simp_all add: begun_def accepted_def pend_update_obj pend_fold keeps_pending_ops
    shutdown_cancel_def get_or_create_session_def list_sessions_def Let_def\<close>)

lemma run_fifo:
  assumes "mgr_ok m" and "list_all (\<lambda>e. \<not> clears e) es"
  shows "trace (begun a) m es @ pend (run_ops manager_step m es) a =
    pend m a @ trace (accepted a) m es"
  using assms
proof (induction es arbitrary: m)
  case Nil
  then show ?case by simp
next
  case (Cons e es)
  have "begun a m e @ trace (begun a) (manager_step m e) es @
      pend (run_ops manager_step (manager_step m e) es) a =
      begun a m e @ pend (manager_step m e) a @ trace (accepted a) (manager_step m e) es"
    using Cons.IH [OF manager_step_ok [OF Cons.prems(1)]] Cons.prems(2) by simp
  also have "\<dots> = (pend m a @ accepted a m e) @ trace (accepted a) (manager_step m e) es"
    using step_fifo [OF Cons.prems(1), of e a] Cons.prems(2)
    by simp
  finally show ?case by simp
qed

section \<open>No lost wake-up\<close>

text \<open>A session that is still in the tables and has messages waiting has a worker that will take
  them: one that has not started yet, or one that awaits a handler.\<close>

definition obj_awake :: "session_obj \<Rightarrow> bool" where
  "obj_awake ob \<longleftrightarrow> so_worker ob \<noteq> Fresh True \<and>
     (so_pending ob \<noteq> [] \<longrightarrow> so_worker ob = Awaiting \<or> so_worker ob = Fresh False)"

definition awake :: "manager \<Rightarrow> bool" where
  "awake m \<longleftrightarrow> (\<forall>c s ob. session_obj_of m c s = Some ob \<longrightarrow> obj_awake ob)"

lemma obj_awake_ops:
  "obj_awake ob \<Longrightarrow> obj_awake (cancel_current ob)" "obj_awake ob \<Longrightarrow> obj_awake (clear_pending ob)"
  "obj_awake ob \<Longrightarrow> obj_awake (handler_ends ob)" "obj_awake ob \<Longrightarrow> obj_awake (session_worker ob)"
  "obj_awake ob \<Longrightarrow> obj_awake (with_item it ob)" "obj_awake (new_obj c s)"
  by (auto simp: obj_awake_def cancel_current_def clear_pending_def handler_ends_def
      session_worker_def drain_def with_item_def worker_live_def new_obj_def
      split: option.splits task_status.splits worker.splits bool.splits list.splits)

lemma awake_update_obj:
  "awake m \<Longrightarrow> (\<And>ob. obj_awake ob \<Longrightarrow> obj_awake (f ob)) \<Longrightarrow> awake (update_obj a f m)"
  unfolding awake_def session_obj_of_def
  by (auto simp: obj_at_update_obj split: option.splits if_splits)

lemma awake_fold:
  "awake m \<Longrightarrow> (\<And>ob. obj_awake ob \<Longrightarrow> obj_awake (f ob)) \<Longrightarrow> awake (fold (\<lambda>a. update_obj a f) as m)"
  by (induction as arbitrary: m) (simp_all add: awake_update_obj)

lemma awake_cong: "awake m \<Longrightarrow> (\<And>c s. session_obj_of m' c s = session_obj_of m c s) \<Longrightarrow> awake m'"
  by (simp add: awake_def)

text \<open>An event about one session: the others are untouched, and the one itself is gone or awake.\<close>

lemma awake_about:
  assumes "mgr_ok m" and "awake m" and "about_session e = Some (c, s)"
    and "session_obj_of (manager_step m e) c s = None \<or>
      (\<exists>ob. session_obj_of (manager_step m e) c s = Some ob \<and> obj_awake ob)"
  shows "awake (manager_step m e)"
  unfolding awake_def
proof (intro allI impI)
  fix c' s' ob assume ob: "session_obj_of (manager_step m e) c' s' = Some ob"
  show "obj_awake ob"
  proof (cases "(c', s') = (c, s)")
    case True
    with ob assms(4) show ?thesis by auto
  next
    case False
    with isolation [OF assms(1,3) False] ob assms(2) show ?thesis by (simp add: awake_def)
  qed
qed

lemma step_awake:
  assumes ok: "mgr_ok m" and aw: "awake m" and ev: "e \<noteq> ShutdownCancel"
  shows "awake (manager_step m e)"
proof (cases e)
  case (Enqueue c h s)
  obtain pos m' where en: "enqueue c h s m = (pos, m')" by fastforce
  from ok en obtain a m1 ob where st: "session_state c (effective_sid c s) m = (a, m1)"
    "address_of m1 c (effective_sid c s) = Some a" and ob: "obj_at m1 a = Some ob"
    and r: "m' = m1 \<or> m' = update_obj a (with_item \<lparr>q_handler = h, q_session_id = s\<rparr>) m1"
    by (rule enqueue_cases) (auto split: if_splits)
  have "obj_awake ob"
    using session_state_obj(2) [OF ok st(1)] st(2) ob aw obj_awake_ops(6)
    by (auto simp: session_obj_of_def awake_def split: option.splits)
  with r st(2) ob obj_awake_ops(5) have "\<exists>ob. session_obj_of m' c (effective_sid c s) = Some ob \<and> obj_awake ob"
    by (auto simp: session_obj_of_def obj_at_update_obj)
  with en show ?thesis by (intro awake_about [OF ok aw, of _ c "effective_sid c s"]) (simp_all add: Enqueue)
next
  case (DeleteSession db c s)
  have "address_of (snd (delete_session db c s m)) c s = None"
    by (auto simp: delete_session_def Let_def address_of_def [of m] split: option.split)
  then show ?thesis
    by (intro awake_about [OF ok aw, of _ c s]) (simp_all add: DeleteSession session_obj_of_def)
next
  case (ResetSession u c s)
  have "address_of (snd (reset_session u c s m)) c s = None"
    by (simp add: reset_session_def Let_def split: option.split)
  then show ?thesis
    by (intro awake_about [OF ok aw, of _ c s]) (simp_all add: ResetSession session_obj_of_def)
next
  case (StopCurrent c s)
  with aw show ?thesis
    by (auto simp: stop_current_def awake_update_obj awake_fold obj_awake_ops split: option.split)
next
  case (ClearSession c s)
  with aw show ?thesis
    by (auto simp: clear_queue_for_session_def awake_update_obj obj_awake_ops split: option.split)
next
  case (BindHistory c s h)
  show ?thesis
    unfolding BindHistory manager_step.simps bind_history_mode_def Let_def
    using aw by (rule awake_cong) (auto split: option.splits)
next
  case (EnsurePersisted s c h)
  show ?thesis
    unfolding EnsurePersisted manager_step.simps using aw
    by (rule awake_cong, intro session_obj_cong)
      (auto simp: ensure_session_persisted_def address_of_def obj_at_def)
next
  case (PersistenceFinished s n)
  show ?thesis
    unfolding PersistenceFinished manager_step.simps using aw
    by (rule awake_cong, intro session_obj_cong)
      (auto simp: persistence_finished_def address_of_def obj_at_def)
next
  case (ShutdownFinish)
  then show ?thesis by (simp add: awake_def session_obj_of_def address_of_def shutdown_finish_def)
next
  case (GetOrCreate c s h)
  show ?thesis
    unfolding GetOrCreate manager_step.simps get_or_create_session_def Let_def
    using aw by (rule awake_cong) auto
next
  case (CreateSession u c h)
  show ?thesis unfolding CreateSession manager_step.simps using aw by (rule awake_cong) simp
next
  case (ListSessions c)
  show ?thesis
    unfolding ListSessions manager_step.simps list_sessions_def Let_def using aw by (rule awake_cong) simp
qed (use aw ev in \<open>simp_all add: clear_queue_def awake_fold awake_update_obj obj_awake_ops\<close>)

lemma run_awake:
  "mgr_ok m \<Longrightarrow> awake m \<Longrightarrow> ShutdownCancel \<notin> set es \<Longrightarrow> awake (run_ops manager_step m es)"
  by (induction es arbitrary: m) (auto simp: manager_step_ok step_awake)

lemma run_awake_empty:
  "ShutdownCancel \<notin> set es \<Longrightarrow> awake (run_ops manager_step (empty_manager n db) es)"
  by (rule run_awake [OF empty_manager_ok])
    (simp_all add: awake_def session_obj_of_def address_of_def empty_manager_def)

section \<open>Properties\<close>

text \<open>
  Backpressure and single execution. In every state the manager can reach, whatever clients,
  workers and the scheduler do, no session has more than twenty messages waiting, each runtime
  object has a current handler exactly when its worker is waiting for one, and each table entry
  leads to the object of its own client and session.
\<close>

theorem sessions_bounded:
  "let m = run_ops manager_step (empty_manager name db) events in
     queue_depth_for_session m c s \<le> MAX_QUEUE_SIZE \<and> mgr_ok m"
proof -
  have ok: "mgr_ok (run_ops manager_step (empty_manager name db) events)"
    by (rule sessions.run_inv) (rule empty_manager_ok)
  then have "queue_depth_for_session (run_ops manager_step (empty_manager name db) events) c s
      \<le> MAX_QUEUE_SIZE"
    by (auto simp: queue_depth_for_session_def session_obj_of_def mgr_ok_def obj_ok_def
        split: option.splits)
  with ok show ?thesis by (simp add: Let_def)
qed

text \<open>
  C9: Within a session messages run in the order they were accepted. For every runtime object and
  every history without a clear, the handlers started, in order, followed by those still waiting,
  are the ones waiting at the beginning followed by the ones accepted, in order: none is lost,
  duplicated or overtaken, whatever happens in other sessions.
\<close>

theorem session_fifo:
  assumes "mgr_ok m" and "list_all (\<lambda>e. \<not> clears e) events"
  shows "trace (begun a) m events @ pend (run_ops manager_step m events) a =
    pend m a @ trace (accepted a) m events"
  using assms by (rule run_fifo)

theorem session_fifo_witness:
  "let es = [Enqueue ''c'' 7 (Some ''s''), Enqueue ''c'' 8 (Some ''s''), WorkerRuns 0, HandlerEnds 0,
       WorkerRuns 0]
   in map q_handler (trace (begun 0) (empty_manager ''a'' False) es) = [7, 8] \<and>
      pend (run_ops manager_step (empty_manager ''a'' False) es) 0 = []"
proof -
  let ?m = "empty_manager ''a'' False"
  let ?es = "[Enqueue ''c'' 7 (Some ''s''), Enqueue ''c'' 8 (Some ''s''), WorkerRuns 0, HandlerEnds 0,
       WorkerRuns 0]"
  note step = enqueue_def session_state_def client_entry_def client_of_def empty_manager_def
    empty_client_def put_client_def obj_at_def update_obj_def new_obj_def effective_sid_def
    MAX_QUEUE_SIZE_def task_live_def worker_live_def session_worker_def drain_def handler_ends_def
  have run: "pend (run_ops manager_step ?m ?es) 0 = []"
    by (simp add: step pend_def Let_def)
  have acc: "map q_handler (trace (accepted 0) ?m ?es) = [7, 8]"
    by (simp add: step accepted_def Let_def)
  have none: "pend ?m 0 = []" by (simp add: pend_def obj_at_def empty_manager_def)
  have fifo: "trace (begun 0) ?m ?es @ pend (run_ops manager_step ?m ?es) 0 =
      pend ?m 0 @ trace (accepted 0) ?m ?es"
    by (rule session_fifo [OF empty_manager_ok]) simp
  have "trace (begun 0) ?m ?es = trace (accepted 0) ?m ?es" using fifo unfolding run none by simp
  with acc run show ?thesis unfolding Let_def by (simp only: simp_thms)
qed

text \<open>
  C37: Sessions do not disturb each other. Enqueueing to, stopping, clearing, deleting or resetting
  one session leaves the queue, the running handler and the worker of every other session of the
  same client, and of every other client, exactly as they were.
\<close>

theorem session_isolation:
  assumes "mgr_ok m" and "about_session e = Some (c, s)" and "(c', s') \<noteq> (c, s)"
  shows "session_obj_of (manager_step m e) c' s' = session_obj_of m c' s'"
  using assms by (rule isolation)

definition two_sessions :: manager where
  "two_sessions = run_ops manager_step (empty_manager ''a'' False)
     [Enqueue ''c'' 7 (Some ''s''), Enqueue ''c'' 8 (Some ''t''), Enqueue ''c'' 9 (Some ''t''),
      WorkerRuns 0, WorkerRuns 1]"

lemma two_sessions_ok: "mgr_ok two_sessions"
  unfolding two_sessions_def by (rule sessions.run_inv) (rule empty_manager_ok)

theorem session_isolation_witness:
  "is_busy_session (manager_step two_sessions (StopCurrent ''c'' (Some ''s''))) ''c'' ''t''
     = is_busy_session two_sessions ''c'' ''t''"
  using session_isolation [OF two_sessions_ok, of "StopCurrent ''c'' (Some ''s'')" "''c''" "''s''" "''c''"
      "''t''"]
  by (simp add: is_busy_session_def)

text \<open>
  No message is forgotten. In every state reachable without a shutdown, a session that is in the
  tables and has a message waiting makes progress: once its current handler (if any) ends and its
  worker gets its turn, the message at the head of the queue is running.
\<close>

theorem waiting_message_starts:
  assumes "ShutdownCancel \<notin> set events"
    and "m = run_ops manager_step (empty_manager name db) events"
    and "address_of m c s = Some a" and "session_obj_of m c s = Some ob" and "so_pending ob = it # rest"
  shows "\<exists>ob'. session_obj_of (run_ops manager_step m [HandlerEnds a, WorkerRuns a]) c s = Some ob' \<and>
    so_current ob' = Some (it, Running) \<and> so_pending ob' = rest"
proof -
  have "obj_awake ob" using run_awake_empty [OF assms(1)] assms(2,4) by (auto simp: awake_def)
  then have w: "so_worker ob = Awaiting \<or> so_worker ob = Fresh False"
    using assms(5) by (auto simp: obj_awake_def)
  have ob: "obj_at m a = Some ob" using assms(3,4) by (simp add: session_obj_of_def)
  have "mgr_ok m" unfolding assms(2) by (rule sessions.run_inv) (rule empty_manager_ok)
  then have "so_worker ob = Awaiting \<longleftrightarrow> so_current ob \<noteq> None"
    using ob by (simp add: mgr_ok_def obj_ok_def)
  with w have "so_current (session_worker (handler_ends ob)) = Some (it, Running) \<and>
      so_pending (session_worker (handler_ends ob)) = rest"
    using assms(5)
    by (auto simp: session_worker_def handler_ends_def drain_def task_live_def split: option.split)
  with assms(3) ob show ?thesis by (simp add: session_obj_of_def obj_at_update_obj)
qed

lemmas two_sessions_simps =
  two_sessions_def enqueue_def session_state_def client_entry_def client_of_def empty_manager_def
  empty_client_def put_client_def obj_at_def update_obj_def new_obj_def MAX_QUEUE_SIZE_def
  task_live_def worker_live_def session_worker_def drain_def session_obj_of_def address_of_def

lemma two_sessions_t:
  "address_of two_sessions ''c'' ''t'' = Some 1 \<and>
   (\<exists>ob it. session_obj_of two_sessions ''c'' ''t'' = Some ob \<and> so_pending ob = [it] \<and>
     q_handler it = 9 \<and> (\<exists>cur. so_current ob = Some (cur, Running)) \<and> so_worker ob = Awaiting)"
  by (simp add: two_sessions_simps Let_def)

theorem waiting_message_starts_witness:
  "\<exists>ob' it. session_obj_of (run_ops manager_step two_sessions [HandlerEnds 1, WorkerRuns 1]) ''c'' ''t''
     = Some ob' \<and> so_current ob' = Some (it, Running) \<and> q_handler it = 9"
proof -
  obtain ob it where t: "address_of two_sessions ''c'' ''t'' = Some 1"
    "session_obj_of two_sessions ''c'' ''t'' = Some ob" "so_pending ob = [it]" "q_handler it = 9"
    using two_sessions_t by blast
  from waiting_message_starts [OF _ two_sessions_def t(1,2,3)] t(4) show ?thesis by auto
qed

text \<open>
  Deleting a session does not stop its queue. If a session with a running handler and messages
  waiting is deleted, it leaves the tables, but its worker treats the cancellation as the end of
  the handler: once the cancelled handler is done, the worker starts the next waiting message of the
  deleted session.
\<close>

theorem deleted_session_keeps_draining:
  assumes "mgr_ok m" and "address_of m c s = Some a" and "obj_at m a = Some ob"
    and "so_current ob = Some (cur, Running)" and "so_pending ob = it # rest"
  shows "let m' = run_ops manager_step m [DeleteSession ok c s, HandlerEnds a, WorkerRuns a] in
    address_of m' c s = None \<and>
    (\<exists>ob'. obj_at m' a = Some ob' \<and> so_current ob' = Some (it, Running))"
proof -
  have w: "so_worker ob = Awaiting" using assms(1,3,4) by (auto simp: mgr_ok_def obj_ok_def)
  let ?ob1 = "cancel_worker (cancel_current ob)"
  have del: "obj_at (snd (delete_session ok c s m)) a = Some ?ob1"
    "address_of (snd (delete_session ok c s m)) c s = None"
    using assms(2,3)
    by (auto simp: delete_session_def Let_def obj_at_update_obj address_of_def [of m] split: option.splits)
  have "so_worker ?ob1 = Awaiting" "so_pending ?ob1 = it # rest"
    "so_current ?ob1 = Some (cur, CancelRequested)"
    using w assms(4,5) by (simp_all add: cancel_worker_def cancel_current_def)
  then have "so_current (session_worker (handler_ends ?ob1)) = Some (it, Running)"
    by (simp add: handler_ends_def session_worker_def drain_def task_live_def)
  with del show ?thesis by (simp add: Let_def obj_at_update_obj)
qed

theorem deleted_session_keeps_draining_witness:
  "let m' = run_ops manager_step two_sessions [DeleteSession True ''c'' ''t'', HandlerEnds 1, WorkerRuns 1] in
    address_of m' ''c'' ''t'' = None \<and> (\<exists>ob' it. obj_at m' 1 = Some ob' \<and>
      so_current ob' = Some (it, Running) \<and> q_handler it = 9)"
proof -
  obtain ob it cur where t: "address_of two_sessions ''c'' ''t'' = Some 1"
    "obj_at two_sessions 1 = Some ob" "so_current ob = Some (cur, Running)" "so_pending ob = [it]"
    "q_handler it = 9"
    using two_sessions_t by (auto simp: session_obj_of_def)
  from deleted_session_keeps_draining [OF two_sessions_ok t(1-4), of True] t(5) show ?thesis
    by (auto simp: Let_def)
qed

text \<open>
  A history mode is a lock. A session bound to one mode refuses every other mode, keeps its own,
  and accepts its own again; an unbound or unknown session takes the first mode it is given.
\<close>

theorem history_mode_locks:
  assumes "mode \<noteq> []"
  shows "case bind_history_mode c s (Some mode) m of (r, m') \<Rightarrow>
    (let before = Option.bind (dict_get (cs_sessions (client_of m c)) s) sm_history_mode;
         after = Option.bind (dict_get (cs_sessions (client_of m' c)) s) sm_history_mode
     in if before = None \<or> before = Some [] \<or> before = Some mode
        then r = Inr (Some mode) \<and> after = Some mode
        else r = Inl (the before) \<and> after = before)"
proof -
  have entry: "client_of (client_entry c m) c = client_of m c"
    by (auto simp: client_of_def client_entry_def split: option.split)
  have twice: "client_entry c (put_meta c s x y) = put_meta c s x y" for x y
    by (simp add: client_entry_def put_meta_def put_client_def Let_def)
  have put: "dict_get (cs_sessions (client_of (put_meta c s x y) c)) s = Some x" for x y
    by (simp add: put_meta_def Let_def put_client_def client_of_def)
  show ?thesis
    using assms
    by (auto simp: bind_history_mode_def Let_def entry put new_meta_def split: option.splits)
qed

theorem history_mode_locks_witness:
  "let (r, m') = bind_history_mode ''c'' ''s'' (Some ''platform'') (empty_manager ''a'' False)
   in r = Inr (Some ''platform'')"
  using history_mode_locks [where mode = "''platform''" and c = "''c''" and s = "''s''" and
      m = "empty_manager ''a'' False"]
  by (simp add: client_of_def empty_manager_def empty_client_def Let_def split: prod.splits)

end
