(* ===== verification/Update_Guard.thy ===== *)
theory Update_Guard
  imports Device_Cert
begin

text \<open>
  The update journal, boot guard and automatic rollback (\<open>apps/server/.../update_guard.py\<close>).

  The file system around the binary is a finite map from path texts to nodes; a bundle is one node,
  since the guard only moves and removes whole bundles. The journal file is absent or unreadable
  (\<open>None\<close>), or holds a JSON value. Every system call the guard makes may fail: the outcomes are the
  flags of \<open>io\<close>, arguments of the operations. Parsing an integer out of text is a parameter. The
  advisory lock makes each operation atomic; log lines are not modelled. A path's components are
  listed from the leaf up.
\<close>

section \<open>Paths\<close>

text \<open>\<open>p.suffix == ".app"\<close>: the name ends in \<open>.app\<close> with something before the dot.\<close>

definition app_suffix :: "string \<Rightarrow> bool" where
  "app_suffix name = (length name > 4 \<and> drop (length name - 4) name = ''.app'')"

fun find_up :: "(string list \<Rightarrow> bool) \<Rightarrow> string list \<Rightarrow> string list option" where
  "find_up is_dir [] = None"
| "find_up is_dir (name # up) =
     (if app_suffix name \<and> is_dir (name # up) then Some (name # up) else find_up is_dir up)"

definition find_app_bundle :: "(string list \<Rightarrow> bool) \<Rightarrow> string list \<Rightarrow> string list option" where
  "find_app_bundle is_dir target = find_up is_dir (tl target)"

definition anchor :: "(string list \<Rightarrow> bool) \<Rightarrow> string list \<Rightarrow> string list" where
  "anchor is_dir target =
     (case find_app_bundle is_dir target of None \<Rightarrow> target | Some b \<Rightarrow> b)"

definition with_suffix :: "string \<Rightarrow> string list \<Rightarrow> string list" where
  "with_suffix ext p = (case p of [] \<Rightarrow> [] | name # up \<Rightarrow> (name @ ext) # up)"

definition path_str :: "string list \<Rightarrow> string" where
  "path_str p = concat (map (\<lambda>c. CHR ''/'' # c) (rev p))"

definition stem :: "string \<Rightarrow> string" where
  "stem name = take (length name - 4) name"

definition rollback_path :: "string list \<Rightarrow> string list" where
  "rollback_path anc =
     (case anc of
        [] \<Rightarrow> []
      | name # up \<Rightarrow> (if app_suffix name then stem name @ ''.app.old'' else name @ ''.old'') # up)"

section \<open>State\<close>

datatype node = Binary string | Bundle string

record guard_state =
  g_fs :: "string \<Rightarrow> node option"
  g_journal :: "pyval option"

record io =
  io_write_fails :: bool
  io_clear_fails :: bool
  io_aside_fails :: bool
  io_place_fails :: bool
  io_restore_fails :: bool
  io_cleanup_fails :: bool

definition good_io :: io where
  "good_io = \<lparr>io_write_fails = False, io_clear_fails = False, io_aside_fails = False,
     io_place_fails = False, io_restore_fails = False, io_cleanup_fails = False\<rparr>"

definition MAX_BOOT_ATTEMPTS :: int where
  "MAX_BOOT_ATTEMPTS = 3"

definition MAX_REMEMBERED_BAD :: nat where
  "MAX_REMEMBERED_BAD = 10"

text \<open>\<open>d[k] = v\<close>.\<close>

definition pset :: "string \<Rightarrow> pyval \<Rightarrow> (pyval \<times> pyval) list \<Rightarrow> (pyval \<times> pyval) list" where
  "pset k v d = dict_set (PStr k) v d"

definition read_journal :: "guard_state \<Rightarrow> (pyval \<times> pyval) list option" where
  "read_journal g = (case g_journal g of Some (PDict d) \<Rightarrow> Some d | _ \<Rightarrow> None)"

definition write_journal :: "io \<Rightarrow> (pyval \<times> pyval) list \<Rightarrow> guard_state \<Rightarrow> guard_state" where
  "write_journal i d g = (if io_write_fails i then g else g\<lparr>g_journal := Some (PDict d)\<rparr>)"

text \<open>\<open>int(v)\<close>; \<open>None\<close> is its exception.\<close>

fun count_of :: "(string \<Rightarrow> int option) \<Rightarrow> pyval \<Rightarrow> int option" where
  "count_of parse (PInt n) = Some n"
| "count_of parse (PBool b) = Some (of_bool b)"
| "count_of parse (PFloat (Finite r)) = Some (if r < 0 then \<lceil>r\<rceil> else \<lfloor>r\<rfloor>)"
| "count_of parse (PStr s) = parse s"
| "count_of parse _ = None"

section \<open>Rollback\<close>

text \<open>\<open>os.rename\<close> onto an existing path only works between two files.\<close>

definition rename_clash :: "node option \<Rightarrow> node option \<Rightarrow> bool" where
  "rename_clash src dst =
     (case (src, dst) of
        (_, None) \<Rightarrow> False | (Some (Binary _), Some (Binary _)) \<Rightarrow> False | _ \<Rightarrow> True)"

text \<open>The exception path: put the moved-aside binary back when nothing took its place.\<close>

definition undo_rollback ::
  "io \<Rightarrow> string \<Rightarrow> string \<Rightarrow> (string \<Rightarrow> node option) \<Rightarrow> (string \<Rightarrow> node option)" where
  "undo_rollback i anc failed fs =
     (if fs anc = None \<and> fs failed \<noteq> None \<and> \<not> io_restore_fails i
      then fs(anc := fs failed, failed := None) else fs)"

definition perform_rollback ::
  "io \<Rightarrow> string \<Rightarrow> string option \<Rightarrow> (string \<Rightarrow> node option) \<Rightarrow> bool \<times> (string \<Rightarrow> node option)" where
  "perform_rollback i anc rollback fs =
     (case rollback of
        None \<Rightarrow> (False, fs)
      | Some rb \<Rightarrow>
          if fs rb = None then (False, fs)
          else
            (let failed = anc @ ''.failed'';
                 fs1 = (if fs failed \<noteq> None \<and> \<not> io_clear_fails i then fs(failed := None) else fs)
             in if fs1 anc \<noteq> None \<and> (io_aside_fails i \<or> rename_clash (fs1 anc) (fs1 failed))
                then (False, undo_rollback i anc failed fs1)
                else
                  (let fs2 = (if fs1 anc \<noteq> None then fs1(failed := fs1 anc, anc := None) else fs1)
                   in if io_place_fails i \<or> fs2 rb = None
                      then (False, undo_rollback i anc failed fs2)
                      else
                        (let fs3 = fs2(rb := None, anc := fs2 rb)
                         in (True, if io_cleanup_fails i then fs3 else fs3(failed := None))))))"

section \<open>The journal's operations\<close>

definition opt_pstr :: "string option \<Rightarrow> pyval" where
  "opt_pstr x = (case x of None \<Rightarrow> PNone | Some s \<Rightarrow> PStr s)"

definition bad_versions :: "(pyval \<times> pyval) list \<Rightarrow> pyval list option" where
  "bad_versions d = py_list (pget_or (PList []) ''rolled_back_versions'' d)"

text \<open>\<open>record_pending\<close> for a frozen build with anchor \<open>anc\<close>; elsewhere it does nothing.\<close>

definition record_pending ::
  "io \<Rightarrow> string list option \<Rightarrow> string \<Rightarrow> string option \<Rightarrow> real \<Rightarrow> guard_state \<Rightarrow> guard_state" where
  "record_pending i anc new_version prev_version now g =
     (case anc of
        None \<Rightarrow> g
      | Some a \<Rightarrow>
          (let rb = path_str (rollback_path a);
               existing = (case read_journal g of None \<Rightarrow> [] | Some d \<Rightarrow> d)
           in case bad_versions existing of
                None \<Rightarrow> g
              | Some bad \<Rightarrow>
                  write_journal i
                    [(PStr ''schema'', PInt 1), (PStr ''state'', PStr ''pending''),
                     (PStr ''new_version'', PStr new_version),
                     (PStr ''prev_version'',
                      if prev_version = None \<or> prev_version = Some []
                      then pget_or PNone ''confirmed_version'' existing else opt_pstr prev_version),
                     (PStr ''applied_at'', PFloat (Finite now)), (PStr ''boot_attempts'', PInt 0),
                     (PStr ''rollback_path'', PStr rb),
                     (PStr ''rollback_available'', PBool (g_fs g rb \<noteq> None)),
                     (PStr ''rolled_back_versions'', PList bad)] g))"

definition rolled_back_versions ::
  "(pyval \<Rightarrow> string) \<Rightarrow> string list option \<Rightarrow> guard_state \<Rightarrow> string set" where
  "rolled_back_versions rep anc g =
     (case anc of
        None \<Rightarrow> {}
      | Some _ \<Rightarrow>
          (case bad_versions (case read_journal g of None \<Rightarrow> [] | Some d \<Rightarrow> d) of
             None \<Rightarrow> {} | Some bad \<Rightarrow> py_str rep ` set bad))"

definition pending :: "(pyval \<times> pyval) list option \<Rightarrow> bool" where
  "pending j = (case j of None \<Rightarrow> False
     | Some d \<Rightarrow> d \<noteq> [] \<and> pget_or PNone ''state'' d = PStr ''pending'')"

text \<open>\<open>bad[-n:]\<close>.\<close>

definition last_n :: "nat \<Rightarrow> 'a list \<Rightarrow> 'a list" where
  "last_n n xs = drop (length xs - n) xs"

definition remember_bad :: "pyval \<Rightarrow> pyval list \<Rightarrow> pyval list" where
  "remember_bad v bad = last_n MAX_REMEMBERED_BAD (if v \<in> set bad then bad else bad @ [v])"

text \<open>The exhausted branch of \<open>boot_guard\<close>: roll back, remember the version, write the journal. An
  exception (a journal whose fields have the wrong types) lets the boot go on; by then the rollback
  may already have happened.\<close>

definition exhausted ::
  "io \<Rightarrow> string list \<Rightarrow> real \<Rightarrow> (pyval \<times> pyval) list \<Rightarrow> guard_state \<Rightarrow> bool \<times> guard_state" where
  "exhausted i a now data g =
     (let rb = pget_or PNone ''rollback_path'' data;
          new_version = pget_or (PStr ''?'') ''new_version'' data
      in if truthy rb \<and> (\<forall>s. rb \<noteq> PStr s) then (False, g)
         else
           (let (ok, fs) = perform_rollback i (path_str a)
                  (case rb of PStr s \<Rightarrow> (if s = [] then None else Some s) | _ \<Rightarrow> None) (g_fs g);
                g1 = g\<lparr>g_fs := fs\<rparr>
            in case bad_versions data of
                 None \<Rightarrow> (False, g1)
               | Some bad \<Rightarrow>
                   (ok, write_journal i
                      (pset ''rolled_back_at'' (PFloat (Finite now))
                        (pset ''state'' (PStr (if ok then ''rolled_back'' else ''rollback_failed''))
                          (pset ''rolled_back_versions'' (PList (remember_bad new_version bad)) data)))
                      g1)))"

text \<open>\<open>boot_guard\<close>: \<open>True\<close> is the answer \<open>"rolled_back"\<close>, \<open>False\<close> is \<open>None\<close>.\<close>

definition boot_guard ::
  "(string \<Rightarrow> int option) \<Rightarrow> io \<Rightarrow> string list option \<Rightarrow> real \<Rightarrow> guard_state \<Rightarrow> bool \<times> guard_state" where
  "boot_guard parse i anc now g =
     (case anc of
        None \<Rightarrow> (False, g)
      | Some a \<Rightarrow>
          if \<not> pending (read_journal g) then (False, g)
          else
            (let data = the (read_journal g)
             in case count_of parse (pget_or (PInt 0) ''boot_attempts'' data) of
                  None \<Rightarrow> (False, g)
                | Some n \<Rightarrow>
                    (let attempts = n + 1;
                         data1 = pset ''boot_attempts'' (PInt attempts) data
                     in if attempts \<le> MAX_BOOT_ATTEMPTS then (False, write_journal i data1 g)
                        else exhausted i a now data1 g)))"

definition mark_healthy :: "io \<Rightarrow> string list option \<Rightarrow> real \<Rightarrow> guard_state \<Rightarrow> guard_state" where
  "mark_healthy i anc now g =
     (case anc of
        None \<Rightarrow> g
      | Some a \<Rightarrow>
          if \<not> pending (read_journal g) then g
          else
            (let data = the (read_journal g)
             in write_journal i
                  (pset ''boot_attempts'' (PInt 0)
                    (pset ''confirmed_at'' (PFloat (Finite now))
                      (pset ''confirmed_version'' (pget_or (PStr ''?'') ''new_version'' data)
                        (pset ''state'' (PStr ''confirmed'') data)))) g))"

section \<open>Lemmas\<close>

lemma pget_pset: "pget k (pset k' v d) = (if k = k' then Some v else pget k d)"
proof -
  have "pget k (pset k' v d) = dict_get (dict_set (PStr k') v d) (PStr k)"
    by (simp add: pget_def dict_get_def pset_def)
  then show ?thesis by (simp add: dict_get_set pget_def dict_get_def)
qed

lemma pset_ne [simp]: "pset k v d \<noteq> []"
  unfolding pset_def by (cases d) (auto split: if_splits)

lemma read_write [simp]:
  "\<not> io_write_fails i \<Longrightarrow> read_journal (write_journal i d g) = Some d"
  "g_fs (write_journal i d g) = g_fs g"
  by (simp_all add: read_journal_def write_journal_def)

text \<open>The rollback target hangs off the anchor's own name, bundle or not.\<close>

lemma rollback_path_str: "a \<noteq> [] \<Longrightarrow> path_str (rollback_path a) = path_str a @ ''.old''"
proof (cases a)
  case (Cons name up)
  have "stem name @ ''.app.old'' = name @ ''.old''" if "app_suffix name"
  proof -
    have "name = take (length name - 4) name @ ''.app''"
      using that append_take_drop_id [of "length name - 4" name] by (simp add: app_suffix_def)
    then show ?thesis unfolding stem_def by (metis append.assoc append_Cons append_Nil)
  qed
  then show ?thesis by (simp add: Cons rollback_path_def path_str_def)
qed simp

text \<open>A journal that records a pending update, as \<open>record_pending\<close> writes it.\<close>

definition pending_at :: "string \<Rightarrow> string \<Rightarrow> int \<Rightarrow> pyval list \<Rightarrow> guard_state \<Rightarrow> bool" where
  "pending_at v rb n bad g \<longleftrightarrow>
     (\<exists>d. read_journal g = Some d \<and> d \<noteq> [] \<and> pget ''state'' d = Some (PStr ''pending'') \<and>
        pget ''boot_attempts'' d = Some (PInt n) \<and> pget ''new_version'' d = Some (PStr v) \<and>
        pget ''rollback_path'' d = Some (PStr rb) \<and>
        pget ''rolled_back_versions'' d = Some (PList bad))"

lemma record_pending_at:
  assumes "bad_versions (case read_journal g of None \<Rightarrow> [] | Some d \<Rightarrow> d) = Some bad"
    and "\<not> io_write_fails i"
  shows "pending_at v (path_str (rollback_path a)) 0 bad (record_pending i (Some a) v prev now g)"
    and "g_fs (record_pending i (Some a) v prev now g) = g_fs g"
  using assms by (simp_all add: record_pending_def pending_at_def Let_def)

lemma boot_counts:
  assumes "pending_at v rb n bad g" and "n < MAX_BOOT_ATTEMPTS" and "\<not> io_write_fails i"
  shows "\<exists>g'. boot_guard parse i (Some a) now g = (False, g') \<and> pending_at v rb (n + 1) bad g' \<and>
    g_fs g' = g_fs g"
proof -
  obtain d where d: "read_journal g = Some d" "d \<noteq> []" "pget ''state'' d = Some (PStr ''pending'')"
    "pget ''boot_attempts'' d = Some (PInt n)" "pget ''new_version'' d = Some (PStr v)"
    "pget ''rollback_path'' d = Some (PStr rb)" "pget ''rolled_back_versions'' d = Some (PList bad)"
    using assms(1) by (auto simp: pending_at_def)
  let ?g' = "write_journal i (pset ''boot_attempts'' (PInt (n + 1)) d) g"
  have "boot_guard parse i (Some a) now g = (False, ?g')"
    using d assms(2) by (simp add: boot_guard_def pending_def pget_or_def)
  moreover have "pending_at v rb (n + 1) bad ?g'"
    using d assms(3) by (simp add: pending_at_def pget_pset)
  ultimately show ?thesis by simp
qed

lemma boot_exhausted:
  assumes "pending_at v rb n bad g" and "MAX_BOOT_ATTEMPTS \<le> n" and "rb \<noteq> []"
    and "perform_rollback i (path_str a) (Some rb) (g_fs g) = (ok, fs)" and "\<not> io_write_fails i"
  shows "\<exists>g'. boot_guard parse i (Some a) now g = (ok, g') \<and> g_fs g' = fs \<and>
    \<not> pending (read_journal g') \<and>
    (\<exists>d. read_journal g' = Some d \<and> bad_versions d = Some (remember_bad (PStr v) bad))"
proof -
  obtain d where d: "read_journal g = Some d" "d \<noteq> []" "pget ''state'' d = Some (PStr ''pending'')"
    "pget ''boot_attempts'' d = Some (PInt n)" "pget ''new_version'' d = Some (PStr v)"
    "pget ''rollback_path'' d = Some (PStr rb)" "pget ''rolled_back_versions'' d = Some (PList bad)"
    using assms(1) by (auto simp: pending_at_def)
  let ?d1 = "pset ''boot_attempts'' (PInt (n + 1)) d"
  let ?d2 = "pset ''rolled_back_at'' (PFloat (Finite now))
      (pset ''state'' (PStr (if ok then ''rolled_back'' else ''rollback_failed''))
        (pset ''rolled_back_versions'' (PList (remember_bad (PStr v) bad)) ?d1))"
  have ex: "exhausted i a now ?d1 g = (ok, write_journal i ?d2 (g\<lparr>g_fs := fs\<rparr>))"
    using d assms(3,4) by (simp add: exhausted_def pget_or_def pget_pset bad_versions_def)
  have "boot_guard parse i (Some a) now g = (ok, write_journal i ?d2 (g\<lparr>g_fs := fs\<rparr>))"
    using d assms(2) ex by (simp add: boot_guard_def pending_def pget_or_def)
  then show ?thesis
    using assms(5) by (simp add: pending_def pget_or_def pget_pset bad_versions_def)
qed

lemma rename_clash_None [simp]: "\<not> rename_clash x None"
  by (cases x) (simp_all add: rename_clash_def split: node.splits)

lemma rollback_succeeds:
  assumes "fs anc \<noteq> None" and "fs rb = Some old" and "rb \<noteq> anc" and "rb \<noteq> anc @ ''.failed''"
  shows "perform_rollback good_io anc (Some rb) fs =
    (True, fs(anc @ ''.failed'' := None, rb := None, anc := Some old))"
  using assms
  by (auto simp: perform_rollback_def good_io_def Let_def fun_eq_iff)

lemma remember_bad_in: "length bad < MAX_REMEMBERED_BAD \<or> v \<notin> set bad \<Longrightarrow> v \<in> set (remember_bad v bad)"
  by (auto simp: remember_bad_def last_n_def MAX_REMEMBERED_BAD_def)

fun boots :: "(string \<Rightarrow> int option) \<Rightarrow> string list option \<Rightarrow> real list \<Rightarrow> guard_state \<Rightarrow> bool list \<times> guard_state" where
  "boots parse anc [] g = ([], g)"
| "boots parse anc (t # ts) g =
     (let (r, g1) = boot_guard parse good_io anc t g; (rs, g2) = boots parse anc ts g1 in (r # rs, g2))"

lemma idle_boots:
  "\<not> pending (read_journal g) \<Longrightarrow> boots parse anc ts g = (replicate (length ts) False, g)"
  by (induction ts) (auto simp: boot_guard_def split: option.splits)

section \<open>Properties\<close>

text \<open>
  C27: A release that never becomes healthy is undone. After an update whose previous binary is kept
  beside the new one, and with system calls that work, three boots that never reach the serving
  state are let through, the fourth restores the previous binary, reports it and removes the
  broken one, the version is remembered as bad, and every later boot is left alone.
\<close>

theorem crash_loop_rolls_back:
  assumes "a \<noteq> []" and "g_fs g (path_str a) = Some new" and "g_fs g (path_str a @ ''.old'') = Some old"
    and "bad_versions (case read_journal g of None \<Rightarrow> [] | Some d \<Rightarrow> d) = Some bad" and "PStr v \<notin> set bad"
  shows "\<exists>g'. boots parse (Some a) ([ta, tb, tc, td] @ ts) (record_pending good_io (Some a) v prev tz g) =
      ([False, False, False, True] @ replicate (length ts) False, g') \<and>
    g_fs g' (path_str a) = Some old \<and> g_fs g' (path_str a @ ''.old'') = None \<and>
    g_fs g' (path_str a @ ''.failed'') = None \<and> v \<in> rolled_back_versions rep (Some a) g'"
proof -
  let ?rb = "path_str a @ ''.old''"
  have w: "\<not> io_write_fails good_io" by (simp add: good_io_def)
  let ?g0 = "record_pending good_io (Some a) v prev tz g"
  have p0: "pending_at v ?rb 0 bad ?g0" "g_fs ?g0 = g_fs g"
    using record_pending_at [OF assms(4) w, where v = v and a = a and prev = prev and now = tz]
    unfolding rollback_path_str [OF assms(1)] .
  note c = boot_counts [OF _ _ w, unfolded MAX_BOOT_ATTEMPTS_def]
  obtain g1 where 1: "boot_guard parse good_io (Some a) ta ?g0 = (False, g1)"
    "pending_at v ?rb 1 bad g1" "g_fs g1 = g_fs ?g0" using c [OF p0(1), of parse a ta] by auto
  obtain g2 where 2: "boot_guard parse good_io (Some a) tb g1 = (False, g2)"
    "pending_at v ?rb 2 bad g2" "g_fs g2 = g_fs g1" using c [OF 1(2), of parse a tb] by auto
  obtain g3 where 3: "boot_guard parse good_io (Some a) tc g2 = (False, g3)"
    "pending_at v ?rb 3 bad g3" "g_fs g3 = g_fs g2" using c [OF 2(2), of parse a tc] by auto
  have fs: "g_fs g3 = g_fs g" using 1 2 3 p0 by simp
  let ?fs = "(g_fs g)(path_str a @ ''.failed'' := None, ?rb := None, path_str a := Some old)"
  have rb: "perform_rollback good_io (path_str a) (Some ?rb) (g_fs g3) = (True, ?fs)"
    unfolding fs using assms(2,3) by (intro rollback_succeeds) simp_all
  have ge: "MAX_BOOT_ATTEMPTS \<le> 3" by (simp add: MAX_BOOT_ATTEMPTS_def)
  from boot_exhausted [OF 3(2) ge _ rb w, of parse td] obtain g4 where
    4: "boot_guard parse good_io (Some a) td g3 = (True, g4)" "g_fs g4 = ?fs"
      "\<not> pending (read_journal g4)"
      "\<exists>d. read_journal g4 = Some d \<and> bad_versions d = Some (remember_bad (PStr v) bad)" by auto
  have "v \<in> rolled_back_versions rep (Some a) g4"
    using remember_bad_in [of bad "PStr v"] assms(5) 4(4)
    by (force simp: rolled_back_versions_def)
  moreover have "boots parse (Some a) ([ta, tb, tc, td] @ ts) ?g0 =
      ([False, False, False, True] @ replicate (length ts) False, g4)"
    using 1(1) 2(1) 3(1) 4(1) idle_boots [OF 4(3)] by simp
  ultimately show ?thesis using 4(2) by auto
qed

definition fresh_install :: guard_state where
  "fresh_install =
     \<lparr>g_fs = [''/bin/openagent'' \<mapsto> Binary ''2.0'', ''/bin/openagent.old'' \<mapsto> Binary ''1.9''],
      g_journal = None\<rparr>"

theorem crash_loop_rolls_back_witness:
  "\<exists>g'. boots (\<lambda>_. None) (Some [''openagent'', ''bin'']) ([10, 20, 30, 40] @ [50])
      (record_pending good_io (Some [''openagent'', ''bin'']) ''2.0'' (Some ''1.9'') 5 fresh_install) =
      ([False, False, False, True] @ replicate (length [50::real]) False, g') \<and>
    g_fs g' ''/bin/openagent'' = Some (Binary ''1.9'') \<and>
    ''2.0'' \<in> rolled_back_versions (\<lambda>_. []) (Some [''openagent'', ''bin'']) g'"
proof -
  have p: "path_str [''openagent'', ''bin''] = ''/bin/openagent''" by (simp add: path_str_def)
  have b: "bad_versions (case read_journal fresh_install of None \<Rightarrow> [] | Some d \<Rightarrow> d) = Some []"
    by (simp add: fresh_install_def read_journal_def bad_versions_def pget_or_def pget_def)
  show ?thesis
    using crash_loop_rolls_back [where a = "[''openagent'', ''bin'']" and g = fresh_install and
      new = "Binary ''2.0''" and old = "Binary ''1.9''" and v = "''2.0''" and prev = "Some ''1.9''" and
      parse = "\<lambda>_. None" and rep = "\<lambda>_. []" and tz = 5 and ta = 10 and tb = 20 and tc = 30 and
      td = 40 and ts = "[50]", OF _ _ _ b]
    unfolding p by (force simp: fresh_install_def)
qed

text \<open>
  C14: A rollback never loses a binary, whichever system calls fail. A rollback that reports success
  has put the kept binary in place; one that reports failure has left the kept binary where it was,
  and the current one in place too, unless both placing the old binary and putting the current one
  back failed, when the current one is still there under its \<open>.failed\<close> name. No other file is
  touched.
\<close>

theorem rollback_never_strands:
  assumes "perform_rollback i anc (Some rb) fs = (ok, fs')" and "fs anc = Some cur"
    and "rb \<noteq> anc" and "rb \<noteq> anc @ ''.failed''"
  shows "(ok \<longrightarrow> fs rb \<noteq> None \<and> fs' anc = fs rb) \<and>
    (\<not> ok \<longrightarrow> fs' rb = fs rb \<and> (fs' anc = Some cur \<or>
       io_place_fails i \<and> io_restore_fails i \<and> fs' anc = None \<and> fs' (anc @ ''.failed'') = Some cur)) \<and>
    (\<forall>p. p \<notin> {anc, rb, anc @ ''.failed''} \<longrightarrow> fs' p = fs p)"
proof (intro conjI impI allI)
  have ne: "anc \<noteq> anc @ ''.failed''" by simp
  note rb = assms(1) [unfolded perform_rollback_def undo_rollback_def Let_def]
  show "fs rb \<noteq> None" "fs' anc = fs rb" if ok
    using that rb assms(2-4) ne by (auto split: if_splits)
  show "fs' rb = fs rb" if "\<not> ok"
    using that rb assms(2-4) ne by (auto split: if_splits)
  show "fs' anc = Some cur \<or>
      io_place_fails i \<and> io_restore_fails i \<and> fs' anc = None \<and> fs' (anc @ ''.failed'') = Some cur"
    if "\<not> ok"
    using that rb assms(2-4) ne by (auto split: if_splits)
  show "fs' p = fs p" if "p \<notin> {anc, rb, anc @ ''.failed''}" for p
    using that rb assms(2-4) ne by (auto split: if_splits)
qed

theorem rollback_never_strands_witness:
  "\<exists>fs'. perform_rollback (good_io\<lparr>io_place_fails := True\<rparr>) ''/bin/openagent''
      (Some ''/bin/openagent.old'') (g_fs fresh_install) = (False, fs') \<and>
    fs' ''/bin/openagent'' = Some (Binary ''2.0'') \<and> fs' ''/bin/openagent.old'' = Some (Binary ''1.9'')"
proof -
  let ?i = "good_io\<lparr>io_place_fails := True\<rparr>"
  have "fst (perform_rollback ?i ''/bin/openagent'' (Some ''/bin/openagent.old'') (g_fs fresh_install)) = False"
    by (simp add: perform_rollback_def fresh_install_def good_io_def Let_def)
  then obtain fs' where r: "perform_rollback ?i ''/bin/openagent'' (Some ''/bin/openagent.old'')
      (g_fs fresh_install) = (False, fs')" by (cases "perform_rollback ?i ''/bin/openagent''
        (Some ''/bin/openagent.old'') (g_fs fresh_install)") simp
  from rollback_never_strands [OF r, of "Binary ''2.0''"] r show ?thesis
    by (simp add: fresh_install_def good_io_def)
qed

section \<open>Histories\<close>

datatype guard_event = Recorded io string "string option" real | Booted io real | Healthy io real

definition guard_step ::
  "(string \<Rightarrow> int option) \<Rightarrow> string list \<Rightarrow> guard_state \<Rightarrow> guard_event \<Rightarrow> guard_state" where
  "guard_step parse a g e =
     (case e of
        Recorded i v prev now \<Rightarrow> record_pending i (Some a) v prev now g
      | Booted i now \<Rightarrow> snd (boot_guard parse i (Some a) now g)
      | Healthy i now \<Rightarrow> mark_healthy i (Some a) now g)"

definition remembered :: "guard_state \<Rightarrow> pyval list option" where
  "remembered g = bad_versions (case read_journal g of None \<Rightarrow> [] | Some d \<Rightarrow> d)"

fun is_recorded :: "guard_event \<Rightarrow> bool" where
  "is_recorded (Recorded _ _ _ _) = True"
| "is_recorded _ = False"

text \<open>How many more versions a history of \<open>n\<close> updates can still prove bad.\<close>

definition at_risk :: "guard_state \<Rightarrow> nat" where
  "at_risk g = of_bool (pending (read_journal g))"

lemma bad_versions_pset [simp]:
  "k \<noteq> ''rolled_back_versions'' \<Longrightarrow> bad_versions (pset k v d) = bad_versions d"
  "bad_versions (pset ''rolled_back_versions'' (PList xs) d) = Some xs"
  by (simp_all add: bad_versions_def pget_or_def pget_pset)

lemma remembered_write:
  "remembered (write_journal i d g) = (if io_write_fails i then remembered g else bad_versions d)"
  "at_risk (write_journal i d g) = (if io_write_fails i then at_risk g else of_bool (pending (Some d)))"
  by (simp_all add: remembered_def at_risk_def read_journal_def write_journal_def)

lemma remembered_fs [simp]:
  "remembered (g\<lparr>g_fs := fs\<rparr>) = remembered g" "at_risk (g\<lparr>g_fs := fs\<rparr>) = at_risk g"
  by (simp_all add: remembered_def at_risk_def read_journal_def)

lemma remember_bad_prefix:
  assumes "length bad < MAX_REMEMBERED_BAD"
  shows "\<exists>zs. remember_bad v bad = bad @ zs \<and> length zs \<le> 1"
  using assms by (auto simp: remember_bad_def last_n_def)

lemma exhausted_shape:
  assumes "bad_versions d = Some bad"
  shows "\<exists>fs. snd (exhausted i a now d g) \<in> {g,
    write_journal i (pset ''rolled_back_at'' (PFloat (Finite now))
      (pset ''state'' (PStr (if fst (exhausted i a now d g) then ''rolled_back'' else ''rollback_failed''))
        (pset ''rolled_back_versions''
          (PList (remember_bad (pget_or (PStr ''?'') ''new_version'' d) bad)) d))) (g\<lparr>g_fs := fs\<rparr>)}"
  using assms by (simp add: exhausted_def Let_def case_prod_beta) blast

lemma exhausted_remembered:
  assumes "bad_versions d = Some bad" and "remembered g = Some bad" and "at_risk g = 1"
    and "length bad < MAX_REMEMBERED_BAD"
  shows "\<exists>zs. remembered (snd (exhausted i a now d g)) = Some (bad @ zs) \<and>
    length zs + at_risk (snd (exhausted i a now d g)) \<le> 1"
proof -
  obtain zs where z: "remember_bad (pget_or (PStr ''?'') ''new_version'' d) bad = bad @ zs" "length zs \<le> 1"
    using remember_bad_prefix [OF assms(4)] by blast
  let ?st = "\<lambda>ok. pset ''rolled_back_at'' (PFloat (Finite now))
      (pset ''state'' (PStr (if ok then ''rolled_back'' else ''rollback_failed''))
        (pset ''rolled_back_versions'' (PList (bad @ zs)) d))"
  have np: "\<not> pending (Some (?st ok))" for ok by (simp add: pending_def pget_or_def pget_pset)
  consider "snd (exhausted i a now d g) = g"
    | ok fs where "snd (exhausted i a now d g) = write_journal i (?st ok) (g\<lparr>g_fs := fs\<rparr>)"
    using exhausted_shape [OF assms(1), of i a now g] unfolding z(1) by auto
  then show ?thesis
  proof cases
    case 1
    then show ?thesis using assms(2,3) by (intro exI [of _ "[]"]) simp
  next
    case 2
    then show ?thesis
      using assms(2,3) z(2) np by (cases "io_write_fails i") (auto simp: remembered_write)
  qed
qed

lemma guard_step_remembers:
  assumes "remembered g = Some bad"
    and "length bad + at_risk g + of_bool (is_recorded e) \<le> MAX_REMEMBERED_BAD"
  shows "\<exists>zs. remembered (guard_step parse a g e) = Some (bad @ zs) \<and>
    length zs + at_risk (guard_step parse a g e) \<le> at_risk g + of_bool (is_recorded e)"
proof (cases e)
  case (Recorded i v prev now)
  then show ?thesis
    using assms
    by (auto simp: guard_step_def record_pending_def remembered_def [symmetric] Let_def remembered_write)
      (auto simp: bad_versions_def pget_or_def pget_def pending_def at_risk_def)
next
  case (Booted i now)
  have "guard_step parse a g e = g \<or> (\<exists>d n. read_journal g = Some d \<and> pending (Some d) \<and>
      guard_step parse a g e \<in> {write_journal i (pset ''boot_attempts'' (PInt n) d) g,
        snd (exhausted i a now (pset ''boot_attempts'' (PInt n) d) g)})"
  proof (cases "pending (read_journal g)")
    case True
    then obtain d where d: "read_journal g = Some d" by (cases "read_journal g") (auto simp: pending_def)
    show ?thesis
      using True d
      by (cases "count_of parse (pget_or (PInt 0) ''boot_attempts'' d)")
        (auto simp: Booted guard_step_def boot_guard_def Let_def)
  qed (simp add: Booted guard_step_def boot_guard_def)
  then consider "guard_step parse a g e = g"
    | d n where "read_journal g = Some d" "pending (Some d)"
        "guard_step parse a g e = write_journal i (pset ''boot_attempts'' (PInt n) d) g"
    | d n where "read_journal g = Some d" "pending (Some d)"
        "guard_step parse a g e = snd (exhausted i a now (pset ''boot_attempts'' (PInt n) d) g)"
    by blast
  then show ?thesis
  proof cases
    case 1
    then show ?thesis using assms(1) by (intro exI [of _ "[]"]) simp
  next
    case 2
    then have "bad_versions d = Some bad" "at_risk g = 1" using assms(1) by (simp_all add: remembered_def at_risk_def)
    then show ?thesis
      using 2(3) assms(1) by (intro exI [of _ "[]"]) (auto simp: remembered_write)
  next
    case 3
    have risk: "at_risk g = 1" using 3(1,2) by (simp add: at_risk_def)
    have "bad_versions (pset ''boot_attempts'' (PInt n) d) = Some bad"
      using 3(1) assms(1) by (simp add: remembered_def)
    from exhausted_remembered [OF this assms(1) risk] show ?thesis
      using 3(3) risk assms(2) by (auto simp: Booted)
  qed
next
  case (Healthy i now)
  show ?thesis
  proof (cases "pending (read_journal g)")
    case True
    then obtain d where d: "read_journal g = Some d" by (cases "read_journal g") (auto simp: pending_def)
    let ?d = "pset ''boot_attempts'' (PInt 0) (pset ''confirmed_at'' (PFloat (Finite now))
      (pset ''confirmed_version'' (pget_or (PStr ''?'') ''new_version'' d) (pset ''state'' (PStr ''confirmed'') d)))"
    have "guard_step parse a g e = write_journal i ?d g"
      using True d by (simp add: Healthy guard_step_def mark_healthy_def)
    moreover have "bad_versions ?d = Some bad" using d assms(1) by (simp add: remembered_def)
    moreover have "\<not> pending (Some ?d)" by (simp add: pending_def pget_or_def pget_pset)
    ultimately show ?thesis using assms(1) by (intro exI [of _ "[]"]) (simp add: remembered_write)
  next
    case False
    then show ?thesis
      using assms(1) by (intro exI [of _ "[]"]) (simp add: Healthy guard_step_def mark_healthy_def)
  qed
qed

text \<open>
  The versions proven bad are remembered. Over any history of updates, boots and health reports,
  with any write failing, the remembered list only grows at its end: no version is forgotten, and
  there is at most one new entry per update, until more than ten have been rolled back.
\<close>

theorem proven_bad_versions_kept:
  assumes "remembered g = Some bad"
    and "length bad + at_risk g + length (filter is_recorded es) \<le> MAX_REMEMBERED_BAD"
  shows "\<exists>zs. remembered (foldl (guard_step parse a) g es) = Some (bad @ zs) \<and>
    length zs \<le> at_risk g + length (filter is_recorded es)"
  using assms
proof (induction es arbitrary: g bad)
  case (Cons e es)
  have n: "length (filter is_recorded (e # es)) = of_bool (is_recorded e) + length (filter is_recorded es)"
    by simp
  from Cons.prems obtain zs where z: "remembered (guard_step parse a g e) = Some (bad @ zs)"
    "length zs + at_risk (guard_step parse a g e) \<le> at_risk g + of_bool (is_recorded e)"
    using guard_step_remembers [of g bad e parse a] unfolding n by auto
  from Cons.IH [OF z(1)] z(2) Cons.prems(2) obtain ys where
    "remembered (foldl (guard_step parse a) (guard_step parse a g e) es) = Some ((bad @ zs) @ ys)"
    "length ys \<le> at_risk (guard_step parse a g e) + length (filter is_recorded es)"
    unfolding n by auto
  with z(2) show ?case unfolding n by (intro exI [of _ "zs @ ys"]) auto
qed simp

theorem proven_bad_versions_kept_witness:
  "\<exists>zs. remembered (foldl (guard_step (\<lambda>_. None) [''openagent'', ''bin'']) fresh_install
      [Recorded good_io ''2.0'' None 1, Booted good_io 2, Healthy good_io 3]) = Some ([] @ zs) \<and>
    length zs \<le> 1"
proof -
  have "remembered fresh_install = Some []" "at_risk fresh_install = 0"
    by (simp_all add: remembered_def fresh_install_def read_journal_def bad_versions_def pget_or_def
        pget_def at_risk_def pending_def)
  with proven_bad_versions_kept [of fresh_install "[]" "[Recorded good_io ''2.0'' None 1,
    Booted good_io 2, Healthy good_io 3]" "\<lambda>_. None" "[''openagent'', ''bin'']"]
  show ?thesis by (simp add: MAX_REMEMBERED_BAD_def)
qed

text \<open>
  A release that reports healthy is never rolled back. When at most three boots were counted
  against it, the health report ends the trial: the release is recorded as the confirmed version and
  every later boot goes on without touching a file.
\<close>

theorem healthy_release_stays:
  assumes "a \<noteq> []" and "remembered g = Some bad" and "length us \<le> 3"
  shows "\<exists>g'. boots parse (Some a) us (record_pending good_io (Some a) v prev tz g) =
      (replicate (length us) False, g') \<and>
    boots parse (Some a) ts (mark_healthy good_io (Some a) th g') =
      (replicate (length ts) False, mark_healthy good_io (Some a) th g') \<and>
    g_fs (mark_healthy good_io (Some a) th g') = g_fs g \<and>
    (\<exists>d. read_journal (mark_healthy good_io (Some a) th g') = Some d \<and>
       pget ''confirmed_version'' d = Some (PStr v))"
proof -
  let ?g0 = "record_pending good_io (Some a) v prev tz g" and ?rb = "path_str (rollback_path a)"
  have w: "\<not> io_write_fails good_io" by (simp add: good_io_def)
  have p0: "pending_at v ?rb 0 bad ?g0" "g_fs ?g0 = g_fs g"
    using record_pending_at [OF assms(2) [unfolded remembered_def] w, where v = v and a = a and
      prev = prev and now = tz] .
  have "\<exists>g'. boots parse (Some a) us h = (replicate (length us) False, g') \<and>
      (\<exists>m. pending_at v ?rb m bad g') \<and> g_fs g' = g_fs h"
    if "pending_at v ?rb n bad h" and "n + int (length us) \<le> 3" for n h us
    using that
  proof (induction us arbitrary: n h)
    case (Cons u us)
    from Cons.prems(2) have "n < MAX_BOOT_ATTEMPTS" by (simp add: MAX_BOOT_ATTEMPTS_def)
    from boot_counts [OF Cons.prems(1) this w] obtain h1 where
      h: "boot_guard parse good_io (Some a) u h = (False, h1)" "pending_at v ?rb (n + 1) bad h1"
        "g_fs h1 = g_fs h" by blast
    from Cons.IH [OF h(2)] Cons.prems(2) h show ?case by auto
  qed auto
  from this [OF p0(1), of us] assms(3) obtain g' m where
    g': "boots parse (Some a) us ?g0 = (replicate (length us) False, g')" "pending_at v ?rb m bad g'"
      "g_fs g' = g_fs g" using p0(2) by auto
  let ?h = "mark_healthy good_io (Some a) th g'"
  from g'(2) w have h: "\<not> pending (read_journal ?h)" "g_fs ?h = g_fs g'"
    "\<exists>d. read_journal ?h = Some d \<and> pget ''confirmed_version'' d = Some (PStr v)"
    by (auto simp: pending_at_def mark_healthy_def pending_def pget_or_def pget_pset)
  from g' h idle_boots [OF h(1)] show ?thesis by auto
qed

theorem healthy_release_stays_witness:
  "\<exists>g'. boots (\<lambda>_. None) (Some [''openagent'', ''bin'']) [10, 20]
      (record_pending good_io (Some [''openagent'', ''bin'']) ''2.0'' None 5 fresh_install) =
      (replicate 2 False, g') \<and>
    g_fs (mark_healthy good_io (Some [''openagent'', ''bin'']) 30 g') = g_fs fresh_install"
proof -
  have "remembered fresh_install = Some []"
    by (simp add: remembered_def fresh_install_def read_journal_def bad_versions_def pget_or_def pget_def)
  from healthy_release_stays [OF _ this, where a = "[''openagent'', ''bin'']" and us = "[10, 20]" and
      parse = "\<lambda>_. None" and v = "''2.0''" and prev = None and tz = 5 and th = 30 and ts = "[]"]
  show ?thesis by (auto simp: numeral_2_eq_2)
qed

end
