(* ===== verification/Oaui_Compiler.thy ===== *)
theory Oaui_Compiler
  imports Prelude
begin

text \<open>
  The parser, validator and compiler of dashboard markup
  (\<open>packages/dashboards/.../compiler.py\<close>).

  Values are JSON values (\<open>pyval\<close>); a \<open>Mapping\<close> is a \<open>PDict\<close>. The regular expressions are written
  out as predicates on text, \<open>urlparse\<close> as the splitting it does. Parameters are the XML parser, the
  JSON codec (\<open>json.loads\<close> and the size of \<open>json.dumps\<close>), the check of an IP literal in brackets and
  the printed form of a value that is not text. \<open>Invalid\<close> is the validation error with its message;
  the last two constructors are exceptions the code lets escape.
\<close>

section \<open>Tables\<close>

datatype oaui_exn =
    Invalid string
  | UnsupportedProp string string
  | NotBindable string
  | NoChildrenAllowed string
  | UnhashableTypeError
  | UrlValueError

definition MAX_SOURCE_BYTES :: nat where "MAX_SOURCE_BYTES = 256 * 1024"
definition MAX_SPEC_BYTES :: nat where "MAX_SPEC_BYTES = 512 * 1024"
definition MAX_NODES :: nat where "MAX_NODES = 512"
definition MAX_DEPTH :: nat where "MAX_DEPTH = 32"
definition MAX_CHILDREN :: nat where "MAX_CHILDREN = 100"
definition MAX_PROPS :: nat where "MAX_PROPS = 64"
definition MAX_STRING_CHARS :: nat where "MAX_STRING_CHARS = 16384"

definition CONTAINER_COMPONENTS :: "string list" where
  "CONTAINER_COMPONENTS = [''stack'', ''row'', ''grid'', ''card'', ''scroll'', ''tabs'', ''sub-view'']"

definition LEAF_COMPONENTS :: "string list" where
  "LEAF_COMPONENTS =
     [''divider'', ''spacer'', ''heading'', ''text'', ''markdown'', ''code'', ''badge'',
      ''metric'', ''status'', ''progress'', ''image'', ''icon'', ''file-link'', ''button'',
      ''toggle'', ''select'', ''segmented'', ''text-input'', ''table'', ''list'', ''key-value'',
      ''line-chart'', ''bar-chart'', ''area-chart'', ''pie-chart'', ''donut-chart'',
      ''scatter-chart'', ''gauge'', ''sparkline'',
      ''loading-state'', ''empty-state'', ''stale-state'', ''error-state'']"

definition COMPONENTS :: "string list" where
  "COMPONENTS = CONTAINER_COMPONENTS @ LEAF_COMPONENTS"

definition COMMON_PROPS :: "string list" where
  "COMMON_PROPS =
     [''label'', ''title'', ''subtitle'', ''description'', ''text'', ''value'', ''fallback'',
      ''icon'', ''tone'', ''size'', ''align'', ''justify'', ''gap'', ''padding'', ''width'',
      ''height'', ''minWidth'', ''maxWidth'', ''minHeight'', ''maxHeight'', ''grow'', ''wrap'',
      ''hidden'', ''disabled'', ''loading'', ''emptyText'', ''ariaLabel'', ''tooltip'',
      ''format'', ''unit'', ''precision'', ''truncate'', ''copyable'', ''selectable'',
      ''action'', ''href'', ''src'', ''alt'', ''assetId'', ''fileId'', ''target'', ''variant'']"

definition COMPONENT_PROPS :: "(string \<times> string list) list" where
  "COMPONENT_PROPS =
     [(''stack'', [''direction'']),
      (''row'', [''direction'']),
      (''grid'', [''columns'', ''minColumnWidth'', ''rowGap'', ''columnGap'']),
      (''card'', [''footer'', ''collapsible'', ''collapsed'', ''tight'', ''rail'']),
      (''scroll'', [''axis'']),
      (''tabs'', [''active'', ''items'']),
      (''sub-view'', [''name'', ''active'', ''viewId'', ''revision'']),
      (''heading'', [''level'']),
      (''text'', [''muted'']),
      (''markdown'', [''allowLinks'']),
      (''code'', [''code'', ''language'', ''lineNumbers'']),
      (''metric'', [''detail'', ''trend'']),
      (''status'', [''status'']),
      (''progress'', [''min'', ''max'', ''indeterminate'']),
      (''image'', [''fit'', ''aspectRatio'', ''caption'']),
      (''icon'', [''name'']),
      (''file-link'', [''filename'', ''kind'']),
      (''button'', [''kind'', ''input'']),
      (''toggle'', [''checked'', ''name'', ''input'']),
      (''select'', [''options'', ''selected'', ''multiple'', ''name'', ''input'']),
      (''segmented'', [''options'', ''selected'', ''name'', ''input'']),
      (''text-input'', [''name'', ''placeholder'', ''multiline'', ''inputType'', ''submitLabel'',
         ''maxLength'', ''input'']),
      (''table'', [''rows'', ''columns'', ''dense'', ''sortable'', ''pageSize'']),
      (''list'', [''items'', ''ordered'']),
      (''key-value'', [''items'']),
      (''line-chart'', [''data'', ''values'', ''series'', ''xKey'', ''yKey'', ''legend'', ''stacked'']),
      (''bar-chart'', [''data'', ''values'', ''series'', ''xKey'', ''yKey'', ''legend'', ''stacked'',
         ''orientation'']),
      (''area-chart'', [''data'', ''values'', ''series'', ''xKey'', ''yKey'', ''legend'', ''stacked'']),
      (''pie-chart'', [''data'', ''values'', ''series'', ''nameKey'', ''valueKey'', ''legend'']),
      (''donut-chart'', [''data'', ''values'', ''series'', ''nameKey'', ''valueKey'', ''legend'',
         ''centerLabel'']),
      (''scatter-chart'', [''data'', ''values'', ''series'', ''xKey'', ''yKey'', ''legend'']),
      (''gauge'', [''data'', ''values'', ''series'', ''min'', ''max'', ''thresholds'']),
      (''sparkline'', [''data'', ''values'', ''series'', ''xKey'', ''yKey''])]"

section \<open>Text patterns\<close>

definition name_char :: "char \<Rightarrow> bool" where
  "name_char c = (is_alnum c \<or> c \<in> set ''_.-'')"

text \<open>\<open>_NAME_RE.fullmatch\<close>.\<close>

definition name_ok :: "string \<Rightarrow> bool" where
  "name_ok s = (case s of [] \<Rightarrow> False
     | c # cs \<Rightarrow> is_alpha c \<and> list_all name_char cs \<and> length cs \<le> 63)"

text \<open>\<open>_BINDING_RE.fullmatch\<close>: source and path around the first colon; the path may not span lines.\<close>

definition binding_re :: "string \<Rightarrow> (string \<times> string) option" where
  "binding_re s =
     (let source = takeWhile (\<lambda>c. c \<noteq> CHR '':'') s; rest = dropWhile (\<lambda>c. c \<noteq> CHR '':'') s
      in case rest of
           [] \<Rightarrow> None
         | _ # path \<Rightarrow>
             if name_ok source \<and> (path = [] \<or> hd path = CHR ''/'' \<and> CHR 0x0A \<notin> set path)
             then Some (source, path) else None)"

definition segment_char :: "char \<Rightarrow> bool" where
  "segment_char c = (is_alnum c \<or> c \<in> set ''_-'')"

text \<open>The \<open>tail\<close> group: one or more \<open>.segment\<close>; its segments.\<close>

definition dotted :: "string \<Rightarrow> string list option" where
  "dotted tail =
     (case tail of
        [] \<Rightarrow> None
      | c # cs \<Rightarrow>
          (let segs = split_on CHR ''.'' cs
           in if c = CHR ''.'' \<and> list_all (\<lambda>s. s \<noteq> [] \<and> list_all segment_char s) segs
              then Some segs else None))"

text \<open>\<open>_MUSTACHE_BINDING_RE.fullmatch\<close>: the root and the segments.\<close>

definition mustache :: "string \<Rightarrow> (string \<times> string list) option" where
  "mustache s =
     (if take 2 s = ''{{'' \<and> drop (length s - 2) s = ''}}'' \<and> 4 \<le> length s
      then
        (let inner = strip (take (length s - 4) (drop 2 s))
         in if startswith inner ''data'' then map_option (\<lambda>t. (''data'', t)) (dotted (drop 4 inner))
            else if startswith inner ''state'' then map_option (\<lambda>t. (''state'', t)) (dotted (drop 5 inner))
            else None)
      else None)"

definition strip_prefix :: "string \<Rightarrow> string \<Rightarrow> string option" where
  "strip_prefix p s = (if startswith s p then Some (drop (length p) s) else None)"

text \<open>\<open>(?://)?\<close> before a character that is no slash.\<close>

definition skip_slashes :: "string \<Rightarrow> string" where
  "skip_slashes s = (if startswith s ''//'' then drop 2 s else s)"

definition artifact_ref :: "string \<Rightarrow> bool" where
  "artifact_ref s =
     (case strip_prefix ''artifact:'' s of
        None \<Rightarrow> False
      | Some r \<Rightarrow>
          (case skip_slashes r of [] \<Rightarrow> False
           | c # cs \<Rightarrow> is_alnum c \<and> list_all segment_char cs \<and> length cs \<le> 255))"

definition asset_ref :: "string \<Rightarrow> bool" where
  "asset_ref s =
     (case strip_prefix ''asset:'' s of
        None \<Rightarrow> False
      | Some r \<Rightarrow>
          (case skip_slashes r of [] \<Rightarrow> False
           | c # cs \<Rightarrow>
               is_alnum c \<and> list_all (\<lambda>x. name_char x \<or> x = CHR ''/'') cs \<and> length cs \<le> 1023 \<and>
               list_all (\<lambda>part. part \<notin> set ['''', ''.'', ''..'']) (split_on CHR ''/'' (c # cs))))"

section \<open>Links\<close>

record url_parts =
  u_scheme :: string
  u_netloc :: string
  u_username :: "string option"
  u_password :: "string option"
  u_hostname :: "string option"

definition scheme_char :: "char \<Rightarrow> bool" where
  "scheme_char c = (is_alnum c \<or> c \<in> set ''+-.'')"

text \<open>\<open>s.partition(c)\<close>; \<open>None\<close> in the second place when \<open>c\<close> does not occur.\<close>

definition cut_first :: "char \<Rightarrow> string \<Rightarrow> string \<times> string option" where
  "cut_first c s =
     (case dropWhile (\<lambda>x. x \<noteq> c) s of
        [] \<Rightarrow> (s, None) | _ # r \<Rightarrow> (takeWhile (\<lambda>x. x \<noteq> c) s, Some r))"

text \<open>\<open>s.rpartition(c)\<close>; \<open>None\<close> in the first place when \<open>c\<close> does not occur.\<close>

definition cut_last :: "char \<Rightarrow> string \<Rightarrow> string option \<times> string" where
  "cut_last c s =
     (case dropWhile (\<lambda>x. x \<noteq> c) (rev s) of
        [] \<Rightarrow> (None, s) | _ # r \<Rightarrow> (Some (rev r), rev (takeWhile (\<lambda>x. x \<noteq> c) (rev s))))"

text \<open>Text without control characters, as \<open>_validate_href\<close> passes it: only leading blanks are
  dropped. A scheme is a letter and scheme characters before the first colon.\<close>

definition url_scheme :: "string \<Rightarrow> string \<times> string" where
  "url_scheme url =
     (case cut_first CHR '':'' url of
        (_, None) \<Rightarrow> ([], url)
      | (sch, Some r) \<Rightarrow>
          if sch \<noteq> [] \<and> is_alpha (hd sch) \<and> list_all scheme_char sch then (lower sch, r) else ([], url))"

definition url_netloc :: "string \<Rightarrow> string" where
  "url_netloc rest =
     (if startswith rest ''//'' then takeWhile (\<lambda>c. c \<notin> set ''/?#'') (drop 2 rest) else [])"

text \<open>The host part is the text before the port, or inside brackets; empty reads as \<open>None\<close>.\<close>

definition url_host :: "string \<Rightarrow> string option" where
  "url_host hostinfo =
     (let host = (case cut_first CHR ''['' hostinfo of
                    (_, Some b) \<Rightarrow> fst (cut_first CHR '']'' b)
                  | (_, None) \<Rightarrow> fst (cut_first CHR '':'' hostinfo))
      in if host = [] then None else Some (lower host))"

text \<open>\<open>urlparse\<close>; \<open>None\<close> is its \<open>ValueError\<close> on unbalanced brackets or a bad IP literal in them.\<close>

definition url_parse :: "(string \<Rightarrow> bool) \<Rightarrow> string \<Rightarrow> url_parts option" where
  "url_parse bracket_ok value =
     (let (scheme, rest) = url_scheme (dropWhile (\<lambda>c. char_code c \<le> 32) value);
          netloc = url_netloc rest;
          (userinfo, hostinfo) = cut_last CHR ''@'' netloc
      in if (CHR ''['' \<in> set netloc) \<noteq> (CHR '']'' \<in> set netloc) \<or>
            CHR ''['' \<in> set netloc \<and> \<not> bracket_ok netloc
         then None
         else Some \<lparr>u_scheme = scheme, u_netloc = netloc,
           u_username = map_option (\<lambda>ui. fst (cut_first CHR '':'' ui)) userinfo,
           u_password = (case userinfo of None \<Rightarrow> None | Some ui \<Rightarrow> snd (cut_first CHR '':'' ui)),
           u_hostname = url_host hostinfo\<rparr>)"

definition bad_scheme :: "string \<Rightarrow> bool" where
  "bad_scheme value =
     (let v = lower (lstrip value)
      in startswith v ''javascript:'' \<or> startswith v ''data:'' \<or> startswith v ''file:'')"

definition LOOPBACK :: "string list" where
  "LOOPBACK = [''localhost'', ''127.0.0.1'', ''::1'']"

text \<open>The results of the \<open>_validate\<close> functions: \<open>None\<close> when they return.\<close>

definition validate_href :: "(string \<Rightarrow> bool) \<Rightarrow> string \<Rightarrow> oaui_exn option" where
  "validate_href bracket_ok value =
     (if list_ex (\<lambda>c. char_code c < 32) value \<or> CHR 0x5C \<in> set value
      then Some (Invalid ''OA-UI link is invalid'')
      else case url_parse bracket_ok value of
             None \<Rightarrow> Some UrlValueError
           | Some u \<Rightarrow>
               if bad_scheme value then Some (Invalid ''OA-UI link scheme is not allowed'')
               else if u_username u \<noteq> None \<or> u_password u \<noteq> None
               then Some (Invalid ''OA-UI links cannot contain credentials'')
               else if u_scheme u = ''https'' \<and> u_hostname u \<noteq> None then None
               else if u_scheme u = ''http'' \<and> u_hostname u \<in> Some ` set LOOPBACK then None
               else if u_scheme u = [] \<and> u_netloc u = [] \<and>
                 (startswith value ''/'' \<and> \<not> startswith value ''//'' \<or> startswith value ''#'')
               then None
               else if u_scheme u \<in> set [''http'', ''https'']
               then Some (Invalid ''OA-UI remote URLs must use https'')
               else Some (Invalid ''OA-UI links must use https, loopback http, or an app path''))"

definition validate_asset_ref :: "string \<Rightarrow> oaui_exn option" where
  "validate_asset_ref value =
     (if artifact_ref value \<or> asset_ref value then None
      else Some (Invalid ''OA-UI media src must be an artifact or bundle asset reference''))"

section \<open>Property values\<close>

definition BAD_KEYS :: "string list" where
  "BAD_KEYS = [''__proto__'', ''prototype'', ''constructor'']"

definition json_key :: "pyval \<Rightarrow> bool" where
  "json_key k = (case k of PStr s \<Rightarrow> length s \<le> 128 \<and> s \<notin> set BAD_KEYS | _ \<Rightarrow> False)"

definition too_deep :: "oaui_exn option" where
  "too_deep = Some (Invalid ''OA-UI property nesting exceeds 16 levels'')"

fun validate_json :: "nat \<Rightarrow> pyval \<Rightarrow> oaui_exn option"
  and validate_items :: "nat \<Rightarrow> pyval list \<Rightarrow> oaui_exn option"
  and validate_fields :: "nat \<Rightarrow> (pyval \<times> pyval) list \<Rightarrow> oaui_exn option" where
  "validate_json depth PNone = (if depth > 16 then too_deep else None)"
| "validate_json depth (PBool b) = (if depth > 16 then too_deep else None)"
| "validate_json depth (PInt i) = (if depth > 16 then too_deep else None)"
| "validate_json depth (PFloat f) =
     (if depth > 16 then too_deep
      else case f of Finite _ \<Rightarrow> None | _ \<Rightarrow> Some (Invalid ''OA-UI numbers must be finite''))"
| "validate_json depth (PStr s) =
     (if depth > 16 then too_deep
      else if length s > MAX_STRING_CHARS then Some (Invalid ''OA-UI strings exceed the supported size'')
      else None)"
| "validate_json depth (PBytes b) =
     (if depth > 16 then too_deep else Some (Invalid ''OA-UI values must be JSON-compatible''))"
| "validate_json depth (PList xs) =
     (if depth > 16 then too_deep
      else if length xs > 1000 then Some (Invalid ''OA-UI arrays exceed 1000 items'')
      else validate_items (Suc depth) xs)"
| "validate_json depth (PDict kvs) =
     (if depth > 16 then too_deep
      else if length kvs > 256 then Some (Invalid ''OA-UI objects exceed 256 fields'')
      else validate_fields (Suc depth) kvs)"
| "validate_items depth [] = None"
| "validate_items depth (x # xs) =
     (case validate_json depth x of Some e \<Rightarrow> Some e | None \<Rightarrow> validate_items depth xs)"
| "validate_fields depth [] = None"
| "validate_fields depth ((k, v) # kvs) =
     (if \<not> json_key k then Some (Invalid ''OA-UI object contains an invalid key'')
      else case validate_json depth v of Some e \<Rightarrow> Some e | None \<Rightarrow> validate_fields depth kvs)"

definition bind_value :: "string \<Rightarrow> string \<Rightarrow> pyval" where
  "bind_value source path =
     PDict [(PStr ''source'', PStr source), (PStr ''path'', PStr path)]"

definition mustache_pointer :: "string list \<Rightarrow> string" where
  "mustache_pointer segs = concat (map (\<lambda>s. CHR ''/'' # s) segs)"

definition binding_text :: "string \<Rightarrow> oaui_exn + pyval" where
  "binding_text value =
     (case mustache (strip value) of
        Some (src, segs) \<Rightarrow> Inr (PDict [(PStr ''$bind'', bind_value src (mustache_pointer segs))])
      | None \<Rightarrow>
          (case binding_re (strip value) of
             None \<Rightarrow> Inl (Invalid ''binding must be SOURCE:/json/pointer'')
           | Some (source, path) \<Rightarrow> Inr (PDict [(PStr ''$bind'', bind_value source path)])))"

definition path_ok :: "string \<Rightarrow> bool" where
  "path_ok path = ((path = [] \<or> startswith path ''/'') \<and> length path \<le> 2048)"

definition binding_object :: "(pyval \<times> pyval) list \<Rightarrow> oaui_exn + pyval" where
  "binding_object value =
     (case pget_or (PDict value) ''$bind'' value of
        PDict raw \<Rightarrow>
          (case pget_or PNone ''source'' raw of
             PStr source \<Rightarrow>
               if \<not> name_ok source then Inl (Invalid ''binding source is invalid'')
               else
                 (case pget_or (PStr []) ''path'' raw of
                    PStr path \<Rightarrow>
                      if \<not> path_ok path then Inl (Invalid ''binding path must be a JSON Pointer'')
                      else
                        (let result = [(PStr ''$bind'', bind_value source path)]
                         in if pget ''fallback'' value = None then Inr (PDict result)
                            else
                              (let fallback = (if pget ''$bind'' value \<noteq> None
                                               then pget_or PNone ''fallback'' value else PNone)
                               in case validate_json 0 fallback of
                                    Some e \<Rightarrow> Inl e
                                  | None \<Rightarrow> Inr (PDict (result @ [(PStr ''fallback'', fallback)]))))
                  | _ \<Rightarrow> Inl (Invalid ''binding path must be a JSON Pointer''))
           | _ \<Rightarrow> Inl (Invalid ''binding source is invalid''))
      | _ \<Rightarrow> Inl (Invalid ''binding must contain $bind''))"

definition binding :: "pyval \<Rightarrow> oaui_exn + pyval" where
  "binding value =
     (case value of
        PStr s \<Rightarrow> binding_text s
      | PDict d \<Rightarrow> binding_object d
      | _ \<Rightarrow> Inl (Invalid ''binding must be an object''))"

section \<open>Properties of nodes\<close>

record oaui_lib =
  o_rep :: "pyval \<Rightarrow> string"
  o_bracket_ok :: "string \<Rightarrow> bool"
  o_json_size :: "pyval \<Rightarrow> nat option"
  o_json_loads :: "string \<Rightarrow> pyval option"

definition allowed_props :: "string \<Rightarrow> string list" where
  "allowed_props component =
     COMMON_PROPS @ (case map_of COMPONENT_PROPS component of None \<Rightarrow> [] | Some ps \<Rightarrow> ps)"

text \<open>\<open>isinstance(value, Mapping) and "$bind" in value\<close>, and the shorthand for it in text.\<close>

definition is_bind :: "pyval \<Rightarrow> bool" where
  "is_bind v = (case v of PDict d \<Rightarrow> pget ''$bind'' d \<noteq> None | _ \<Rightarrow> False)"

definition is_mustache :: "pyval \<Rightarrow> bool" where
  "is_mustache v = (case v of PStr s \<Rightarrow> mustache (strip s) \<noteq> None | _ \<Rightarrow> False)"

definition as_text :: "pyval \<Rightarrow> string option" where
  "as_text v = (case v of PStr s \<Rightarrow> Some s | _ \<Rightarrow> None)"

text \<open>\<open>isinstance(value, int) and not isinstance(value, bool)\<close>.\<close>

definition as_int :: "pyval \<Rightarrow> int option" where
  "as_int v = (case v of PInt n \<Rightarrow> Some n | _ \<Rightarrow> None)"

definition is_bool :: "pyval \<Rightarrow> bool" where
  "is_bool v = (case v of PBool _ \<Rightarrow> True | _ \<Rightarrow> False)"

text \<open>\<open>value not in {...}\<close> for a set of texts: a list or a mapping has no hash and raises.\<close>

definition text_choice :: "string list \<Rightarrow> string \<Rightarrow> pyval \<Rightarrow> oaui_exn option" where
  "text_choice options message v =
     (case v of
        PStr s \<Rightarrow> if s \<in> set options then None else Some (Invalid message)
      | PList _ \<Rightarrow> Some UnhashableTypeError
      | PDict _ \<Rightarrow> Some UnhashableTypeError
      | _ \<Rightarrow> Some (Invalid message))"

definition INPUT_TYPES :: "string list" where
  "INPUT_TYPES = [''text'', ''number'', ''email'', ''url'', ''search'']"

text \<open>The checks of a literal value after \<open>_validate_json\<close>, in order; the first that fails raises.\<close>

definition literal_checks :: "oaui_lib \<Rightarrow> string \<Rightarrow> string \<Rightarrow> pyval \<Rightarrow> oaui_exn option list" where
  "literal_checks L component name v =
     [if name = ''href'' then
        (case as_text v of
           None \<Rightarrow> None
         | Some s \<Rightarrow> if component = ''file-link'' then validate_asset_ref s
                     else validate_href (o_bracket_ok L) s)
      else None,
      if name \<in> set [''src'', ''assetId'', ''fileId''] then
        (case as_text v of None \<Rightarrow> None | Some s \<Rightarrow> validate_asset_ref s)
      else None,
      if name = ''action'' \<and> \<not> (\<exists>s \<in> set_option (as_text v). name_ok s)
      then Some (Invalid ''action references must use a safe identifier'') else None,
      if name = ''target'' then text_choice [''_self'', ''_blank''] ''link target is not supported'' v
      else None,
      if component = ''text-input'' \<and> name = ''inputType''
      then text_choice INPUT_TYPES ''text-input inputType is not supported'' v else None,
      if component = ''text-input'' \<and> name = ''multiline'' \<and> \<not> is_bool v
      then Some (Invalid ''text-input multiline must be boolean'') else None,
      if component = ''text-input'' \<and> name = ''maxLength'' \<and>
        \<not> (\<exists>n \<in> set_option (as_int v). 1 \<le> n \<and> n \<le> 1000000)
      then Some (Invalid ''text-input maxLength must be a positive integer'') else None,
      if component = ''sub-view'' \<and> name = ''revision'' \<and> \<not> (\<exists>n \<in> set_option (as_int v). 1 \<le> n)
      then Some (Invalid ''sub-view revision must be a positive integer'') else None,
      if component = ''sub-view'' \<and> name = ''viewId'' \<and> \<not> (\<exists>s \<in> set_option (as_text v). name_ok s)
      then Some (Invalid ''sub-view viewId is invalid'') else None]"

definition first_error :: "'e option list \<Rightarrow> 'e option" where
  "first_error es = (case filter (\<lambda>e. e \<noteq> None) es of [] \<Rightarrow> None | e # _ \<Rightarrow> e)"

definition validate_prop :: "oaui_lib \<Rightarrow> string \<Rightarrow> string \<Rightarrow> pyval \<Rightarrow> oaui_exn + pyval" where
  "validate_prop L component name value =
     (if name \<notin> set (allowed_props component) then Inl (UnsupportedProp name component)
      else if name \<in> set [''action'', ''target''] \<and> (is_bind value \<or> is_mustache value)
      then Inl (NotBindable name)
      else if is_bind value \<or> is_mustache value then binding value
      else case validate_json 0 value of
             Some e \<Rightarrow> Inl e
           | None \<Rightarrow>
               (case first_error (literal_checks L component name value) of
                  Some e \<Rightarrow> Inl e | None \<Rightarrow> Inr value))"

section \<open>Nodes\<close>

text \<open>The running count of nodes and the ids seen so far.\<close>

type_synonym walk = "nat \<times> string list"

definition only_keys :: "string list \<Rightarrow> (pyval \<times> pyval) list \<Rightarrow> bool" where
  "only_keys ks d = list_all (\<lambda>(k, v). k \<in> PStr ` set ks) d"

text \<open>The id of a node, and the ids seen with it.\<close>

definition node_id :: "(pyval \<times> pyval) list \<Rightarrow> string list \<Rightarrow> oaui_exn + string option \<times> string list" where
  "node_id raw seen =
     (case pget_or PNone ''id'' raw of
        PNone \<Rightarrow> Inr (None, seen)
      | PStr s \<Rightarrow>
          if \<not> name_ok s then Inl (Invalid ''OA-UI node id is invalid'')
          else if s \<in> set seen then Inl (Invalid ''OA-UI node ids must be unique'')
          else Inr (Some s, s # seen)
      | _ \<Rightarrow> Inl (Invalid ''OA-UI node id is invalid''))"

text \<open>\<open>{str(key): _validate_prop(component, str(key), value) for ...}\<close>.\<close>

fun validate_props ::
  "oaui_lib \<Rightarrow> string \<Rightarrow> (pyval \<times> pyval) list \<Rightarrow> (pyval \<times> pyval) list
     \<Rightarrow> oaui_exn + (pyval \<times> pyval) list" where
  "validate_props L component [] acc = Inr acc"
| "validate_props L component ((k, v) # kvs) acc =
     bind_r (validate_prop L component (py_str (o_rep L) k) v)
       (\<lambda>v'. validate_props L component kvs (dict_set (PStr (py_str (o_rep L) k)) v' acc))"

definition node_props ::
  "oaui_lib \<Rightarrow> string \<Rightarrow> (pyval \<times> pyval) list
     \<Rightarrow> oaui_exn + (pyval \<times> pyval) list \<times> (pyval \<times> pyval) list" where
  "node_props L component raw =
     (case pget_or (PDict []) ''props'' raw of
        PDict props \<Rightarrow>
          if length props > MAX_PROPS then Inl (Invalid ''OA-UI node props exceed 64 fields'')
          else bind_r (validate_props L component props []) (\<lambda>out. Inr (props, out))
      | _ \<Rightarrow> Inl (Invalid ''OA-UI node props exceed 64 fields''))"

definition subview_error ::
  "(pyval \<times> pyval) list \<Rightarrow> pyval list \<Rightarrow> oaui_exn option" where
  "subview_error props children =
     (let referenced = (as_text (pget_or PNone ''viewId'' props) \<noteq> None)
      in if referenced \<and> pget ''revision'' props = None
         then Some (Invalid ''referenced sub-view requires an immutable revision'')
         else if \<not> referenced \<and> pget ''revision'' props \<noteq> None
         then Some (Invalid ''sub-view revision requires viewId'')
         else if referenced \<and> children \<noteq> []
         then Some (Invalid ''sub-view must use either viewId or child components'')
         else if \<not> referenced \<and> children = []
         then Some (Invalid ''sub-view requires viewId or child components'')
         else None)"

definition as_dict :: "pyval \<Rightarrow> (pyval \<times> pyval) list option" where
  "as_dict v = (case v of PDict d \<Rightarrow> Some d | _ \<Rightarrow> None)"

text \<open>\<open>map\<close> of a partial function, all or nothing.\<close>

fun map_opt :: "('a \<Rightarrow> 'b option) \<Rightarrow> 'a list \<Rightarrow> 'b list option" where
  "map_opt f [] = Some []"
| "map_opt f (x # xs) =
     (case f x of None \<Rightarrow> None
      | Some y \<Rightarrow> (case map_opt f xs of None \<Rightarrow> None | Some ys \<Rightarrow> Some (y # ys)))"

definition node_children ::
  "string \<Rightarrow> (pyval \<times> pyval) list \<Rightarrow> (pyval \<times> pyval) list \<Rightarrow> oaui_exn + (pyval \<times> pyval) list list" where
  "node_children component props raw =
     (case pget_or (PList []) ''children'' raw of
        PList children \<Rightarrow>
          if length children > MAX_CHILDREN then Inl (Invalid ''OA-UI node children exceed 100'')
          else if children \<noteq> [] \<and> component \<notin> set CONTAINER_COMPONENTS
          then Inl (NoChildrenAllowed component)
          else
            (case (if component = ''sub-view'' then subview_error props children else None) of
               Some e \<Rightarrow> Inl e
             | None \<Rightarrow> of_opt (Invalid ''OA-UI children must be nodes'') (map_opt as_dict children))
      | _ \<Rightarrow> Inl (Invalid ''OA-UI node children exceed 100''))"

definition node_output ::
  "string \<Rightarrow> string option \<Rightarrow> (pyval \<times> pyval) list \<Rightarrow> pyval list \<Rightarrow> pyval" where
  "node_output component nid props children =
     PDict ([(PStr ''type'', PStr component)] @
       (case nid of None \<Rightarrow> [] | Some s \<Rightarrow> [(PStr ''id'', PStr s)]) @
       (if props = [] then [] else [(PStr ''props'', PDict props)]) @
       (if children = [] then [] else [(PStr ''children'', PList children)]))"

record node_head =
  h_component :: string
  h_id :: "string option"
  h_props :: "(pyval \<times> pyval) list"
  h_kids :: "(pyval \<times> pyval) list list"
  h_walk :: walk

text \<open>\<open>visit\<close> up to its recursive calls.\<close>

definition visit_head ::
  "oaui_lib \<Rightarrow> (pyval \<times> pyval) list \<Rightarrow> nat \<Rightarrow> walk \<Rightarrow> oaui_exn + node_head" where
  "visit_head L raw depth w =
     (let count = fst w + 1
      in if count > MAX_NODES then Inl (Invalid ''OA-UI exceeds 512 nodes'')
         else if depth > MAX_DEPTH then Inl (Invalid ''OA-UI exceeds depth 32'')
         else if \<not> only_keys [''type'', ''id'', ''props'', ''children''] raw
         then Inl (Invalid ''OA-UI node contains unsupported fields'')
         else
           (case as_text (pget_or PNone ''type'' raw) of
              None \<Rightarrow> Inl (Invalid ''OA-UI node type is not supported'')
            | Some component \<Rightarrow>
                if component \<notin> set COMPONENTS then Inl (Invalid ''OA-UI node type is not supported'')
                else
                  bind_r (node_id raw (snd w)) (\<lambda>(nid, seen).
                  bind_r (node_props L component raw) (\<lambda>(props, out).
                  bind_r (node_children component props raw) (\<lambda>kids.
                  Inr \<lparr>h_component = component, h_id = nid, h_props = out, h_kids = kids,
                       h_walk = (count, seen)\<rparr>)))))"

lemma as_dict_Some [simp]: "as_dict v = Some d \<longleftrightarrow> v = PDict d"
  by (cases v) (auto simp: as_dict_def)

lemma as_text_Some [simp]: "as_text v = Some s \<longleftrightarrow> v = PStr s"
  by (cases v) (auto simp: as_text_def)

lemma as_dict_PDict [simp]: "as_dict (PDict d) = Some d"
  by simp

lemma map_opt_Some: "map_opt f xs = Some ys \<longleftrightarrow> map f xs = map Some ys"
proof (induction xs arbitrary: ys)
  case (Cons x xs)
  show ?case
    using Cons.IH [of "tl ys"] by (cases ys; cases "f x"; cases "map_opt f xs") auto
qed auto

lemma map_opt_as_dict: "map_opt as_dict xs = Some ds \<longleftrightarrow> xs = map PDict ds"
  unfolding map_opt_Some
proof (induction xs arbitrary: ds)
  case (Cons x xs)
  then show ?case by (cases ds) auto
qed auto

lemma node_children_Inr:
  "node_children component props raw = Inr kids \<Longrightarrow>
     pget_or (PList []) ''children'' raw = PList (map PDict kids)"
  by (auto simp: node_children_def of_opt_Inr_iff map_opt_as_dict split: pyval.splits if_splits option.splits)

lemma pget_size: "pget k d = Some v \<Longrightarrow> size v < size (PDict d)"
proof -
  assume "pget k d = Some v"
  then have "(PStr k, v) \<in> set d" by (simp add: pget_def map_of_SomeD)
  then show ?thesis
  proof (induction d)
    case (Cons p d)
    then show ?case by (cases p) auto
  qed simp
qed

lemma visit_head_children:
  assumes "visit_head L raw depth w = Inr h"
  shows "pget_or (PList []) ''children'' raw = PList (map PDict (h_kids h))"
proof -
  obtain component props where "node_children component props raw = Inr (h_kids h)"
    using assms
    by (auto simp: visit_head_def Let_def bind_r_Inr_iff split: if_splits option.splits)
  then show ?thesis by (rule node_children_Inr)
qed

lemma kids_size:
  assumes "visit_head L raw depth w = Inr h"
  shows "size_list (\<lambda>d. size (PDict d)) (h_kids h) < size (PDict raw)"
proof -
  have "size_list size (map PDict ds) = size_list (\<lambda>d. size (PDict d)) ds" for ds
    by (induction ds) auto
  then have eq: "size (PList (map PDict ds)) = Suc (size_list (\<lambda>d. size (PDict d)) ds)" for ds
    by simp
  have c: "pget_or (PList []) ''children'' raw = PList (map PDict (h_kids h))"
    using assms by (rule visit_head_children)
  show ?thesis
  proof (cases "pget ''children'' raw")
    case None
    then show ?thesis using c by (simp add: pget_or_def)
  next
    case (Some v)
    then have "v = PList (map PDict (h_kids h))" using c by (simp add: pget_or_def)
    with pget_size [OF Some] have "size (PList (map PDict (h_kids h))) < size (PDict raw)" by simp
    then show ?thesis unfolding eq by linarith
  qed
qed

lemma bind_r_cong [fundef_cong]:
  "r = r' \<Longrightarrow> (\<And>x. r' = Inr x \<Longrightarrow> f x = f' x) \<Longrightarrow> bind_r r f = bind_r r' f'"
  by (cases r') simp_all

function visit :: "oaui_lib \<Rightarrow> (pyval \<times> pyval) list \<Rightarrow> nat \<Rightarrow> walk \<Rightarrow> oaui_exn + pyval \<times> walk"
  and visit_kids ::
    "oaui_lib \<Rightarrow> (pyval \<times> pyval) list list \<Rightarrow> nat \<Rightarrow> walk \<Rightarrow> oaui_exn + pyval list \<times> walk" where
  "visit L raw depth w =
     bind_r (visit_head L raw depth w) (\<lambda>h.
     bind_r (visit_kids L (h_kids h) (depth + 1) (h_walk h)) (\<lambda>r.
     Inr (node_output (h_component h) (h_id h) (h_props h) (fst r), snd r)))"
| "visit_kids L [] depth w = Inr ([], w)"
| "visit_kids L (d # ds) depth w =
     bind_r (visit L d depth w) (\<lambda>r.
     bind_r (visit_kids L ds depth (snd r)) (\<lambda>rs.
     Inr (fst r # fst rs, snd rs)))"
  by pat_completeness auto
termination
  by (relation "measure (\<lambda>x. case x of Inl (L, raw, _) \<Rightarrow> size (PDict raw)
      | Inr (L, ds, _) \<Rightarrow> size_list (\<lambda>d. size (PDict d)) ds)")
    (auto dest: kids_size)

declare visit.simps [simp del]

section \<open>Specifications\<close>

definition SCHEMA_VERSION :: int where "SCHEMA_VERSION = 1"

fun visit_states ::
  "oaui_lib \<Rightarrow> (pyval \<times> pyval) list \<Rightarrow> walk \<Rightarrow> (pyval \<times> pyval) list
     \<Rightarrow> oaui_exn + (pyval \<times> pyval) list" where
  "visit_states L [] w acc = Inr acc"
| "visit_states L ((k, v) # kvs) w acc =
     bind_r (of_opt (Invalid ''OA-UI state entries must be nodes'') (as_dict v)) (\<lambda>d.
     bind_r (visit L d 1 w) (\<lambda>r.
     visit_states L kvs (snd r) (dict_set (PStr (py_str (o_rep L) k)) (fst r) acc)))"

text \<open>\<open>spec.get("states")\<close> checked and visited; \<open>None\<close> when there are none.\<close>

definition spec_states ::
  "oaui_lib \<Rightarrow> (pyval \<times> pyval) list \<Rightarrow> walk \<Rightarrow> oaui_exn + pyval option" where
  "spec_states L spec w =
     (case pget_or PNone ''states'' spec of
        PNone \<Rightarrow> Inr None
      | PDict states \<Rightarrow>
          if \<not> only_keys [''loading'', ''empty'', ''stale'', ''error''] states
          then Inl (Invalid ''OA-UI states may contain loading, empty, stale, and error'')
          else if list_ex (\<lambda>(k, v). as_dict v = None) states
          then Inl (Invalid ''OA-UI state entries must be nodes'')
          else bind_r (visit_states L states w []) (\<lambda>out. Inr (Some (PDict out)))
      | _ \<Rightarrow> Inl (Invalid ''OA-UI states may contain loading, empty, stale, and error''))"

definition spec_output :: "pyval \<Rightarrow> pyval option \<Rightarrow> pyval" where
  "spec_output r states =
     PDict ([(PStr ''schemaVersion'', PInt SCHEMA_VERSION), (PStr ''root'', r)] @
       (case states of None \<Rightarrow> [] | Some s \<Rightarrow> [(PStr ''states'', s)]))"

definition sized :: "oaui_lib \<Rightarrow> pyval \<Rightarrow> oaui_exn + pyval" where
  "sized L out =
     (case o_json_size L out of
        None \<Rightarrow> Inl (Invalid ''OA-UI values must be finite JSON'')
      | Some n \<Rightarrow>
          if n > MAX_SPEC_BYTES then Inl (Invalid ''compiled OA-UI exceeds the supported size'')
          else Inr out)"

definition validate_spec :: "oaui_lib \<Rightarrow> pyval \<Rightarrow> oaui_exn + pyval" where
  "validate_spec L spec =
     (case spec of
        PDict d \<Rightarrow>
          if \<not> only_keys [''schemaVersion'', ''root'', ''states''] d
          then Inl (Invalid ''OA-UI spec contains unsupported top-level fields'')
          else if \<not> eq_int (pget_or (PInt SCHEMA_VERSION) ''schemaVersion'' d) SCHEMA_VERSION
          then Inl (Invalid ''unsupported OA-UI schemaVersion'')
          else
            bind_r (of_opt (Invalid ''OA-UI spec requires a root node'')
                (as_dict (pget_or PNone ''root'' d))) (\<lambda>r.
            bind_r (visit L r 1 (0, [])) (\<lambda>(out, w).
            bind_r (spec_states L d w) (\<lambda>states. sized L (spec_output out states))))
      | _ \<Rightarrow> Inl (Invalid ''OA-UI spec must be an object''))"

section \<open>Markup\<close>

text \<open>An element as the XML parser returns it: tag, attributes, text, children, and the text that
  follows it.\<close>

datatype element =
  Element (e_tag: string) (e_attrib: "(string \<times> string) list") (e_text: string)
    (e_children: "element list") (e_tail: string)

definition digit_value :: "char \<Rightarrow> int" where
  "digit_value c = int (char_code c) - 48"

definition digits_value :: "string \<Rightarrow> int" where
  "digits_value s = foldl (\<lambda>acc c. acc * 10 + digit_value c) 0 s"

text \<open>\<open>0|[1-9][0-9]*\<close>. Python refuses to convert more than 4300 digits.\<close>

definition plain_int :: "string \<Rightarrow> bool" where
  "plain_int s = (s = ''0'' \<or> s \<noteq> [] \<and> hd s \<noteq> CHR ''0'' \<and> list_all is_digit s)"

definition split_sign :: "string \<Rightarrow> bool \<times> string" where
  "split_sign s = (case s of c # cs \<Rightarrow> if c = CHR ''-'' then (True, cs) else (False, s) | [] \<Rightarrow> (False, s))"

definition int_literal :: "string \<Rightarrow> int option" where
  "int_literal raw =
     (case split_sign raw of (neg, ds) \<Rightarrow>
        if plain_int ds \<and> length ds \<le> 4300 then Some (if neg then - digits_value ds else digits_value ds) else None)"

text \<open>\<open>float(raw)\<close>: the decimal value, with the overflow of a double.\<close>

definition to_float :: "real \<Rightarrow> pyfloat" where
  "to_float r =
     (if r \<ge> 2 ^ 1024 - 2 ^ 970 then PosInf else if r \<le> - (2 ^ 1024 - 2 ^ 970) then NegInf else Finite r)"

definition float_literal :: "string \<Rightarrow> pyfloat option" where
  "float_literal raw =
     (case split_sign raw of (neg, ds) \<Rightarrow>
        (case cut_first CHR ''.'' ds of
           (_, None) \<Rightarrow> None
         | (whole, Some decimals) \<Rightarrow>
             if plain_int whole \<and> decimals \<noteq> [] \<and> list_all is_digit decimals
             then (let r = real_of_int (digits_value whole) +
                         real_of_int (digits_value decimals) / 10 ^ length decimals
                   in Some (to_float (if neg then - r else r)))
             else None))"

text \<open>
  \<open>_parse_literal\<close>. The code catches the \<open>JSONDecodeError\<close> of \<open>json.loads\<close>, which is the answer
  \<open>None\<close> of \<open>o_json_loads\<close>. The other exceptions it can end with on such a text (the \<open>RecursionError\<close>
  of a very deep one, the \<open>ValueError\<close> of an integer of more digits than Python converts) leave the
  compiler as they are, and are outside the model.
\<close>

definition parse_literal :: "oaui_lib \<Rightarrow> string \<Rightarrow> pyval" where
  "parse_literal L value =
     (let raw = strip value
      in if raw = ''true'' then PBool True
         else if raw = ''false'' then PBool False
         else if raw = ''null'' then PNone
         else
           (case (if raw \<noteq> [] \<and> hd raw \<in> set [CHR ''{'', CHR ''['', CHR 0x22] then o_json_loads L raw else None) of
              Some v \<Rightarrow> v
            | None \<Rightarrow>
                (case int_literal raw of
                   Some n \<Rightarrow> PInt n
                 | None \<Rightarrow> (case float_literal raw of Some f \<Rightarrow> PFloat f | None \<Rightarrow> PStr value))))"

definition endswith :: "string \<Rightarrow> string \<Rightarrow> bool" where
  "endswith s t = (length t \<le> length s \<and> drop (length s - length t) s = t)"

text \<open>One attribute: the id of the node and its properties so far.\<close>

fun convert_attribs ::
  "oaui_lib \<Rightarrow> (string \<times> string) list \<Rightarrow> string option \<times> (pyval \<times> pyval) list
     \<Rightarrow> oaui_exn + string option \<times> (pyval \<times> pyval) list" where
  "convert_attribs L [] acc = Inr acc"
| "convert_attribs L ((name, value) # rest) (nid, props) =
     (if name = ''id'' then convert_attribs L rest (Some value, props)
      else if endswith name ''.bind''
      then bind_r (binding (PStr value)) (\<lambda>b.
             convert_attribs L rest (nid, dict_set (PStr (take (length name - 5) name)) b props))
      else convert_attribs L rest (nid, dict_set (PStr name) (parse_literal L value) props))"

definition TEXT_COMPONENTS :: "string list" where
  "TEXT_COMPONENTS = [''heading'', ''text'', ''markdown'', ''code'', ''badge'', ''button'']"

definition convert_text ::
  "string \<Rightarrow> string \<Rightarrow> (pyval \<times> pyval) list \<Rightarrow> oaui_exn + (pyval \<times> pyval) list" where
  "convert_text tag content props =
     (let content' = strip content; target = (if tag = ''button'' then ''label'' else ''text'')
      in if content' = [] then Inr props
         else if tag \<notin> set TEXT_COMPONENTS
         then Inl (Invalid ''text content is only allowed in text components'')
         else if pget target props \<noteq> None then Inl (Invalid ''text cannot be provided twice'')
         else Inr (dict_set (PStr target) (PStr content') props))"

fun convert :: "oaui_lib \<Rightarrow> element \<Rightarrow> oaui_exn + pyval"
  and convert_all :: "oaui_lib \<Rightarrow> element list \<Rightarrow> oaui_exn + pyval list" where
  "convert L (Element tag attrib content children tail) =
     (if tag \<notin> set COMPONENTS then Inl (Invalid ''OA-UI markup contains an unsupported component'')
      else
        bind_r (convert_attribs L attrib (None, [])) (\<lambda>(nid, props0).
        bind_r (convert_text tag content props0) (\<lambda>props.
        bind_r (convert_all L children) (\<lambda>kids.
        if list_ex (\<lambda>c. strip (e_tail c) \<noteq> []) children
        then Inl (Invalid ''mixed OA-UI text and child content is not supported'')
        else Inr (node_output tag nid props kids)))))"
| "convert_all L [] = Inr []"
| "convert_all L (c # cs) =
     bind_r (convert L c) (\<lambda>x. bind_r (convert_all L cs) (\<lambda>xs. Inr (x # xs)))"

definition utf8_length :: "string \<Rightarrow> nat" where
  "utf8_length s = length s + length (filter (\<lambda>c. char_code c \<ge> 128) s)"

fun contains :: "string \<Rightarrow> string \<Rightarrow> bool" where
  "contains [] t = (t = [])"
| "contains (c # cs) t = (startswith (c # cs) t \<or> contains cs t)"

text \<open>The ASCII letters of the two tokens are folded alike by \<open>casefold\<close> and \<open>lower\<close>.\<close>

definition parse_markup :: "oaui_lib \<Rightarrow> (string \<Rightarrow> element option) \<Rightarrow> string \<Rightarrow> oaui_exn + pyval" where
  "parse_markup L fromstring markup =
     (if strip markup = [] then Inl (Invalid ''OA-UI markup must not be empty'')
      else if utf8_length markup > MAX_SOURCE_BYTES
      then Inl (Invalid ''OA-UI markup exceeds the supported size'')
      else if contains (lower markup) ''<!doctype'' \<or> contains (lower markup) ''<!entity''
      then Inl (Invalid ''OA-UI declarations and entities are not allowed'')
      else
        bind_r (of_opt (Invalid ''OA-UI markup is not well formed'') (fromstring markup)) (\<lambda>e.
        bind_r (convert L e) (\<lambda>r.
        validate_spec L (PDict [(PStr ''schemaVersion'', PInt SCHEMA_VERSION), (PStr ''root'', r)]))))"

definition compile_oaui ::
  "oaui_lib \<Rightarrow> (string \<Rightarrow> element option) \<Rightarrow> string option \<Rightarrow> pyval option \<Rightarrow> oaui_exn + pyval" where
  "compile_oaui L fromstring markup spec =
     (case (markup, spec) of
        (Some m, None) \<Rightarrow> parse_markup L fromstring m
      | (None, Some s) \<Rightarrow> validate_spec L (if truthy s then s else PDict [])
      | _ \<Rightarrow> Inl (Invalid ''provide exactly one of markup or spec''))"

section \<open>What an accepted property value looks like\<close>

text \<open>A link that no renderer can turn into script or credentials.\<close>

definition safe_link :: "(string \<Rightarrow> bool) \<Rightarrow> string \<Rightarrow> bool" where
  "safe_link bracket_ok s \<longleftrightarrow>
     \<not> bad_scheme s \<and> CHR 0x5C \<notin> set s \<and> (\<forall>c\<in>set s. 32 \<le> char_code c) \<and>
     (\<exists>u. url_parse bracket_ok s = Some u \<and> u_username u = None \<and> u_password u = None \<and>
        (u_scheme u = ''https'' \<and> u_hostname u \<noteq> None \<or>
         u_scheme u = ''http'' \<and> (\<exists>h\<in>set LOOPBACK. u_hostname u = Some h) \<or>
         u_scheme u = [] \<and> u_netloc u = [] \<and> s \<noteq> [] \<and> hd s \<in> {CHR ''/'', CHR ''#''} \<and> take 2 s \<noteq> ''//''))"

definition is_binding :: "pyval \<Rightarrow> bool" where
  "is_binding v \<longleftrightarrow>
     (\<exists>source path rest. v = PDict ((PStr ''$bind'', bind_value source path) # rest) \<and> name_ok source \<and>
        (path = [] \<or> hd path = CHR ''/'') \<and>
        (rest = [] \<or> (\<exists>f. rest = [(PStr ''fallback'', f)] \<and> validate_json 0 f = None)))"

definition safe_prop :: "oaui_lib \<Rightarrow> string \<Rightarrow> string \<Rightarrow> pyval \<Rightarrow> bool" where
  "safe_prop L component name v \<longleftrightarrow>
     name \<in> set (allowed_props component) \<and>
     (is_binding v \<and> name \<notin> {''action'', ''target''} \<or>
      validate_json 0 v = None \<and>
      (\<forall>s. v = PStr s \<longrightarrow>
         (name = ''href'' \<and> component \<noteq> ''file-link'' \<longrightarrow> safe_link (o_bracket_ok L) s) \<and>
         (name = ''href'' \<and> component = ''file-link'' \<or> name \<in> {''src'', ''assetId'', ''fileId''} \<longrightarrow>
            artifact_ref s \<or> asset_ref s)) \<and>
      (name = ''action'' \<longrightarrow> (\<exists>s. v = PStr s \<and> name_ok s)) \<and>
      (name = ''target'' \<longrightarrow> v \<in> {PStr ''_self'', PStr ''_blank''}))"

lemma first_error_None [simp]: "first_error es = None \<longleftrightarrow> (\<forall>e\<in>set es. e = None)"
  by (induction es) (auto simp: first_error_def split: list.splits)

lemma validate_href_safe: "validate_href b s = None \<Longrightarrow> safe_link b s"
  unfolding validate_href_def safe_link_def
  by (cases s)
    (auto simp: list_ex_iff startswith_def not_less image_iff split: option.splits if_splits)

lemma mustache_shape:
  assumes "mustache s = Some (src, segs)"
  shows "src \<in> {''data'', ''state''} \<and> segs \<noteq> [] \<and> name_ok src"
proof -
  have ne: "split_on c xs \<noteq> []" for c xs by (induction xs) (auto split: list.splits)
  have "segs \<noteq> []" if "dotted t = Some segs" for t
    using that ne by (auto simp: dotted_def Let_def split: list.splits if_splits)
  moreover have "name_ok ''data''" "name_ok ''state''"
    by (simp_all add: name_ok_def is_alpha_def name_char_def is_alnum_def char_code_def)
  ultimately show ?thesis
    using assms by (auto simp: mustache_def Let_def split: if_splits)
qed

lemma is_bindingI:
  "name_ok source \<Longrightarrow> path = [] \<or> hd path = CHR ''/'' \<Longrightarrow>
     rest = [] \<or> (\<exists>f. rest = [(PStr ''fallback'', f)] \<and> validate_json 0 f = None) \<Longrightarrow>
     is_binding (PDict ((PStr ''$bind'', bind_value source path) # rest))"
  unfolding is_binding_def by blast

lemma hd_mustache_pointer: "segs \<noteq> [] \<Longrightarrow> hd (mustache_pointer segs) = CHR ''/''"
  by (cases segs) (simp_all add: mustache_pointer_def)

lemma binding_text_binding: "binding_text s = Inr v \<Longrightarrow> is_binding v"
  unfolding binding_text_def
  by (auto simp: binding_re_def Let_def hd_mustache_pointer intro!: is_bindingI
      dest!: mustache_shape split: option.splits list.splits if_splits)

lemma binding_object_cases:
  assumes "binding_object d = Inr v"
  obtains source path where "name_ok source" "path_ok path"
    "pget ''fallback'' d = None" "v = PDict [(PStr ''$bind'', bind_value source path)]"
  | source path f where "name_ok source" "path_ok path" "validate_json 0 f = None"
    "v = PDict [(PStr ''$bind'', bind_value source path), (PStr ''fallback'', f)]"
  using assms
  by (auto simp: binding_object_def Let_def split: pyval.splits if_splits option.splits)

lemma path_ok_hd: "path_ok path \<Longrightarrow> path = [] \<or> hd path = CHR ''/''"
  by (cases path) (auto simp: path_ok_def startswith_def)

lemma binding_object_binding: "binding_object d = Inr v \<Longrightarrow> is_binding v"
  by (erule binding_object_cases) (auto intro!: is_bindingI dest: path_ok_hd)

lemma binding_binding: "binding v = Inr v' \<Longrightarrow> is_binding v'"
  by (auto simp: binding_def binding_text_binding binding_object_binding split: pyval.splits)

text \<open>A binding object is compiled to a form that compiles to itself.\<close>

lemma binding_object_fixed: "binding_object d = Inr v \<Longrightarrow> is_bind v \<and> binding v = Inr v"
  by (erule binding_object_cases)
    (simp_all add: is_bind_def binding_def binding_object_def pget_or_def bind_value_def)

lemma literal_checks_safe:
  assumes "first_error (literal_checks L component name v) = None"
  shows "name = ''href'' \<Longrightarrow> component \<noteq> ''file-link'' \<Longrightarrow> v = PStr s \<Longrightarrow> safe_link (o_bracket_ok L) s"
    and "name = ''href'' \<and> component = ''file-link'' \<or> name \<in> {''src'', ''assetId'', ''fileId''} \<Longrightarrow>
      v = PStr s \<Longrightarrow> artifact_ref s \<or> asset_ref s"
    and "name = ''action'' \<Longrightarrow> \<exists>s. v = PStr s \<and> name_ok s"
    and "name = ''target'' \<Longrightarrow> v \<in> {PStr ''_self'', PStr ''_blank''}"
proof -
  have T: "as_text (PStr t) = Some t" for t by simp
  show "name = ''href'' \<Longrightarrow> component \<noteq> ''file-link'' \<Longrightarrow> v = PStr s \<Longrightarrow> safe_link (o_bracket_ok L) s"
    using assms by (simp add: literal_checks_def T validate_href_safe)
  show "name = ''href'' \<and> component = ''file-link'' \<or> name \<in> {''src'', ''assetId'', ''fileId''} \<Longrightarrow>
      v = PStr s \<Longrightarrow> artifact_ref s \<or> asset_ref s"
    using assms by (auto simp: literal_checks_def T validate_asset_ref_def split: if_splits)
  show "name = ''action'' \<Longrightarrow> \<exists>s. v = PStr s \<and> name_ok s"
    using assms by (auto simp: literal_checks_def split: if_splits)
  show "name = ''target'' \<Longrightarrow> v \<in> {PStr ''_self'', PStr ''_blank''}"
    using assms by (auto simp: literal_checks_def text_choice_def split: if_splits pyval.splits)
qed

lemma validate_prop_safe:
  assumes "validate_prop L component name v = Inr v'"
  shows "safe_prop L component name v'"
proof (cases "is_bind v \<or> is_mustache v")
  case True
  with assms show ?thesis
    by (auto simp: validate_prop_def safe_prop_def binding_binding split: if_splits)
next
  case False
  with assms have "name \<in> set (allowed_props component)" "validate_json 0 v = None" "v' = v"
    "first_error (literal_checks L component name v) = None"
    by (auto simp: validate_prop_def split: if_splits option.splits simp del: first_error_None)
  then show ?thesis
    using literal_checks_safe [of L component name v] by (auto simp: safe_prop_def)
qed

lemma validate_prop_fixed:
  assumes "validate_prop L component name v = Inr v'" and "\<not> is_mustache v"
  shows "validate_prop L component name v' = Inr v'"
proof (cases "is_bind v")
  case True
  then obtain d where d: "v = PDict d" by (auto simp: is_bind_def split: pyval.splits)
  from True assms have p: "name \<in> set (allowed_props component)" "name \<notin> set [''action'', ''target'']"
    "binding_object d = Inr v'"
    by (auto simp: validate_prop_def binding_def d split: if_splits)
  from binding_object_fixed [OF p(3)] p(1,2) show ?thesis by (simp add: validate_prop_def)
next
  case False
  with assms have "v' = v" by (auto simp: validate_prop_def split: if_splits option.splits)
  with assms(1) show ?thesis by simp
qed

section \<open>Trees\<close>

text \<open>
  The trees the compiler produces: nesting, sizes, components and ids, with \<open>n\<close> nodes and the ids in
  \<open>ids\<close>. \<open>P\<close> is what is required of a node's component and properties and of its having children.
\<close>

inductive oaui_node ::
    "(string \<Rightarrow> (pyval \<times> pyval) list \<Rightarrow> bool \<Rightarrow> bool) \<Rightarrow> nat \<Rightarrow> pyval \<Rightarrow> nat \<Rightarrow> string list \<Rightarrow> bool"
  and oaui_nodes ::
    "(string \<Rightarrow> (pyval \<times> pyval) list \<Rightarrow> bool \<Rightarrow> bool) \<Rightarrow> nat \<Rightarrow> pyval list \<Rightarrow> nat \<Rightarrow> string list \<Rightarrow> bool"
  for P where
  node: "depth \<le> MAX_DEPTH \<Longrightarrow> c \<in> set COMPONENTS \<Longrightarrow> \<forall>s\<in>set_option nid. name_ok s \<Longrightarrow>
    dict_ok props \<Longrightarrow> length props \<le> MAX_PROPS \<Longrightarrow> length kids \<le> MAX_CHILDREN \<Longrightarrow>
    kids = [] \<or> c \<in> set CONTAINER_COMPONENTS \<Longrightarrow> P c props (kids \<noteq> []) \<Longrightarrow>
    oaui_nodes P (Suc depth) kids n ids \<Longrightarrow>
    oaui_node P depth (node_output c nid props kids) (Suc n)
      ((case nid of None \<Rightarrow> [] | Some s \<Rightarrow> [s]) @ ids)"
| none: "oaui_nodes P depth [] 0 []"
| more: "oaui_node P depth v n ids \<Longrightarrow> oaui_nodes P depth vs m jds \<Longrightarrow>
    oaui_nodes P depth (v # vs) (n + m) (ids @ jds)"

inductive_cases oaui_nodes_NilE [elim!]: "oaui_nodes P depth [] n ids"
inductive_cases oaui_nodes_ConsE [elim!]: "oaui_nodes P depth (v # vs) n ids"

definition safe_props :: "oaui_lib \<Rightarrow> string \<Rightarrow> (pyval \<times> pyval) list \<Rightarrow> bool \<Rightarrow> bool" where
  "safe_props L c props has_kids \<longleftrightarrow>
     (\<forall>(k, v)\<in>set props. \<exists>name. k = PStr name \<and> safe_prop L c name v)"

definition fixed_props :: "oaui_lib \<Rightarrow> string \<Rightarrow> (pyval \<times> pyval) list \<Rightarrow> bool \<Rightarrow> bool" where
  "fixed_props L c props has_kids \<longleftrightarrow>
     (\<forall>(k, v)\<in>set props. \<exists>name. k = PStr name \<and> validate_prop L c name v = Inr v) \<and>
     (c = ''sub-view'' \<longrightarrow> subview_error props (if has_kids then [PNone] else []) = None)"

fun no_mustache :: "pyval \<Rightarrow> bool" where
  "no_mustache (PStr s) = (mustache (strip s) = None)"
| "no_mustache (PList xs) = (\<forall>x\<in>set xs. no_mustache x)"
| "no_mustache (PDict kvs) = (\<forall>p\<in>set kvs. no_mustache (fst p) \<and> no_mustache (snd p))"
| "no_mustache _ = True"

lemma no_mustache_pget: "no_mustache (PDict d) \<Longrightarrow> pget k d = Some v \<Longrightarrow> no_mustache v"
  by (auto simp: pget_def dest!: map_of_SomeD)

lemma no_mustache_not: "no_mustache v \<Longrightarrow> \<not> is_mustache v"
  by (cases v) (auto simp: is_mustache_def)

lemma validate_props_Inr:
  assumes "validate_props L c kvs acc = Inr out"
    and "\<And>k v v'. (k, v) \<in> set kvs \<Longrightarrow>
      validate_prop L c (py_str (o_rep L) k) v = Inr v' \<Longrightarrow> G (py_str (o_rep L) k) v'"
    and "dict_ok acc" and "\<forall>(k, v)\<in>set acc. \<exists>name. k = PStr name \<and> G name v"
  shows "dict_ok out \<and> length out \<le> length acc + length kvs \<and>
    (\<forall>(k, v)\<in>set out. \<exists>name. k = PStr name \<and> G name v)"
  using assms
proof (induction kvs arbitrary: acc)
  case (Cons p kvs)
  obtain k v where p: "p = (k, v)" by (cases p)
  from Cons.prems(1) obtain v' where v': "validate_prop L c (py_str (o_rep L) k) v = Inr v'"
    "validate_props L c kvs (dict_set (PStr (py_str (o_rep L) k)) v' acc) = Inr out"
    by (auto simp: p bind_r_Inr_iff)
  have G: "G (py_str (o_rep L) k) v'" using Cons.prems(2) v'(1) by (auto simp: p)
  have "\<forall>(k, v)\<in>set (dict_set (PStr (py_str (o_rep L) k)) v' acc). \<exists>name. k = PStr name \<and> G name v"
    using Cons.prems(4) G by (auto dest!: in_dict_set)
  from Cons.IH [OF v'(2) Cons.prems(2) dict_ok_set [OF Cons.prems(3)] this]
  show ?case
    using length_dict_set [of "PStr (py_str (o_rep L) k)" v' acc] by (force simp: p)
qed auto

text \<open>Properties in normal form are kept as they are.\<close>

lemma validate_props_fixed:
  "\<forall>(k, v)\<in>set kvs. \<exists>name. k = PStr name \<and> validate_prop L c name v = Inr v \<Longrightarrow>
     dict_ok (acc @ kvs) \<Longrightarrow> validate_props L c kvs acc = Inr (acc @ kvs)"
proof (induction kvs arbitrary: acc)
  case (Cons p kvs)
  then obtain name v where p: "p = (PStr name, v)" "validate_prop L c name v = Inr v" by auto
  have "dict_get acc (PStr name) = None"
    using Cons.prems(2) by (auto simp: dict_get_None_iff dict_keys_def dict_ok_def p)
  with p Cons.IH [of "acc @ [p]"] Cons.prems show ?case by (simp add: dict_set_fresh)
qed simp

lemma visit_head_Inr:
  assumes "visit_head L raw depth w = Inr h"
  obtains props where "fst w < MAX_NODES" "depth \<le> MAX_DEPTH" "h_component h \<in> set COMPONENTS"
    "only_keys [''type'', ''id'', ''props'', ''children''] raw"
    "pget_or PNone ''type'' raw = PStr (h_component h)"
    "node_id raw (snd w) = Inr (h_id h, snd (h_walk h))" "fst (h_walk h) = Suc (fst w)"
    "node_props L (h_component h) raw = Inr (props, h_props h)"
    "node_children (h_component h) props raw = Inr (h_kids h)"
  using assms
  by (auto simp: visit_head_def Let_def bind_r_Inr_iff split: if_splits option.splits)

lemma node_id_Inr:
  "node_id raw seen = Inr (nid, seen') \<Longrightarrow>
     (\<forall>s\<in>set_option nid. name_ok s \<and> s \<notin> set seen) \<and>
     seen' = (case nid of None \<Rightarrow> seen | Some s \<Rightarrow> s # seen)"
  by (auto simp: node_id_def split: pyval.splits if_splits)

lemma node_children_bounds:
  assumes "node_children c props raw = Inr kids"
  shows "length kids \<le> MAX_CHILDREN \<and> (kids = [] \<or> c \<in> set CONTAINER_COMPONENTS)"
proof -
  have "pget_or (PList []) ''children'' raw = PList (map PDict kids)"
    using assms by (rule node_children_Inr)
  then show ?thesis using assms by (auto simp: node_children_def split: if_splits)
qed

lemma node_props_Inr:
  assumes "node_props L c raw = Inr (props, out)"
  shows "pget_or (PDict []) ''props'' raw = PDict props \<and> length props \<le> MAX_PROPS \<and>
    validate_props L c props [] = Inr out"
  using assms by (auto simp: node_props_def bind_r_Inr_iff split: pyval.splits if_splits)

text \<open>
  What a policy on raw nodes gives for the compiled tree: \<open>Q\<close> is passed down from a node to its
  children, and \<open>P\<close> holds of every node head computed under it.
\<close>

locale node_policy =
  fixes L :: oaui_lib
    and Q :: "(pyval \<times> pyval) list \<Rightarrow> bool"
    and P :: "string \<Rightarrow> (pyval \<times> pyval) list \<Rightarrow> bool \<Rightarrow> bool"
  assumes head: "Q raw \<Longrightarrow> visit_head L raw depth w = Inr h \<Longrightarrow>
      P (h_component h) (h_props h) (h_kids h \<noteq> [])"
    and down: "Q raw \<Longrightarrow> visit_head L raw depth w = Inr h \<Longrightarrow> k \<in> set (h_kids h) \<Longrightarrow> Q k"
begin

lemma visit_tree_aux:
  "L' = L \<Longrightarrow> Q raw \<Longrightarrow> visit L' raw depth w = Inr (out, w') \<Longrightarrow>
     \<exists>n ids. oaui_node P depth out n ids \<and> w' = (fst w + n, rev ids @ snd w) \<and>
       distinct ids \<and> set ids \<inter> set (snd w) = {} \<and> fst w' \<le> MAX_NODES"
  "L' = L \<Longrightarrow> \<forall>d\<in>set ds. Q d \<Longrightarrow> visit_kids L' ds depth w = Inr (outs, w') \<Longrightarrow> fst w \<le> MAX_NODES \<Longrightarrow>
     \<exists>n ids. oaui_nodes P depth outs n ids \<and> length outs = length ds \<and>
       w' = (fst w + n, rev ids @ snd w) \<and>
       distinct ids \<and> set ids \<inter> set (snd w) = {} \<and> fst w' \<le> MAX_NODES"
proof (induction L' raw depth w and L' ds depth w arbitrary: out w' and outs w'
    rule: visit_visit_kids.induct)
  case (1 L' raw depth w)
  from "1.prems" obtain h outs where h: "visit_head L raw depth w = Inr h"
    and k: "visit_kids L (h_kids h) (depth + 1) (h_walk h) = Inr (outs, w')"
    and out: "out = node_output (h_component h) (h_id h) (h_props h) outs"
    by (subst (asm) visit.simps) (auto simp: bind_r_Inr_iff)
  obtain props where props: "fst w < MAX_NODES" "depth \<le> MAX_DEPTH" "h_component h \<in> set COMPONENTS"
    "node_id raw (snd w) = Inr (h_id h, snd (h_walk h))" "fst (h_walk h) = Suc (fst w)"
    "node_props L (h_component h) raw = Inr (props, h_props h)"
    "node_children (h_component h) props raw = Inr (h_kids h)"
    using h by (rule visit_head_Inr) blast
  have ok: "dict_ok (h_props h)" "length (h_props h) \<le> MAX_PROPS"
    using validate_props_Inr [of L "h_component h" props "[]" "h_props h" "\<lambda>_ _. True"]
      node_props_Inr [OF props(6)] by auto
  have walk: "\<forall>s\<in>set_option (h_id h). name_ok s \<and> s \<notin> set (snd w)"
    "snd (h_walk h) = (case h_id h of None \<Rightarrow> snd w | Some s \<Rightarrow> s # snd w)"
    using node_id_Inr [OF props(4)] by auto
  have "\<forall>d\<in>set (h_kids h). Q d" using down [OF _ h] "1.prems"(2) by blast
  from "1.IH" [OF _ _ this] h k props(1,5) "1.prems"(1) obtain n ids where
    ids: "oaui_nodes P (Suc depth) outs n ids" "length outs = length (h_kids h)"
      "w' = (fst (h_walk h) + n, rev ids @ snd (h_walk h))" "distinct ids"
      "set ids \<inter> set (snd (h_walk h)) = {}" "fst w' \<le> MAX_NODES" by auto
  have kids: "outs = [] \<longleftrightarrow> h_kids h = []" using ids(2) by auto
  have "P (h_component h) (h_props h) (outs \<noteq> [])"
    using head [OF _ h] "1.prems"(2) kids by simp
  from node [OF props(2,3) _ ok _ _ this ids(1), of "h_id h"] walk(1) node_children_bounds [OF props(7)] ids(2) kids
  have "oaui_node P depth out (Suc n) ((case h_id h of None \<Rightarrow> [] | Some s \<Rightarrow> [s]) @ ids)"
    by (auto simp: out)
  moreover have "w' = (fst w + Suc n, rev ((case h_id h of None \<Rightarrow> [] | Some s \<Rightarrow> [s]) @ ids) @ snd w)"
    using ids(3) walk(2) props(5) by (auto split: option.splits)
  moreover have "distinct ((case h_id h of None \<Rightarrow> [] | Some s \<Rightarrow> [s]) @ ids) \<and>
      set ((case h_id h of None \<Rightarrow> [] | Some s \<Rightarrow> [s]) @ ids) \<inter> set (snd w) = {}"
    using ids(4,5) walk by (auto split: option.splits)
  ultimately show ?case using ids(6) by blast
next
  case (2 L' depth w)
  then show ?case by (intro exI [of _ 0] exI [of _ "[]"]) (auto intro: none)
next
  case (3 L' d ds depth w)
  from "3.prems"(3) obtain v w1 vs where
    d: "visit L' d depth w = Inr (v, w1)" and ds: "visit_kids L' ds depth w1 = Inr (vs, w')"
    and outs: "outs = v # vs"
    by (auto simp: bind_r_Inr_iff)
  from "3.IH"(1) [OF "3.prems"(1) _ d] "3.prems"(2) obtain n ids where
    n: "oaui_node P depth v n ids" "w1 = (fst w + n, rev ids @ snd w)" "distinct ids"
      "set ids \<inter> set (snd w) = {}" "fst w1 \<le> MAX_NODES" by auto
  from "3.IH"(2) [OF d "3.prems"(1)] "3.prems"(2) ds n(5) obtain m jds where
    m: "oaui_nodes P depth vs m jds" "length vs = length ds" "w' = (fst w1 + m, rev jds @ snd w1)"
      "distinct jds" "set jds \<inter> set (snd w1) = {}" "fst w' \<le> MAX_NODES" by auto
  have "oaui_nodes P depth outs (n + m) (ids @ jds)" unfolding outs by (rule more [OF n(1) m(1)])
  then show ?case using n m outs by (intro exI [of _ "n + m"] exI [of _ "ids @ jds"]) auto
qed

lemmas visit_tree = visit_tree_aux(1) [OF refl]

end

interpretation safe: node_policy L "\<lambda>_. True" "safe_props L" for L
proof unfold_locales
  fix raw depth w h
  assume "visit_head L raw depth w = Inr h"
  then obtain props where "node_props L (h_component h) raw = Inr (props, h_props h)"
    by (rule visit_head_Inr) blast
  then show "safe_props L (h_component h) (h_props h) (h_kids h \<noteq> [])"
    using validate_props_Inr [of L "h_component h" props "[]" "h_props h" "safe_prop L (h_component h)"]
      validate_prop_safe node_props_Inr unfolding safe_props_def by force
qed

text \<open>JSON objects: distinct text keys, at every level.\<close>

fun json_dicts :: "pyval \<Rightarrow> bool" where
  "json_dicts (PList xs) = (\<forall>x\<in>set xs. json_dicts x)"
| "json_dicts (PDict kvs) =
     (dict_ok kvs \<and> (\<forall>p\<in>set kvs. (\<exists>s. fst p = PStr s) \<and> json_dicts (snd p)))"
| "json_dicts _ = True"

lemma json_dicts_pget: "json_dicts (PDict d) \<Longrightarrow> pget k d = Some v \<Longrightarrow> json_dicts v"
  by (auto simp: pget_def dest!: map_of_SomeD)

lemma validate_props_pget:
  "validate_props L c kvs acc = Inr out \<Longrightarrow> dict_ok (acc @ kvs) \<Longrightarrow> \<forall>p\<in>set kvs. \<exists>s. fst p = PStr s \<Longrightarrow>
     (if pget k acc \<noteq> None then pget k out = pget k acc
      else rel_option (\<lambda>v v'. validate_prop L c k v = Inr v') (pget k kvs) (pget k out))"
proof (induction kvs arbitrary: acc)
  case (Cons p kvs)
  then obtain name v where p: "p = (PStr name, v)" by (metis list.set_intros(1) surjective_pairing)
  from Cons.prems(1) obtain v' where v': "validate_prop L c name v = Inr v'"
    "validate_props L c kvs (dict_set (PStr name) v' acc) = Inr out" by (auto simp: p bind_r_Inr_iff)
  have fresh: "dict_get acc (PStr name) = None"
    using Cons.prems(2) by (auto simp: dict_get_None_iff dict_keys_def dict_ok_def p)
  then have acc: "dict_set (PStr name) v' acc = acc @ [(PStr name, v')]" by (rule dict_set_fresh)
  have ok: "dict_ok ((acc @ [(PStr name, v')]) @ kvs)"
    using Cons.prems(2) by (auto simp: dict_ok_def p)
  have f: "pget name acc = None" using fresh by (simp add: dict_get_def pget_def)
  from Cons.IH [OF v'(2)] ok Cons.prems(3) have
    "if pget k (acc @ [(PStr name, v')]) \<noteq> None then pget k out = pget k (acc @ [(PStr name, v')])
     else rel_option (\<lambda>v v'. validate_prop L c k v = Inr v') (pget k kvs) (pget k out)"
    unfolding acc by simp
  then show ?case
    using v'(1) f by (cases "pget k acc") (auto simp: p pget_append_None pget_append_Some split: if_splits)
qed auto

lemma as_text_validated:
  assumes "validate_prop L c k v = Inr v'" and "\<not> is_mustache v"
  shows "as_text v' \<noteq> None \<longleftrightarrow> as_text v \<noteq> None"
proof (cases "is_bind v")
  case True
  with assms have "binding v = Inr v'" by (auto simp: validate_prop_def split: if_splits)
  then have "is_binding v'" by (rule binding_binding)
  with True show ?thesis by (auto simp: is_bind_def is_binding_def as_text_def split: pyval.splits)
next
  case False
  with assms have "v' = v" by (auto simp: validate_prop_def split: if_splits option.splits)
  then show ?thesis by simp
qed

lemma subview_kept:
  assumes "validate_props L c props [] = Inr out" and "json_dicts (PDict props)"
    and "no_mustache (PDict props)"
  shows "subview_error out ch = subview_error props ch"
proof -
  have rel: "rel_option (\<lambda>v v'. validate_prop L c k v = Inr v') (pget k props) (pget k out)" for k
    using validate_props_pget [OF assms(1), of k] assms(2) by auto
  have "pget ''revision'' out = None \<longleftrightarrow> pget ''revision'' props = None"
    using rel [of "''revision''"] by (auto simp: option_rel_Some1 option_rel_Some2)
  moreover have "as_text (pget_or PNone ''viewId'' out) \<noteq> None \<longleftrightarrow> as_text (pget_or PNone ''viewId'' props) \<noteq> None"
  proof (cases "pget ''viewId'' props")
    case None
    then show ?thesis using rel [of "''viewId''"] by (simp add: pget_or_def)
  next
    case (Some v)
    then obtain v' where "pget ''viewId'' out = Some v'" "validate_prop L c ''viewId'' v = Inr v'"
      using rel [of "''viewId''"] by (auto simp: option_rel_Some1)
    with Some as_text_validated [of L c "''viewId''" v v'] no_mustache_pget [OF assms(3) Some]
    show ?thesis by (auto simp: pget_or_def dest: no_mustache_not)
  qed
  ultimately show ?thesis unfolding subview_error_def Let_def by simp
qed

lemma subview_error_cong: "(ch = []) = (ch' = []) \<Longrightarrow> subview_error p ch = subview_error p ch'"
  by (simp add: subview_error_def Let_def)

lemma pget_or_props:
  assumes p: "pget_or (PDict []) ''props'' raw = PDict props"
    and raw: "json_dicts (PDict raw)" "no_mustache (PDict raw)"
  shows "json_dicts (PDict props) \<and> no_mustache (PDict props)"
proof (cases "pget ''props'' raw")
  case None
  then show ?thesis using p by (simp add: pget_or_def)
next
  case (Some v)
  then have "v = PDict props" using p by (simp add: pget_or_def)
  with json_dicts_pget [OF raw(1) Some] no_mustache_pget [OF raw(2) Some] show ?thesis by blast
qed

interpretation fixed: node_policy L "\<lambda>raw. json_dicts (PDict raw) \<and> no_mustache (PDict raw)" "fixed_props L" for L
proof unfold_locales
  fix raw depth w h
  assume raw: "json_dicts (PDict raw) \<and> no_mustache (PDict raw)" and h: "visit_head L raw depth w = Inr h"
  obtain props where props: "node_props L (h_component h) raw = Inr (props, h_props h)"
    "node_children (h_component h) props raw = Inr (h_kids h)"
    using h by (rule visit_head_Inr) blast
  from node_props_Inr [OF props(1)] have v: "validate_props L (h_component h) props [] = Inr (h_props h)"
    and plain: "json_dicts (PDict props)" "no_mustache (PDict props)"
    using raw pget_or_props by blast+
  have "\<forall>(k, v)\<in>set (h_props h). \<exists>name. k = PStr name \<and> validate_prop L (h_component h) name v = Inr v"
    using validate_props_Inr [OF v, of "\<lambda>name v. validate_prop L (h_component h) name v = Inr v"]
      plain(2) validate_prop_fixed no_mustache_not by force
  moreover have "subview_error (h_props h) (if h_kids h \<noteq> [] then [PNone] else []) = None"
    if "h_component h = ''sub-view''"
  proof -
    have "subview_error props (map PDict (h_kids h)) = None"
      using props(2) visit_head_children [OF h] that
      by (auto simp: node_children_def split: if_splits option.splits)
    then show ?thesis
      using subview_kept [OF v plain] subview_error_cong [of "map PDict (h_kids h)" "if h_kids h \<noteq> [] then [PNone] else []"]
      by simp
  qed
  ultimately show "fixed_props L (h_component h) (h_props h) (h_kids h \<noteq> [])"
    by (simp add: fixed_props_def)
  fix k
  assume "k \<in> set (h_kids h)"
  then show "json_dicts (PDict k) \<and> no_mustache (PDict k)"
    using visit_head_children [OF h] raw json_dicts_pget [of raw "''children''"] no_mustache_pget [of raw "''children''"]
    by (cases "pget ''children'' raw") (auto simp: pget_or_def simp del: json_dicts.simps(2) no_mustache.simps(3))
qed

text \<open>The fields of a compiled node, read back.\<close>

definition node_fields ::
  "string \<Rightarrow> string option \<Rightarrow> (pyval \<times> pyval) list \<Rightarrow> pyval list \<Rightarrow> (pyval \<times> pyval) list" where
  "node_fields c nid props kids = the (as_dict (node_output c nid props kids))"

lemma node_output_fields: "node_output c nid props kids = PDict (node_fields c nid props kids)"
  by (simp add: node_fields_def node_output_def as_dict_def)

lemma node_fields_get [simp]:
  "pget_or PNone ''type'' (node_fields c nid props kids) = PStr c"
  "pget_or PNone ''id'' (node_fields c nid props kids) = (case nid of None \<Rightarrow> PNone | Some s \<Rightarrow> PStr s)"
  "pget_or (PDict []) ''props'' (node_fields c nid props kids) = PDict props"
  "pget_or (PList []) ''children'' (node_fields c nid props kids) = PList kids"
  by (simp_all add: node_fields_def node_output_def as_dict_def pget_or_def split: option.splits)

lemma node_fields_keys [simp]:
  "only_keys [''type'', ''id'', ''props'', ''children''] (node_fields c nid props kids)"
  by (simp add: node_fields_def node_output_def as_dict_def only_keys_def split: option.splits)

lemma visit_head_again:
  assumes "depth \<le> MAX_DEPTH" "c \<in> set COMPONENTS" "\<forall>s\<in>set_option nid. name_ok s \<and> s \<notin> set (snd w)"
    "dict_ok props" "length props \<le> MAX_PROPS" "length ds \<le> MAX_CHILDREN"
    "ds = [] \<or> c \<in> set CONTAINER_COMPONENTS" "fixed_props L c props (ds \<noteq> [])" "fst w < MAX_NODES"
  shows "visit_head L (node_fields c nid props (map PDict ds)) depth w =
    Inr \<lparr>h_component = c, h_id = nid, h_props = props, h_kids = ds,
      h_walk = (Suc (fst w), (case nid of None \<Rightarrow> [] | Some s \<Rightarrow> [s]) @ snd w)\<rparr>"
proof -
  let ?raw = "node_fields c nid props (map PDict ds)"
  have i: "node_id ?raw (snd w) = Inr (nid, (case nid of None \<Rightarrow> [] | Some s \<Rightarrow> [s]) @ snd w)"
    using assms(3) by (auto simp: node_id_def split: option.splits)
  have "validate_props L c props [] = Inr ([] @ props)"
    using assms(4,8) by (intro validate_props_fixed) (auto simp: fixed_props_def)
  then have p: "node_props L c ?raw = Inr (props, props)"
    using assms(5) by (simp add: node_props_def)
  have "subview_error props (map PDict ds) = None" if "c = ''sub-view''"
    using assms(8) that subview_error_cong [of "map PDict ds" "if ds \<noteq> [] then [PNone] else []" props]
    by (simp add: fixed_props_def)
  then have k: "node_children c props ?raw = Inr ds"
    using assms(6,7) map_opt_as_dict [of "map PDict ds" ds] by (auto simp: node_children_def)
  have t: "as_text (pget_or PNone ''type'' ?raw) = Some c" by simp
  show ?thesis
    unfolding visit_head_def Let_def t using assms(1,2,9) i p k by simp
qed

lemma visit_again:
  "oaui_node (fixed_props L) depth v n ids \<Longrightarrow>
     \<exists>d. v = PDict d \<and> (\<forall>w. fst w + n \<le> MAX_NODES \<longrightarrow> distinct ids \<longrightarrow> set ids \<inter> set (snd w) = {} \<longrightarrow>
       visit L d depth w = Inr (v, (fst w + n, rev ids @ snd w)))"
  "oaui_nodes (fixed_props L) depth vs m jds \<Longrightarrow>
     \<exists>ds. vs = map PDict ds \<and> (\<forall>w. fst w + m \<le> MAX_NODES \<longrightarrow> distinct jds \<longrightarrow> set jds \<inter> set (snd w) = {} \<longrightarrow>
       visit_kids L ds depth w = Inr (vs, (fst w + m, rev jds @ snd w)))"
proof (induction rule: oaui_node_oaui_nodes.inducts)
  case (node depth c nid props kids n ids)
  then obtain ds where ds: "kids = map PDict ds"
    and k: "\<And>w. fst w + n \<le> MAX_NODES \<Longrightarrow> distinct ids \<Longrightarrow> set ids \<inter> set (snd w) = {} \<Longrightarrow>
      visit_kids L ds (Suc depth) w = Inr (kids, (fst w + n, rev ids @ snd w))" by blast
  let ?nid = "case nid of None \<Rightarrow> [] | Some s \<Rightarrow> [s]"
  have "visit L (node_fields c nid props kids) depth w =
      Inr (node_output c nid props kids, (fst w + Suc n, rev (?nid @ ids) @ snd w))"
    if w: "fst w + Suc n \<le> MAX_NODES" "distinct (?nid @ ids)" "set (?nid @ ids) \<inter> set (snd w) = {}" for w
  proof -
    have "\<forall>s\<in>set_option nid. name_ok s \<and> s \<notin> set (snd w)" using node(3) w(3) by auto
    then have h: "visit_head L (node_fields c nid props kids) depth w =
      Inr \<lparr>h_component = c, h_id = nid, h_props = props, h_kids = ds, h_walk = (Suc (fst w), ?nid @ snd w)\<rparr>"
      unfolding ds using node(1-8) w(1) by (intro visit_head_again) (auto simp: ds)
    have "visit_kids L ds (Suc depth) (Suc (fst w), ?nid @ snd w) =
        Inr (kids, (Suc (fst w) + n, rev ids @ ?nid @ snd w))"
      using k [of "(Suc (fst w), ?nid @ snd w)"] w by (auto split: option.splits)
    then show ?thesis
      using h by (subst visit.simps) (auto split: option.splits)
  qed
  then show ?case by (intro exI [of _ "node_fields c nid props kids"]) (auto simp: node_output_fields)
next
  case (none depth)
  show ?case by simp
next
  case (more depth v n ids vs m jds)
  then obtain d ds where d: "v = PDict d" "vs = map PDict ds"
    and visit: "\<And>w. fst w + n \<le> MAX_NODES \<Longrightarrow> distinct ids \<Longrightarrow> set ids \<inter> set (snd w) = {} \<Longrightarrow>
      visit L d depth w = Inr (v, (fst w + n, rev ids @ snd w))"
    and kids: "\<And>w. fst w + m \<le> MAX_NODES \<Longrightarrow> distinct jds \<Longrightarrow> set jds \<inter> set (snd w) = {} \<Longrightarrow>
      visit_kids L ds depth w = Inr (vs, (fst w + m, rev jds @ snd w))" by blast
  have "visit_kids L (d # ds) depth w = Inr (v # vs, (fst w + (n + m), rev (ids @ jds) @ snd w))"
    if w: "fst w + (n + m) \<le> MAX_NODES" "distinct (ids @ jds)" "set (ids @ jds) \<inter> set (snd w) = {}" for w
  proof -
    have "visit L d depth w = Inr (v, (fst w + n, rev ids @ snd w))"
      using w by (intro visit) auto
    moreover have "visit_kids L ds depth (fst w + n, rev ids @ snd w) =
        Inr (vs, (fst w + n + m, rev jds @ rev ids @ snd w))"
      using kids [of "(fst w + n, rev ids @ snd w)"] w by fastforce
    ultimately show ?thesis by (simp add: add.assoc)
  qed
  then show ?case using d by (intro exI [of _ "d # ds"]) simp
qed

section \<open>Whole specifications\<close>

definition STATE_NAMES :: "string list" where
  "STATE_NAMES = [''loading'', ''empty'', ''stale'', ''error'']"

definition state_nodes :: "(pyval \<times> pyval) list option \<Rightarrow> pyval list" where
  "state_nodes states = (case states of None \<Rightarrow> [] | Some kvs \<Rightarrow> map snd kvs)"

definition oaui_spec :: "(string \<Rightarrow> (pyval \<times> pyval) list \<Rightarrow> bool \<Rightarrow> bool) \<Rightarrow> pyval \<Rightarrow> bool" where
  "oaui_spec P out \<longleftrightarrow>
     (\<exists>r n ids states m jds.
        out = spec_output r (map_option PDict states) \<and> oaui_node P 1 r n ids \<and>
        oaui_nodes P 1 (state_nodes states) m jds \<and>
        (\<forall>kvs\<in>set_option states. dict_ok kvs \<and> fst ` set kvs \<subseteq> PStr ` set STATE_NAMES) \<and>
        n + m \<le> MAX_NODES \<and> distinct (ids @ jds))"

lemma sized_Inr [simp]: "sized L out = Inr out' \<longleftrightarrow> out' = out \<and> (\<exists>n. o_json_size L out = Some n \<and> n \<le> MAX_SPEC_BYTES)"
  by (auto simp: sized_def split: option.splits if_splits)

lemma only_keys_iff: "only_keys ks d \<longleftrightarrow> fst ` set d \<subseteq> PStr ` set ks"
  by (auto simp: only_keys_def list_all_iff)

context node_policy begin

lemma states_tree:
  "visit_states L kvs w acc = Inr out \<Longrightarrow> dict_ok (acc @ kvs) \<Longrightarrow> \<forall>p\<in>set kvs. \<exists>s. fst p = PStr s \<Longrightarrow>
     \<forall>p\<in>set kvs. \<forall>e. snd p = PDict e \<longrightarrow> Q e \<Longrightarrow> fst w \<le> MAX_NODES \<Longrightarrow>
     \<exists>vs m jds. out = acc @ zip (map fst kvs) vs \<and> length vs = length kvs \<and> oaui_nodes P 1 vs m jds \<and>
       fst w + m \<le> MAX_NODES \<and> distinct jds \<and> set jds \<inter> set (snd w) = {}"
proof (induction kvs arbitrary: w acc)
  case Nil
  then show ?case by (intro exI [of _ "[]"] exI [of _ 0]) (auto intro: none)
next
  case (Cons p kvs)
  from Cons.prems(3) obtain s v where p: "p = (PStr s, v)" by (cases p) auto
  from Cons.prems(1) obtain e o1 w1 where v: "v = PDict e" and e: "visit L e 1 w = Inr (o1, w1)"
    and rest: "visit_states L kvs w1 (dict_set (PStr s) o1 acc) = Inr out"
    by (auto simp: p bind_r_Inr_iff of_opt_Inr_iff)
  have "dict_get acc (PStr s) = None"
    using Cons.prems(2) by (auto simp: dict_get_None_iff dict_keys_def dict_ok_def p)
  then have acc: "dict_set (PStr s) o1 acc = acc @ [(PStr s, o1)]" by (rule dict_set_fresh)
  have "Q e" using Cons.prems(4) by (auto simp: p v)
  from visit_tree [OF this e] obtain n ids where
    n: "oaui_node P 1 o1 n ids" "w1 = (fst w + n, rev ids @ snd w)" "distinct ids"
      "set ids \<inter> set (snd w) = {}" "fst w1 \<le> MAX_NODES" by blast
  have ok: "dict_ok ((acc @ [(PStr s, o1)]) @ kvs)" using Cons.prems(2) by (auto simp: dict_ok_def p)
  from Cons.IH [OF rest [unfolded acc] ok _ _ n(5)] Cons.prems(3,4) obtain vs m jds where
    m: "out = (acc @ [(PStr s, o1)]) @ zip (map fst kvs) vs" "length vs = length kvs" "oaui_nodes P 1 vs m jds"
      "fst w1 + m \<le> MAX_NODES" "distinct jds" "set jds \<inter> set (snd w1) = {}" by auto
  show ?case
    using m n more [OF n(1) m(3)]
    by (intro exI [of _ "o1 # vs"] exI [of _ "n + m"] exI [of _ "ids @ jds"]) (auto simp: p)
qed

lemma spec_tree:
  assumes "validate_spec L (PDict d) = Inr out"
    and "\<And>kvs. pget ''states'' d = Some (PDict kvs) \<Longrightarrow> dict_ok kvs"
    and "\<And>r. pget ''root'' d = Some (PDict r) \<Longrightarrow> Q r"
    and "\<And>kvs k e. pget ''states'' d = Some (PDict kvs) \<Longrightarrow> (k, PDict e) \<in> set kvs \<Longrightarrow> Q e"
  shows "oaui_spec P out"
proof -
  from assms(1) obtain r r' w st where r: "pget_or PNone ''root'' d = PDict r"
    and v: "visit L r 1 (0, []) = Inr (r', w)" and st: "spec_states L d w = Inr st"
    and out: "out = spec_output r' st"
    by (auto simp: validate_spec_def bind_r_Inr_iff of_opt_Inr_iff split: if_splits)
  have "Q r" using r assms(3) by (cases "pget ''root'' d") (auto simp: pget_or_def)
  from visit_tree [OF this v] obtain n ids where
    n: "oaui_node P 1 r' n ids" "w = (n, rev ids)" "distinct ids" "n \<le> MAX_NODES" by auto
  show ?thesis
  proof (cases "pget_or PNone ''states'' d")
    case PNone
    then have "st = None" using st by (simp add: spec_states_def)
    then show ?thesis
      unfolding oaui_spec_def out using n
      by (intro exI [of _ r'] exI [of _ n] exI [of _ ids] exI [of _ None] exI [of _ 0] exI [of _ "[]"])
        (simp add: state_nodes_def none)
  next
    case (PDict kvs)
    then have kvs: "pget ''states'' d = Some (PDict kvs)"
      by (cases "pget ''states'' d") (simp_all add: pget_or_def)
    from st PDict obtain o1 where o1: "visit_states L kvs w [] = Inr o1" "st = Some (PDict o1)"
      and keys: "only_keys STATE_NAMES kvs"
      by (auto simp: spec_states_def bind_r_Inr_iff STATE_NAMES_def split: if_splits)
    have ok: "dict_ok kvs" "\<forall>p\<in>set kvs. \<exists>s. fst p = PStr s"
      using assms(2) [OF kvs] keys by (auto simp: only_keys_iff)
    have "\<forall>p\<in>set kvs. \<forall>e. snd p = PDict e \<longrightarrow> Q e" using assms(4) [OF kvs] by (metis surjective_pairing)
    from states_tree [OF o1(1) _ ok(2) this] ok(1) n obtain vs m jds where
      m: "o1 = zip (map fst kvs) vs" "length vs = length kvs" "oaui_nodes P 1 vs m jds" "n + m \<le> MAX_NODES"
        "distinct jds" "set jds \<inter> set ids = {}" by auto
    have "map fst o1 = map fst kvs" "map snd o1 = vs" using m(1,2) by simp_all
    then have "dict_ok o1" "fst ` set o1 \<subseteq> PStr ` set STATE_NAMES" "state_nodes (Some o1) = vs"
      using ok(1) keys unfolding dict_ok_def only_keys_iff state_nodes_def by (simp_all flip: set_map)
    then show ?thesis
      unfolding oaui_spec_def out o1(2) using n m
      by (intro exI [of _ r'] exI [of _ n] exI [of _ ids] exI [of _ "Some o1"] exI [of _ m] exI [of _ jds]) auto
  qed (use st in \<open>simp_all add: spec_states_def\<close>)
qed

end

lemma visit_states_again:
  "oaui_nodes (fixed_props L) 1 (map snd kvs) m jds \<Longrightarrow> dict_ok (acc @ kvs) \<Longrightarrow>
     \<forall>p\<in>set kvs. \<exists>s. fst p = PStr s \<Longrightarrow> fst w + m \<le> MAX_NODES \<Longrightarrow> distinct jds \<Longrightarrow>
     set jds \<inter> set (snd w) = {} \<Longrightarrow> visit_states L kvs w acc = Inr (acc @ kvs)"
proof (induction kvs arbitrary: m jds w acc)
  case (Cons p kvs)
  from Cons.prems(3) obtain s v where p: "p = (PStr s, v)" by (cases p) auto
  from Cons.prems(1) obtain n ids m' jds' where
    n: "oaui_node (fixed_props L) 1 v n ids" "oaui_nodes (fixed_props L) 1 (map snd kvs) m' jds'"
      "m = n + m'" "jds = ids @ jds'" by (auto simp: p)
  have w: "fst w + n \<le> MAX_NODES" "distinct ids" "set ids \<inter> set (snd w) = {}"
    using Cons.prems(4-6) n(3,4) by auto
  from visit_again(1) [OF n(1)] w obtain d where d: "v = PDict d"
    "visit L d 1 w = Inr (v, (fst w + n, rev ids @ snd w))" by blast
  have "dict_get acc (PStr s) = None"
    using Cons.prems(2) by (auto simp: dict_get_None_iff dict_keys_def dict_ok_def p)
  then have acc: "dict_set (PStr s) v acc = acc @ [p]" by (simp add: dict_set_fresh p)
  have "visit_states L kvs (fst w + n, rev ids @ snd w) (acc @ [p]) = Inr ((acc @ [p]) @ kvs)"
    using Cons.IH [OF n(2), of "acc @ [p]" "(fst w + n, rev ids @ snd w)"] Cons.prems n(3,4) by fastforce
  moreover have "as_dict v = Some d" using d(1) by simp
  ultimately show ?case using d(2) acc by (simp add: p)
qed simp

lemma spec_again:
  assumes "oaui_spec (fixed_props L) out" and "o_json_size L out = Some k" and "k \<le> MAX_SPEC_BYTES"
  shows "validate_spec L out = Inr out"
proof -
  from assms(1) obtain r n ids states m jds where
    s: "out = spec_output r (map_option PDict states)" "oaui_node (fixed_props L) 1 r n ids"
      "oaui_nodes (fixed_props L) 1 (state_nodes states) m jds"
      "\<forall>kvs\<in>set_option states. dict_ok kvs \<and> fst ` set kvs \<subseteq> PStr ` set STATE_NAMES"
      "n + m \<le> MAX_NODES" "distinct (ids @ jds)" unfolding oaui_spec_def by blast
  from visit_again(1) [OF s(2)] s(5,6) obtain d where
    d: "r = PDict d" "visit L d 1 (0, []) = Inr (r, (n, rev ids))" by auto
  define fields where "fields = the (as_dict out)"
  have f: "out = PDict fields" by (simp add: fields_def s(1) spec_output_def as_dict_def)
  have g: "pget_or PNone ''root'' fields = r" "pget_or PNone ''states'' fields =
      (case states of None \<Rightarrow> PNone | Some kvs \<Rightarrow> PDict kvs)"
    "pget_or (PInt SCHEMA_VERSION) ''schemaVersion'' fields = PInt SCHEMA_VERSION"
    "only_keys [''schemaVersion'', ''root'', ''states''] fields"
    by (simp_all add: fields_def s(1) spec_output_def as_dict_def pget_or_def only_keys_def split: option.splits)
  have st: "spec_states L fields (n, rev ids) = Inr (map_option PDict states)"
  proof (cases states)
    case (Some kvs)
    have nodes: "oaui_nodes (fixed_props L) 1 (map snd kvs) m jds" using s(3) by (simp add: Some state_nodes_def)
    then obtain ds where "map snd kvs = map PDict ds" using visit_again(2) by blast
    then have "\<forall>v\<in>snd ` set kvs. as_dict v \<noteq> None" unfolding set_map [symmetric] by auto
    then have "\<forall>p\<in>set kvs. as_dict (snd p) \<noteq> None" by blast
    moreover have "visit_states L kvs (n, rev ids) [] = Inr kvs"
      using visit_states_again [OF nodes, of "[]" "(n, rev ids)"] s(4-6) Some by auto
    ultimately show ?thesis
      using s(4) Some g(2) by (auto simp: spec_states_def only_keys_iff list_ex_iff STATE_NAMES_def)
  qed (simp add: g(2) spec_states_def)
  have "validate_spec L (PDict fields) = sized L (spec_output r (map_option PDict states))"
    using g d st by (simp add: validate_spec_def)
  also have "\<dots> = Inr out" using assms(2,3) by (simp add: s(1) [symmetric])
  finally show ?thesis by (simp only: f)
qed

section \<open>Properties of the compiler\<close>

definition proper_states :: "pyval \<Rightarrow> bool" where
  "proper_states spec =
     (case spec of
        PDict d \<Rightarrow> (case pget ''states'' d of Some (PDict kvs) \<Rightarrow> dict_ok kvs | _ \<Rightarrow> True)
      | _ \<Rightarrow> True)"

lemma validate_spec_wellformed:
  assumes "validate_spec L spec = Inr out" and "proper_states spec"
  shows "oaui_spec (safe_props L) out"
proof -
  from assms(1) obtain d where d: "spec = PDict d" by (auto simp: validate_spec_def split: pyval.splits)
  show ?thesis
    using assms unfolding d by (intro safe.spec_tree [of L d]) (auto simp: proper_states_def)
qed

text \<open>
  C5: Whatever markup or specification is given, an accepted dashboard is a bounded tree of supported
  components: at most 512 nodes with unique ids, nested at most 32 deep, at most 100 children and 64
  distinct properties a node, children only in containers; every property is one its component
  supports, actions and link targets are never bound to data, and each other property is either a
  well-formed binding or a literal that passes its checks: a literal text link is https, loopback
  http or an app path with no credentials and no script scheme, a literal text media reference an
  artifact or bundle asset. Of a bound property only the shape of the binding is known: neither the
  data it will read nor its fallback is checked as a link (\<open>bound_link_unchecked\<close> below). (The
  states of a specification form a dictionary, without repeated keys.)
\<close>

theorem compiled_dashboard_wellformed:
  assumes "compile_oaui L fromstring markup spec = Inr out"
    and "\<forall>s\<in>set_option spec. proper_states s"
  shows "oaui_spec (safe_props L) out \<and> (\<exists>n. o_json_size L out = Some n \<and> n \<le> MAX_SPEC_BYTES)"
proof -
  obtain s where s: "validate_spec L s = Inr out" "proper_states s"
  proof (cases markup)
    case None
    with assms obtain s where "spec = Some s" "validate_spec L (if truthy s then s else PDict []) = Inr out"
      "proper_states s" by (cases spec) (auto simp: compile_oaui_def)
    then show ?thesis using that [of "if truthy s then s else PDict []"] by (auto simp: proper_states_def)
  next
    case (Some m)
    with assms obtain r where
      "validate_spec L (PDict [(PStr ''schemaVersion'', PInt SCHEMA_VERSION), (PStr ''root'', r)]) = Inr out"
      by (cases spec) (auto simp: compile_oaui_def parse_markup_def bind_r_Inr_iff split: if_splits)
    then show ?thesis using that by (auto simp: proper_states_def)
  qed
  have "\<exists>n. o_json_size L out = Some n \<and> n \<le> MAX_SPEC_BYTES"
    using s(1) by (auto simp: validate_spec_def bind_r_Inr_iff split: pyval.splits if_splits)
  then show ?thesis using validate_spec_wellformed [OF s] by blast
qed

text \<open>
  What a binding leaves open. The checks of links apply to literal text only: a binding with a
  literal fallback is accepted for a link whatever text the fallback holds, also one that is refused
  as the link itself. A client that shows the fallback when the data is missing has to check it again.
\<close>

definition bound_link :: "string \<Rightarrow> pyval" where
  "bound_link url = PDict [(PStr ''$bind'', bind_value ''state'' []), (PStr ''fallback'', PStr url)]"

lemma bound_link_unchecked:
  assumes "''href'' \<in> set (allowed_props component)" and "length url \<le> MAX_STRING_CHARS"
  shows "validate_prop L component ''href'' (bound_link url) = Inr (bound_link url)"
  using assms by (simp add: validate_prop_def bound_link_def is_bind_def binding_def binding_object_def
      pget_or_def bind_value_def name_ok_def name_char_def is_alnum_def is_alpha_def is_digit_def path_ok_def char_code_def)

lemma script_link_refused:
  "validate_prop L ''text'' ''href'' (PStr ''javascript:x'') \<noteq> Inr v"
  by (simp add: validate_prop_def allowed_props_def COMMON_PROPS_def is_bind_def is_mustache_def
      mustache_def strip_def lstrip_def rstrip_def is_space_def char_code_def MAX_STRING_CHARS_def
      literal_checks_def validate_href_def url_parse_def url_scheme_def cut_first_def cut_last_def
      url_netloc_def bad_scheme_def lower_def lower_char_def startswith_def as_text_def
      first_error_def Let_def)

lemma script_fallback_accepted:
  "validate_prop L ''text'' ''href'' (bound_link ''javascript:x'') = Inr (bound_link ''javascript:x'')"
  by (rule bound_link_unchecked) (simp_all add: allowed_props_def COMMON_PROPS_def MAX_STRING_CHARS_def)

text \<open>
  C24: Compiling is stable. The repository compiles a stored definition again each time it is read;
  for a specification without the text shorthand for bindings, the compiled definition compiles to
  itself, so a view that was saved can be read.
\<close>

theorem compiled_dashboard_stable:
  assumes "validate_spec L spec = Inr out" and "json_dicts spec" and "no_mustache spec"
  shows "validate_spec L out = Inr out"
proof -
  from assms(1) obtain d where d: "spec = PDict d" by (auto simp: validate_spec_def split: pyval.splits)
  have nodes: "json_dicts (PDict e) \<and> no_mustache (PDict e)"
    if "pget k d = Some (PDict e)" for k e
    using that json_dicts_pget no_mustache_pget assms(2,3) unfolding d by blast
  have "oaui_spec (fixed_props L) out"
  proof (rule fixed.spec_tree [OF assms(1) [unfolded d]])
    show "dict_ok kvs" if "pget ''states'' d = Some (PDict kvs)" for kvs
      using nodes [OF that] by simp
    show "json_dicts (PDict r) \<and> no_mustache (PDict r)" if "pget ''root'' d = Some (PDict r)" for r
      using nodes [OF that] .
    show "json_dicts (PDict e) \<and> no_mustache (PDict e)"
      if "pget ''states'' d = Some (PDict kvs)" "(k, PDict e) \<in> set kvs" for kvs k e
      using nodes [OF that(1)] that(2) by force
  qed
  moreover obtain n where "o_json_size L out = Some n" "n \<le> MAX_SPEC_BYTES"
    using assms(1) by (auto simp: validate_spec_def bind_r_Inr_iff split: pyval.splits if_splits)
  ultimately show ?thesis by (rule spec_again)
qed

definition demo_oaui :: oaui_lib where
  "demo_oaui = \<lparr>o_rep = \<lambda>_. [], o_bracket_ok = \<lambda>_. True, o_json_size = \<lambda>_. Some 100, o_json_loads = \<lambda>_. None\<rparr>"

text \<open>A card with a linked text.\<close>

definition demo_spec :: pyval where
  "demo_spec = PDict [(PStr ''root'', PDict [(PStr ''type'', PStr ''card''),
     (PStr ''children'', PList [PDict [(PStr ''type'', PStr ''text''), (PStr ''id'', PStr ''t''),
       (PStr ''props'', PDict [(PStr ''href'', PStr ''/x'')])]])])]"

definition demo_out :: pyval where
  "demo_out = spec_output (node_output ''card'' None []
     [node_output ''text'' (Some ''t'') [(PStr ''href'', PStr ''/x'')] []]) None"

lemma demo_href: "validate_href b ''/x'' = None"
  by (simp add: validate_href_def url_parse_def url_scheme_def cut_first_def cut_last_def url_netloc_def
      bad_scheme_def lstrip_def is_space_def lower_def lower_char_def startswith_def char_code_def Let_def)

lemma demo_prop: "validate_prop L ''text'' ''href'' (PStr ''/x'') = Inr (PStr ''/x'')"
  by (simp add: validate_prop_def allowed_props_def COMMON_PROPS_def is_bind_def is_mustache_def
      mustache_def strip_def lstrip_def rstrip_def is_space_def char_code_def MAX_STRING_CHARS_def
      literal_checks_def demo_href as_text_def first_error_def)

lemma demo_node:
  "visit L [(PStr ''type'', PStr ''text''), (PStr ''id'', PStr ''t''),
       (PStr ''props'', PDict [(PStr ''href'', PStr ''/x'')])] 2 (1, []) =
     Inr (node_output ''text'' (Some ''t'') [(PStr ''href'', PStr ''/x'')] [], (2, [''t'']))"
  by (subst visit.simps)
    (simp add: visit_head_def MAX_NODES_def MAX_DEPTH_def only_keys_def pget_or_def as_text_def
      COMPONENTS_def CONTAINER_COMPONENTS_def LEAF_COMPONENTS_def node_id_def name_ok_def is_alpha_def
      char_code_def node_props_def MAX_PROPS_def demo_prop node_children_def MAX_CHILDREN_def)

lemma demo_valid: "validate_spec demo_oaui demo_spec = Inr demo_out"
proof -
  have "visit demo_oaui [(PStr ''type'', PStr ''card''), (PStr ''children'',
      PList [PDict [(PStr ''type'', PStr ''text''), (PStr ''id'', PStr ''t''),
       (PStr ''props'', PDict [(PStr ''href'', PStr ''/x'')])]])] 1 (0, []) =
    Inr (node_output ''card'' None []
     [node_output ''text'' (Some ''t'') [(PStr ''href'', PStr ''/x'')] []], (2, [''t'']))"
    using demo_node [of demo_oaui]
    by (subst visit.simps)
      (simp add: visit_head_def MAX_NODES_def MAX_DEPTH_def only_keys_def pget_or_def as_text_def
        COMPONENTS_def CONTAINER_COMPONENTS_def node_id_def node_props_def MAX_PROPS_def
        node_children_def MAX_CHILDREN_def numeral_2_eq_2)
  then show ?thesis
    by (simp add: demo_spec_def demo_out_def validate_spec_def only_keys_def pget_or_def SCHEMA_VERSION_def
        spec_states_def demo_oaui_def MAX_SPEC_BYTES_def)
qed

theorem compiled_dashboard_wellformed_witness:
  "compile_oaui demo_oaui (\<lambda>_. None) None (Some demo_spec) = Inr demo_out \<and>
    oaui_spec (safe_props demo_oaui) demo_out"
proof -
  have "compile_oaui demo_oaui (\<lambda>_. None) None (Some demo_spec) = Inr demo_out"
    using demo_valid by (simp add: compile_oaui_def demo_spec_def)
  moreover have "proper_states demo_spec" by (simp add: proper_states_def demo_spec_def)
  ultimately show ?thesis using compiled_dashboard_wellformed by fastforce
qed

theorem compiled_dashboard_stable_witness:
  "validate_spec demo_oaui demo_out = Inr demo_out"
proof (rule compiled_dashboard_stable [OF demo_valid])
  show "json_dicts demo_spec" by (simp add: demo_spec_def dict_ok_def)
  show "no_mustache demo_spec"
    by (simp add: demo_spec_def mustache_def strip_def lstrip_def rstrip_def is_space_def char_code_def)
qed

text \<open>A reference to another view, with its id in the text shorthand for bindings.\<close>

definition bound_view_spec :: pyval where
  "bound_view_spec = PDict [(PStr ''root'', PDict [(PStr ''type'', PStr ''sub-view''),
     (PStr ''props'', PDict [(PStr ''viewId'', PStr ''{{state.v}}''), (PStr ''revision'', PInt 1)])])]"

definition bound_view_out :: pyval where
  "bound_view_out = spec_output (node_output ''sub-view'' None
     [(PStr ''viewId'', PDict [(PStr ''$bind'', bind_value ''state'' ''/v'')]), (PStr ''revision'', PInt 1)] []) None"

lemma mustache_state_v: "mustache (strip ''{{state.v}}'') = Some (''state'', [''v''])"
  by (simp add: mustache_def strip_def lstrip_def rstrip_def is_space_def char_code_def startswith_def
      dotted_def segment_char_def is_alnum_def is_alpha_def)

lemma bound_view_props:
  "validate_prop L ''sub-view'' ''viewId'' (PStr ''{{state.v}}'') =
     Inr (PDict [(PStr ''$bind'', bind_value ''state'' ''/v'')])"
  "validate_prop L ''sub-view'' ''viewId'' (PDict [(PStr ''$bind'', bind_value ''state'' ''/v'')]) =
     Inr (PDict [(PStr ''$bind'', bind_value ''state'' ''/v'')])"
  "validate_prop L ''sub-view'' ''revision'' (PInt 1) = Inr (PInt 1)"
proof -
  have m: "is_mustache (PStr ''{{state.v}}'')" by (simp add: is_mustache_def mustache_state_v)
  have a: "''viewId'' \<in> set (allowed_props ''sub-view'')" "''revision'' \<in> set (allowed_props ''sub-view'')"
    by (simp_all add: allowed_props_def COMPONENT_PROPS_def)
  show "validate_prop L ''sub-view'' ''viewId'' (PStr ''{{state.v}}'') =
      Inr (PDict [(PStr ''$bind'', bind_value ''state'' ''/v'')])"
    using m a by (simp add: validate_prop_def binding_def binding_text_def mustache_state_v mustache_pointer_def)
  show "validate_prop L ''sub-view'' ''viewId'' (PDict [(PStr ''$bind'', bind_value ''state'' ''/v'')]) =
      Inr (PDict [(PStr ''$bind'', bind_value ''state'' ''/v'')])"
    using a by (simp add: validate_prop_def is_bind_def binding_def binding_object_def pget_or_def bind_value_def
        name_ok_def name_char_def is_alnum_def is_alpha_def char_code_def path_ok_def startswith_def)
  show "validate_prop L ''sub-view'' ''revision'' (PInt 1) = Inr (PInt 1)"
    using a by (simp add: validate_prop_def is_bind_def is_mustache_def literal_checks_def as_text_def as_int_def
        first_error_def)
qed

text \<open>
  A view that was saved can be unreadable. A reference to another view whose id is given in the
  text shorthand for bindings is accepted, because the check for a reference looks at the text the
  author wrote; compiled again when the view is read, the same definition is rejected, because the id
  is a binding by then.
\<close>

theorem saved_view_unreadable:
  assumes "o_json_size L bound_view_out = Some n" and "n \<le> MAX_SPEC_BYTES"
  shows "validate_spec L bound_view_spec = Inr bound_view_out \<and>
    validate_spec L bound_view_out = Inl (Invalid ''sub-view revision requires viewId'')"
proof
  note visit_defs = visit_head_def MAX_NODES_def MAX_DEPTH_def only_keys_def pget_or_def as_text_def
    COMPONENTS_def CONTAINER_COMPONENTS_def node_id_def node_props_def MAX_PROPS_def bound_view_props
    node_children_def MAX_CHILDREN_def subview_error_def
  have "visit L [(PStr ''type'', PStr ''sub-view''), (PStr ''props'',
      PDict [(PStr ''viewId'', PStr ''{{state.v}}''), (PStr ''revision'', PInt 1)])] 1 (0, []) =
    Inr (node_output ''sub-view'' None
     [(PStr ''viewId'', PDict [(PStr ''$bind'', bind_value ''state'' ''/v'')]), (PStr ''revision'', PInt 1)] [], (1, []))"
    by (subst visit.simps) (simp add: visit_defs)
  then show "validate_spec L bound_view_spec = Inr bound_view_out"
    using assms by (simp add: bound_view_spec_def validate_spec_def only_keys_def pget_or_def SCHEMA_VERSION_def
        spec_states_def) (simp add: bound_view_out_def)
  have "visit L [(PStr ''type'', PStr ''sub-view''), (PStr ''props'',
      PDict [(PStr ''viewId'', PDict [(PStr ''$bind'', bind_value ''state'' ''/v'')]), (PStr ''revision'', PInt 1)])]
      1 (0, []) = Inl (Invalid ''sub-view revision requires viewId'')"
    by (subst visit.simps) (simp add: visit_defs)
  then show "validate_spec L bound_view_out = Inl (Invalid ''sub-view revision requires viewId'')"
    by (simp add: bound_view_out_def spec_output_def node_output_def validate_spec_def only_keys_def pget_or_def)
qed

theorem saved_view_unreadable_witness:
  "validate_spec demo_oaui bound_view_spec = Inr bound_view_out \<and>
    validate_spec demo_oaui bound_view_out = Inl (Invalid ''sub-view revision requires viewId'')"
  by (rule saved_view_unreadable [of _ 100]) (simp_all add: demo_oaui_def MAX_SPEC_BYTES_def)

end
