(* ===== verification/Artifact_Store.thy ===== *)
theory Artifact_Store
  imports Prelude
begin

text \<open>
  Request-local media handles of the channel runner (\<open>packages/channel-bridges/.../wire.py\<close>), and the
  attachment contract they hand out (\<open>contracts.py\<close>).

  The file system is a map from path texts to inodes and from inodes to contents with a change stamp;
  an open descriptor is its inode, so a file can be replaced or unlinked under its name while the
  descriptor stays. What other programs do to files between two system calls is an argument: the file
  system seen by each call and the bytes the reads returned. The outcome of each \<open>os.write\<close> is an
  argument too. SHA-256 and base 64 are parameters, as are the random handle and the name and inode
  that \<open>mkstemp\<close> picks.
\<close>

section \<open>Wire values\<close>

datatype wire_exn =
    WireError string | OSErr | ContractErr | TypeErr | KeyErr | OverflowErr | PermissionErr
  | HistoryUnavailable | HostClosed | HostRejected | Cancelled | CallbackErr string

definition MAX_CHUNK :: nat where "MAX_CHUNK = 64 * 1024"
definition MAX_ARTIFACT :: nat where "MAX_ARTIFACT = 32 * 1024 * 1024"
definition MAX_FILES :: nat where "MAX_FILES = 16"
definition MAX_SESSION_BYTES :: nat where "MAX_SESSION_BYTES = 128 * 1024 * 1024"
definition INPUT_BYTES :: nat where "INPUT_BYTES = 64 * 1024 * 1024"

definition ident :: "pyval \<Rightarrow> wire_exn + string" where
  "ident v =
     (case v of
        PStr s \<Rightarrow>
          if s = [] \<or> length s > 128 \<or> list_ex (\<lambda>c. char_code c < 33 \<or> char_code c > 126) s
          then Inl (WireError ''invalid_identifier'') else Inr s
      | _ \<Rightarrow> Inl (WireError ''invalid_identifier''))"

definition object_fields ::
  "string list \<Rightarrow> string list \<Rightarrow> pyval \<Rightarrow> wire_exn + (pyval \<times> pyval) list" where
  "object_fields allowed needed v =
     (case v of
        PDict d \<Rightarrow>
          if list_all (\<lambda>(k, _). k \<in> PStr ` set allowed) d \<and> list_all (\<lambda>k. pget k d \<noteq> None) needed
          then Inr d else Inl (WireError ''invalid_fields'')
      | _ \<Rightarrow> Inl (WireError ''invalid_fields''))"

definition integer :: "pyval \<Rightarrow> nat \<Rightarrow> wire_exn + nat" where
  "integer v maximum =
     (case v of
        PInt n \<Rightarrow> if 0 \<le> n \<and> n \<le> int maximum then Inr (nat n) else Inl (WireError ''invalid_integer'')
      | _ \<Rightarrow> Inl (WireError ''invalid_integer''))"

definition is_hex :: "char \<Rightarrow> bool" where
  "is_hex c = (c \<in> set ''0123456789abcdef'')"

definition digest_text :: "pyval \<Rightarrow> wire_exn + string" where
  "digest_text v =
     (case v of
        PStr s \<Rightarrow> if length s = 64 \<and> list_all is_hex s then Inr s else Inl (WireError ''invalid_sha256'')
      | _ \<Rightarrow> Inl (WireError ''invalid_sha256''))"

section \<open>Attachments\<close>

record attachment =
  ba_kind :: pyval
  ba_filename :: pyval
  ba_mime_type :: pyval
  ba_size_bytes :: nat
  ba_artifact_ref :: string
  ba_local_path :: "string option"
  ba_owned :: bool
  ba_provider_id :: "string option"
  ba_sha256 :: "string option"
  ba_reader_ref :: "string option"

text \<open>\<open>any(ord(ch) < 32 or ord(ch) == 127 for ch in value)\<close>: \<open>ord\<close> takes texts of one character.\<close>

fun any_control :: "pyval list \<Rightarrow> wire_exn + bool" where
  "any_control [] = Inr False"
| "any_control (PStr [c] # xs) =
     (if char_code c < 32 \<or> char_code c = 127 then Inr True else any_control xs)"
| "any_control (_ # xs) = Inl TypeErr"

text \<open>The elements a value iterates over; \<open>None\<close> where \<open>in\<close> raises.\<close>

definition elements :: "pyval \<Rightarrow> pyval list option" where
  "elements v =
     (case v of
        PStr s \<Rightarrow> Some (map (\<lambda>c. PStr [c]) s)
      | PList xs \<Rightarrow> Some xs
      | PDict d \<Rightarrow> Some (map fst d)
      | _ \<Rightarrow> None)"

text \<open>The checks of \<open>BridgeAttachment.__post_init__\<close> on the file name.\<close>

definition safe_filename :: "pyval \<Rightarrow> wire_exn option" where
  "safe_filename v =
     (if \<not> truthy v then Some ContractErr
      else case elements v of
             None \<Rightarrow> Some TypeErr
           | Some xs \<Rightarrow>
               if PStr ''/'' \<in> set xs \<or> PStr [CHR 0x5C] \<in> set xs \<or> v \<in> {PStr ''.'', PStr ''..''}
               then Some ContractErr
               else (case any_control xs of
                       Inl e \<Rightarrow> Some e | Inr True \<Rightarrow> Some ContractErr | Inr False \<Rightarrow> None))"

definition new_attachment :: "pyval \<Rightarrow> pyval \<Rightarrow> pyval \<Rightarrow> nat \<Rightarrow> wire_exn + attachment" where
  "new_attachment kind filename mime nbytes =
     (case safe_filename filename of
        Some e \<Rightarrow> Inl e
      | None \<Rightarrow> Inr \<lparr>ba_kind = kind, ba_filename = filename, ba_mime_type = mime, ba_size_bytes = nbytes,
          ba_artifact_ref = [], ba_local_path = None, ba_owned = False, ba_provider_id = None,
          ba_sha256 = None, ba_reader_ref = None\<rparr>)"

section \<open>Files\<close>

record inode =
  nd_regular :: bool
  nd_data :: bytes
  nd_stamp :: nat

record fsys =
  fs_link :: "string \<Rightarrow> nat option"
  fs_node :: "nat \<Rightarrow> inode"

definition unlink :: "string \<Rightarrow> fsys \<Rightarrow> fsys" where
  "unlink p fs = fs\<lparr>fs_link := (fs_link fs)(p := None)\<rparr>"

definition mkstemp :: "string \<Rightarrow> nat \<Rightarrow> fsys \<Rightarrow> fsys" where
  "mkstemp p n fs =
     fs\<lparr>fs_link := (fs_link fs)(p \<mapsto> n),
        fs_node := (fs_node fs)(n := \<lparr>nd_regular = True, nd_data = [], nd_stamp = 0\<rparr>)\<rparr>"

text \<open>Writing at the end of a file changes its content and its stamp.\<close>

definition append_file :: "nat \<Rightarrow> bytes \<Rightarrow> fsys \<Rightarrow> fsys" where
  "append_file n bs fs =
     fs\<lparr>fs_node := (fs_node fs)(n := (fs_node fs n)\<lparr>nd_data := nd_data (fs_node fs n) @ bs,
          nd_stamp := Suc (nd_stamp (fs_node fs n))\<rparr>)\<rparr>"

section \<open>The store\<close>

record artifact =
  ar_node :: nat
  ar_path :: string
  ar_size :: nat
  ar_digest :: string
  ar_input :: bool
  ar_owned :: bool
  ar_info :: "nat \<times> nat"
  ar_written :: nat
  ar_hashed :: bytes
  ar_complete :: bool
  ar_used :: bool
  ar_attachment :: attachment

record artifact_store =
  st_scopes :: "(string, (string, artifact) dict) dict"
  st_limits :: "(string, nat \<times> nat option) dict"
  st_retained :: "(string, nat) dict"
  st_total :: int
  st_fs :: fsys

type_synonym 'a store_op = "(artifact_store, wire_exn, 'a) handler"

definition begin_request :: "pyval \<Rightarrow> nat \<Rightarrow> nat option \<Rightarrow> unit store_op" where
  "begin_request request_id max_files max_input_bytes st =
     (case ident request_id of
        Inl e \<Rightarrow> (Inl e, st)
      | Inr rid \<Rightarrow>
          (let input = (if max_files > MAX_FILES \<and> max_input_bytes = None then Some INPUT_BYTES else max_input_bytes)
           in if max_files < MAX_FILES \<or> max_files > 64 \<or> input \<noteq> None \<and> input \<noteq> Some INPUT_BYTES
              then (Inl (WireError ''invalid_artifact_limit''), st)
              else if dict_get (st_scopes st) rid \<noteq> None then (Inl (WireError ''duplicate_request''), st)
              else (Inr (), st\<lparr>st_scopes := dict_set rid [] (st_scopes st),
                               st_limits := dict_set rid (max_files, input) (st_limits st)\<rparr>)))"

definition total_of :: "('v \<Rightarrow> nat) \<Rightarrow> ('k, 'v) dict \<Rightarrow> nat" where
  "total_of f d = sum_list (map (\<lambda>p. f (snd p)) d)"

text \<open>The quota of files the provider has deleted since is given back.\<close>

definition reclaim :: "artifact_store \<Rightarrow> artifact_store" where
  "reclaim st =
     (let gone = (\<lambda>p. fs_link (st_fs st) (fst p) = None)
      in st\<lparr>st_retained := filter (\<lambda>p. \<not> gone p) (st_retained st),
            st_total := st_total st - int (total_of id (filter gone (st_retained st)))\<rparr>)"

definition over_limit ::
  "nat \<times> nat option \<Rightarrow> (string, artifact) dict \<Rightarrow> int \<Rightarrow> artifact \<Rightarrow> bool" where
  "over_limit limits scope used r =
     (case limits of (max_files, input_bytes) \<Rightarrow>
        length scope \<ge> max_files \<or> used + int (ar_size r) > int MAX_SESSION_BYTES \<or>
        \<not> ar_input r \<and> length (filter (\<lambda>p. \<not> ar_input (snd p)) scope) \<ge> MAX_FILES \<or>
        ar_input r \<and> (\<exists>b\<in>set_option input_bytes.
          total_of (\<lambda>a. if ar_input a then ar_size a else 0) scope + ar_size r > b))"

definition add_artifact :: "string \<Rightarrow> string \<Rightarrow> artifact \<Rightarrow> string store_op" where
  "add_artifact ref request_id r st0 =
     (let st = reclaim st0
      in case dict_get (st_scopes st) request_id of
           None \<Rightarrow> (Inl (WireError ''inactive_request''), st)
         | Some scope \<Rightarrow>
             (case dict_get (st_limits st) request_id of
                None \<Rightarrow> (Inl KeyErr, st)
              | Some limits \<Rightarrow>
                  if over_limit limits scope (st_total st) r then (Inl (WireError ''artifact_limit''), st)
                  else (Inr ref, st\<lparr>st_scopes := dict_set request_id (dict_set ref r scope) (st_scopes st),
                                    st_total := st_total st + int (ar_size r)\<rparr>)))"

text \<open>
  \<open>register\<close>: \<open>fs0\<close> is what \<open>lstat\<close> sees, \<open>fs1\<close> what \<open>open\<close> and the first \<open>fstat\<close> see, \<open>got\<close> what the
  reads return and \<open>fs2\<close> what the second \<open>fstat\<close> sees.
\<close>

definition register ::
  "(bytes \<Rightarrow> string) \<Rightarrow> string \<Rightarrow> fsys \<Rightarrow> fsys \<Rightarrow> bytes \<Rightarrow> fsys \<Rightarrow> string \<Rightarrow> attachment
     \<Rightarrow> (pyval \<times> pyval) list store_op" where
  "register sha ref fs0 fs1 got fs2 request_id att st =
     (case ba_local_path att of
        None \<Rightarrow> (Inl (WireError ''input_artifact_unavailable''), st)
      | Some path \<Rightarrow>
          if path = [] then (Inl (WireError ''input_artifact_unavailable''), st)
          else
            (case (fs_link fs0 path, fs_link fs1 path) of
               (None, _) \<Rightarrow> (Inl OSErr, st)
             | (Some n0, n1) \<Rightarrow>
                 if \<not> nd_regular (fs_node fs0 n0) then (Inl (WireError ''invalid_artifact''), st)
                 else (case n1 of
                    None \<Rightarrow> (Inl OSErr, st)
                  | Some n \<Rightarrow>
                      (let nd = fs_node fs1 n; size = length (nd_data nd); after = fs_node fs2 n
                       in if \<not> nd_regular nd \<or> size > MAX_ARTIFACT then (Inl (WireError ''artifact_limit''), st)
                          else if n0 \<noteq> n then (Inl (WireError ''artifact_changed''), st)
                          else if length got > size then (Inl (WireError ''artifact_limit''), st)
                          else if length got \<noteq> size \<or> length (nd_data after) \<noteq> size \<or>
                            nd_stamp after \<noteq> nd_stamp nd
                          then (Inl (WireError ''artifact_changed''), st)
                          else if ba_sha256 att \<noteq> None \<and> ba_sha256 att \<noteq> Some (sha got)
                          then (Inl (WireError ''artifact_changed''), st)
                          else
                            bind_s (add_artifact ref request_id
                                \<lparr>ar_node = n, ar_path = path, ar_size = size, ar_digest = sha got,
                                 ar_input = True, ar_owned = ba_owned att, ar_info = (size, nd_stamp nd),
                                 ar_written = 0, ar_hashed = [], ar_complete = False, ar_used = False,
                                 ar_attachment = att\<rparr>)
                              (\<lambda>ref. ret_s
                                [(PStr ''kind'', ba_kind att), (PStr ''filename'', ba_filename att),
                                 (PStr ''mime_type'', ba_mime_type att), (PStr ''size_bytes'', PInt (int size)),
                                 (PStr ''artifact_ref'', PStr (ba_artifact_ref att)),
                                 (PStr ''provider_attachment_id'',
                                  case ba_provider_id att of None \<Rightarrow> PNone | Some s \<Rightarrow> PStr s),
                                 (PStr ''sha256'', PStr (sha got)), (PStr ''reader_ref'', PStr ref)]) st))))"

text \<open>\<open>self._scope(request_id).get(identifier(ref))\<close>.\<close>

definition lookup_ref :: "string \<Rightarrow> pyval \<Rightarrow> artifact_store \<Rightarrow> wire_exn + string \<times> artifact option" where
  "lookup_ref request_id ref st =
     (case dict_get (st_scopes st) request_id of
        None \<Rightarrow> Inl (WireError ''inactive_request'')
      | Some scope \<Rightarrow> bind_r (ident ref) (\<lambda>r. Inr (r, dict_get scope r)))"

definition read_artifact ::
  "(bytes \<Rightarrow> string) \<Rightarrow> string \<Rightarrow> pyval \<Rightarrow> (pyval \<times> pyval) list store_op" where
  "read_artifact b64 request_id params st =
     (bind_r (object_fields [''reader_ref'', ''offset'', ''length''] [''reader_ref'', ''offset'', ''length''] params)
        (\<lambda>d. bind_r (lookup_ref request_id (pget_or PNone ''reader_ref'' d) st) (\<lambda>(ref, rec).
           case rec of
             None \<Rightarrow> Inl (WireError ''unknown_reader'')
           | Some r \<Rightarrow>
               if \<not> ar_input r then Inl (WireError ''unknown_reader'')
               else
                 bind_r (integer (pget_or PNone ''offset'' d) (ar_size r)) (\<lambda>offset.
                 bind_r (integer (pget_or PNone ''length'' d) MAX_CHUNK) (\<lambda>len.
                   let nd = fs_node (st_fs st) (ar_node r)
                   in if (length (nd_data nd), nd_stamp nd) \<noteq> ar_info r
                      then Inl (WireError ''artifact_changed'')
                      else
                        (let data = take (min len (ar_size r - offset)) (drop offset (nd_data nd))
                         in Inr [(PStr ''reader_ref'', PStr ref), (PStr ''offset'', PInt (int offset)),
                                 (PStr ''data_base64'', PStr (b64 data)),
                                 (PStr ''eof'', PBool (offset + length data = ar_size r))]))))),
      st)"

definition upload_begin ::
  "string \<Rightarrow> string \<Rightarrow> nat \<Rightarrow> string \<Rightarrow> pyval \<Rightarrow> (pyval \<times> pyval) list store_op" where
  "upload_begin ref path node request_id params st =
     (case bind_r (object_fields [''kind'', ''filename'', ''mime_type'', ''size_bytes'', ''sha256'']
             [''kind'', ''filename'', ''size_bytes'', ''sha256''] params) (\<lambda>d.
           bind_r (integer (pget_or PNone ''size_bytes'' d) MAX_ARTIFACT) (\<lambda>nbytes.
           bind_r (digest_text (pget_or PNone ''sha256'' d)) (\<lambda>digest.
           bind_r (new_attachment (pget_or PNone ''kind'' d) (pget_or PNone ''filename'' d)
               (pget_or (PStr ''application/octet-stream'') ''mime_type'' d) nbytes) (\<lambda>att.
           Inr (nbytes, digest, att))))) of
        Inl e \<Rightarrow> (Inl e, st)
      | Inr (nbytes, digest, att) \<Rightarrow>
          (let st1 = st\<lparr>st_fs := mkstemp path node (st_fs st)\<rparr>
           in case add_artifact ref request_id
                  \<lparr>ar_node = node, ar_path = path, ar_size = nbytes, ar_digest = digest, ar_input = False,
                   ar_owned = False, ar_info = (0, 0), ar_written = 0, ar_hashed = [], ar_complete = False,
                   ar_used = False, ar_attachment = att\<rparr> st1 of
                (Inl e, st2) \<Rightarrow> (Inl e, st2\<lparr>st_fs := unlink path (st_fs st2)\<rparr>)
              | (Inr r, st2) \<Rightarrow> (Inr [(PStr ''reader_ref'', PStr r)], st2)))"

definition find_upload :: "string \<Rightarrow> pyval \<Rightarrow> artifact_store \<Rightarrow> wire_exn + string \<times> artifact" where
  "find_upload request_id ref st =
     bind_r (lookup_ref request_id ref st) (\<lambda>(r, rec).
       case rec of
         None \<Rightarrow> Inl (WireError ''unknown_upload'')
       | Some a \<Rightarrow> if ar_input a then Inl (WireError ''unknown_upload'') else Inr (r, a))"

definition put_record :: "string \<Rightarrow> string \<Rightarrow> artifact \<Rightarrow> artifact_store \<Rightarrow> artifact_store" where
  "put_record request_id ref a st =
     (case dict_get (st_scopes st) request_id of
        None \<Rightarrow> st
      | Some scope \<Rightarrow> st\<lparr>st_scopes := dict_set request_id (dict_set ref a scope) (st_scopes st)\<rparr>)"

text \<open>The write loop: \<open>ws\<close> lists what each \<open>os.write\<close> does, \<open>None\<close> an exception and \<open>Some n\<close> the bytes
  it took; once the list is used up the rest is written at once.\<close>

fun write_all :: "nat option list \<Rightarrow> bytes \<Rightarrow> bytes \<times> wire_exn option" where
  "write_all ws [] = ([], None)"
| "write_all [] rest = (rest, None)"
| "write_all (None # ws) rest = ([], Some OSErr)"
| "write_all (Some n # ws) rest =
     (if n = 0 then ([], Some (WireError ''artifact_write_failed''))
      else case write_all ws (drop n rest) of (done_, e) \<Rightarrow> (take n rest @ done_, e))"

definition chunk_data :: "(string \<Rightarrow> bytes option) \<Rightarrow> pyval \<Rightarrow> artifact \<Rightarrow> wire_exn + bytes" where
  "chunk_data unb64 encoded a =
     (case encoded of
        PStr s \<Rightarrow>
          if length s > ((MAX_CHUNK + 2) div 3) * 4 then Inl (WireError ''chunk_limit'')
          else (case unb64 s of
                  None \<Rightarrow> Inl (WireError ''invalid_chunk'')
                | Some data \<Rightarrow>
                    if data = [] \<or> length data > MAX_CHUNK \<or> ar_written a + length data > ar_size a
                    then Inl (WireError ''chunk_limit'') else Inr data)
      | _ \<Rightarrow> Inl (WireError ''chunk_limit''))"

definition upload_chunk ::
  "(string \<Rightarrow> bytes option) \<Rightarrow> nat option list \<Rightarrow> string \<Rightarrow> pyval \<Rightarrow> (pyval \<times> pyval) list store_op" where
  "upload_chunk unb64 ws request_id params st =
     (case bind_r (object_fields [''reader_ref'', ''offset'', ''data_base64'']
             [''reader_ref'', ''offset'', ''data_base64''] params) (\<lambda>d.
           bind_r (find_upload request_id (pget_or PNone ''reader_ref'' d) st) (\<lambda>(ref, a).
           if ar_complete a then Inl (WireError ''invalid_offset'')
           else bind_r (integer (pget_or PNone ''offset'' d) (ar_size a)) (\<lambda>offset.
             if offset \<noteq> ar_written a then Inl (WireError ''invalid_offset'')
             else bind_r (chunk_data unb64 (pget_or PNone ''data_base64'' d) a) (\<lambda>data. Inr (ref, a, data))))) of
        Inl e \<Rightarrow> (Inl e, st)
      | Inr (ref, a, data) \<Rightarrow>
          (case write_all ws data of (done_, err) \<Rightarrow>
             (let st1 = st\<lparr>st_fs := append_file (ar_node a) done_ (st_fs st)\<rparr>
              in case err of
                   Some e \<Rightarrow> (Inl e, st1)
                 | None \<Rightarrow>
                     (let a' = a\<lparr>ar_hashed := ar_hashed a @ data, ar_written := ar_written a + length data\<rparr>
                      in (Inr [(PStr ''reader_ref'', PStr ref), (PStr ''written'', PInt (int (ar_written a')))],
                          put_record request_id ref a' st1)))))"

definition upload_finish :: "(bytes \<Rightarrow> string) \<Rightarrow> string \<Rightarrow> pyval \<Rightarrow> (pyval \<times> pyval) list store_op" where
  "upload_finish sha request_id params st =
     (case bind_r (object_fields [''reader_ref''] [''reader_ref''] params) (\<lambda>d.
           bind_r (find_upload request_id (pget_or PNone ''reader_ref'' d) st) (\<lambda>(ref, a).
           if ar_written a \<noteq> ar_size a \<or> sha (ar_hashed a) \<noteq> ar_digest a
           then Inl (WireError ''artifact_hash_mismatch'') else Inr (ref, a))) of
        Inl e \<Rightarrow> (Inl e, st)
      | Inr (ref, a) \<Rightarrow>
          (Inr [(PStr ''reader_ref'', PStr ref), (PStr ''sha256'', PStr (ar_digest a)),
                (PStr ''size_bytes'', PInt (int (ar_size a)))],
           put_record request_id ref (a\<lparr>ar_complete := True\<rparr>) st))"

definition resolve :: "string \<Rightarrow> pyval \<Rightarrow> attachment store_op" where
  "resolve request_id v st =
     (case bind_r (object_fields [''reader_ref''] [''reader_ref''] v) (\<lambda>d.
           bind_r (find_upload request_id (pget_or PNone ''reader_ref'' d) st) (\<lambda>(ref, a).
           if \<not> ar_complete a then Inl (WireError ''incomplete_artifact'') else Inr (ref, a))) of
        Inl e \<Rightarrow> (Inl e, st)
      | Inr (ref, a) \<Rightarrow>
          (Inr ((ar_attachment a)\<lparr>ba_size_bytes := ar_size a, ba_artifact_ref := [],
                  ba_local_path := Some (ar_path a), ba_owned := True, ba_provider_id := None,
                  ba_sha256 := Some (ar_digest a), ba_reader_ref := Some ref\<rparr>),
           put_record request_id ref (a\<lparr>ar_used := True\<rparr>) st))"

text \<open>What \<open>end\<close> does with one record. Unlinking an abandoned upload raises when it is gone already.\<close>

definition end_record :: "artifact \<Rightarrow> unit store_op" where
  "end_record a st =
     (if ar_input a then
        (let st1 = st\<lparr>st_total := st_total st - int (ar_size a)\<rparr>
         in (Inr (), if ar_owned a \<and> fs_link (st_fs st) (ar_path a) = Some (ar_node a) \<and>
                        nd_regular (fs_node (st_fs st) (ar_node a))
                     then st1\<lparr>st_fs := unlink (ar_path a) (st_fs st)\<rparr> else st1))
      else if ar_complete a \<and> ar_used a then
        (Inr (), st\<lparr>st_retained := dict_set (ar_path a) (ar_size a) (st_retained st)\<rparr>)
      else
        (let st1 = st\<lparr>st_total := st_total st - int (ar_size a)\<rparr>
         in if fs_link (st_fs st) (ar_path a) = None then (Inl OSErr, st1)
            else (Inr (), st1\<lparr>st_fs := unlink (ar_path a) (st_fs st)\<rparr>)))"

fun end_records :: "artifact list \<Rightarrow> unit store_op" where
  "end_records [] st = (Inr (), st)"
| "end_records (a # as) st = bind_s (end_record a) (\<lambda>_. end_records as) st"

definition end_request :: "string \<Rightarrow> unit store_op" where
  "end_request request_id st =
     end_records (case dict_get (st_scopes st) request_id of None \<Rightarrow> [] | Some scope \<Rightarrow> dict_values scope)
       (st\<lparr>st_limits := dict_pop request_id (st_limits st), st_scopes := dict_pop request_id (st_scopes st)\<rparr>)"

fun end_all :: "string list \<Rightarrow> unit store_op" where
  "end_all [] st = (Inr (), st)"
| "end_all (r # rs) st = bind_s (end_request r) (\<lambda>_. end_all rs) st"

text \<open>\<open>close\<close>; removing the private directory is not modelled.\<close>

definition close_store :: "unit store_op" where
  "close_store st = end_all (dict_keys (st_scopes st)) st"

section \<open>Totals over dictionaries\<close>

lemma total_of_simps [simp]:
  "total_of f [] = 0" "total_of f (p # d) = f (snd p) + total_of f d"
  "total_of f (d @ d') = total_of f d + total_of f d'"
  by (simp_all add: total_of_def)

lemma total_of_set:
  "dict_ok d \<Longrightarrow> dict_get d k = Some v \<Longrightarrow> total_of f (dict_set k v' d) + f v = total_of f d + f v'"
  by (induction d) (auto simp: dict_ok_def split: if_splits)

lemma total_of_fresh: "dict_get d k = None \<Longrightarrow> total_of f (dict_set k v d) = total_of f d + f v"
  by (simp add: dict_set_fresh)

lemma total_of_absent: "dict_get d k = None \<Longrightarrow> dict_pop k d = d"
  by (auto simp: dict_pop_def dict_get_None_iff dict_keys_def intro: filter_True)

lemma total_of_pop:
  "dict_ok d \<Longrightarrow> dict_get d k = Some v \<Longrightarrow> total_of f (dict_pop k d) + f v = total_of f d"
proof (induction d)
  case (Cons p d)
  show ?case
  proof (cases "fst p = k")
    case True
    then have "dict_get d k = None"
      using Cons.prems(1) by (auto simp: dict_ok_def dict_get_None_iff dict_keys_def)
    then have "dict_pop k (p # d) = d" using True total_of_absent [of d k] by (simp add: dict_pop_def)
    then show ?thesis using True Cons.prems(2) by (cases p) simp
  next
    case False
    then have "dict_pop k (p # d) = p # dict_pop k d" by (simp add: dict_pop_def)
    with False Cons show ?thesis by (cases p) (auto simp: dict_ok_def)
  qed
qed simp

lemma total_of_filter:
  "total_of f (filter P d) + total_of f (filter (\<lambda>p. \<not> P p) d) = total_of f d"
  by (induction d) auto

lemma length_filter_total: "length (filter (\<lambda>p. P (snd p)) d) = total_of (\<lambda>v. of_bool (P v)) d"
  by (induction d) auto

section \<open>Invariants\<close>

definition rec_at :: "artifact_store \<Rightarrow> string \<Rightarrow> string \<Rightarrow> artifact option" where
  "rec_at st rid ref = (case dict_get (st_scopes st) rid of None \<Rightarrow> None | Some sc \<Rightarrow> dict_get sc ref)"

definition upload_at :: "artifact_store \<Rightarrow> string \<Rightarrow> string \<Rightarrow> artifact \<Rightarrow> bool" where
  "upload_at st rid ref a \<longleftrightarrow> rec_at st rid ref = Some a \<and> \<not> ar_input a"

definition input_bytes :: "artifact \<Rightarrow> nat" where
  "input_bytes a = (if ar_input a then ar_size a else 0)"

text \<open>One request keeps to its limits: files, upload files and, where it has one, its input budget.\<close>

definition scope_ok :: "(string, artifact) dict \<Rightarrow> nat \<times> nat option \<Rightarrow> bool" where
  "scope_ok sc limits \<longleftrightarrow>
     dict_ok sc \<and> length sc \<le> fst limits \<and> fst limits \<le> 64 \<and>
     total_of (\<lambda>a. of_bool (\<not> ar_input a)) sc \<le> MAX_FILES \<and>
     (\<forall>b\<in>set_option (snd limits). total_of input_bytes sc \<le> b)"

definition accounted :: "artifact_store \<Rightarrow> nat" where
  "accounted st = total_of (total_of ar_size) (st_scopes st) + total_of id (st_retained st)"

definition quotas :: "artifact_store \<Rightarrow> bool" where
  "quotas st \<longleftrightarrow>
     dict_ok (st_scopes st) \<and> dict_ok (st_retained st) \<and>
     (\<forall>rid sc. dict_get (st_scopes st) rid = Some sc \<longrightarrow>
        (\<exists>limits. dict_get (st_limits st) rid = Some limits \<and> scope_ok sc limits)) \<and>
     st_total st = int (accounted st) \<and> accounted st \<le> MAX_SESSION_BYTES"

text \<open>Staged uploads: each has a file and an inode of its own, still there under its name, and no name
  is shared with an input or a retained file.\<close>

definition staged :: "artifact_store \<Rightarrow> bool" where
  "staged st \<longleftrightarrow>
     (\<forall>rid ref a. upload_at st rid ref a \<longrightarrow>
        fs_link (st_fs st) (ar_path a) = Some (ar_node a) \<and> dict_get (st_retained st) (ar_path a) = None \<and>
        (\<forall>rid' ref' b. rec_at st rid' ref' = Some b \<longrightarrow> ar_path b = ar_path a \<or> \<not> ar_input b \<and> ar_node b = ar_node a \<longrightarrow>
           rid' = rid \<and> ref' = ref))"

definition verified :: "(bytes \<Rightarrow> string) \<Rightarrow> artifact_store \<Rightarrow> bool" where
  "verified sha st \<longleftrightarrow>
     (\<forall>rid ref a. upload_at st rid ref a \<longrightarrow>
        ar_written a \<le> ar_size a \<and> ar_size a \<le> MAX_ARTIFACT \<and> length (ar_hashed a) = ar_written a \<and>
        (ar_complete a \<longrightarrow> ar_written a = ar_size a \<and> sha (ar_hashed a) = ar_digest a))"

definition intact :: "artifact_store \<Rightarrow> bool" where
  "intact st \<longleftrightarrow>
     (\<forall>rid ref a. upload_at st rid ref a \<longrightarrow> nd_data (fs_node (st_fs st) (ar_node a)) = ar_hashed a)"

lemma staged_unique:
  "staged st \<Longrightarrow> upload_at st rid ref a \<Longrightarrow> rec_at st rid' ref' = Some b \<Longrightarrow> ar_path b = ar_path a \<Longrightarrow>
     rid' = rid \<and> ref' = ref"
  by (simp add: staged_def)

lemma rec_at_put:
  "rec_at st rid ref = Some a \<Longrightarrow>
     rec_at (put_record rid ref a' st) r f = (if r = rid \<and> f = ref then Some a' else rec_at st r f)"
  by (auto simp: rec_at_def put_record_def dict_get_set split: option.splits if_splits)

lemma put_record_frame [simp]:
  "st_limits (put_record rid ref a st) = st_limits st" "st_retained (put_record rid ref a st) = st_retained st"
  "st_total (put_record rid ref a st) = st_total st" "st_fs (put_record rid ref a st) = st_fs st"
  by (simp_all add: put_record_def split: option.splits)

text \<open>Changing a record without its size and direction keeps the quotas.\<close>

lemma quotas_put:
  assumes "quotas st" and "rec_at st rid ref = Some a" and "ar_size a' = ar_size a" and "ar_input a' = ar_input a"
  shows "quotas (put_record rid ref a' st)"
proof -
  from assms(2) obtain sc where sc: "dict_get (st_scopes st) rid = Some sc" "dict_get sc ref = Some a"
    by (auto simp: rec_at_def split: option.splits)
  with assms(1) obtain lim where lim: "dict_get (st_limits st) rid = Some lim" "scope_ok sc lim"
    unfolding quotas_def by blast
  have ok: "dict_ok sc" using lim(2) by (simp add: scope_ok_def)
  have t: "total_of f (dict_set ref a' sc) = total_of f sc" if "f a' = f a" for f :: "artifact \<Rightarrow> nat"
    using total_of_set [OF ok sc(2), of f a'] that by simp
  have "scope_ok (dict_set ref a' sc) lim"
    using lim(2) t assms(3,4)
    by (simp add: scope_ok_def dict_ok_set length_dict_set_same [OF sc(2)] input_bytes_def)
  moreover have "total_of (total_of ar_size) (dict_set rid (dict_set ref a' sc) (st_scopes st)) =
      total_of (total_of ar_size) (st_scopes st)"
    using total_of_set [of "st_scopes st" rid sc "total_of ar_size" "dict_set ref a' sc"] assms(1,3) sc(1) t
    by (simp add: quotas_def)
  ultimately show ?thesis
    using assms(1) sc(1) lim(1)
    by (cases lim) (auto simp: quotas_def put_record_def accounted_def dict_ok_set dict_get_set)
qed

lemma quotas_reclaim:
  assumes "quotas st"
  shows "quotas (reclaim st)"
proof -
  have "accounted (reclaim st) + total_of id (filter (\<lambda>p. fs_link (st_fs st) (fst p) = None) (st_retained st)) =
      accounted st"
    using total_of_filter [of id "\<lambda>p. fs_link (st_fs st) (fst p) = None" "st_retained st"]
    by (simp add: accounted_def reclaim_def)
  moreover have "dict_ok (st_retained (reclaim st))"
    using assms by (simp add: quotas_def reclaim_def dict_ok_def distinct_map_filter)
  ultimately show ?thesis
    using assms by (simp add: quotas_def) (simp add: reclaim_def)
qed

lemma reclaim_frame [simp]:
  "st_scopes (reclaim st) = st_scopes st" "st_limits (reclaim st) = st_limits st" "st_fs (reclaim st) = st_fs st"
  by (simp_all add: reclaim_def)

lemma retained_reclaim: "dict_get (st_retained st) p = None \<Longrightarrow> dict_get (st_retained (reclaim st)) p = None"
  by (auto simp: reclaim_def dict_get_None_iff dict_keys_def)

lemma rec_at_reclaim [simp]: "rec_at (reclaim st) = rec_at st"
  by (simp add: rec_at_def fun_eq_iff)

text \<open>Adding a record under a fresh handle: refused, or within every limit.\<close>

lemma add_cases:
  assumes "add_artifact ref rid r st = (res, st')"
  obtains (refused) e where "res = Inl e" "st' = reclaim st"
  | (added) sc lim where "res = Inr ref" "dict_get (st_scopes st) rid = Some sc"
      "dict_get (st_limits st) rid = Some lim" "\<not> over_limit lim sc (st_total (reclaim st)) r"
      "st' = (reclaim st)\<lparr>st_scopes := dict_set rid (dict_set ref r sc) (st_scopes st),
         st_total := st_total (reclaim st) + int (ar_size r)\<rparr>"
proof (cases "dict_get (st_scopes st) rid")
  case None
  then have "res = Inl (WireError ''inactive_request'')" "st' = reclaim st"
    using assms by (auto simp: add_artifact_def Let_def)
  then show ?thesis by (rule refused)
next
  case sc: (Some sc)
  show ?thesis
  proof (cases "dict_get (st_limits st) rid")
    case None
    then have "res = Inl KeyErr" "st' = reclaim st"
      using assms sc by (auto simp: add_artifact_def Let_def)
    then show ?thesis by (rule refused)
  next
    case lim: (Some lim)
    show ?thesis
    proof (cases "over_limit lim sc (st_total (reclaim st)) r")
      case True
      then have "res = Inl (WireError ''artifact_limit'')" "st' = reclaim st"
        using assms sc lim by (auto simp: add_artifact_def Let_def)
      then show ?thesis by (rule refused)
    next
      case False
      then have "res = Inr ref" "st' = (reclaim st)\<lparr>st_scopes := dict_set rid (dict_set ref r sc) (st_scopes st),
         st_total := st_total (reclaim st) + int (ar_size r)\<rparr>"
        using assms sc lim by (auto simp: add_artifact_def Let_def)
      with added sc lim False show ?thesis by blast
    qed
  qed
qed

lemma quotas_add:
  assumes q: "quotas st" and add: "add_artifact ref rid r st = (res, st')" and fresh: "rec_at st rid ref = None"
  shows "quotas st'"
  using add
proof (cases rule: add_cases)
  case (refused e)
  then show ?thesis using quotas_reclaim [OF q] by simp
next
  case (added sc lim)
  have q': "quotas (reclaim st)" by (rule quotas_reclaim [OF q])
  then have lim: "scope_ok sc lim" using added(2,3) unfolding quotas_def by force
  have f: "dict_get sc ref = None" using fresh added(2) by (simp add: rec_at_def)
  have within: "length sc < fst lim" "st_total (reclaim st) + int (ar_size r) \<le> int MAX_SESSION_BYTES"
    "\<not> ar_input r \<Longrightarrow> total_of (\<lambda>a. of_bool (\<not> ar_input a)) sc < MAX_FILES"
    "\<And>b. ar_input r \<Longrightarrow> snd lim = Some b \<Longrightarrow> total_of input_bytes sc + ar_size r \<le> b"
    using added(4)
    by (cases lim; auto simp: over_limit_def input_bytes_def [abs_def] not_le
        length_filter_total [of "\<lambda>a. \<not> ar_input a"])+
  have "scope_ok (dict_set ref r sc) lim"
    using lim within(1,3,4) f
    by (auto simp: scope_ok_def dict_ok_set length_dict_set_fresh total_of_fresh input_bytes_def)
  moreover have "accounted st' = accounted (reclaim st) + ar_size r"
    using total_of_set [of "st_scopes st" rid sc "total_of ar_size" "dict_set ref r sc"] added(2,5) q f
    by (simp add: accounted_def quotas_def total_of_fresh)
  ultimately show ?thesis
    using q' within(2) added(3,5) by (cases lim) (auto simp: quotas_def dict_ok_set dict_get_set)
qed

lemma rec_at_add:
  assumes "add_artifact ref rid r st = (Inr ref', st')"
  shows "ref' = ref \<and> rec_at st' = (\<lambda>a b. if a = rid \<and> b = ref then Some r else rec_at st a b) \<and>
    st_fs st' = st_fs st \<and> (\<forall>p. dict_get (st_retained st) p = None \<longrightarrow> dict_get (st_retained st') p = None)"
  using assms
  by (cases rule: add_cases) (auto simp: rec_at_def fun_eq_iff dict_get_set retained_reclaim split: option.splits)

lemma add_refused: "add_artifact ref rid r st = (Inl e, st') \<Longrightarrow> st' = reclaim st"
  by (erule add_cases) simp_all

section \<open>Ending a request\<close>

text \<open>What ending a list of records changes: the total gives back what is not retained, and only the
  files and retained entries of those records are touched.\<close>

definition ended :: "artifact list \<Rightarrow> artifact_store \<Rightarrow> artifact_store \<Rightarrow> bool" where
  "ended as st st' \<longleftrightarrow>
     st_scopes st' = st_scopes st \<and> st_limits st' = st_limits st \<and> dict_ok (st_retained st') \<and>
     st_total st' + int (sum_list (map ar_size as)) + int (total_of id (st_retained st)) =
       st_total st + int (total_of id (st_retained st')) \<and>
     total_of id (st_retained st') \<le> total_of id (st_retained st) + sum_list (map ar_size as) \<and>
     fs_node (st_fs st') = fs_node (st_fs st) \<and>
     (\<forall>p. p \<notin> ar_path ` set as \<longrightarrow> fs_link (st_fs st') p = fs_link (st_fs st) p \<and>
        dict_get (st_retained st') p = dict_get (st_retained st) p) \<and>
     (\<forall>a\<in>set as. \<not> ar_input a \<longrightarrow>
        fs_link (st_fs st') (ar_path a) = (if ar_complete a \<and> ar_used a then fs_link (st_fs st) (ar_path a) else None))"

lemma end_record_ok:
  assumes "\<not> ar_input a \<Longrightarrow> fs_link (st_fs st) (ar_path a) \<noteq> None \<and> dict_get (st_retained st) (ar_path a) = None"
    and "dict_ok (st_retained st)"
  shows "\<exists>st'. end_record a st = (Inr (), st') \<and> ended [a] st st'"
proof (cases "\<not> ar_input a \<and> ar_complete a \<and> ar_used a")
  case True
  then show ?thesis
    using assms by (simp add: end_record_def ended_def dict_ok_set total_of_fresh)
next
  case False
  then show ?thesis
    using assms by (cases "ar_input a") (auto simp: end_record_def ended_def Let_def unlink_def)
qed

lemma end_records_ok:
  assumes "\<forall>a\<in>set as. \<not> ar_input a \<longrightarrow>
      fs_link (st_fs st) (ar_path a) \<noteq> None \<and> dict_get (st_retained st) (ar_path a) = None"
    and "distinct (map ar_path (filter (\<lambda>a. \<not> ar_input a) as))"
    and "\<forall>a\<in>set as. \<forall>b\<in>set as. \<not> ar_input a \<longrightarrow> ar_input b \<longrightarrow> ar_path a \<noteq> ar_path b"
    and "dict_ok (st_retained st)"
  shows "\<exists>st'. end_records as st = (Inr (), st') \<and> ended as st st'"
  using assms
proof (induction as arbitrary: st)
  case Nil
  then show ?case by (simp add: ended_def)
next
  case (Cons a as)
  obtain st1 where st1: "end_record a st = (Inr (), st1)" "ended [a] st st1"
    using end_record_ok [of a st] Cons.prems(1,4) by auto
  have other: "ar_path b \<noteq> ar_path a" if "b \<in> set as" "\<not> ar_input b" for b
    using Cons.prems(2,3) that by (cases "ar_input a") (auto simp: image_iff)
  have dist: "distinct (map ar_path (filter (\<lambda>a. \<not> ar_input a) as))"
    using Cons.prems(2) by (cases "ar_input a") simp_all
  have "\<exists>st'. end_records as st1 = (Inr (), st') \<and> ended as st1 st'"
  proof (rule Cons.IH [OF _ dist])
    show "\<forall>b\<in>set as. \<not> ar_input b \<longrightarrow>
        fs_link (st_fs st1) (ar_path b) \<noteq> None \<and> dict_get (st_retained st1) (ar_path b) = None"
      using Cons.prems(1) st1(2) other by (simp add: ended_def)
    show "\<forall>b\<in>set as. \<forall>c\<in>set as. \<not> ar_input b \<longrightarrow> ar_input c \<longrightarrow> ar_path b \<noteq> ar_path c"
      using Cons.prems(3) by simp
    show "dict_ok (st_retained st1)" using st1(2) by (simp add: ended_def)
  qed
  then obtain st' where st': "end_records as st1 = (Inr (), st')" "ended as st1 st'" by blast
  have "ar_path a \<notin> ar_path ` set as" if "\<not> ar_input a"
    using Cons.prems(2,3) that by (force simp: image_iff)
  then have "ended (a # as) st st'"
    using st1(2) st'(2) other unfolding ended_def by (auto simp: algebra_simps)
  moreover have "end_records (a # as) st = (Inr (), st')" using st1(1) st'(1) by (simp add: bind_s_Inr)
  ultimately show ?case by blast
qed

lemma distinct_values:
  assumes "dict_ok d" and "\<And>k v k' v'. dict_get d k = Some v \<Longrightarrow> dict_get d k' = Some v' \<Longrightarrow>
      P v \<Longrightarrow> P v' \<Longrightarrow> f v = f v' \<Longrightarrow> k = k'"
  shows "distinct (map f (filter P (dict_values d)))"
  using assms
proof (induction d)
  case (Cons p d)
  obtain k v where p: "p = (k, v)" by (cases p)
  have ok: "dict_ok d" "dict_get d k = None"
    using Cons.prems(1) by (auto simp: p dict_ok_def dict_get_None_iff dict_keys_def)
  have get: "dict_get (p # d) k' = Some v'" if "dict_get d k' = Some v'" for k' v'
    using that ok(2) by (auto simp: p)
  have "distinct (map f (filter P (dict_values d)))"
    using Cons.prems(2) get by (intro Cons.IH [OF ok(1)]) blast
  moreover have "f v \<noteq> f v'" if "v' \<in> set (dict_values d)" "P v" "P v'" for v'
  proof
    assume eq: "f v = f v'"
    from that(1) obtain k' where "(k', v') \<in> set d" by (auto simp: dict_values_def)
    then have k': "dict_get d k' = Some v'" by (rule dict_in_get [OF ok(1)])
    have "dict_get (p # d) k = Some v" by (simp add: p)
    from Cons.prems(2) [OF this get [OF k'] that(2,3) eq] k' ok(2) show False by simp
  qed
  ultimately show ?case by (auto simp: p dict_values_def)
qed (simp add: dict_values_def)

lemma end_request_ok:
  assumes q: "quotas st" and g: "staged st"
  shows "\<exists>st'. end_request rid st = (Inr (), st') \<and> quotas st' \<and> staged st' \<and>
    rec_at st' = (\<lambda>r f. if r = rid then None else rec_at st r f) \<and> fs_node (st_fs st') = fs_node (st_fs st) \<and>
    (\<forall>ref a. upload_at st rid ref a \<longrightarrow> fs_link (st_fs st') (ar_path a) =
       (if ar_complete a \<and> ar_used a then Some (ar_node a) else None)) \<and> dict_get (st_scopes st') rid = None"
proof -
  let ?st0 = "st\<lparr>st_limits := dict_pop rid (st_limits st), st_scopes := dict_pop rid (st_scopes st)\<rparr>"
  define as where "as = (case dict_get (st_scopes st) rid of None \<Rightarrow> [] | Some sc \<Rightarrow> dict_values sc)"
  have recs: "\<exists>ref. rec_at st rid ref = Some a" if "a \<in> set as" for a
  proof -
    from that obtain sc where sc: "dict_get (st_scopes st) rid = Some sc" "a \<in> set (dict_values sc)"
      by (cases "dict_get (st_scopes st) rid") (auto simp: as_def)
    then have "dict_ok sc" using q unfolding quotas_def scope_ok_def by blast
    moreover obtain k where "(k, a) \<in> set sc" using sc(2) by (auto simp: dict_values_def)
    ultimately have "dict_get sc k = Some a" by (rule dict_in_get)
    then show ?thesis using sc(1) by (auto simp: rec_at_def)
  qed
  have "\<exists>st'. end_records as ?st0 = (Inr (), st') \<and> ended as ?st0 st'"
  proof (rule end_records_ok)
    show "\<forall>a\<in>set as. \<not> ar_input a \<longrightarrow>
        fs_link (st_fs ?st0) (ar_path a) \<noteq> None \<and> dict_get (st_retained ?st0) (ar_path a) = None"
      using recs g by (force simp: staged_def upload_at_def)
    show "\<forall>a\<in>set as. \<forall>b\<in>set as. \<not> ar_input a \<longrightarrow> ar_input b \<longrightarrow> ar_path a \<noteq> ar_path b"
      using recs g unfolding staged_def upload_at_def by (metis option.inject)
    show "distinct (map ar_path (filter (\<lambda>a. \<not> ar_input a) as))"
    proof (cases "dict_get (st_scopes st) rid")
      case (Some sc)
      then have "dict_ok sc" using q unfolding quotas_def scope_ok_def by blast
      moreover have "k = k'" if "dict_get sc k = Some v" "dict_get sc k' = Some v'"
        "\<not> ar_input v" "\<not> ar_input v'" "ar_path v = ar_path v'" for k v k' v'
        using staged_unique [OF g, of rid k v rid k' v'] that Some by (simp add: upload_at_def rec_at_def)
      ultimately show ?thesis by (simp add: as_def Some distinct_values)
    qed (simp add: as_def)
    show "dict_ok (st_retained ?st0)" using q by (simp add: quotas_def)
  qed
  then obtain st' where st': "end_request rid st = (Inr (), st')" "ended as ?st0 st'"
    by (auto simp: end_request_def as_def)
  have sum: "total_of (total_of ar_size) (dict_pop rid (st_scopes st)) + sum_list (map ar_size as) =
      total_of (total_of ar_size) (st_scopes st)"
  proof (cases "dict_get (st_scopes st) rid")
    case None
    then show ?thesis by (simp add: as_def total_of_absent)
  next
    case (Some sc)
    have "sum_list (map ar_size (dict_values sc)) = total_of ar_size sc"
      by (simp add: total_of_def dict_values_def comp_def)
    then show ?thesis using total_of_pop [OF _ Some, of "total_of ar_size"] q by (simp add: as_def Some quotas_def)
  qed
  have rec: "rec_at st' = (\<lambda>r f. if r = rid then None else rec_at st r f)"
    using st'(2) by (auto simp: ended_def rec_at_def fun_eq_iff dict_get_pop)
  have "quotas st'"
    using q sum st'(2) unfolding quotas_def ended_def accounted_def
    by (auto simp: dict_ok_pop dict_get_pop split: if_splits)
  moreover have "staged st'"
    unfolding staged_def
  proof (intro allI impI)
    fix r f a
    assume "upload_at st' r f a"
    then have a: "r \<noteq> rid" "upload_at st r f a" by (auto simp: upload_at_def rec split: if_splits)
    have "ar_path a \<notin> ar_path ` set as"
      using recs a g unfolding staged_def by (metis imageE)
    then show "fs_link (st_fs st') (ar_path a) = Some (ar_node a) \<and> dict_get (st_retained st') (ar_path a) = None \<and>
      (\<forall>rid' ref' b. rec_at st' rid' ref' = Some b \<longrightarrow>
        ar_path b = ar_path a \<or> \<not> ar_input b \<and> ar_node b = ar_node a \<longrightarrow> rid' = r \<and> ref' = f)"
      using a(2) g st'(2) by (auto simp: staged_def ended_def rec split: if_splits)
  qed
  moreover have "fs_node (st_fs st') = fs_node (st_fs st)" using st'(2) by (simp add: ended_def)
  moreover have "fs_link (st_fs st') (ar_path a) = (if ar_complete a \<and> ar_used a then Some (ar_node a) else None)"
    if up: "upload_at st rid ref a" for ref a
  proof -
    from up obtain sc where "dict_get (st_scopes st) rid = Some sc" "dict_get sc ref = Some a"
      by (auto simp: upload_at_def rec_at_def split: option.splits)
    then have "a \<in> set as" by (auto simp: as_def dict_values_def dict_get_def dest: map_of_SomeD intro: rev_image_eqI)
    then show ?thesis using up g st'(2) by (auto simp: ended_def staged_def upload_at_def)
  qed
  moreover have "dict_get (st_scopes st') rid = None" using st'(2) by (simp add: ended_def dict_get_pop)
  ultimately show ?thesis using st'(1) rec by blast
qed

section \<open>Uploads\<close>

text \<open>The handle a request names.\<close>

definition params_ref :: "pyval \<Rightarrow> pyval option" where
  "params_ref v = (case v of PDict d \<Rightarrow> Some (pget_or PNone ''reader_ref'' d) | _ \<Rightarrow> None)"

lemma find_upload_found:
  assumes "find_upload rid v st = Inr (ref, a)"
  shows "upload_at st rid ref a \<and> v = PStr ref"
proof -
  from assms obtain sc where sc: "dict_get (st_scopes st) rid = Some sc" "ident v = Inr ref"
    "dict_get sc ref = Some a" "\<not> ar_input a"
    by (auto simp: find_upload_def lookup_ref_def bind_r_def split: option.splits sum.splits if_splits)
  then show ?thesis
    by (auto simp: upload_at_def rec_at_def ident_def split: pyval.splits if_splits)
qed

lemma write_all_done: "write_all ws data = (out, None) \<Longrightarrow> out = data"
  by (induction ws data arbitrary: out rule: write_all.induct) (auto split: if_splits prod.splits)

lemma write_all_clean: "None \<notin> set ws \<Longrightarrow> Some 0 \<notin> set ws \<Longrightarrow> write_all ws data = (data, None)"
  by (induction ws data rule: write_all.induct) (auto split: prod.splits)

lemma put_upload:
  assumes "upload_at st rid ref a" and "\<not> ar_input a'"
  shows "upload_at (put_record rid ref a' st) r f b \<longleftrightarrow> (if r = rid \<and> f = ref then b = a' else upload_at st r f b)"
  using assms by (auto simp: upload_at_def rec_at_put)

lemma staged_put:
  assumes g: "staged st" and a: "upload_at st rid ref a"
    and same: "\<not> ar_input a'" "ar_path a' = ar_path a" "ar_node a' = ar_node a"
  shows "staged (put_record rid ref a' st)"
proof -
  have rec: "rec_at st rid ref = Some a" using a by (simp add: upload_at_def)
  have owner: "\<exists>b0. rec_at st r f = Some b0 \<and> ar_path b0 = ar_path b \<and> ar_node b0 = ar_node b \<and> ar_input b0 = ar_input b"
    if "rec_at (put_record rid ref a' st) r f = Some b" for r f b
    using that a same by (auto simp: rec_at_put [OF rec] upload_at_def split: if_splits)
  show ?thesis
    unfolding staged_def
  proof (intro allI impI)
    fix r f b
    assume b: "upload_at (put_record rid ref a' st) r f b"
    then obtain b0 where b0: "upload_at st r f b0" "ar_path b0 = ar_path b" "ar_node b0 = ar_node b"
      using owner [of r f b] unfolding upload_at_def by metis
    show "fs_link (st_fs (put_record rid ref a' st)) (ar_path b) = Some (ar_node b) \<and>
      dict_get (st_retained (put_record rid ref a' st)) (ar_path b) = None \<and>
      (\<forall>rid' ref' c. rec_at (put_record rid ref a' st) rid' ref' = Some c \<longrightarrow>
         ar_path c = ar_path b \<or> \<not> ar_input c \<and> ar_node c = ar_node b \<longrightarrow> rid' = r \<and> ref' = f)"
      using g b0 owner unfolding staged_def by (metis put_record_frame(2,4))
  qed
qed

lemma find_upload_rejects: "find_upload rid v st = Inl e \<Longrightarrow> \<exists>m. e = WireError m"
  by (auto simp: find_upload_def lookup_ref_def bind_r_Inl_iff ident_def
      split: option.splits pyval.splits if_splits)

text \<open>A chunk is refused and nothing changes, or the loop wrote some of it and, when it wrote all, the
  record moves on.\<close>

lemma chunk_cases:
  assumes "upload_chunk unb64 ws rid params st = (res, st')"
  obtains (rejected) m where "res = Inl (WireError m)" "st' = st"
  | (failed) ref a data out e where "upload_at st rid ref a" "write_all ws data = (out, Some e)" "res = Inl e"
      "params_ref params = Some (PStr ref)"
      "st' = st\<lparr>st_fs := append_file (ar_node a) out (st_fs st)\<rparr>"
  | (stored) ref a data where "upload_at st rid ref a" "\<not> ar_complete a" "ar_written a + length data \<le> ar_size a"
      "write_all ws data = (data, None)" "params_ref params = Some (PStr ref)"
      "res = Inr [(PStr ''reader_ref'', PStr ref), (PStr ''written'', PInt (int (ar_written a + length data)))]"
      "st' = put_record rid ref (a\<lparr>ar_hashed := ar_hashed a @ data, ar_written := ar_written a + length data\<rparr>)
         (st\<lparr>st_fs := append_file (ar_node a) data (st_fs st)\<rparr>)"
proof -
  define chosen where "chosen = bind_r (object_fields [''reader_ref'', ''offset'', ''data_base64'']
             [''reader_ref'', ''offset'', ''data_base64''] params) (\<lambda>d.
           bind_r (find_upload rid (pget_or PNone ''reader_ref'' d) st) (\<lambda>(ref, a).
           if ar_complete a then Inl (WireError ''invalid_offset'')
           else bind_r (integer (pget_or PNone ''offset'' d) (ar_size a)) (\<lambda>offset.
             if offset \<noteq> ar_written a then Inl (WireError ''invalid_offset'')
             else bind_r (chunk_data unb64 (pget_or PNone ''data_base64'' d) a) (\<lambda>data. Inr (ref, a, data)))))"
  show ?thesis
  proof (cases chosen)
    case (Inl e)
    then have "res = Inl e" "st' = st" using assms by (simp_all add: upload_chunk_def chosen_def)
    moreover have "\<exists>m. e = WireError m"
      using Inl unfolding chosen_def
      by (auto simp: bind_r_Inl_iff object_fields_def find_upload_rejects integer_def chunk_data_def
          split: pyval.splits if_splits option.splits prod.splits)
    ultimately show ?thesis using rejected by blast
  next
    case (Inr t)
    obtain ref a data where t: "t = (ref, a, data)" by (cases t)
    have sel: "upload_at st rid ref a" "\<not> ar_complete a" "ar_written a + length data \<le> ar_size a"
      "params_ref params = Some (PStr ref)"
      using Inr unfolding t chosen_def
      by (auto simp: bind_r_def chunk_data_def object_fields_def params_ref_def
          split: sum.splits if_splits prod.splits pyval.splits option.splits dest!: find_upload_found)
    obtain out err where w: "write_all ws data = (out, err)" by (cases "write_all ws data")
    have eq: "upload_chunk unb64 ws rid params st =
        (case err of
           Some e \<Rightarrow> (Inl e, st\<lparr>st_fs := append_file (ar_node a) out (st_fs st)\<rparr>)
         | None \<Rightarrow>
             (Inr [(PStr ''reader_ref'', PStr ref), (PStr ''written'', PInt (int (ar_written a + length data)))],
              put_record rid ref (a\<lparr>ar_hashed := ar_hashed a @ data, ar_written := ar_written a + length data\<rparr>)
                (st\<lparr>st_fs := append_file (ar_node a) out (st_fs st)\<rparr>)))"
      using Inr by (simp add: upload_chunk_def chosen_def [symmetric] t w Let_def split: option.splits)
    show ?thesis
    proof (cases err)
      case None
      then have "out = data" using w write_all_done by blast
      with None eq assms sel w stored show ?thesis by auto
    next
      case (Some e)
      with eq assms sel(1,4) w failed show ?thesis by auto
    qed
  qed
qed

lemma named_upload:
  assumes "bind_r (object_fields [''reader_ref''] [''reader_ref''] v)
      (\<lambda>d. bind_r (find_upload rid (pget_or PNone ''reader_ref'' d) st) k) = Inr y"
  obtains ref a where "upload_at st rid ref a" "params_ref v = Some (PStr ref)" "k (ref, a) = Inr y"
proof -
  from assms obtain d where d: "v = PDict d" "bind_r (find_upload rid (pget_or PNone ''reader_ref'' d) st) k = Inr y"
    by (auto simp: bind_r_def object_fields_def split: sum.splits pyval.splits if_splits)
  from d(2) obtain p where p: "find_upload rid (pget_or PNone ''reader_ref'' d) st = Inr p" "k p = Inr y"
    by (auto simp: bind_r_def split: sum.splits)
  obtain ref a where "p = (ref, a)" by (cases p)
  with p d(1) find_upload_found [of rid "pget_or PNone ''reader_ref'' d" st ref a] show ?thesis
    by (intro that [of ref a]) (auto simp: params_ref_def)
qed

lemma finish_cases:
  assumes "upload_finish sha rid params st = (res, st')"
  obtains (rejected) e where "res = Inl e" "st' = st"
  | (accepted) ref a where "upload_at st rid ref a" "ar_written a = ar_size a" "sha (ar_hashed a) = ar_digest a"
      "st' = put_record rid ref (a\<lparr>ar_complete := True\<rparr>) st" "params_ref params = Some (PStr ref)"
proof -
  define chosen where "chosen = bind_r (object_fields [''reader_ref''] [''reader_ref''] params) (\<lambda>d.
           bind_r (find_upload rid (pget_or PNone ''reader_ref'' d) st) (\<lambda>(ref, a).
           if ar_written a \<noteq> ar_size a \<or> sha (ar_hashed a) \<noteq> ar_digest a
           then Inl (WireError ''artifact_hash_mismatch'') else Inr (ref, a)))"
  show ?thesis
  proof (cases chosen)
    case (Inl e)
    then have "res = Inl e" "st' = st" using assms by (simp_all add: upload_finish_def chosen_def)
    then show ?thesis by (rule rejected)
  next
    case (Inr p)
    then have "st' = (case p of (ref, a) \<Rightarrow> put_record rid ref (a\<lparr>ar_complete := True\<rparr>) st)"
      using assms unfolding upload_finish_def chosen_def [symmetric] by (auto split: prod.splits)
    with Inr show ?thesis
      unfolding chosen_def by (elim named_upload) (auto split: if_splits intro: accepted)
  qed
qed

lemma resolve_cases:
  assumes "resolve rid v st = (res, st')"
  obtains (rejected) e where "res = Inl e" "st' = st"
  | (resolved) ref a where "upload_at st rid ref a" "ar_complete a" "params_ref v = Some (PStr ref)"
      "res = Inr ((ar_attachment a)\<lparr>ba_size_bytes := ar_size a, ba_artifact_ref := [],
          ba_local_path := Some (ar_path a), ba_owned := True, ba_provider_id := None,
          ba_sha256 := Some (ar_digest a), ba_reader_ref := Some ref\<rparr>)"
      "st' = put_record rid ref (a\<lparr>ar_used := True\<rparr>) st"
proof -
  define chosen where "chosen = bind_r (object_fields [''reader_ref''] [''reader_ref''] v) (\<lambda>d.
           bind_r (find_upload rid (pget_or PNone ''reader_ref'' d) st) (\<lambda>(ref, a).
           if \<not> ar_complete a then Inl (WireError ''incomplete_artifact'') else Inr (ref, a)))"
  show ?thesis
  proof (cases chosen)
    case (Inl e)
    then have "res = Inl e" "st' = st" using assms by (simp_all add: resolve_def chosen_def)
    then show ?thesis by (rule rejected)
  next
    case (Inr p)
    then have "(res, st') = (case p of (ref, a) \<Rightarrow>
        (Inr ((ar_attachment a)\<lparr>ba_size_bytes := ar_size a, ba_artifact_ref := [],
          ba_local_path := Some (ar_path a), ba_owned := True, ba_provider_id := None,
          ba_sha256 := Some (ar_digest a), ba_reader_ref := Some ref\<rparr>),
         put_record rid ref (a\<lparr>ar_used := True\<rparr>) st))"
      using assms by (auto simp: resolve_def chosen_def [symmetric] split: prod.splits)
    with Inr show ?thesis
      unfolding chosen_def by (elim named_upload) (auto split: if_splits intro: resolved)
  qed
qed

lemma upload_begin_cases:
  assumes "upload_begin ref path node rid params st = (res, st')"
  obtains (rejected) e where "res = Inl e" "st' = st"
  | (refused) e where "res = Inl e"
      "st' = (let st1 = reclaim (st\<lparr>st_fs := mkstemp path node (st_fs st)\<rparr>)
              in st1\<lparr>st_fs := unlink path (st_fs st1)\<rparr>)"
  | (opened) r a where "res = Inr [(PStr ''reader_ref'', PStr r)]"
      "add_artifact ref rid a (st\<lparr>st_fs := mkstemp path node (st_fs st)\<rparr>) = (Inr r, st')"
      "ar_node a = node" "ar_path a = path" "\<not> ar_input a" "ar_size a \<le> MAX_ARTIFACT" "ar_written a = 0"
      "ar_hashed a = []" "\<not> ar_complete a"
proof -
  define chosen where "chosen = bind_r (object_fields [''kind'', ''filename'', ''mime_type'', ''size_bytes'', ''sha256'']
             [''kind'', ''filename'', ''size_bytes'', ''sha256''] params) (\<lambda>d.
           bind_r (integer (pget_or PNone ''size_bytes'' d) MAX_ARTIFACT) (\<lambda>nbytes.
           bind_r (digest_text (pget_or PNone ''sha256'' d)) (\<lambda>digest.
           bind_r (new_attachment (pget_or PNone ''kind'' d) (pget_or PNone ''filename'' d)
               (pget_or (PStr ''application/octet-stream'') ''mime_type'' d) nbytes) (\<lambda>att.
           Inr (nbytes, digest, att)))))"
  show ?thesis
  proof (cases chosen)
    case (Inl e)
    then have "res = Inl e" "st' = st" using assms by (simp_all add: upload_begin_def chosen_def)
    then show ?thesis by (rule rejected)
  next
    case (Inr t)
    obtain nbytes digest att where t: "t = (nbytes, digest, att)" by (cases t)
    have small: "nbytes \<le> MAX_ARTIFACT"
      using Inr unfolding t chosen_def
      by (auto simp: bind_r_def integer_def split: sum.splits pyval.splits if_splits)
    define a where "a = \<lparr>ar_node = node, ar_path = path, ar_size = nbytes, ar_digest = digest, ar_input = False,
                   ar_owned = False, ar_info = (0, 0), ar_written = 0, ar_hashed = [], ar_complete = False,
                   ar_used = False, ar_attachment = att\<rparr>"
    obtain out st2 where add: "add_artifact ref rid a (st\<lparr>st_fs := mkstemp path node (st_fs st)\<rparr>) = (out, st2)"
      by (cases "add_artifact ref rid a (st\<lparr>st_fs := mkstemp path node (st_fs st)\<rparr>)")
    show ?thesis
    proof (cases out)
      case (Inl e)
      then have "st2 = reclaim (st\<lparr>st_fs := mkstemp path node (st_fs st)\<rparr>)" using add add_refused by blast
      with Inl have "res = Inl e" "st' = (let st1 = reclaim (st\<lparr>st_fs := mkstemp path node (st_fs st)\<rparr>)
              in st1\<lparr>st_fs := unlink path (st_fs st1)\<rparr>)"
        using assms add \<open>chosen = Inr t\<close>
        by (simp_all add: upload_begin_def chosen_def [symmetric] t a_def [symmetric])
      then show ?thesis by (rule refused)
    next
      case (Inr r)
      then have "res = Inr [(PStr ''reader_ref'', PStr r)]" "st' = st2"
        using assms add \<open>chosen = Inr t\<close>
        by (simp_all add: upload_begin_def chosen_def [symmetric] t a_def [symmetric])
      then show ?thesis using opened [of r a] add Inr small by (simp add: a_def)
    qed
  qed
qed

section \<open>Runs\<close>

lemma register_cases:
  assumes "register sha ref fs0 fs1 got fs2 rid att st = (res, st')"
  obtains (rejected) e where "res = Inl e" "st' = st"
  | (tried) a out where "add_artifact ref rid a st = (out, st')" "ar_input a" "ba_local_path att = Some (ar_path a)"
proof (cases "st' = st \<and> (\<exists>e. res = Inl e)")
  case True
  with rejected show ?thesis by blast
next
  case False
  then show ?thesis
    using assms tried
    by (auto simp: register_def Let_def bind_s_def ret_s_def split: option.splits if_splits sum.splits prod.splits)
qed

definition new_store :: "fsys \<Rightarrow> artifact_store" where
  "new_store fs = \<lparr>st_scopes = [], st_limits = [], st_retained = [], st_total = 0, st_fs = fs\<rparr>"

text \<open>
  The stores a runner reaches. Handles are fresh within their request, a local path offered as input
  is not a staged upload, and \<open>mkstemp\<close> picks a name nobody uses and an inode that is not open as an
  upload. Other programs may change any file but the staged uploads, which lie in the runner's private
  directory. With \<open>clean\<close> no \<open>os.write\<close> fails.
\<close>

inductive store_run ::
  "(bytes \<Rightarrow> string) \<Rightarrow> (string \<Rightarrow> bytes option) \<Rightarrow> bool \<Rightarrow> artifact_store \<Rightarrow> bool"
  for sha unb64 clean where
  start: "store_run sha unb64 clean (new_store fs)"
| begins: "store_run sha unb64 clean st \<Longrightarrow> begin_request rid m b st = (res, st') \<Longrightarrow> store_run sha unb64 clean st'"
| registers: "store_run sha unb64 clean st \<Longrightarrow> rec_at st rid ref = None \<Longrightarrow>
    (\<forall>p. ba_local_path att = Some p \<longrightarrow> (\<forall>r f a. upload_at st r f a \<longrightarrow> ar_path a \<noteq> p)) \<Longrightarrow>
    register sha ref fs0 fs1 got fs2 rid att st = (res', st') \<Longrightarrow> store_run sha unb64 clean st'"
| opens: "store_run sha unb64 clean st \<Longrightarrow> rec_at st rid ref = None \<Longrightarrow> fs_link (st_fs st) path = None \<Longrightarrow>
    dict_get (st_retained st) path = None \<Longrightarrow>
    (\<forall>r f a. rec_at st r f = Some a \<longrightarrow> ar_path a \<noteq> path \<and> (\<not> ar_input a \<longrightarrow> ar_node a \<noteq> node)) \<Longrightarrow>
    upload_begin ref path node rid params st = (res'', st') \<Longrightarrow> store_run sha unb64 clean st'"
| chunks: "store_run sha unb64 clean st \<Longrightarrow> (clean \<longrightarrow> None \<notin> set ws \<and> Some 0 \<notin> set ws) \<Longrightarrow>
    upload_chunk unb64 ws rid params st = (res'', st') \<Longrightarrow> store_run sha unb64 clean st'"
| finishes: "store_run sha unb64 clean st \<Longrightarrow> upload_finish sha rid params st = (res'', st') \<Longrightarrow>
    store_run sha unb64 clean st'"
| resolves: "store_run sha unb64 clean st \<Longrightarrow> resolve rid params st = (res3, st') \<Longrightarrow> store_run sha unb64 clean st'"
| ends: "store_run sha unb64 clean st \<Longrightarrow> end_request rid st = (res, st') \<Longrightarrow> store_run sha unb64 clean st'"
| outside: "store_run sha unb64 clean st \<Longrightarrow>
    (\<forall>r f a. upload_at st r f a \<longrightarrow> fs_link fs (ar_path a) = Some (ar_node a) \<and>
       nd_data (fs_node fs (ar_node a)) = nd_data (fs_node (st_fs st) (ar_node a))) \<Longrightarrow>
    store_run sha unb64 clean (st\<lparr>st_fs := fs\<rparr>)"

definition store_ok :: "(bytes \<Rightarrow> string) \<Rightarrow> bool \<Rightarrow> artifact_store \<Rightarrow> bool" where
  "store_ok sha clean st \<longleftrightarrow> quotas st \<and> staged st \<and> verified sha st \<and> (clean \<longrightarrow> intact st)"

lemma store_ok_frame:
  assumes ok: "store_ok sha clean st" and q: "quotas st'" and rec: "\<And>r f. rec_at st' r f = rec_at st r f"
    and ret: "\<And>p. dict_get (st_retained st) p = None \<Longrightarrow> dict_get (st_retained st') p = None"
    and fs: "\<And>r f a. upload_at st r f a \<Longrightarrow> fs_link (st_fs st') (ar_path a) = Some (ar_node a) \<and>
       (clean \<longrightarrow> nd_data (fs_node (st_fs st') (ar_node a)) = nd_data (fs_node (st_fs st) (ar_node a)))"
  shows "store_ok sha clean st'"
proof -
  have up: "upload_at st' r f a = upload_at st r f a" for r f a by (simp add: upload_at_def rec)
  show ?thesis
    using ok q ret fs by (simp add: store_ok_def staged_def verified_def intact_def up rec)
qed

lemma store_ok_put:
  assumes ok: "store_ok sha clean st" and a: "upload_at st rid ref a"
    and same: "\<not> ar_input a'" "ar_path a' = ar_path a" "ar_node a' = ar_node a" "ar_size a' = ar_size a"
    and good: "ar_written a' \<le> ar_size a'" "length (ar_hashed a') = ar_written a'"
      "ar_complete a' \<Longrightarrow> ar_written a' = ar_size a' \<and> sha (ar_hashed a') = ar_digest a'"
    and data: "clean \<Longrightarrow> ar_hashed a' = ar_hashed a"
  shows "store_ok sha clean (put_record rid ref a' st)"
proof -
  have rec: "rec_at st rid ref = Some a" "\<not> ar_input a" using a by (auto simp: upload_at_def)
  have "quotas (put_record rid ref a' st)"
    using ok rec same by (intro quotas_put [of st rid ref a]) (simp_all add: store_ok_def)
  moreover have "staged (put_record rid ref a' st)"
    using ok a same by (intro staged_put) (simp_all add: store_ok_def)
  moreover have "verified sha (put_record rid ref a' st)"
    using ok a same good by (auto simp: store_ok_def verified_def put_upload [OF a same(1)])
  moreover have "clean \<longrightarrow> intact (put_record rid ref a' st)"
    using ok a same data by (auto simp: store_ok_def intact_def put_upload [OF a same(1)])
  ultimately show ?thesis by (simp add: store_ok_def)
qed

lemma store_ok_add:
  assumes ok: "store_ok sha clean st" and add: "add_artifact ref rid r st = (res, st')"
    and fresh: "rec_at st rid ref = None"
    and up: "\<not> ar_input r \<Longrightarrow> fs_link (st_fs st) (ar_path r) = Some (ar_node r) \<and>
       dict_get (st_retained st) (ar_path r) = None \<and> ar_size r \<le> MAX_ARTIFACT \<and> ar_written r = 0 \<and>
       ar_hashed r = [] \<and> \<not> ar_complete r \<and> nd_data (fs_node (st_fs st) (ar_node r)) = [] \<and>
       (\<forall>q f a. rec_at st q f = Some a \<longrightarrow> ar_path a \<noteq> ar_path r \<and> (\<not> ar_input a \<longrightarrow> ar_node a \<noteq> ar_node r))"
    and input: "\<forall>q f a. upload_at st q f a \<longrightarrow> ar_path a \<noteq> ar_path r"
  shows "store_ok sha clean st'"
proof (cases res)
  case (Inl e)
  then have "st' = reclaim st" using add add_refused by blast
  then show ?thesis
    using ok by (intro store_ok_frame [OF ok]) (auto simp: store_ok_def quotas_reclaim retained_reclaim staged_def)
next
  case (Inr ref')
  note a = rec_at_add [OF add [unfolded Inr]]
  have "quotas st'" using ok by (intro quotas_add [OF _ add fresh]) (simp add: store_ok_def)
  moreover have "staged st'"
    unfolding staged_def
  proof (intro allI impI)
    fix q f b
    assume b: "upload_at st' q f b"
    show "fs_link (st_fs st') (ar_path b) = Some (ar_node b) \<and> dict_get (st_retained st') (ar_path b) = None \<and>
      (\<forall>rid' ref' c. rec_at st' rid' ref' = Some c \<longrightarrow>
         ar_path c = ar_path b \<or> \<not> ar_input c \<and> ar_node c = ar_node b \<longrightarrow> rid' = q \<and> ref' = f)"
    proof (cases "q = rid \<and> f = ref")
      case True
      then have "b = r" "\<not> ar_input r" using b a by (auto simp: upload_at_def)
      with up a True show ?thesis by auto
    next
      case False
      then have old: "upload_at st q f b" using b a by (auto simp: upload_at_def)
      have "\<not> (ar_path r = ar_path b \<or> \<not> ar_input r \<and> ar_node r = ar_node b)"
        using old input up unfolding upload_at_def by metis
      with old ok a show ?thesis by (auto simp: store_ok_def staged_def)
    qed
  qed
  moreover have "verified sha st'"
    using ok a up by (auto simp: store_ok_def verified_def upload_at_def)
  moreover have "clean \<longrightarrow> intact st'"
    using ok a up by (auto simp: store_ok_def intact_def upload_at_def)
  ultimately show ?thesis by (simp add: store_ok_def)
qed

lemma quotas_new [simp]: "quotas (new_store fs)"
  by (simp add: quotas_def new_store_def dict_ok_def dict_keys_def accounted_def dict_get_def)

lemma rec_at_new [simp]: "rec_at (new_store fs) r f = None"
  by (simp add: rec_at_def new_store_def dict_get_def)

lemma rec_at_fs [simp]: "rec_at (st\<lparr>st_fs := fs\<rparr>) = rec_at st" "upload_at (st\<lparr>st_fs := fs\<rparr>) = upload_at st"
  by (simp_all add: rec_at_def upload_at_def fun_eq_iff)

lemma store_ok_new: "store_ok sha clean (new_store fs)"
  by (simp add: store_ok_def staged_def verified_def intact_def upload_at_def)

lemma store_ok_begin:
  assumes ok: "store_ok sha clean st" and run: "begin_request rid m b st = (res, st')"
  shows "store_ok sha clean st'"
proof (cases "st' = st")
  case False
  define input where "input = (if m > MAX_FILES \<and> b = None then Some INPUT_BYTES else b)"
  from False run obtain r where r: "ident rid = Inr r"
    by (cases "ident rid") (auto simp: begin_request_def)
  have st': "dict_get (st_scopes st) r = None" "m \<le> 64"
      "st' = st\<lparr>st_scopes := dict_set r [] (st_scopes st), st_limits := dict_set r (m, input) (st_limits st)\<rparr>"
    using run False unfolding begin_request_def r input_def [symmetric] by (auto split: if_splits)
  have "scope_ok [] (m, input)" using st'(2) by (simp add: scope_ok_def dict_ok_def dict_keys_def)
  moreover have "accounted st' = accounted st" using st'(1) by (simp add: st'(3) accounted_def total_of_fresh)
  ultimately have "quotas st'"
    using ok by (auto simp: store_ok_def quotas_def st'(3) dict_ok_set dict_get_set)
  then show ?thesis
  proof (rule store_ok_frame [OF ok])
    show "rec_at st' q f = rec_at st q f" for q f using st'(1) by (auto simp: st'(3) rec_at_def dict_get_set)
  qed (use ok in \<open>auto simp: st'(3) store_ok_def staged_def\<close>)
qed (use ok in simp)

lemma store_ok_append:
  assumes ok: "store_ok sha False st"
  shows "store_ok sha False (st\<lparr>st_fs := append_file n bs (st_fs st)\<rparr>)"
proof (rule store_ok_frame [OF ok])
  show "quotas (st\<lparr>st_fs := append_file n bs (st_fs st)\<rparr>)"
    using ok by (simp add: store_ok_def quotas_def accounted_def)
qed (use ok in \<open>auto simp: rec_at_def append_file_def store_ok_def staged_def\<close>)

lemma store_ok_chunk:
  assumes ok: "store_ok sha clean st" and w: "clean \<Longrightarrow> None \<notin> set ws \<and> Some 0 \<notin> set ws"
    and run: "upload_chunk unb64 ws rid params st = (res, st')"
  shows "store_ok sha clean st'"
  using run
proof (cases rule: chunk_cases)
  case (rejected e)
  then show ?thesis using ok by simp
next
  case (failed ref a data out e)
  have "\<not> clean" using failed(2) w write_all_clean [of ws data] by auto
  then show ?thesis using ok store_ok_append failed(5) by simp
next
  case (stored ref a data)
  let ?a = "a\<lparr>ar_hashed := ar_hashed a @ data, ar_written := ar_written a + length data\<rparr>"
  let ?st = "st\<lparr>st_fs := append_file (ar_node a) data (st_fs st)\<rparr>"
  have a: "upload_at ?st rid ref a" using stored(1) by (simp add: upload_at_def rec_at_def)
  have okF: "store_ok sha False ?st" using ok by (intro store_ok_append) (simp add: store_ok_def)
  have "store_ok sha False (put_record rid ref ?a ?st)"
    using stored(1-3) ok by (intro store_ok_put [OF okF a]) (auto simp: store_ok_def verified_def upload_at_def)
  moreover have "intact st'" if "clean"
    unfolding intact_def
  proof (intro allI impI)
    fix r f b
    assume "upload_at st' r f b"
    then have b: "if r = rid \<and> f = ref then b = ?a else upload_at ?st r f b"
      using put_upload [OF a, of ?a r f b] stored(1,7) by (simp add: upload_at_def)
    have all: "upload_at st r f c \<Longrightarrow> nd_data (fs_node (st_fs st) (ar_node c)) = ar_hashed c" for r f c
      using ok that by (auto simp: store_ok_def intact_def)
    show "nd_data (fs_node (st_fs st') (ar_node b)) = ar_hashed b"
    proof (cases "r = rid \<and> f = ref")
      case True
      then show ?thesis using b all [OF stored(1)] by (simp add: stored(7) append_file_def)
    next
      case False
      then have old: "upload_at st r f b" using b by (auto simp: upload_at_def rec_at_def)
      then have "ar_node b \<noteq> ar_node a"
        using ok stored(1) False unfolding store_ok_def staged_def upload_at_def by metis
      then show ?thesis using all [OF old] by (simp add: stored(7) append_file_def)
    qed
  qed
  ultimately show ?thesis using stored(7) by (simp add: store_ok_def)
qed

lemma store_ok_open:
  assumes ok: "store_ok sha clean st" and fresh: "rec_at st rid ref = None" "fs_link (st_fs st) path = None"
      "dict_get (st_retained st) path = None"
      "\<forall>r f a. rec_at st r f = Some a \<longrightarrow> ar_path a \<noteq> path \<and> (\<not> ar_input a \<longrightarrow> ar_node a \<noteq> node)"
    and run: "upload_begin ref path node rid params st = (res, st')"
  shows "store_ok sha clean st'"
proof -
  let ?st = "st\<lparr>st_fs := mkstemp path node (st_fs st)\<rparr>"
  have rec: "rec_at ?st = rec_at st" by (simp add: rec_at_def fun_eq_iff)
  have ok1: "store_ok sha clean ?st"
  proof (rule store_ok_frame [OF ok])
    show "quotas ?st" using ok by (simp add: store_ok_def quotas_def accounted_def)
  qed (use ok fresh(4) in \<open>auto simp: rec mkstemp_def store_ok_def staged_def upload_at_def\<close>)
  from run show ?thesis
  proof (cases rule: upload_begin_cases)
    case (rejected e)
    then show ?thesis using ok by simp
  next
    case (refused e)
    have r: "rec_at st' = rec_at st" "st_fs st' = unlink path (mkstemp path node (st_fs st))"
      "\<And>p. dict_get (st_retained st) p = None \<Longrightarrow> dict_get (st_retained st') p = None"
      using refused(2) by (auto simp: Let_def rec_at_def fun_eq_iff retained_reclaim)
    have "quotas (reclaim ?st)" using ok1 by (intro quotas_reclaim) (simp add: store_ok_def)
    then have "quotas st'" using refused(2) by (simp add: Let_def quotas_def accounted_def)
    then show ?thesis
    proof (rule store_ok_frame [OF ok])
    qed (use r ok fresh(4) in \<open>auto simp: mkstemp_def unlink_def store_ok_def staged_def upload_at_def\<close>)
  next
    case (opened r a)
    show ?thesis
      by (rule store_ok_add [OF ok1 opened(2)])
        (use opened fresh in \<open>auto simp: rec mkstemp_def upload_at_def\<close>)
  qed
qed

lemma store_ok_end:
  assumes ok: "store_ok sha clean st" and run: "end_request rid st = (res, st')"
  shows "store_ok sha clean st'"
proof -
  have q: "quotas st" "staged st" using ok by (auto simp: store_ok_def)
  from end_request_ok [OF this, of rid] run
  have e: "quotas st'" "staged st'" "rec_at st' = (\<lambda>r f. if r = rid then None else rec_at st r f)"
    "fs_node (st_fs st') = fs_node (st_fs st)" by auto
  have up: "upload_at st' r f a \<Longrightarrow> upload_at st r f a" for r f a
    by (simp add: upload_at_def e(3) split: if_splits)
  have "verified sha st'" using ok up unfolding store_ok_def verified_def by blast
  moreover have "clean \<longrightarrow> intact st'" using ok up unfolding store_ok_def intact_def e(4) by blast
  ultimately show ?thesis using e(1,2) by (simp add: store_ok_def)
qed

lemma store_run_ok: "store_run sha unb64 clean st \<Longrightarrow> store_ok sha clean st"
proof (induction rule: store_run.induct)
  case (start fs)
  show ?case by (rule store_ok_new)
next
  case (begins st rid m b res st')
  then show ?case by (blast intro: store_ok_begin)
next
  case (registers st rid ref att fs0 fs1 got fs2 res st')
  from registers.hyps(4) show ?case
  proof (cases rule: register_cases)
    case (tried a out)
    then show ?thesis
      using registers by (intro store_ok_add [OF registers.IH tried(1)]) auto
  qed (use registers.IH in simp)
next
  case (opens st rid ref path node params res st')
  then show ?case by (blast intro: store_ok_open)
next
  case (chunks st ws rid params res st')
  then show ?case by (blast intro: store_ok_chunk)
next
  case (finishes st rid params res st')
  from finishes.hyps(2) show ?case
  proof (cases rule: finish_cases)
    case (accepted ref a)
    then show ?thesis
      using finishes.IH
      by (simp only: accepted(4), intro store_ok_put) (auto simp: store_ok_def verified_def upload_at_def)
  qed (use finishes.IH in simp)
next
  case (resolves st rid params res st')
  from resolves.hyps(2) show ?case
  proof (cases rule: resolve_cases)
    case (resolved ref a)
    then show ?thesis
      using resolves.IH
      by (simp only: resolved(5), intro store_ok_put) (auto simp: store_ok_def verified_def upload_at_def)
  qed (use resolves.IH in simp)
next
  case (ends st rid res st')
  then show ?case by (blast intro: store_ok_end)
next
  case (outside st fs)
  have "quotas (st\<lparr>st_fs := fs\<rparr>)" using outside.IH by (simp add: store_ok_def quotas_def accounted_def)
  then show ?case
    using outside by (intro store_ok_frame [OF outside.IH]) (auto simp: rec_at_def)
qed

text \<open>Closing the store ends every request and never raises.\<close>

lemma end_all_ok:
  "store_ok sha clean st \<Longrightarrow> \<exists>st'. end_all rs st = (Inr (), st') \<and> store_ok sha clean st' \<and>
     rec_at st' = (\<lambda>r f. if r \<in> set rs then None else rec_at st r f)"
proof (induction rs arbitrary: st)
  case (Cons r rs)
  then have "quotas st" "staged st" by (auto simp: store_ok_def)
  from end_request_ok [OF this, of r] obtain st1 where st1: "end_request r st = (Inr (), st1)"
    "rec_at st1 = (\<lambda>q f. if q = r then None else rec_at st q f)" by blast
  from Cons.IH [OF store_ok_end [OF Cons.prems st1(1)]] obtain st' where
    st': "end_all rs st1 = (Inr (), st')" "store_ok sha clean st'"
      "rec_at st' = (\<lambda>q f. if q \<in> set rs then None else rec_at st1 q f)" by blast
  have "end_all (r # rs) st = (Inr (), st')" using st1(1) st'(1) by (simp add: bind_s_Inr)
  with st'(2,3) st1(2) show ?case by (auto simp: fun_eq_iff)
qed simp

lemma close_store_ok:
  assumes "store_run sha unb64 clean st"
  shows "\<exists>st'. close_store st = (Inr (), st') \<and> (\<forall>r f. rec_at st' r f = None)"
proof -
  from end_all_ok [OF store_run_ok [OF assms], of "dict_keys (st_scopes st)"] obtain st' where
    st': "close_store st = (Inr (), st')"
      "rec_at st' = (\<lambda>r f. if r \<in> set (dict_keys (st_scopes st)) then None else rec_at st r f)"
    by (auto simp: close_store_def)
  moreover have "rec_at st r f = None" if "r \<notin> set (dict_keys (st_scopes st))" for r f
    using that by (simp add: rec_at_def dict_get_None_iff [symmetric])
  ultimately show ?thesis by auto
qed

section \<open>What the handles promise\<close>

text \<open>
  C30: Quotas. However uploads, inputs, ends and deletions by providers interleave, and even when writes
  fail, the running total of the store is exactly the declared sizes of its open records and retained
  files and stays within the session limit; each request holds at most 64 files, at most 16 of them
  uploads, keeps to its input budget where it has one, and no upload takes more bytes than it declared.
\<close>

theorem artifact_quota:
  assumes "store_run sha unb64 clean st"
  shows "st_total st = int (total_of (total_of ar_size) (st_scopes st) + total_of id (st_retained st)) \<and>
    st_total st \<le> int MAX_SESSION_BYTES \<and>
    (\<forall>(rid, sc)\<in>set (st_scopes st). \<exists>m b. dict_get (st_limits st) rid = Some (m, b) \<and>
       length sc \<le> m \<and> m \<le> 64 \<and> length (filter (\<lambda>p. \<not> ar_input (snd p)) sc) \<le> MAX_FILES \<and>
       (\<forall>n. b = Some n \<longrightarrow> total_of (\<lambda>a. if ar_input a then ar_size a else 0) sc \<le> n) \<and>
       (\<forall>(ref, a)\<in>set sc. \<not> ar_input a \<longrightarrow> ar_written a \<le> ar_size a \<and> ar_size a \<le> MAX_ARTIFACT))"
proof -
  have ok: "quotas st" "verified sha st" using store_run_ok [OF assms] by (auto simp: store_ok_def)
  have "\<exists>m b. dict_get (st_limits st) rid = Some (m, b) \<and>
       length sc \<le> m \<and> m \<le> 64 \<and> length (filter (\<lambda>p. \<not> ar_input (snd p)) sc) \<le> MAX_FILES \<and>
       (\<forall>n. b = Some n \<longrightarrow> total_of (\<lambda>a. if ar_input a then ar_size a else 0) sc \<le> n) \<and>
       (\<forall>(ref, a)\<in>set sc. \<not> ar_input a \<longrightarrow> ar_written a \<le> ar_size a \<and> ar_size a \<le> MAX_ARTIFACT)"
    if mem: "(rid, sc) \<in> set (st_scopes st)" for rid sc
  proof -
    have sc: "dict_get (st_scopes st) rid = Some sc"
      using dict_in_get [OF _ mem] ok(1) by (simp add: quotas_def)
    then obtain lim where lim: "dict_get (st_limits st) rid = Some lim" "scope_ok sc lim"
      using ok(1) unfolding quotas_def by blast
    have "upload_at st rid ref a" if "(ref, a) \<in> set sc" "\<not> ar_input a" for ref a
      using dict_in_get [OF _ that(1)] lim(2) sc that(2) by (simp add: upload_at_def rec_at_def scope_ok_def)
    then have "\<forall>(ref, a)\<in>set sc. \<not> ar_input a \<longrightarrow> ar_written a \<le> ar_size a \<and> ar_size a \<le> MAX_ARTIFACT"
      using ok(2) by (force simp: verified_def)
    then show ?thesis
      using lim by (cases lim) (auto simp: scope_ok_def length_filter_total [of "\<lambda>a. \<not> ar_input a"] input_bytes_def [abs_def])
  qed
  then show ?thesis using ok(1) by (auto simp: quotas_def accounted_def)
qed

text \<open>
  C23: Delivered media is what was declared. While no write fails, an attachment that \<open>resolve\<close> hands to
  a provider names a file whose content has exactly the declared size and SHA-256, whatever other programs
  do outside the private directory and however other uploads interleave.
\<close>

theorem resolved_content_verified:
  assumes "store_run sha unb64 True st" and "resolve rid v st = (Inr att, st')"
  shows "\<exists>path n. ba_local_path att = Some path \<and> fs_link (st_fs st') path = Some n \<and>
    length (nd_data (fs_node (st_fs st') n)) = ba_size_bytes att \<and> ba_size_bytes att \<le> MAX_ARTIFACT \<and>
    ba_sha256 att = Some (sha (nd_data (fs_node (st_fs st') n))) \<and> ba_owned att"
  using assms(2)
proof (cases rule: resolve_cases)
  case (resolved ref a)
  have ok: "staged st" "verified sha st" "intact st"
    using store_run_ok [OF assms(1)] by (auto simp: store_ok_def)
  then have "fs_link (st_fs st) (ar_path a) = Some (ar_node a)" "nd_data (fs_node (st_fs st) (ar_node a)) = ar_hashed a"
    "length (ar_hashed a) = ar_size a" "ar_size a \<le> MAX_ARTIFACT" "sha (ar_hashed a) = ar_digest a"
    using resolved(1,2) unfolding staged_def verified_def intact_def by metis+
  then show ?thesis using resolved(4,5) by auto
qed simp

text \<open>
  Ending a request always succeeds and revokes its handles: each of its uploads that was resolved
  keeps its file for delivery, each other staged file is removed, the handles of other requests are
  untouched, and every later use of a handle of the ended request is refused as inactive.
\<close>

theorem end_request_cleans:
  assumes "store_run sha unb64 clean st"
  shows "\<exists>st'. end_request rid st = (Inr (), st') \<and>
    (\<forall>ref a. upload_at st rid ref a \<longrightarrow>
       fs_link (st_fs st') (ar_path a) = (if ar_complete a \<and> ar_used a then Some (ar_node a) else None)) \<and>
    (\<forall>r f. r \<noteq> rid \<longrightarrow> rec_at st' r f = rec_at st r f) \<and>
    (\<forall>v. find_upload rid v st' = Inl (WireError ''inactive_request'')) \<and>
    (\<forall>b64 v. \<exists>m. read_artifact b64 rid v st' = (Inl (WireError m), st'))"
proof -
  have "quotas st" "staged st" using store_run_ok [OF assms] by (auto simp: store_ok_def)
  from end_request_ok [OF this, of rid] obtain st' where st': "end_request rid st = (Inr (), st')"
    "rec_at st' = (\<lambda>r f. if r = rid then None else rec_at st r f)"
    "\<forall>ref a. upload_at st rid ref a \<longrightarrow>
       fs_link (st_fs st') (ar_path a) = (if ar_complete a \<and> ar_used a then Some (ar_node a) else None)"
    "dict_get (st_scopes st') rid = None" by blast
  have "\<exists>m. read_artifact b64 rid v st' = (Inl (WireError m), st')" for b64 v
    using st'(4)
    by (cases v) (auto simp: read_artifact_def bind_r_def object_fields_def lookup_ref_def)
  moreover have "find_upload rid v st' = Inl (WireError ''inactive_request'')" for v
    using st'(4) by (simp add: find_upload_def lookup_ref_def bind_r_def)
  ultimately show ?thesis using st'(1-3) by auto
qed

text \<open>
  A write that fails half way corrupts the upload without being noticed. When \<open>os.write\<close> has taken
  some of a chunk and then raises, the host is told that the chunk was rejected and may send it again at
  the same offset: the bytes already written stay in the file, but the hash and the count only cover the
  second attempt, so \<open>upload_finish\<close> and \<open>resolve\<close> accept a file that is longer than the size whose
  digest was checked.
\<close>

theorem partial_write_corrupts:
  assumes "store_run sha unb64 True st"
    and "upload_chunk unb64 (Some k # None # ws) rid params st = (Inl OSErr, st1)" and "0 < k"
    and "upload_chunk unb64 ws' rid params st1 = (Inr out, st2)"
    and "upload_finish sha rid v st2 = (Inr out', st3)" and "resolve rid v st3 = (Inr att, st4)"
    and "params_ref v = params_ref params"
  shows "\<exists>path n. ba_local_path att = Some path \<and> fs_link (st_fs st4) path = Some n \<and>
    length (nd_data (fs_node (st_fs st4) n)) > ba_size_bytes att"
proof -
  have ok: "staged st" "verified sha st" "intact st" using store_run_ok [OF assms(1)] by (auto simp: store_ok_def)
  obtain ref a data bs where a: "upload_at st rid ref a" "params_ref params = Some (PStr ref)"
    "st1 = st\<lparr>st_fs := append_file (ar_node a) bs (st_fs st)\<rparr>" "write_all (Some k # None # ws) data = (bs, Some OSErr)"
    using assms(2) by (cases rule: chunk_cases) auto
  have bs: "length bs > 0" using a(4) assms(3) by (cases data) (auto split: prod.splits)
  have at1: "upload_at st1 rid f b \<Longrightarrow> f = ref \<Longrightarrow> b = a" for f b
    using a(1) by (simp add: a(3) upload_at_def)
  obtain data2 where st2: "st2 = put_record rid ref (a\<lparr>ar_hashed := ar_hashed a @ data2,
      ar_written := ar_written a + length data2\<rparr>) (st1\<lparr>st_fs := append_file (ar_node a) data2 (st_fs st1)\<rparr>)"
    using assms(4) at1 a(2) by (cases rule: chunk_cases) auto
  let ?a2 = "a\<lparr>ar_hashed := ar_hashed a @ data2, ar_written := ar_written a + length data2\<rparr>"
  have up2: "upload_at (st1\<lparr>st_fs := append_file (ar_node a) data2 (st_fs st1)\<rparr>) rid ref a" "\<not> ar_input ?a2"
    using a(1) by (simp_all add: a(3) upload_at_def)
  have st3: "st3 = put_record rid ref (?a2\<lparr>ar_complete := True\<rparr>) st2" "ar_written ?a2 = ar_size a"
    using assms(5) assms(7) a(2) put_upload [OF up2, of rid ref]
    by (cases rule: finish_cases; auto simp: st2)+
  have up3: "upload_at st2 rid ref ?a2" "\<not> ar_input (?a2\<lparr>ar_complete := True\<rparr>)"
    using put_upload [OF up2, of rid ref] up2 by (simp_all add: st2)
  have att: "ba_local_path att = Some (ar_path a)" "ba_size_bytes att = ar_size a" "st_fs st4 = st_fs st2"
    using assms(6) assms(7) a(2) put_upload [OF up3, of rid ref]
    by (cases rule: resolve_cases; auto simp: st3(1))+
  have "nd_data (fs_node (st_fs st2) (ar_node a)) = ar_hashed a @ bs @ data2"
    using ok(3) a(1) by (simp add: st2 a(3) append_file_def intact_def)
  moreover have "length (ar_hashed a) = ar_written a" using ok(2) a(1) by (simp add: verified_def)
  moreover have "fs_link (st_fs st2) (ar_path a) = Some (ar_node a)"
    using ok(1) a(1) by (simp add: st2 a(3) append_file_def staged_def)
  moreover have "ar_size a < ar_written a + (length bs + length data2)"
    using st3(2) bs by (cases bs) simp_all
  ultimately show ?thesis using att by auto
qed

section \<open>A run\<close>

definition demo_sha :: "bytes \<Rightarrow> string" where
  "demo_sha bs = replicate 64 (if even (length bs) then CHR ''0'' else CHR ''1'')"
definition demo_b64 :: "string \<Rightarrow> bytes option" where
  "demo_b64 s = Some (replicate (length s) 7)"
definition demo_fs :: fsys where
  "demo_fs = \<lparr>fs_link = (\<lambda>_. None), fs_node = (\<lambda>_. \<lparr>nd_regular = False, nd_data = [], nd_stamp = 0\<rparr>)\<rparr>"
definition demo_handle :: pyval where "demo_handle = PDict [(PStr ''reader_ref'', PStr ''h1'')]"
definition demo_chunk :: pyval where
  "demo_chunk = PDict [(PStr ''reader_ref'', PStr ''h1''), (PStr ''offset'', PInt 0), (PStr ''data_base64'', PStr ''AA'')]"
definition demo_begun :: artifact_store where
  "demo_begun = snd (begin_request (PStr ''r1'') 16 None (new_store demo_fs))"
definition demo_open :: artifact_store where
  "demo_open = snd (upload_begin ''h1'' ''/t'' 1 ''r1''
     (PDict [(PStr ''kind'', PStr ''image''), (PStr ''filename'', PStr ''a.png''), (PStr ''size_bytes'', PInt 2),
             (PStr ''sha256'', PStr (replicate 64 (CHR ''0'')))]) demo_begun)"
definition demo_complete :: "artifact_store \<Rightarrow> artifact_store" where
  "demo_complete st = snd (upload_finish demo_sha ''r1'' demo_handle (snd (upload_chunk demo_b64 [] ''r1'' demo_chunk st)))"
definition demo_failed :: artifact_store where
  "demo_failed = snd (upload_chunk demo_b64 [Some 1, None] ''r1'' demo_chunk demo_open)"


lemmas demo_run = demo_sha_def demo_b64_def demo_fs_def demo_handle_def demo_chunk_def new_store_def
  begin_request_def ident_def char_code_def MAX_FILES_def MAX_CHUNK_def MAX_ARTIFACT_def MAX_SESSION_BYTES_def
  object_fields_def integer_def digest_text_def is_hex_def new_attachment_def safe_filename_def elements_def
  upload_begin_def add_artifact_def reclaim_def over_limit_def total_of_def mkstemp_def bind_r_def pget_def
  pget_or_def list_all_iff dict_get_def lookup_ref_def find_upload_def upload_chunk_def chunk_data_def
  put_record_def append_file_def upload_finish_def resolve_def

lemma demo_begun_eq:
  "demo_begun = \<lparr>st_scopes = [(''r1'', [])], st_limits = [(''r1'', (16, None))], st_retained = [], st_total = 0,
     st_fs = demo_fs\<rparr>"
  by (simp add: demo_begun_def demo_run)

lemma demo_open_eq:
  "demo_open = \<lparr>st_scopes = [(''r1'', [(''h1'', \<lparr>ar_node = 1, ar_path = ''/t'', ar_size = 2,
       ar_digest = replicate 64 (CHR ''0''), ar_input = False, ar_owned = False, ar_info = (0, 0), ar_written = 0,
       ar_hashed = [], ar_complete = False, ar_used = False,
       ar_attachment = \<lparr>ba_kind = PStr ''image'', ba_filename = PStr ''a.png'',
         ba_mime_type = PStr ''application/octet-stream'', ba_size_bytes = 2, ba_artifact_ref = [],
         ba_local_path = None, ba_owned = False, ba_provider_id = None, ba_sha256 = None, ba_reader_ref = None\<rparr>\<rparr>)])],
     st_limits = [(''r1'', (16, None))], st_retained = [], st_total = 2, st_fs = mkstemp ''/t'' 1 demo_fs\<rparr>"
  by (simp add: demo_open_def demo_begun_eq demo_run)

lemma demo_open_run: "store_run demo_sha demo_b64 c demo_open"
proof -
  have b: "store_run demo_sha demo_b64 c demo_begun"
    unfolding demo_begun_def by (rule store_run.begins [OF store_run.start prod.collapse [symmetric]])
  show ?thesis
    unfolding demo_open_def
    by (rule store_run.opens [OF b _ _ _ _ prod.collapse [symmetric]])
      (simp_all add: rec_at_def demo_begun_eq demo_fs_def dict_get_def)
qed

lemma demo_complete_run: "store_run demo_sha demo_b64 True (demo_complete demo_open)"
  unfolding demo_complete_def
  by (rule store_run.finishes [OF store_run.chunks [OF demo_open_run _ prod.collapse [symmetric]]
        prod.collapse [symmetric]]) simp

lemma demo_resolved:
  "resolve ''r1'' demo_handle (demo_complete demo_open) =
     (let r = resolve ''r1'' demo_handle (demo_complete demo_open) in (Inr (projr (fst r)), snd r))"
  "ba_size_bytes (projr (fst (resolve ''r1'' demo_handle (demo_complete demo_open)))) = 2"
  by (simp_all add: demo_complete_def demo_open_eq demo_run Let_def)

lemma demo_failure:
  "upload_chunk demo_b64 [Some 1, None] ''r1'' demo_chunk demo_open = (Inl OSErr, demo_failed)"
  by (simp add: demo_failed_def demo_open_eq demo_run)

lemma demo_retry:
  "upload_chunk demo_b64 [] ''r1'' demo_chunk demo_failed =
     (let r = upload_chunk demo_b64 [] ''r1'' demo_chunk demo_failed in (Inr (projr (fst r)), snd r))"
  "upload_finish demo_sha ''r1'' demo_handle (snd (upload_chunk demo_b64 [] ''r1'' demo_chunk demo_failed)) =
     (let r = upload_finish demo_sha ''r1'' demo_handle (snd (upload_chunk demo_b64 [] ''r1'' demo_chunk demo_failed))
      in (Inr (projr (fst r)), demo_complete demo_failed))"
  "resolve ''r1'' demo_handle (demo_complete demo_failed) =
     (let r = resolve ''r1'' demo_handle (demo_complete demo_failed) in (Inr (projr (fst r)), snd r))"
  by (simp_all add: demo_complete_def demo_failed_def demo_open_eq demo_run Let_def)

theorem artifact_quota_witness:
  "st_total demo_open = 2 \<and> st_total demo_open \<le> int MAX_SESSION_BYTES \<and>
     st_total demo_open = int (total_of (total_of ar_size) (st_scopes demo_open) + total_of id (st_retained demo_open))"
  using artifact_quota [OF demo_open_run [of True]] by (simp add: demo_open_eq)

theorem resolved_content_verified_witness:
  "\<exists>att st'. resolve ''r1'' demo_handle (demo_complete demo_open) = (Inr att, st') \<and> ba_size_bytes att = 2 \<and>
     (\<exists>path n. ba_local_path att = Some path \<and> fs_link (st_fs st') path = Some n \<and>
        length (nd_data (fs_node (st_fs st') n)) = 2)"
proof -
  let ?r = "resolve ''r1'' demo_handle (demo_complete demo_open)"
  have r: "?r = (Inr (projr (fst ?r)), snd ?r)" using demo_resolved(1) unfolding Let_def .
  show ?thesis using resolved_content_verified [OF demo_complete_run r] r demo_resolved(2) by metis
qed

theorem end_request_cleans_witness:
  "\<exists>st'. end_request ''r1'' demo_open = (Inr (), st') \<and> fs_link (st_fs demo_open) ''/t'' = Some 1 \<and>
     find_upload ''r1'' (PStr ''h1'') st' = Inl (WireError ''inactive_request'')"
proof -
  have "fs_link (st_fs demo_open) ''/t'' = Some 1" by (simp add: demo_open_eq mkstemp_def)
  with end_request_cleans [OF demo_open_run [of True], of "''r1''"] show ?thesis by auto
qed

theorem partial_write_corrupts_witness:
  "\<exists>att st4. resolve ''r1'' demo_handle (demo_complete demo_failed) = (Inr att, st4) \<and>
     (\<exists>path n. ba_local_path att = Some path \<and> fs_link (st_fs st4) path = Some n \<and>
        length (nd_data (fs_node (st_fs st4) n)) > ba_size_bytes att)"
proof -
  have p: "params_ref demo_handle = params_ref demo_chunk"
    by (simp add: demo_handle_def demo_chunk_def params_ref_def pget_or_def)
  note t = demo_retry [unfolded Let_def]
  show ?thesis
    using partial_write_corrupts [OF demo_open_run demo_failure zero_less_one t(1) t(2) t(3) p] t(3) by blast
qed

end
