(* ===== verification/Json_Text.thy ===== *)
theory Json_Text
  imports Prelude
begin

text \<open>
  The part of Python's \<open>json\<close> module the channel runner writes and reads its lines with:
  \<open>json.dumps(v, ensure_ascii=False, allow_nan=False, separators=(",", ":"))\<close> and \<open>json.loads\<close> with an
  \<open>object_pairs_hook\<close>, and UTF-8 on the Latin-1 range of the model's text.

  The printer is a recursion over the value. The reader is the grammar of \<open>json.loads\<close> as a scanner
  into tokens and a machine with an explicit stack over them. \<open>float.__repr__\<close> and \<open>float\<close> on a numeral
  are parameters, as are the decoders of the encodings other than UTF-8. The last lemma is that
  reading what was printed gives the value back.
\<close>

section \<open>UTF-8\<close>

definition utf8_char :: "char \<Rightarrow> bytes" where
  "utf8_char c =
     (let n = char_code c
      in if n < 128 then [word_of_nat n] else [word_of_nat (192 + n div 64), word_of_nat (128 + n mod 64)])"

definition utf8 :: "string \<Rightarrow> bytes" where
  "utf8 s = concat (map utf8_char s)"

text \<open>Decoding accepts the shortest form only, as \<open>bytes.decode\<close> does.\<close>

fun utf8_decode :: "bytes \<Rightarrow> string option" where
  "utf8_decode [] = Some []"
| "utf8_decode (b # bs) =
     (if unat b < 128 then map_option (Cons (char_of (unat b))) (utf8_decode bs)
      else (case bs of
              [] \<Rightarrow> None
            | b2 # rest \<Rightarrow>
                if (unat b = 194 \<or> unat b = 195) \<and> 128 \<le> unat b2 \<and> unat b2 < 192
                then map_option (Cons (char_of ((unat b - 192) * 64 + (unat b2 - 128)))) (utf8_decode rest)
                else None))"

lemma utf8_Nil [simp]: "utf8 [] = []"
  by (simp add: utf8_def)

lemma utf8_Cons: "utf8 (c # s) = utf8_char c @ utf8 s"
  by (simp add: utf8_def)

lemma utf8_append [simp]: "utf8 (s @ t) = utf8 s @ utf8 t"
  by (simp add: utf8_def)

lemma unat_byte: "n < 256 \<Longrightarrow> unat (word_of_nat n :: 8 word) = n"
  by (simp add: unat_of_nat)

lemma char_of_char_code [simp]: "char_of (char_code c) = c"
  by (simp add: char_code_def)

lemma char_code_inject: "char_code c = char_code d \<longleftrightarrow> c = d"
  by (metis char_of_char_code)

lemma utf8_decode_char: "utf8_decode (utf8_char c @ bs) = map_option (Cons c) (utf8_decode bs)"
proof -
  let ?n = "char_code c"
  have n: "?n < 256" by simp
  show ?thesis
  proof (cases "?n < 128")
    case True
    then show ?thesis by (simp add: utf8_char_def unat_byte)
  next
    case False
    have hi: "192 + ?n div 64 < 256" "128 + ?n mod 64 < 256" using div_le_mono [OF less_imp_le [OF n], of 64] by auto
    have "m div 64 = 2 \<or> m div 64 = 3" if "128 \<le> m" "m < 256" for m :: nat
      using that div_le_mono [of 128 m 64] div_le_mono [of m 255 64] by auto
    then have "?n div 64 = 2 \<or> ?n div 64 = 3" using False n by (meson not_less)
    moreover have "?n div 64 * 64 + ?n mod 64 = ?n" by (rule div_mult_mod_eq)
    moreover note hi [THEN unat_byte]
    ultimately show ?thesis
      using False by (auto simp: utf8_char_def Let_def simp del: of_nat_add)
  qed
qed

lemma utf8_decode_utf8: "utf8_decode (utf8 s @ bs) = map_option (append s) (utf8_decode bs)"
  by (induction s) (simp_all add: utf8_Cons utf8_decode_char option.map_comp comp_def option.map_ident)

interpretation utf8: codec utf8 utf8_decode "\<lambda>_. True"
  by unfold_locales (use utf8_decode_utf8 [of _ "[]"] in simp)

text \<open>\<open>json.detect_encoding\<close>, as far as it asks whether the bytes are UTF-8 without a byte order mark.\<close>

definition plain_utf8 :: "bytes \<Rightarrow> bool" where
  "plain_utf8 bs =
     (\<not> (\<exists>mark\<in>{[0, 0, 254, 255], [255, 254, 0, 0], [254, 255], [255, 254], [239, 187, 191]}.
          take (length mark) bs = mark) \<and>
      (if length bs \<ge> 4 then bs ! 0 \<noteq> 0 \<and> bs ! 1 \<noteq> 0
       else length bs = 2 \<longrightarrow> bs ! 0 \<noteq> 0 \<and> bs ! 1 \<noteq> 0))"

definition loads_text :: "(bytes \<Rightarrow> string option) \<Rightarrow> bytes \<Rightarrow> string option" where
  "loads_text other bs = (if plain_utf8 bs then utf8_decode bs else other bs)"

section \<open>Printing\<close>

definition digit_char :: "nat \<Rightarrow> char" where
  "digit_char n = char_of (48 + n)"

fun dec_text :: "nat \<Rightarrow> string" where
  "dec_text n = (if n < 10 then [digit_char n] else dec_text (n div 10) @ [digit_char (n mod 10)])"

declare dec_text.simps [simp del]

text \<open>\<open>int.__repr__\<close> and \<open>int\<close> refuse more than 4300 digits.\<close>

definition MAX_DIGITS :: nat where "MAX_DIGITS = 4300"

definition int_text :: "int \<Rightarrow> string option" where
  "int_text i =
     (let d = dec_text (nat \<bar>i\<bar>)
      in if length d > MAX_DIGITS then None else Some (if i < 0 then CHR ''-'' # d else d))"

definition hex_char :: "nat \<Rightarrow> char" where
  "hex_char n = (if n < 10 then char_of (48 + n) else char_of (87 + n))"

definition escape_char :: "char \<Rightarrow> string" where
  "escape_char c =
     (if c = CHR 0x22 then [CHR 0x5C, CHR 0x22]
      else if c = CHR 0x5C then [CHR 0x5C, CHR 0x5C]
      else if c = CHR 0x0A then [CHR 0x5C, CHR ''n'']
      else if c = CHR 0x0D then [CHR 0x5C, CHR ''r'']
      else if c = CHR 0x09 then [CHR 0x5C, CHR ''t'']
      else if c = CHR 0x0C then [CHR 0x5C, CHR ''f'']
      else if c = CHR 0x08 then [CHR 0x5C, CHR ''b'']
      else if char_code c < 32
      then [CHR 0x5C, CHR ''u'', CHR ''0'', CHR ''0'', hex_char (char_code c div 16), hex_char (char_code c mod 16)]
      else [c])"

definition escapes :: "string \<Rightarrow> string" where
  "escapes s = concat (map escape_char s)"

definition string_text :: "string \<Rightarrow> string" where
  "string_text s = CHR 0x22 # escapes s @ [CHR 0x22]"

definition float_text :: "(real \<Rightarrow> string) \<Rightarrow> pyfloat \<Rightarrow> string option" where
  "float_text frepr f = (case f of Finite r \<Rightarrow> Some (frepr r) | _ \<Rightarrow> None)"

text \<open>Keys that are not texts are printed as their value would be; \<open>None\<close> stands for the exceptions
  \<open>TypeError\<close> and \<open>ValueError\<close>.\<close>

definition key_text :: "(real \<Rightarrow> string) \<Rightarrow> pyval \<Rightarrow> string option" where
  "key_text frepr k =
     (case k of
        PStr s \<Rightarrow> Some s
      | PNone \<Rightarrow> Some ''null''
      | PBool b \<Rightarrow> Some (if b then ''true'' else ''false'')
      | PInt i \<Rightarrow> int_text i
      | PFloat f \<Rightarrow> float_text frepr f
      | _ \<Rightarrow> None)"

fun join_opt :: "string option list \<Rightarrow> string option" where
  "join_opt [] = Some []"
| "join_opt [x] = x"
| "join_opt (x # y # xs) =
     (case (x, join_opt (y # xs)) of (Some a, Some b) \<Rightarrow> Some (a @ CHR '','' # b) | _ \<Rightarrow> None)"

definition member_text :: "string option \<Rightarrow> string option \<Rightarrow> string option" where
  "member_text k v =
     (case (k, v) of (Some a, Some b) \<Rightarrow> Some (string_text a @ CHR '':'' # b) | _ \<Rightarrow> None)"

fun json_text :: "(real \<Rightarrow> string) \<Rightarrow> pyval \<Rightarrow> string option" where
  "json_text frepr PNone = Some ''null''"
| "json_text frepr (PBool b) = Some (if b then ''true'' else ''false'')"
| "json_text frepr (PInt i) = int_text i"
| "json_text frepr (PFloat f) = float_text frepr f"
| "json_text frepr (PStr s) = Some (string_text s)"
| "json_text frepr (PBytes b) = None"
| "json_text frepr (PList xs) =
     map_option (\<lambda>t. CHR ''['' # t @ '']'') (join_opt (map (json_text frepr) xs))"
| "json_text frepr (PDict kvs) =
     map_option (\<lambda>t. CHR ''{'' # t @ ''}'')
       (join_opt (map (\<lambda>(k, v). member_text (key_text frepr k) (json_text frepr v)) kvs))"

section \<open>Reading\<close>

datatype token = TOpenDict | TCloseDict | TOpenList | TCloseList | TColon | TComma | TVal pyval

definition hex_value :: "char \<Rightarrow> nat option" where
  "hex_value c =
     (let n = char_code c
      in if 48 \<le> n \<and> n \<le> 57 then Some (n - 48)
         else if 97 \<le> n \<and> n \<le> 102 then Some (n - 87)
         else if 65 \<le> n \<and> n \<le> 70 then Some (n - 55) else None)"

definition unescape :: "char \<Rightarrow> char option" where
  "unescape c =
     (if c \<in> {CHR 0x22, CHR 0x5C, CHR ''/''} then Some c
      else if c = CHR ''n'' then Some (CHR 0x0A)
      else if c = CHR ''r'' then Some (CHR 0x0D)
      else if c = CHR ''t'' then Some (CHR 0x09)
      else if c = CHR ''f'' then Some (CHR 0x0C)
      else if c = CHR ''b'' then Some (CHR 0x08) else None)"

definition hex4 :: "char \<Rightarrow> char \<Rightarrow> char \<Rightarrow> char \<Rightarrow> char option" where
  "hex4 a b c d =
     (case (hex_value a, hex_value b, hex_value c, hex_value d) of
        (Some 0, Some 0, Some m, Some n) \<Rightarrow> Some (char_of (m * 16 + n))
      | _ \<Rightarrow> None)"

text \<open>The rest of a text after its opening quote. Escapes beyond Latin-1 are outside the model's text.\<close>

fun scan_string :: "string \<Rightarrow> (string \<times> string) option" where
  "scan_string [] = None"
| "scan_string (c # cs) =
     (if c = CHR 0x22 then Some ([], cs)
      else if c = CHR 0x5C then
        (case cs of
           [] \<Rightarrow> None
         | e # es \<Rightarrow>
             if e = CHR ''u'' then
               (case es of
                  h1 # h2 # h3 # h4 # rest \<Rightarrow>
                    (case hex4 h1 h2 h3 h4 of
                       None \<Rightarrow> None
                     | Some d \<Rightarrow> map_option (apfst (Cons d)) (scan_string rest))
                | _ \<Rightarrow> None)
             else (case unescape e of
                     None \<Rightarrow> None
                   | Some d \<Rightarrow> map_option (apfst (Cons d)) (scan_string es)))
      else if char_code c < 32 then None
      else map_option (apfst (Cons c)) (scan_string cs))"

definition digits_nat :: "string \<Rightarrow> nat" where
  "digits_nat s = foldl (\<lambda>acc c. acc * 10 + (char_code c - 48)) 0 s"

text \<open>The numeral at the start of the input: an optional sign, digits without a leading zero, an
  optional fraction and an optional exponent.\<close>

definition scan_whole :: "string \<Rightarrow> (string \<times> string) option" where
  "scan_whole s =
     (case s of
        [] \<Rightarrow> None
      | c # cs \<Rightarrow>
          if c = CHR ''0'' then Some ([c], cs)
          else if is_digit c then Some (c # takeWhile is_digit cs, dropWhile is_digit cs) else None)"

definition scan_fraction :: "string \<Rightarrow> string \<times> string" where
  "scan_fraction s =
     (case s of
        d # c # cs \<Rightarrow>
          if d = CHR ''.'' \<and> is_digit c
          then (d # c # takeWhile is_digit cs, dropWhile is_digit cs) else ([], s)
      | _ \<Rightarrow> ([], s))"

definition scan_exponent :: "string \<Rightarrow> string \<times> string" where
  "scan_exponent s =
     (case s of
        e # cs \<Rightarrow>
          if e \<in> {CHR ''e'', CHR ''E''} then
            (let (sign, ds) = (case cs of c # r \<Rightarrow> if c \<in> {CHR ''+'', CHR ''-''} then ([c], r) else ([], cs) | [] \<Rightarrow> ([], []))
             in case ds of
                  c # r \<Rightarrow> if is_digit c then (e # sign @ c # takeWhile is_digit r, dropWhile is_digit r) else ([], s)
                | [] \<Rightarrow> ([], s))
          else ([], s)
      | [] \<Rightarrow> ([], s))"

definition scan_sign :: "string \<Rightarrow> string \<times> string" where
  "scan_sign s = (case s of c # r \<Rightarrow> if c = CHR ''-'' then ([c], r) else ([], s) | [] \<Rightarrow> ([], []))"

definition scan_number :: "(string \<Rightarrow> pyfloat) \<Rightarrow> string \<Rightarrow> (pyval \<times> string) option" where
  "scan_number fread s =
     (let (sign, s1) = scan_sign s
      in case scan_whole s1 of
           None \<Rightarrow> None
         | Some (whole, s2) \<Rightarrow>
             (let (fr, s3) = scan_fraction s2; (ex, s4) = scan_exponent s3
              in if fr = [] \<and> ex = [] then
                   (if length whole > MAX_DIGITS then None
                    else Some (PInt (if sign = [] then int (digits_nat whole) else - int (digits_nat whole)), s4))
                 else Some (PFloat (fread (sign @ whole @ fr @ ex)), s4)))"

definition scan_word :: "string \<Rightarrow> (pyval \<times> string) option" where
  "scan_word s =
     (if take 4 s = ''null'' then Some (PNone, drop 4 s)
      else if take 4 s = ''true'' then Some (PBool True, drop 4 s)
      else if take 5 s = ''false'' then Some (PBool False, drop 5 s) else None)"

definition scan_scalar :: "(string \<Rightarrow> pyfloat) \<Rightarrow> string \<Rightarrow> (pyval \<times> string) option" where
  "scan_scalar fread s =
     (case s of
        [] \<Rightarrow> None
      | c # cs \<Rightarrow>
          if c = CHR 0x22 then map_option (apfst PStr) (scan_string cs)
          else if c \<in> {CHR ''n'', CHR ''t'', CHR ''f''} then scan_word s
          else scan_number fread s)"

definition punctuation :: "char \<Rightarrow> token option" where
  "punctuation c =
     (if c = CHR ''{'' then Some TOpenDict else if c = CHR ''}'' then Some TCloseDict
      else if c = CHR ''['' then Some TOpenList else if c = CHR '']'' then Some TCloseList
      else if c = CHR '':'' then Some TColon else if c = CHR '','' then Some TComma else None)"

definition json_space :: "char \<Rightarrow> bool" where
  "json_space c = (c \<in> {CHR '' '', CHR 0x09, CHR 0x0A, CHR 0x0D})"


lemma length_dropWhile: "length (dropWhile P xs) \<le> length xs"
  by (rule length_dropWhile_le)

lemma scan_string_shorter: "scan_string s = Some (t, rest) \<Longrightarrow> length rest < length s"
proof (induction s arbitrary: t rule: length_induct)
  case (1 s)
  have IH: "length rest < length s'" if "length s' < length s" "scan_string s' = Some (t', rest)" for s' t'
    using 1 that by blast
  show ?case
  proof (cases s)
    case Nil
    then show ?thesis using 1 by simp
  next
    case (Cons c cs)
    consider "c = CHR 0x22" | (esc) "c = CHR 0x5C" | (plain) "c \<noteq> CHR 0x22" "c \<noteq> CHR 0x5C" by blast
    then show ?thesis
    proof cases
      case esc
      then obtain e es where cs: "cs = e # es" using 1 Cons by (auto split: list.splits)
      show ?thesis
      proof (cases "e = CHR ''u''")
        case True
        then obtain h1 h2 h3 h4 r t' where "es = h1 # h2 # h3 # h4 # r" "scan_string r = Some (t', rest)"
          using 1 Cons esc cs by (auto split: list.splits option.splits)
        then show ?thesis using IH [of r t'] Cons cs by auto
      next
        case False
        then obtain t' where "scan_string es = Some (t', rest)"
          using 1 Cons esc cs by (auto split: option.splits)
        then show ?thesis using IH [of es t'] Cons cs by auto
      qed
    next
      case plain
      then obtain t' where "scan_string cs = Some (t', rest)"
        using 1 Cons by (auto split: if_splits)
      then show ?thesis using IH [of cs t'] Cons by auto
    qed (use 1 Cons in simp)
  qed
qed

lemma scan_fraction_shorter: "length (snd (scan_fraction s)) \<le> length s"
  using length_dropWhile [of is_digit]
  by (auto simp: scan_fraction_def le_SucI split: list.splits)

lemma scan_exponent_shorter: "length (snd (scan_exponent s)) \<le> length s"
  using length_dropWhile [of is_digit]
  by (auto simp: scan_exponent_def Let_def le_SucI split: list.splits)

lemma scan_whole_shorter: "scan_whole s = Some (t, rest) \<Longrightarrow> length rest < length s"
  using length_dropWhile [of is_digit]
  by (auto simp: scan_whole_def less_Suc_eq_le split: list.splits if_splits)

lemma scan_number_shorter:
  assumes "scan_number fread s = Some (v, rest)"
  shows "length rest < length s"
proof -
  obtain sign s1 where s1: "scan_sign s = (sign, s1)" by (metis surj_pair)
  then have le1: "length s1 \<le> length s" by (auto simp: scan_sign_def split: list.splits if_splits)
  obtain whole s2 where w: "scan_whole s1 = Some (whole, s2)"
    using assms s1 by (cases "scan_whole s1") (auto simp: scan_number_def)
  obtain fr s3 where f: "scan_fraction s2 = (fr, s3)" by (metis surj_pair)
  obtain ex s4 where e: "scan_exponent s3 = (ex, s4)" by (metis surj_pair)
  have "length s4 \<le> length s3" "length s3 \<le> length s2"
    using scan_exponent_shorter [of s3] scan_fraction_shorter [of s2] e f by auto
  then have "length s4 < length s" using scan_whole_shorter [OF w] le1 by linarith
  moreover have "rest = s4"
    using assms s1 w f e by (auto simp: scan_number_def Let_def split: if_splits)
  ultimately show ?thesis by simp
qed

lemma scan_scalar_shorter:
  assumes "scan_scalar fread s = Some (v, rest)"
  shows "length rest < length s"
proof (cases s)
  case Nil
  then show ?thesis using assms by (simp add: scan_scalar_def)
next
  case (Cons c cs)
  consider (str) "c = CHR 0x22" | (word) "c \<in> {CHR ''n'', CHR ''t'', CHR ''f''}"
    | (num) "c \<noteq> CHR 0x22" "c \<notin> {CHR ''n'', CHR ''t'', CHR ''f''}" by blast
  then show ?thesis
  proof cases
    case str
    then obtain t where "scan_string cs = Some (t, rest)"
      using assms by (auto simp: Cons scan_scalar_def)
    then show ?thesis using scan_string_shorter [of cs t rest] by (simp add: Cons)
  next
    case word
    then show ?thesis using assms by (auto simp: Cons scan_scalar_def scan_word_def split: if_splits)
  next
    case num
    then show ?thesis using assms scan_number_shorter [of fread s v rest] by (simp add: Cons scan_scalar_def)
  qed
qed

function scan :: "(string \<Rightarrow> pyfloat) \<Rightarrow> string \<Rightarrow> token list option" where
  "scan fread [] = Some []"
| "scan fread (c # cs) =
     (if json_space c then scan fread cs
      else case punctuation c of
             Some t \<Rightarrow> map_option (Cons t) (scan fread cs)
           | None \<Rightarrow>
               (case scan_scalar fread (c # cs) of
                  None \<Rightarrow> None
                | Some (v, rest) \<Rightarrow> map_option (Cons (TVal v)) (scan fread rest)))"
  by pat_completeness auto
termination
  by (relation "measure (\<lambda>(_, s). length s)") (auto dest: scan_scalar_shorter)

text \<open>
  The grammar: \<open>expect\<close> is what may come next (or the value just completed), the stack holds the
  enclosing lists and objects with what they have so far. \<open>hook\<close> is the \<open>object_pairs_hook\<close>.
\<close>

datatype enclosing = InList "pyval list" | InDict "(pyval \<times> pyval) list" pyval

datatype expect =
    Want | WantOrClose | WantKey "(pyval \<times> pyval) list" | WantKeyOrClose
  | WantColon "(pyval \<times> pyval) list" pyval | Complete pyval

definition open_value :: "token \<Rightarrow> enclosing list \<Rightarrow> (expect \<times> enclosing list) option" where
  "open_value t st =
     (case t of
        TVal v \<Rightarrow> Some (Complete v, st)
      | TOpenList \<Rightarrow> Some (WantOrClose, st)
      | TOpenDict \<Rightarrow> Some (WantKeyOrClose, st)
      | _ \<Rightarrow> None)"

definition read_key :: "(pyval \<times> pyval) list \<Rightarrow> token \<Rightarrow> enclosing list \<Rightarrow> (expect \<times> enclosing list) option" where
  "read_key acc t st = (case t of TVal (PStr k) \<Rightarrow> Some (WantColon acc (PStr k), st) | _ \<Rightarrow> None)"

definition parse_step ::
  "((pyval \<times> pyval) list \<Rightarrow> pyval option) \<Rightarrow> token \<Rightarrow> expect \<times> enclosing list
     \<Rightarrow> (expect \<times> enclosing list) option" where
  "parse_step hook t ps =
     (case ps of (e, st) \<Rightarrow>
        case e of
          Want \<Rightarrow> open_value t st
        | WantOrClose \<Rightarrow>
            if t = TCloseList then Some (Complete (PList []), st) else open_value t (InList [] # st)
        | WantKey acc \<Rightarrow> read_key acc t st
        | WantKeyOrClose \<Rightarrow>
            if t = TCloseDict then map_option (\<lambda>v. (Complete v, st)) (hook []) else read_key [] t st
        | WantColon acc k \<Rightarrow> if t = TColon then Some (Want, InDict acc k # st) else None
        | Complete v \<Rightarrow>
            (case (st, t) of
               (InList acc # st', TComma) \<Rightarrow> Some (Want, InList (acc @ [v]) # st')
             | (InList acc # st', TCloseList) \<Rightarrow> Some (Complete (PList (acc @ [v])), st')
             | (InDict acc k # st', TComma) \<Rightarrow> Some (WantKey (acc @ [(k, v)]), st')
             | (InDict acc k # st', TCloseDict) \<Rightarrow>
                 map_option (\<lambda>v. (Complete v, st')) (hook (acc @ [(k, v)]))
             | _ \<Rightarrow> None))"

fun parse_run ::
  "((pyval \<times> pyval) list \<Rightarrow> pyval option) \<Rightarrow> token list \<Rightarrow> expect \<times> enclosing list
     \<Rightarrow> (expect \<times> enclosing list) option" where
  "parse_run hook [] ps = Some ps"
| "parse_run hook (t # ts) ps = Option.bind (parse_step hook t ps) (parse_run hook ts)"

definition json_loads ::
  "(string \<Rightarrow> pyfloat) \<Rightarrow> (bytes \<Rightarrow> string option) \<Rightarrow> ((pyval \<times> pyval) list \<Rightarrow> pyval option)
     \<Rightarrow> bytes \<Rightarrow> pyval option" where
  "json_loads fread other hook bs =
     Option.bind (loads_text other bs) (\<lambda>s.
     Option.bind (scan fread s) (\<lambda>ts.
     Option.bind (parse_run hook ts (Want, [])) (\<lambda>ps.
       case ps of (Complete v, []) \<Rightarrow> Some v | _ \<Rightarrow> None)))"


section \<open>Reading what was printed\<close>

text \<open>What may follow a value in a printed text.\<close>

definition delim :: "string \<Rightarrow> bool" where
  "delim s = (s = [] \<or> hd s \<in> {CHR '','', CHR '']'', CHR ''}'', CHR 0x0A})"

lemma delim_Cons [simp]: "delim (c # s) \<longleftrightarrow> c \<in> {CHR '','', CHR '']'', CHR ''}'', CHR 0x0A}"
  by (simp add: delim_def)

lemma delim_head:
  assumes "delim s"
  shows "takeWhile is_digit s = []" "dropWhile is_digit s = s"
    "scan_fraction s = ([], s)" "scan_exponent s = ([], s)"
  using assms
  by (cases s; auto simp: is_digit_def char_code_def Let_def scan_fraction_def scan_exponent_def
      split: list.splits)+

subsection \<open>Numerals\<close>

lemma digit_char_code [simp]: "n < 10 \<Longrightarrow> char_code (digit_char n) = 48 + n"
  by (simp add: digit_char_def del: of_nat_add)

lemma is_digit_digit_char [simp]: "n < 10 \<Longrightarrow> is_digit (digit_char n)"
  by (simp add: is_digit_def)

lemma zero_digit: "digit_char 0 = CHR ''0''"
  by code_simp

lemma dec_text_digits: "list_all is_digit (dec_text n)"
proof (induction n rule: dec_text.induct)
  case (1 n)
  then show ?case by (subst dec_text.simps) auto
qed

lemma dec_text_value: "digits_nat (dec_text n) = n"
proof (induction n rule: dec_text.induct)
  case (1 n)
  show ?case
  proof (cases "n < 10")
    case True
    then show ?thesis by (subst dec_text.simps) (simp add: digits_nat_def)
  next
    case False
    then have "digits_nat (dec_text n) = digits_nat (dec_text (n div 10)) * 10 + n mod 10"
      by (subst dec_text.simps) (simp add: digits_nat_def)
    then show ?thesis using 1 False by simp
  qed
qed

lemma dec_text_head: "dec_text n = [CHR ''0''] \<or> (dec_text n \<noteq> [] \<and> hd (dec_text n) \<noteq> CHR ''0'')"
proof (induction n rule: dec_text.induct)
  case (1 n)
  show ?case
  proof (cases "n < 10")
    case True
    show ?thesis
    proof (cases "n = 0")
      case zero: True
      then show ?thesis by (subst dec_text.simps) (simp add: zero_digit)
    next
      case False
      have "char_code (digit_char n) \<noteq> char_code (CHR ''0'')"
        using True False by (simp add: char_code_def [of "CHR ''0''"])
      then have "digit_char n \<noteq> CHR ''0''" by metis
      then show ?thesis using True by (subst (2 3) dec_text.simps) auto
    qed
  next
    case False
    have "dec_text (n div 10) \<noteq> [CHR ''0'']"
    proof
      assume "dec_text (n div 10) = [CHR ''0'']"
      then have "digits_nat [CHR ''0''] = n div 10" by (metis dec_text_value)
      then show False using False by (simp add: digits_nat_def char_code_def div_eq_0_iff)
    qed
    with 1 False have "dec_text (n div 10) \<noteq> []" "hd (dec_text (n div 10)) \<noteq> CHR ''0''" by auto
    then show ?thesis using False by (subst (2 3) dec_text.simps) auto
  qed
qed

lemma scan_whole_dec:
  assumes "delim rest"
  shows "scan_whole (dec_text n @ rest) = Some (dec_text n, rest)"
proof -
  obtain c cs where t: "dec_text n = c # cs" using dec_text_head [of n] by (cases "dec_text n") auto
  have d: "is_digit c" "\<forall>x\<in>set cs. is_digit x"
    using dec_text_digits [of n] by (auto simp: t list_all_iff)
  have "c = CHR ''0'' \<Longrightarrow> cs = []" using dec_text_head [of n] by (auto simp: t)
  with d delim_head [OF assms] show ?thesis
    by (auto simp: scan_whole_def t takeWhile_append2 dropWhile_append2)
qed

lemma dec_text_first:
  obtains c cs where "dec_text n = c # cs" "is_digit c"
  using dec_text_head [of n] dec_text_digits [of n] by (cases "dec_text n") auto

lemma not_digit_char: "is_digit c \<Longrightarrow> c \<noteq> d \<or> (48 \<le> char_code d \<and> char_code d \<le> 57)"
  by (auto simp: is_digit_def Let_def)

lemma scan_number_int:
  assumes t: "int_text i = Some t" and d: "delim rest"
  shows "scan_number fread (t @ rest) = Some (PInt i, rest)"
proof -
  define n where "n = nat \<bar>i\<bar>"
  have len: "length (dec_text n) \<le> MAX_DIGITS" and t': "t = (if i < 0 then CHR ''-'' # dec_text n else dec_text n)"
    using t by (auto simp: int_text_def Let_def n_def split: if_splits)
  obtain c cs where w: "dec_text n = c # cs" "is_digit c" by (rule dec_text_first)
  then have "c \<noteq> CHR ''-''" using not_digit_char [of c "CHR ''-''"] by (auto simp: char_code_def)
  then have "scan_sign (t @ rest) = (if i < 0 then ''-'' else [], dec_text n @ rest)"
    by (simp add: scan_sign_def t' w(1))
  then show ?thesis
    using len by (simp add: scan_number_def scan_whole_dec [OF d] delim_head [OF d] dec_text_value n_def)
qed


text \<open>A numeral that is read to its end is also read to its end before a delimiter.\<close>

lemma takeWhile_delim: "delim rest \<Longrightarrow> takeWhile is_digit (s @ rest) = takeWhile is_digit s"
  by (induction s) (simp_all add: delim_head)

lemma dropWhile_delim: "delim rest \<Longrightarrow> dropWhile is_digit (s @ rest) = dropWhile is_digit s @ rest"
  by (induction s) (simp_all add: delim_head)

lemma scan_fraction_extend:
  assumes "delim rest"
  shows "scan_fraction (s @ rest) = apsnd (\<lambda>r. r @ rest) (scan_fraction s)"
proof (cases s)
  case Nil
  then show ?thesis using delim_head [OF assms] by (simp add: scan_fraction_def)
next
  case (Cons d cs)
  show ?thesis
  proof (cases cs)
    case Nil
    have "\<not> is_digit c" if "rest = c # r" for c r
      using that delim_head(1) [OF assms] by (auto split: if_splits)
    then show ?thesis using Cons Nil by (auto simp: scan_fraction_def split: list.splits)
  next
    case (Cons c r)
    then show ?thesis using \<open>s = d # cs\<close> assms
      by (simp add: scan_fraction_def takeWhile_delim dropWhile_delim)
  qed
qed

lemma delim_not_sign: "delim (c # r) \<Longrightarrow> c \<noteq> CHR ''+'' \<and> c \<noteq> CHR ''-'' \<and> \<not> is_digit c"
  using delim_head(1) [of "c # r"] by (auto split: if_splits)

lemma scan_exponent_extend:
  assumes d: "delim rest"
  shows "scan_exponent (s @ rest) = apsnd (\<lambda>r. r @ rest) (scan_exponent s)"
proof (cases s)
  case Nil
  then show ?thesis using delim_head [OF d] by (simp add: scan_exponent_def)
next
  case (Cons e cs)
  note s = this
  have r: "c \<noteq> CHR ''+'' \<and> c \<noteq> CHR ''-'' \<and> \<not> is_digit c" if "rest = c # r" for c r
    using d delim_not_sign unfolding that by blast
  show ?thesis
  proof (cases cs)
    case Nil
    then show ?thesis using s r by (cases rest) (auto simp: scan_exponent_def Let_def)
  next
    case (Cons c cs')
    then show ?thesis using s r d
      by (cases cs'; cases rest) (auto simp: scan_exponent_def Let_def takeWhile_delim dropWhile_delim)
  qed
qed

lemma scan_whole_extend:
  "delim rest \<Longrightarrow> scan_whole s = Some (t, r) \<Longrightarrow> scan_whole (s @ rest) = Some (t, r @ rest)"
  by (cases s) (auto simp: scan_whole_def takeWhile_delim dropWhile_delim split: if_splits)

lemma scan_number_extend:
  assumes d: "delim rest" and n: "scan_number fread s = Some (v, [])"
  shows "scan_number fread (s @ rest) = Some (v, rest)"
proof -
  obtain sign s1 where s1: "scan_sign s = (sign, s1)" by (metis surj_pair)
  have "s \<noteq> []" using n by (auto simp: scan_number_def scan_sign_def scan_whole_def)
  then have s1': "scan_sign (s @ rest) = (sign, s1 @ rest)"
    using s1 by (cases s) (auto simp: scan_sign_def split: if_splits)
  obtain whole s2 where w: "scan_whole s1 = Some (whole, s2)"
    using n s1 by (cases "scan_whole s1") (auto simp: scan_number_def)
  obtain fr s3 where f: "scan_fraction s2 = (fr, s3)" by (metis surj_pair)
  obtain ex s4 where e: "scan_exponent s3 = (ex, s4)" by (metis surj_pair)
  show ?thesis
    using n scan_whole_extend [OF d w] scan_fraction_extend [OF d, of s2] scan_exponent_extend [OF d, of s3]
    by (auto simp: scan_number_def s1 s1' w f e split: if_splits)
qed

text \<open>What the codec needs of \<open>float.__repr__\<close> and \<open>float\<close> on one number: the printed numeral is read
  back as that number.\<close>

definition float_ok :: "(string \<Rightarrow> pyfloat) \<Rightarrow> (real \<Rightarrow> string) \<Rightarrow> real \<Rightarrow> bool" where
  "float_ok fread frepr r = (scan_number fread (frepr r) = Some (PFloat (Finite r), []))"

subsection \<open>Texts\<close>

lemma hex_char_value: "n < 16 \<Longrightarrow> hex_value (hex_char n) = Some n"
  by (auto simp: hex_char_def hex_value_def Let_def simp del: of_nat_add)

lemma hex4_escape:
  assumes "char_code c < 32"
  shows "hex4 (CHR ''0'') (CHR ''0'') (hex_char (char_code c div 16)) (hex_char (char_code c mod 16)) = Some c"
proof -
  have "hex_value (CHR ''0'') = Some 0" by (simp add: hex_value_def char_code_def)
  moreover have "char_code c div 16 < 16" "char_code c mod 16 < 16" using assms by auto
  ultimately show ?thesis by (simp add: hex4_def hex_char_value)
qed

lemma scan_escape:
  assumes "scan_string s = Some (t, rest)"
  shows "scan_string (escape_char c @ s) = Some (c # t, rest)"
proof -
  consider (short) "c \<in> {CHR 0x22, CHR 0x5C, CHR 0x0A, CHR 0x0D, CHR 0x09, CHR 0x0C, CHR 0x08}"
    | (ctrl) "c \<notin> {CHR 0x22, CHR 0x5C, CHR 0x0A, CHR 0x0D, CHR 0x09, CHR 0x0C, CHR 0x08}" "char_code c < 32"
    | (plain) "c \<notin> {CHR 0x22, CHR 0x5C, CHR 0x0A, CHR 0x0D, CHR 0x09, CHR 0x0C, CHR 0x08}" "\<not> char_code c < 32"
    by blast
  then show ?thesis
  proof cases
    case short
    then show ?thesis using assms by (auto simp: escape_char_def unescape_def)
  next
    case ctrl
    then show ?thesis using assms hex4_escape [OF ctrl(2)] by (simp add: escape_char_def)
  next
    case plain
    then show ?thesis using assms by (simp add: escape_char_def)
  qed
qed

lemma scan_string_escapes: "scan_string (escapes s @ CHR 0x22 # rest) = Some (s, rest)"
  by (induction s) (simp_all add: escapes_def scan_escape)


subsection \<open>Values\<close>

fun is_str :: "pyval \<Rightarrow> bool" where
  "is_str (PStr s) = True"
| "is_str _ = False"

lemma is_str_iff: "is_str v \<longleftrightarrow> (\<exists>s. v = PStr s)"
  by (cases v) auto

text \<open>Every dictionary in the value satisfies \<open>D\<close>, has texts as keys, and every float satisfies \<open>ok\<close>.\<close>

fun json_like :: "((pyval \<times> pyval) list \<Rightarrow> bool) \<Rightarrow> (real \<Rightarrow> bool) \<Rightarrow> pyval \<Rightarrow> bool" where
  "json_like D ok (PFloat f) = (case f of Finite r \<Rightarrow> ok r | _ \<Rightarrow> True)"
| "json_like D ok (PList xs) = list_all (json_like D ok) xs"
| "json_like D ok (PDict kvs) = (D kvs \<and> list_all (\<lambda>(k, v). is_str k \<and> json_like D ok v) kvs)"
| "json_like D ok _ = True"

fun sep_tokens :: "token list list \<Rightarrow> token list" where
  "sep_tokens [] = []"
| "sep_tokens [x] = x"
| "sep_tokens (x # y # xs) = x @ TComma # sep_tokens (y # xs)"

fun tokens :: "pyval \<Rightarrow> token list" where
  "tokens (PList xs) = TOpenList # sep_tokens (map tokens xs) @ [TCloseList]"
| "tokens (PDict kvs) =
     TOpenDict # sep_tokens (map (\<lambda>(k, v). TVal k # TColon # tokens v) kvs) @ [TCloseDict]"
| "tokens v = [TVal v]"

text \<open>\<open>t\<close> scans as the tokens \<open>ts\<close> before every delimiter.\<close>

definition scans_as :: "(string \<Rightarrow> pyfloat) \<Rightarrow> string \<Rightarrow> token list \<Rightarrow> bool" where
  "scans_as fread t ts \<longleftrightarrow>
     (\<forall>rest. delim rest \<longrightarrow> scan fread (t @ rest) = map_option (append ts) (scan fread rest))"

lemma scans_asD: "scans_as fread t ts \<Longrightarrow> delim rest \<Longrightarrow>
    scan fread (t @ rest) = map_option (append ts) (scan fread rest)"
  by (simp add: scans_as_def)

lemma append_fun:
  "append [] = (\<lambda>r. r)" "append (x # xs) = (\<lambda>r. x # xs @ r)" "append (xs @ ys) = (\<lambda>r. xs @ ys @ r)"
  by (simp_all add: fun_eq_iff)

lemma scan_scalar_as:
  assumes "\<And>rest. delim rest \<Longrightarrow> scan_scalar fread (t @ rest) = Some (v, rest)"
    and "t = c # cs" "\<not> json_space c" "punctuation c = None"
  shows "scans_as fread t [TVal v]"
  unfolding scans_as_def using assms(1) assms(2-4) by (simp add: append_fun)

lemmas punct_simps = punctuation_def json_space_def

lemma scans_number:
  assumes "\<And>rest. delim rest \<Longrightarrow> scan_number fread (t @ rest) = Some (v, rest)"
    and "t = c # cs" "c = CHR ''-'' \<or> is_digit c"
  shows "scans_as fread t [TVal v]"
proof (rule scan_scalar_as)
  have d: "c \<noteq> x" if "char_code x \<noteq> 45" "\<not> (48 \<le> char_code x \<and> char_code x \<le> 57)" for x
    using assms(3) that not_digit_char [of c x] by (auto simp: char_code_def)
  have "c \<notin> {CHR 0x22, CHR ''n'', CHR ''t'', CHR ''f'', CHR ''{'', CHR ''}'', CHR ''['', CHR '']'', CHR '':'', CHR '','',
      CHR '' '', CHR 0x09, CHR 0x0A, CHR 0x0D}"
    using d by (auto simp: char_code_def)
  then have c: "\<not> json_space c" "punctuation c = None"
    and "\<And>r. scan_scalar fread (c # r) = scan_number fread (c # r)"
    by (auto simp: scan_scalar_def punct_simps)
  then show "\<not> json_space c" "punctuation c = None"
    and "\<And>rest. delim rest \<Longrightarrow> scan_scalar fread (t @ rest) = Some (v, rest)"
    using assms(1) by (simp_all add: assms(2))
qed (rule assms(2))

lemma scans_int: "int_text i = Some t \<Longrightarrow> scans_as fread t [TVal (PInt i)]"
proof -
  assume t: "int_text i = Some t"
  obtain c cs where w: "dec_text (nat \<bar>i\<bar>) = c # cs" "is_digit c" by (rule dec_text_first)
  show ?thesis
  proof (cases "i < 0")
    case True
    then have "t = CHR ''-'' # c # cs" using t w by (auto simp: int_text_def Let_def split: if_splits)
    then show ?thesis using scan_number_int [OF t] by (intro scans_number [where t = t]) auto
  next
    case False
    then have "t = c # cs" using t w by (auto simp: int_text_def Let_def split: if_splits)
    then show ?thesis using scan_number_int [OF t] w(2) by (intro scans_number [where t = t]) auto
  qed
qed

lemma scan_number_first:
  assumes "scan_number fread s = Some (v, r)"
  obtains c cs where "s = c # cs" "c = CHR ''-'' \<or> is_digit c"
proof (cases s)
  case Nil
  then show ?thesis using assms by (simp add: scan_number_def scan_sign_def scan_whole_def)
next
  case (Cons c cs)
  have "is_digit (CHR ''0'')" by (simp add: is_digit_def char_code_def)
  then have "c = CHR ''-'' \<or> is_digit c"
    using assms by (auto simp: Cons scan_number_def scan_sign_def scan_whole_def split: if_splits)
  then show ?thesis using that Cons by blast
qed

lemma scans_float: "float_ok fread frepr r \<Longrightarrow> scans_as fread (frepr r) [TVal (PFloat (Finite r))]"
  unfolding float_ok_def
  by (rule scan_number_first) (auto intro!: scans_number [where t = "frepr r"] scan_number_extend)

lemma scan_quoted: "scan fread (string_text s @ rest) = map_option (Cons (TVal (PStr s))) (scan fread rest)"
proof -
  have "scan_scalar fread (string_text s @ rest) = Some (PStr s, rest)"
    by (simp add: string_text_def scan_scalar_def scan_string_escapes)
  then show ?thesis by (simp add: string_text_def punct_simps)
qed

lemma scans_string: "scans_as fread (string_text s) [TVal (PStr s)]"
  by (simp add: scans_as_def scan_quoted append_fun)

lemma scan_punct:
  "scan fread (CHR '','' # s) = map_option (Cons TComma) (scan fread s)"
  "scan fread (CHR '':'' # s) = map_option (Cons TColon) (scan fread s)"
  "scan fread (CHR ''['' # s) = map_option (Cons TOpenList) (scan fread s)"
  "scan fread (CHR '']'' # s) = map_option (Cons TCloseList) (scan fread s)"
  "scan fread (CHR ''{'' # s) = map_option (Cons TOpenDict) (scan fread s)"
  "scan fread (CHR ''}'' # s) = map_option (Cons TCloseDict) (scan fread s)"
  by (simp_all add: punct_simps)

declare scan.simps(2) [simp del]

lemma scans_words: "scans_as fread ''null'' [TVal PNone]" "scans_as fread ''true'' [TVal (PBool True)]"
  "scans_as fread ''false'' [TVal (PBool False)]"
  by (simp_all add: scans_as_def scan.simps(2) punct_simps scan_scalar_def scan_word_def append_fun)

lemma scans_join:
  assumes "list_all2 (\<lambda>x ts. \<forall>t. x = Some t \<longrightarrow> scans_as fread t ts) xs tss"
    and "join_opt xs = Some t"
  shows "scans_as fread t (sep_tokens tss)"
  using assms
proof (induction xs arbitrary: tss t rule: join_opt.induct)
  case 1
  then show ?case by (simp add: scans_as_def option.map_ident append_fun)
next
  case (2 x)
  then show ?case by (auto simp: list_all2_Cons1)
next
  case (3 x y xs)
  then obtain ts us uss where tss: "tss = ts # us # uss" by (auto simp: list_all2_Cons1)
  obtain a b where ab: "x = Some a" "join_opt (y # xs) = Some b" "t = a @ CHR '','' # b"
    using 3 by (auto split: option.splits)
  have "scans_as fread b (sep_tokens (us # uss))" "scans_as fread a ts"
    using 3 ab by (auto simp: tss)
  then show ?case
    unfolding scans_as_def by (simp add: ab(3) tss scan_punct option.map_comp comp_def append_fun)
qed

lemma scans_member:
  assumes "scans_as fread b ts"
  shows "scans_as fread (string_text k @ CHR '':'' # b) (TVal (PStr k) # TColon # ts)"
proof -
  show ?thesis
    using assms unfolding scans_as_def by (simp add: scan_quoted scan_punct option.map_comp comp_def append_fun)
qed


lemma scan_json:
  "json_text frepr v = Some t \<Longrightarrow> json_like D (float_ok fread frepr) v \<Longrightarrow> scans_as fread t (tokens v)"
proof (induction v arbitrary: t)
  case (PFloat f)
  then show ?case using scans_float [of fread frepr] by (auto simp: float_text_def split: pyfloat.splits)
next
  case (PList xs)
  then obtain u where u: "join_opt (map (json_text frepr) xs) = Some u" "t = CHR ''['' # u @ '']''" by auto
  have "list_all2 (\<lambda>x ts. \<forall>t. x = Some t \<longrightarrow> scans_as fread t ts) (map (json_text frepr) xs) (map tokens xs)"
    using PList.IH PList.prems(2) by (auto simp: list_all2_conv_all_nth list_all_length)
  from scans_join [OF this u(1)] show ?case
    unfolding scans_as_def by (simp add: u(2) scan_punct option.map_comp comp_def append_fun)
next
  case (PDict kvs)
  let ?m = "\<lambda>(k, v). member_text (key_text frepr k) (json_text frepr v)"
  let ?ts = "\<lambda>(k, v). TVal k # TColon # tokens v"
  obtain u where u: "join_opt (map ?m kvs) = Some u" "t = CHR ''{'' # u @ ''}''" using PDict.prems(1) by auto
  have "\<forall>t. ?m p = Some t \<longrightarrow> scans_as fread t (?ts p)" if "p \<in> set kvs" for p
  proof -
    obtain k v where p: "p = (k, v)" by (cases p)
    have "(case p of (k, v) \<Rightarrow> is_str k \<and> json_like D (float_ok fread frepr) v)"
      using PDict.prems(2) that by (simp add: list_all_iff)
    then obtain s where k: "k = PStr s" and "json_like D (float_ok fread frepr) v"
      by (auto simp: is_str_iff p)
    then have "\<And>b. json_text frepr v = Some b \<Longrightarrow> scans_as fread b (tokens v)"
      using PDict.IH that p by (auto simp: snds.simps)
    then show ?thesis
      by (auto simp: p k member_text_def key_text_def scans_member split: option.splits)
  qed
  then have "list_all2 (\<lambda>x ts. \<forall>t. x = Some t \<longrightarrow> scans_as fread t ts) (map ?m kvs) (map ?ts kvs)"
    by (auto simp: list_all2_conv_all_nth simp del: split_paired_All)
  from scans_join [OF this u(1)] show ?case
    unfolding scans_as_def by (simp add: u(2) scan_punct option.map_comp comp_def append_fun)
qed (auto simp: scans_words scans_int scans_string)

subsection \<open>Structure\<close>

lemma tokens_first: "\<exists>t ts. tokens v = t # ts \<and> t \<noteq> TCloseList"
  by (cases v) auto

lemma parse_open:
  "parse_run hook (tokens v @ ts) (WantOrClose, st) = parse_run hook (tokens v @ ts) (Want, InList [] # st)"
  using tokens_first [of v] by (auto simp: parse_step_def)

lemma parse_elements:
  assumes "\<And>x ts st. x \<in> set xs \<Longrightarrow>
      parse_run hook (tokens x @ ts) (Want, st) = parse_run hook ts (Complete x, st)"
    and "xs \<noteq> []"
  shows "parse_run hook (sep_tokens (map tokens xs) @ TCloseList # ts) (Want, InList acc # st) =
    parse_run hook ts (Complete (PList (acc @ xs)), st)"
  using assms
proof (induction xs arbitrary: acc)
  case (Cons x xs)
  then show ?case by (cases xs) (simp_all add: parse_step_def)
qed simp

lemma parse_members:
  assumes "\<And>k v ts st. (k, v) \<in> set kvs \<Longrightarrow> is_str k \<and>
      parse_run hook (tokens v @ ts) (Want, st) = parse_run hook ts (Complete v, st)"
    and "kvs \<noteq> []"
  shows "parse_run hook (sep_tokens (map (\<lambda>(k, v). TVal k # TColon # tokens v) kvs) @ TCloseDict # ts)
      (WantKey acc, st) =
    Option.bind (hook (acc @ kvs)) (\<lambda>d. parse_run hook ts (Complete d, st))"
  using assms
proof (induction kvs arbitrary: acc)
  case (Cons p kvs)
  obtain k v where p: "p = (k, v)" by (cases p)
  have "is_str k" using Cons.prems(1) [of k v] by (simp add: p)
  then obtain s where k: "k = PStr s" by (auto simp: is_str_iff)
  have v: "parse_run hook (tokens v @ ts) (Want, st) = parse_run hook ts (Complete v, st)" for ts st
    using Cons.prems(1) [of k v] by (simp add: p)
  have IH: "kvs \<noteq> [] \<Longrightarrow> parse_run hook (sep_tokens (map (\<lambda>(k, v). TVal k # TColon # tokens v) kvs) @ TCloseDict # ts)
      (WantKey acc, st) = Option.bind (hook (acc @ kvs)) (\<lambda>d. parse_run hook ts (Complete d, st))" for acc
    by (rule Cons.IH) (rule Cons.prems(1) [OF list.set_intros(2)])
  show ?case
  proof (cases kvs)
    case Nil
    then show ?thesis
      by (cases "hook (acc @ [(PStr s, v)])") (simp_all add: p k v parse_step_def read_key_def)
  next
    case (Cons q kvs')
    then show ?thesis using IH [of "acc @ [(PStr s, v)]"] by (simp add: p k v parse_step_def read_key_def)
  qed
qed simp

lemma parse_key_or_close:
  "parse_run hook (TVal k # ts) (WantKeyOrClose, st) = parse_run hook (TVal k # ts) (WantKey [], st)"
  by (simp add: parse_step_def)

lemma parse_tokens:
  assumes "json_like (\<lambda>d. hook d = Some (PDict d)) ok v"
  shows "parse_run hook (tokens v @ ts) (Want, st) = parse_run hook ts (Complete v, st)"
  using assms
proof (induction v arbitrary: ts st)
  case (PList xs)
  have x: "parse_run hook (tokens x @ ts) (Want, st) = parse_run hook ts (Complete x, st)"
    if "x \<in> set xs" for x ts st
    using PList that by (auto simp: list_all_iff)
  show ?case
  proof (cases xs)
    case Nil
    then show ?thesis by (simp add: parse_step_def open_value_def)
  next
    case (Cons y ys)
    obtain us where us: "sep_tokens (map tokens xs) = tokens y @ us"
      using Cons by (cases ys) auto
    have "parse_run hook (tokens (PList xs) @ ts) (Want, st) =
        parse_run hook (sep_tokens (map tokens xs) @ TCloseList # ts) (Want, InList [] # st)"
      by (simp add: us parse_open) (simp add: parse_step_def open_value_def parse_open us)
    then show ?thesis using parse_elements [of xs hook ts "[]" st] x Cons by simp
  qed
next
  case (PDict kvs)
  have v: "is_str k \<and> parse_run hook (tokens v @ ts) (Want, st) = parse_run hook ts (Complete v, st)"
    if "(k, v) \<in> set kvs" for k v ts st
    using PDict that by (fastforce simp: list_all_iff snds.simps)
  have h: "hook kvs = Some (PDict kvs)" using PDict.prems by simp
  show ?case
  proof (cases kvs)
    case Nil
    then show ?thesis using h by (simp add: parse_step_def open_value_def)
  next
    case (Cons q kvs')
    obtain k w where q: "q = (k, w)" by (cases q)
    let ?m = "sep_tokens (map (\<lambda>(k, v). TVal k # TColon # tokens v) kvs)"
    obtain us where us: "?m = TVal k # us" using Cons q by (cases kvs') auto
    have "parse_run hook (tokens (PDict kvs) @ ts) (Want, st) =
        parse_run hook (?m @ TCloseDict # ts) (WantKeyOrClose, st)"
      by (simp add: parse_step_def open_value_def)
    also have "\<dots> = parse_run hook (?m @ TCloseDict # ts) (WantKey [], st)"
      unfolding us append_Cons by (rule parse_key_or_close)
    also have "\<dots> = parse_run hook ts (Complete (PDict kvs), st)"
      using parse_members [of kvs hook ts "[]" st] v Cons h by simp
    finally show ?thesis .
  qed
qed (simp_all add: parse_step_def open_value_def)

lemma loads_dumps:
  assumes t: "json_text frepr v = Some t"
    and v: "json_like (\<lambda>d. hook d = Some (PDict d)) (float_ok fread frepr) v"
    and bs: "plain_utf8 (utf8 (t @ [CHR 0x0A]))"
  shows "json_loads fread other hook (utf8 (t @ [CHR 0x0A])) = Some v"
proof -
  have "utf8_decode (utf8 (t @ [CHR 0x0A])) = Some (t @ [CHR 0x0A])" by (rule utf8.dec_enc) simp
  moreover have "scan fread (t @ [CHR 0x0A]) = Some (tokens v)"
    using scans_asD [OF scan_json [OF t v], of "[CHR 0x0A]"] by (simp add: scan.simps(2) punct_simps)
  moreover have "parse_run hook (tokens v) (Want, []) = Some (Complete v, [])"
    using parse_tokens [OF v, of "[]" "[]"] by simp
  ultimately show ?thesis using bs by (simp add: json_loads_def loads_text_def del: utf8_append)
qed


subsection \<open>What reading produces\<close>

fun scalar :: "pyval \<Rightarrow> bool" where
  "scalar (PList _) = False"
| "scalar (PDict _) = False"
| "scalar (PBytes _) = False"
| "scalar _ = True"

definition token_scalar :: "token \<Rightarrow> bool" where
  "token_scalar t = (\<forall>v. t = TVal v \<longrightarrow> scalar v)"

lemma scan_scalar_scalar: "scan_scalar fread s = Some (v, rest) \<Longrightarrow> scalar v"
  by (auto simp: scan_scalar_def scan_word_def scan_number_def Let_def
      split: list.splits if_splits option.splits prod.splits)

lemma scan_tokens: "scan fread s = Some ts \<Longrightarrow> list_all token_scalar ts"
proof (induction fread s arbitrary: ts rule: scan.induct)
  case (2 fread c cs)
  show ?case
  proof (cases "json_space c")
    case True
    then show ?thesis using 2 by (simp add: scan.simps(2))
  next
    case space: False
    show ?thesis
    proof (cases "punctuation c")
      case None
      then obtain v rest where s: "scan_scalar fread (c # cs) = Some (v, rest)"
        using 2 space by (cases "scan_scalar fread (c # cs)") (auto simp: scan.simps(2))
      then obtain us where "scan fread rest = Some us" "ts = TVal v # us"
        using 2 space None by (auto simp: scan.simps(2))
      then show ?thesis using 2(2) [OF space None s] scan_scalar_scalar [OF s] by (simp add: token_scalar_def)
    next
      case (Some t)
      then obtain us where us: "scan fread cs = Some us" "ts = t # us"
        using 2 space by (auto simp: scan.simps(2))
      have "token_scalar t" using Some by (auto simp: punctuation_def token_scalar_def split: if_splits)
      then show ?thesis using 2(3) [OF space Some] us by simp
    qed
  qed
qed simp

text \<open>Every dictionary of the result satisfies what the hook lets pass.\<close>

definition members_ok :: "((pyval \<times> pyval) list \<Rightarrow> bool) \<Rightarrow> (pyval \<times> pyval) list \<Rightarrow> bool" where
  "members_ok D kvs = list_all (\<lambda>(k, v). is_str k \<and> json_like D (\<lambda>_. True) v) kvs"

fun enclosing_ok :: "((pyval \<times> pyval) list \<Rightarrow> bool) \<Rightarrow> enclosing \<Rightarrow> bool" where
  "enclosing_ok D (InList acc) = list_all (json_like D (\<lambda>_. True)) acc"
| "enclosing_ok D (InDict acc k) = (is_str k \<and> members_ok D acc)"

fun expect_ok :: "((pyval \<times> pyval) list \<Rightarrow> bool) \<Rightarrow> expect \<Rightarrow> bool" where
  "expect_ok D (WantKey acc) = members_ok D acc"
| "expect_ok D (WantColon acc k) = (is_str k \<and> members_ok D acc)"
| "expect_ok D (Complete v) = json_like D (\<lambda>_. True) v"
| "expect_ok D _ = True"

definition parse_ok :: "((pyval \<times> pyval) list \<Rightarrow> bool) \<Rightarrow> expect \<times> enclosing list \<Rightarrow> bool" where
  "parse_ok D ps = (expect_ok D (fst ps) \<and> list_all (enclosing_ok D) (snd ps))"

lemma scalar_json_like: "scalar v \<Longrightarrow> json_like D (\<lambda>_. True) v"
  by (cases v) (auto split: pyfloat.splits)

lemma open_value_ok:
  "open_value t st = Some ps \<Longrightarrow> token_scalar t \<Longrightarrow> list_all (enclosing_ok D) st \<Longrightarrow> parse_ok D ps"
  by (cases t) (auto simp: open_value_def parse_ok_def token_scalar_def scalar_json_like)

lemma read_key_ok:
  "read_key acc t st = Some ps \<Longrightarrow> members_ok D acc \<Longrightarrow> list_all (enclosing_ok D) st \<Longrightarrow> parse_ok D ps"
  by (auto simp: read_key_def parse_ok_def split: token.splits pyval.splits)

lemma parse_step_ok:
  assumes hook: "\<And>d v. hook d = Some v \<Longrightarrow> v = PDict d \<and> D d"
    and step: "parse_step hook t (e, st) = Some ps" and t: "token_scalar t" and ok: "parse_ok D (e, st)"
  shows "parse_ok D ps"
proof (cases e)
  case Want
  then show ?thesis using step t ok open_value_ok by (auto simp: parse_step_def parse_ok_def)
next
  case WantOrClose
  then show ?thesis using step t ok open_value_ok [of t "InList [] # st"]
    by (auto simp: parse_step_def parse_ok_def split: if_splits)
next
  case (WantKey acc)
  then show ?thesis using step ok read_key_ok [of acc t st] by (auto simp: parse_step_def parse_ok_def)
next
  case WantKeyOrClose
  then show ?thesis using step ok read_key_ok [of "[]" t st] hook [of "[]"]
    by (auto simp: parse_step_def parse_ok_def members_ok_def split: if_splits)
next
  case (WantColon acc k)
  then show ?thesis using step ok by (auto simp: parse_step_def parse_ok_def split: if_splits)
next
  case (Complete v)
  then show ?thesis using step ok
    by (cases st; cases "hd st"; cases t)
      (auto simp: parse_step_def parse_ok_def members_ok_def dest: hook)
qed

lemma parse_run_ok:
  assumes hook: "\<And>d v. hook d = Some v \<Longrightarrow> v = PDict d \<and> D d"
    and "parse_run hook ts ps = Some ps'" "list_all token_scalar ts" "parse_ok D ps"
  shows "parse_ok D ps'"
  using assms(2-4)
proof (induction ts arbitrary: ps)
  case (Cons t ts)
  then obtain q where q: "parse_step hook t ps = Some q" "parse_run hook ts q = Some ps'"
    by (auto simp: bind_eq_Some_conv)
  have "parse_ok D q"
    using parse_step_ok [of hook D t "fst ps" "snd ps" q] hook q(1) Cons.prems by auto
  then show ?case using Cons.IH q(2) Cons.prems by simp
qed simp

lemma json_loads_ok:
  assumes hook: "\<And>d v. hook d = Some v \<Longrightarrow> v = PDict d \<and> D d"
    and "json_loads fread other hook bs = Some v"
  shows "json_like D (\<lambda>_. True) v"
proof -
  obtain s ts where ts: "scan fread s = Some ts" "parse_run hook ts (Want, []) = Some (Complete v, [])"
  proof -
    obtain s ts e st where "scan fread s = Some ts" "parse_run hook ts (Want, []) = Some (e, st)"
      "(case (e, st) of (Complete v, []) \<Rightarrow> Some v | _ \<Rightarrow> None) = Some v"
      using assms(2) by (auto simp: json_loads_def bind_eq_Some_conv)
    then show ?thesis using that by (cases e; cases st) auto
  qed
  have "parse_ok D (Complete v, [])"
    by (rule parse_run_ok [OF hook ts(2) scan_tokens [OF ts(1)]]) (simp_all add: parse_ok_def)
  then show ?thesis by (simp add: parse_ok_def)
qed

end
