(* ===== verification/Channel_Contracts.thy ===== *)
theory Channel_Contracts
  imports Artifact_Store Json_Text "HOL-Library.List_Lexorder"
begin

text \<open>
  The contracts of the chat channels (\<open>channel-bridges/contracts.py\<close>), the routing descriptor of an
  attested conversation (\<open>conversation.py\<close>) and the bounded history (\<open>history.py\<close>).

  A frozen dataclass is a record and its \<open>__post_init__\<close> a check that a constructor function runs on
  the raw values. \<open>ContractErr\<close> stands for \<open>ValueError\<close>. The hexadecimal SHA-256 digest is a
  parameter. What the routing needs of it is that it is hexadecimal and does not collide on the byte
  strings it is applied to.
\<close>

section \<open>Versions and identifiers\<close>

definition API_VERSION :: int where "API_VERSION = 1"
definition MAX_CONTEXT_MESSAGES :: nat where "MAX_CONTEXT_MESSAGES = 200"
definition MAX_CONTEXT_BYTES :: nat where "MAX_CONTEXT_BYTES = 65536"
definition MAX_NEGOTIATED_CONTEXT_BYTES :: nat where "MAX_NEGOTIATED_CONTEXT_BYTES = 262144"

definition check_version :: "pyval \<Rightarrow> wire_exn + unit" where
  "check_version v = (if v = PInt API_VERSION then Inr () else Inl ContractErr)"

definition has_control :: "string \<Rightarrow> bool" where
  "has_control s = list_ex (\<lambda>c. char_code c < 32 \<or> char_code c = 127) s"

definition is_ident :: "string \<Rightarrow> bool" where
  "is_ident s = (s \<noteq> [] \<and> length (utf8 s) \<le> 512 \<and> \<not> has_control s)"

definition ctx_ident :: "pyval \<Rightarrow> wire_exn + string" where
  "ctx_ident v = (case v of PStr s \<Rightarrow> if is_ident s then Inr s else Inl ContractErr | _ \<Rightarrow> Inl ContractErr)"

definition ctx_ident_opt :: "pyval \<Rightarrow> wire_exn + string option" where
  "ctx_ident_opt v = (if v = PNone then Inr None else bind_r (ctx_ident v) (\<lambda>s. Inr (Some s)))"

fun ctx_idents :: "pyval list \<Rightarrow> wire_exn + string list" where
  "ctx_idents [] = Inr []"
| "ctx_idents (v # vs) = bind_r (ctx_ident v) (\<lambda>s. bind_r (ctx_idents vs) (\<lambda>ss. Inr (s # ss)))"

section \<open>Contexts\<close>

record bctx =
  bc_binding :: string
  bc_provider :: string
  bc_account :: string
  bc_actor :: string
  bc_conversation :: string
  bc_event :: string
  bc_thread :: "string option"
  bc_reply_to :: "string option"
  bc_kind :: string
  bc_audience :: "string list"
  bc_complete :: bool
  bc_verified_at :: pyval

definition CONVERSATION_KINDS :: "string list" where
  "CONVERSATION_KINDS = [''unknown'', ''direct'', ''group'', ''channel'', ''thread'']"

text \<open>\<open>math.isfinite\<close> converts an integer to a double, which fails from this bound on.\<close>

definition DOUBLE_LIMIT :: int where "DOUBLE_LIMIT = 2 ^ 1024 - 2 ^ 970"

definition check_verified :: "pyval \<Rightarrow> wire_exn + pyval" where
  "check_verified v =
     (case v of
        PNone \<Rightarrow> Inr v
      | PInt n \<Rightarrow>
          if \<bar>n\<bar> \<ge> DOUBLE_LIMIT then Inl OverflowErr else if n < 0 then Inl ContractErr else Inr v
      | PFloat (Finite r) \<Rightarrow> if r < 0 then Inl ContractErr else Inr v
      | _ \<Rightarrow> Inl ContractErr)"

definition check_audience :: "pyval \<Rightarrow> wire_exn + string list" where
  "check_audience v =
     (case v of
        PList xs \<Rightarrow>
          if length xs > 1000 then Inl ContractErr
          else bind_r (ctx_idents xs) (\<lambda>ss. if distinct ss then Inr ss else Inl ContractErr)
      | _ \<Rightarrow> Inl ContractErr)"

definition check_kind :: "pyval \<Rightarrow> wire_exn + string" where
  "check_kind v =
     (case v of PStr s \<Rightarrow> if s \<in> set CONVERSATION_KINDS then Inr s else Inl ContractErr | _ \<Rightarrow> Inl ContractErr)"

definition check_flag :: "pyval \<Rightarrow> wire_exn + bool" where
  "check_flag v = (case v of PBool b \<Rightarrow> Inr b | _ \<Rightarrow> Inl ContractErr)"

text \<open>\<open>BridgeContext(**d)\<close>.\<close>

definition required_arg :: "string \<Rightarrow> (pyval \<times> pyval) list \<Rightarrow> wire_exn + pyval" where
  "required_arg k d = of_opt TypeErr (pget k d)"

definition CONTEXT_REQUIRED :: "string list" where
  "CONTEXT_REQUIRED = [''binding_id'', ''provider'', ''account_id'', ''actor_id'', ''conversation_id'', ''event_id'']"

definition CONTEXT_FIELDS :: "string list" where
  "CONTEXT_FIELDS = CONTEXT_REQUIRED @ [''thread_id'', ''reply_to_event_id'', ''api_version'',
     ''conversation_kind'', ''audience_ids'', ''audience_complete'', ''audience_verified_at'']"

definition new_context :: "(pyval \<times> pyval) list \<Rightarrow> wire_exn + bctx" where
  "new_context d =
     (if \<not> list_all (\<lambda>(k, _). k \<in> PStr ` set CONTEXT_FIELDS) d then Inl TypeErr
      else if \<not> list_all (\<lambda>k. pget k d \<noteq> None) CONTEXT_REQUIRED then Inl TypeErr
      else
        bind_r (check_version (pget_or (PInt API_VERSION) ''api_version'' d)) (\<lambda>_.
        bind_r (ctx_ident (pget_or PNone ''binding_id'' d)) (\<lambda>binding.
        bind_r (ctx_ident (pget_or PNone ''provider'' d)) (\<lambda>provider.
        bind_r (ctx_ident (pget_or PNone ''account_id'' d)) (\<lambda>account.
        bind_r (ctx_ident (pget_or PNone ''actor_id'' d)) (\<lambda>actor.
        bind_r (ctx_ident (pget_or PNone ''conversation_id'' d)) (\<lambda>conversation.
        bind_r (ctx_ident (pget_or PNone ''event_id'' d)) (\<lambda>event.
        bind_r (ctx_ident_opt (pget_or PNone ''thread_id'' d)) (\<lambda>thread.
        bind_r (ctx_ident_opt (pget_or PNone ''reply_to_event_id'' d)) (\<lambda>reply_to.
        bind_r (check_kind (pget_or (PStr ''unknown'') ''conversation_kind'' d)) (\<lambda>kind.
        bind_r (check_audience (pget_or (PList []) ''audience_ids'' d)) (\<lambda>audience.
        bind_r (check_flag (pget_or (PBool False) ''audience_complete'' d)) (\<lambda>entire.
        bind_r (check_verified (pget_or PNone ''audience_verified_at'' d)) (\<lambda>verified.
          Inr \<lparr>bc_binding = binding, bc_provider = provider, bc_account = account,
               bc_actor = actor, bc_conversation = conversation, bc_event = event,
               bc_thread = thread, bc_reply_to = reply_to, bc_kind = kind,
               bc_audience = audience, bc_complete = entire, bc_verified_at = verified\<rparr>))))))))))))))"

definition deduplication_key :: "bctx \<Rightarrow> string \<times> string \<times> string \<times> string" where
  "deduplication_key c = (bc_binding c, bc_provider c, bc_account c, bc_event c)"

text \<open>What every constructed context satisfies.\<close>

definition ctx_ok :: "bctx \<Rightarrow> bool" where
  "ctx_ok c =
     (list_all is_ident [bc_binding c, bc_provider c, bc_account c, bc_actor c, bc_conversation c, bc_event c] \<and>
      (\<forall>s\<in>set_option (bc_thread c). is_ident s) \<and> (\<forall>s\<in>set_option (bc_reply_to c). is_ident s) \<and>
      bc_kind c \<in> set CONVERSATION_KINDS \<and>
      length (bc_audience c) \<le> 1000 \<and> list_all is_ident (bc_audience c) \<and> distinct (bc_audience c) \<and>
      check_verified (bc_verified_at c) = Inr (bc_verified_at c))"

lemma ctx_ident_Inr [result_simps]: "ctx_ident v = Inr s \<longleftrightarrow> v = PStr s \<and> is_ident s"
  by (cases v) (auto simp: ctx_ident_def)

lemma ctx_ident_opt_Inr [result_simps]:
  "ctx_ident_opt v = Inr x \<longleftrightarrow>
     (v = PNone \<and> x = None) \<or> (\<exists>s. v = PStr s \<and> is_ident s \<and> x = Some s)"
  by (cases "v = PNone") (auto simp: ctx_ident_opt_def result_simps)

lemma ctx_idents_Inr [result_simps]:
  "ctx_idents vs = Inr ss \<longleftrightarrow> vs = map PStr ss \<and> list_all is_ident ss"
proof (induction vs arbitrary: ss)
  case (Cons v vs)
  show ?case by (cases ss) (auto simp: bind_r_Inr_iff ctx_ident_Inr Cons.IH)
qed auto

lemma check_audience_Inr [result_simps]:
  "check_audience v = Inr ss \<longleftrightarrow>
     v = PList (map PStr ss) \<and> length ss \<le> 1000 \<and> list_all is_ident ss \<and> distinct ss"
proof (cases v)
  case (PList xs)
  show ?thesis
    by (auto simp: check_audience_def PList bind_r_Inr_iff ctx_idents_Inr)
qed (auto simp: check_audience_def)

lemma check_kind_Inr [result_simps]: "check_kind v = Inr s \<longleftrightarrow> v = PStr s \<and> s \<in> set CONVERSATION_KINDS"
  by (cases v) (auto simp: check_kind_def)

lemma check_flag_Inr [result_simps]: "check_flag v = Inr b \<longleftrightarrow> v = PBool b"
  by (cases v) (auto simp: check_flag_def)

lemma check_verified_same: "check_verified v = Inr w \<Longrightarrow> w = v"
  by (auto simp: check_verified_def split: pyval.splits pyfloat.splits if_splits)

lemma check_verified_idem: "check_verified v = Inr w \<Longrightarrow> check_verified w = Inr w"
  using check_verified_same by blast

lemma new_context_ok: "new_context d = Inr c \<Longrightarrow> ctx_ok c"
  by (auto simp: new_context_def result_simps ctx_ok_def split: if_splits dest: check_verified_idem)

section \<open>Conversations\<close>

record bconv =
  cv_mode :: string
  cv_binding :: string
  cv_provider :: string
  cv_account :: string
  cv_conversation :: string
  cv_thread :: "string option"
  cv_private_actor :: "string option"
  cv_audience :: "string list"
  cv_epoch :: string
  cv_session_key :: string

definition hex64 :: "string \<Rightarrow> bool" where
  "hex64 s = (length s = 64 \<and> list_all is_hex s)"

definition KEY_PREFIX :: string where "KEY_PREFIX = ''oa-channel-v1-''"

text \<open>\<open>BridgeConversation.__post_init__\<close>; every failed check raises \<open>ValueError\<close>.\<close>

definition conv_ok :: "bconv \<Rightarrow> bool" where
  "conv_ok v =
     (cv_mode v \<in> {''private'', ''channel'', ''thread''} \<and>
      list_all is_ident [cv_binding v, cv_provider v, cv_account v, cv_conversation v] \<and>
      (\<forall>s\<in>set_option (cv_thread v). is_ident s) \<and> (\<forall>s\<in>set_option (cv_private_actor v). is_ident s) \<and>
      1 \<le> length (cv_audience v) \<and> length (cv_audience v) \<le> 1000 \<and> distinct (cv_audience v) \<and>
      list_all is_ident (cv_audience v) \<and>
      cv_audience v = sort_key utf8 (cv_audience v) \<and>
      \<not> (cv_mode v = ''private'' \<and> map Some (cv_audience v) \<noteq> [cv_private_actor v] \<or>
         cv_mode v \<noteq> ''private'' \<and> cv_private_actor v \<noteq> None \<or>
         cv_mode v = ''channel'' \<and> cv_thread v \<noteq> None \<or>
         cv_mode v = ''thread'' \<and> cv_thread v = None \<or>
         \<not> hex64 (cv_epoch v) \<or>
         \<not> (startswith (cv_session_key v) KEY_PREFIX \<and> hex64 (drop (length KEY_PREFIX) (cv_session_key v)))))"

definition new_conversation :: "bconv \<Rightarrow> wire_exn + bconv" where
  "new_conversation v = (if conv_ok v then Inr v else Inl ContractErr)"

text \<open>Length-prefixed texts; a text of \<open>2^32\<close> bytes or more raises \<open>OverflowError\<close>.\<close>

fun framed :: "string list \<Rightarrow> wire_exn + bytes" where
  "framed [] = Inr []"
| "framed (s # ss) =
     (case to_bytes4 (length (utf8 s)) of
        None \<Rightarrow> Inl OverflowErr
      | Some n \<Rightarrow> bind_r (framed ss) (\<lambda>rest. Inr (n @ utf8 s @ rest)))"

text \<open>The mode and the private actor of a context, \<open>None\<close> where it is not attested.\<close>

definition conversation_mode :: "bctx \<Rightarrow> (string \<times> string option) option" where
  "conversation_mode c =
     (if \<not> bc_complete c \<or> bc_verified_at c = PNone \<or> bc_audience c = [] \<or>
        bc_actor c \<notin> set (bc_audience c) then None
      else if bc_kind c = ''direct'' then
        (if set (bc_audience c) \<noteq> {bc_actor c} then None else Some (''private'', Some (bc_actor c)))
      else if bc_kind c = ''channel'' \<and> bc_thread c = None then Some (''channel'', None)
      else if bc_kind c = ''thread'' \<and> bc_thread c \<noteq> None then Some (''thread'', None)
      else None)"

definition text_or :: "string \<Rightarrow> string option \<Rightarrow> string" where
  "text_or dflt x = (case x of None \<Rightarrow> dflt | Some s \<Rightarrow> if s = [] then dflt else s)"

definition epoch_fields :: "bctx \<Rightarrow> string list" where
  "epoch_fields c = ''openagent-channel-audience/v1'' # sort_key utf8 (bc_audience c)"

definition session_fields :: "bctx \<Rightarrow> string \<Rightarrow> string option \<Rightarrow> string \<Rightarrow> string list" where
  "session_fields c mode sole epoch =
     [''openagent-channel-session/v1'', bc_binding c, bc_provider c, bc_account c, mode,
      bc_conversation c, text_or [] (bc_thread c), text_or [] sole, epoch]"

definition describe_conversation :: "(bytes \<Rightarrow> string) \<Rightarrow> bctx \<Rightarrow> wire_exn + bconv option" where
  "describe_conversation sha c =
     (case conversation_mode c of
        None \<Rightarrow> Inr None
      | Some (mode, sole) \<Rightarrow>
          bind_r (framed (epoch_fields c)) (\<lambda>e.
          bind_r (framed (session_fields c mode sole (sha e))) (\<lambda>k.
          bind_r (new_conversation
            \<lparr>cv_mode = mode, cv_binding = bc_binding c, cv_provider = bc_provider c,
             cv_account = bc_account c, cv_conversation = bc_conversation c, cv_thread = bc_thread c,
             cv_private_actor = sole, cv_audience = sort_key utf8 (bc_audience c),
             cv_epoch = sha e, cv_session_key = KEY_PREFIX @ sha k\<rparr>) (\<lambda>v. Inr (Some v)))))"

subsection \<open>Framing\<close>

lemma utf8_length_le: "length (utf8 s) \<le> 2 * length s"
  by (induction s) (auto simp: utf8_Cons utf8_char_def Let_def)

lemma ident_length: "is_ident s \<Longrightarrow> length (utf8 s) < 2 ^ 32"
  by (simp add: is_ident_def)

lemma framed_Inr: "\<forall>s\<in>set ss. length (utf8 s) < 2 ^ 32 \<Longrightarrow> \<exists>bs. framed ss = Inr bs"
  by (induction ss) (auto simp: to_bytes4_def)

lemma framed_inject: "framed xs = Inr bs \<Longrightarrow> framed ys = Inr bs \<Longrightarrow> xs = ys"
proof (induction xs arbitrary: ys bs)
  case Nil
  then show ?case by (cases ys) (auto simp: result_simps split: option.splits dest: length_to_bytes4)
next
  case (Cons x xs)
  obtain n r where x: "to_bytes4 (length (utf8 x)) = Some n" "framed xs = Inr r" "bs = n @ utf8 x @ r"
    using Cons.prems(1) by (auto simp: result_simps split: option.splits)
  have "bs \<noteq> []" using x length_to_bytes4 by fastforce
  then obtain y zs where ys: "ys = y # zs" using Cons.prems(2) by (cases ys) auto
  obtain m q where y: "to_bytes4 (length (utf8 y)) = Some m" "framed zs = Inr q" "bs = m @ utf8 y @ q"
    using Cons.prems(2) by (auto simp: ys result_simps split: option.splits)
  have "n = m \<and> utf8 x @ r = utf8 y @ q"
    using x y length_to_bytes4 [OF x(1)] length_to_bytes4 [OF y(1)] by (metis append_eq_append_conv)
  then have "length (utf8 x) = length (utf8 y)" "utf8 x @ r = utf8 y @ q"
    using from_to_bytes4 [OF x(1)] from_to_bytes4 [OF y(1)] by auto
  then have "utf8 x = utf8 y" "r = q" by auto
  then show ?case using Cons.IH x(2) y(2) utf8.enc_inject [of x y] by (simp add: ys)
qed


subsection \<open>Describing\<close>

lemma conversation_mode_cases:
  assumes "conversation_mode c = Some (mode, sole)"
  shows "bc_complete c" "bc_verified_at c \<noteq> PNone" "bc_actor c \<in> set (bc_audience c)"
    "(mode = ''private'' \<and> sole = Some (bc_actor c) \<and> set (bc_audience c) = {bc_actor c}) \<or>
     (mode = ''channel'' \<and> sole = None \<and> bc_thread c = None) \<or>
     (mode = ''thread'' \<and> sole = None \<and> bc_thread c \<noteq> None)"
  using assms by (auto simp: conversation_mode_def split: if_splits)

lemma inj_utf8: "inj_on utf8 A"
  using utf8.enc_inject by (auto simp: inj_on_def)

lemma sort_key_unique:
  fixes f :: "'a \<Rightarrow> 'b :: linorder"
  assumes "inj_on f (set xs)" "distinct xs" "distinct ys" "set xs = set ys"
  shows "sort_key f xs = sort_key f ys"
proof -
  have "map f (sort_key f xs) = map f (sort_key f ys)"
    by (rule sorted_distinct_set_unique) (use assms in \<open>simp_all add: distinct_map\<close>)
  then show ?thesis using assms by (auto intro: map_inj_on)
qed

lemma sort_key_idem: "sort_key f (sort_key f xs) = sort_key f xs"
  by (rule sort_key_id_if_sorted) simp

lemma list_all_sort: "list_all P (sort_key f xs) = list_all P xs"
  by (simp add: list_all_iff)

text \<open>\<open>hex64\<close> of the digests is all that describing needs of SHA-256 in order not to raise.\<close>

lemma described:
  assumes c: "ctx_ok c" and sha: "\<forall>b. hex64 (sha b)"
    and m: "conversation_mode c = Some (mode, sole)"
  shows "\<exists>e k v. framed (epoch_fields c) = Inr e \<and> framed (session_fields c mode sole (sha e)) = Inr k \<and>
    describe_conversation sha c = Inr (Some v) \<and> conv_ok v \<and>
    v = \<lparr>cv_mode = mode, cv_binding = bc_binding c, cv_provider = bc_provider c, cv_account = bc_account c,
         cv_conversation = bc_conversation c, cv_thread = bc_thread c, cv_private_actor = sole,
         cv_audience = sort_key utf8 (bc_audience c), cv_epoch = sha e, cv_session_key = KEY_PREFIX @ sha k\<rparr>"
proof -
  note cases = conversation_mode_cases [OF m]
  have id: "is_ident (bc_binding c)" "is_ident (bc_provider c)" "is_ident (bc_account c)"
    "is_ident (bc_conversation c)" "list_all is_ident (bc_audience c)" "distinct (bc_audience c)"
    "length (bc_audience c) \<le> 1000" "is_ident (bc_actor c)" "\<And>s. bc_thread c = Some s \<Longrightarrow> is_ident s"
    using c by (auto simp: ctx_ok_def)
  have short: "length (utf8 s) < 2 ^ 32" if "length s < 100" for s
    using utf8_length_le [of s] that by simp
  have hexlen: "length (sha b) = 64" for b using sha by (simp add: hex64_def)
  have "\<forall>s\<in>set (epoch_fields c). length (utf8 s) < 2 ^ 32"
    using id(5) ident_length short [of "''openagent-channel-audience/v1''"]
    by (auto simp: epoch_fields_def list_all_iff)
  then obtain e where e: "framed (epoch_fields c) = Inr e" using framed_Inr by blast
  have "length (utf8 (text_or [] (bc_thread c))) < 2 ^ 32" "length (utf8 (text_or [] sole)) < 2 ^ 32"
    "length (utf8 mode) < 2 ^ 32"
    using id(8,9) ident_length cases(4) short [of "[]"] short [of "''private''"] short [of "''channel''"]
      short [of "''thread''"]
    by (auto simp: text_or_def split: option.splits)
  then have "\<forall>s\<in>set (session_fields c mode sole (sha e)). length (utf8 s) < 2 ^ 32"
    using id(1-4) ident_length short [of "''openagent-channel-session/v1''"] short [of "sha e"] hexlen [of e]
    by (auto simp: session_fields_def)
  then obtain k where k: "framed (session_fields c mode sole (sha e)) = Inr k" using framed_Inr by blast
  let ?v = "\<lparr>cv_mode = mode, cv_binding = bc_binding c, cv_provider = bc_provider c, cv_account = bc_account c,
         cv_conversation = bc_conversation c, cv_thread = bc_thread c, cv_private_actor = sole,
         cv_audience = sort_key utf8 (bc_audience c), cv_epoch = sha e, cv_session_key = KEY_PREFIX @ sha k\<rparr>"
  have ne: "0 < length (bc_audience c)" using cases(3) by (cases "bc_audience c") auto
  have single: "sort_key utf8 (bc_audience c) = [bc_actor c]" if "set (bc_audience c) = {bc_actor c}"
    using that id(6) by (metis (no_types) distinct.simps distinct_length_2_or_more empty_iff
        insert_iff list.set(1) list.set(2) sort_key_unique [OF inj_utf8] sort_key_simps insort_key.simps(1) set_empty)
  have "conv_ok ?v"
    using cases(4) id ne sha single
    by (auto simp: conv_ok_def sort_key_idem list_all_sort Suc_le_eq)
  then show ?thesis using e k m by (auto simp: describe_conversation_def new_conversation_def)
qed


text \<open>What tells one conversation from another.\<close>

definition routing ::
  "bctx \<Rightarrow> (string \<times> string option \<times> string \<times> string \<times> string \<times> string \<times> string option \<times> string set) option" where
  "routing c =
     map_option (\<lambda>(mode, sole). (mode, sole, bc_binding c, bc_provider c, bc_account c,
        bc_conversation c, bc_thread c, set (bc_audience c))) (conversation_mode c)"

text \<open>The byte strings that describing a context hashes.\<close>

definition hashed :: "(bytes \<Rightarrow> string) \<Rightarrow> bctx \<Rightarrow> bytes list" where
  "hashed sha c =
     (case conversation_mode c of
        None \<Rightarrow> []
      | Some (mode, sole) \<Rightarrow>
          (case framed (epoch_fields c) of
             Inl _ \<Rightarrow> []
           | Inr e \<Rightarrow>
               (case framed (session_fields c mode sole (sha e)) of Inl _ \<Rightarrow> [e] | Inr k \<Rightarrow> [e, k])))"

lemma text_or_inject:
  "\<forall>s\<in>set_option x. s \<noteq> [] \<Longrightarrow> \<forall>s\<in>set_option y. s \<noteq> [] \<Longrightarrow> text_or [] x = text_or [] y \<longleftrightarrow> x = y"
  by (auto simp: text_or_def split: option.splits if_splits)

lemma empty_not_ident [simp]: "\<not> is_ident []"
  by (simp add: is_ident_def)

text \<open>
  C32: Describing a conversation never raises: every context that the contract accepts is either not
  described or gets a descriptor that passes the descriptor's own contract. A descriptor needs
  complete and dated evidence of an audience with the actor in it, and a private one means that the
  actor is the whole audience.
\<close>

theorem describing_never_raises:
  assumes c: "new_context d = Inr c" and sha: "\<forall>b. hex64 (sha b)"
  shows "describe_conversation sha c = Inr None \<or>
    (\<exists>v. describe_conversation sha c = Inr (Some v) \<and> new_conversation v = Inr v \<and>
       bc_complete c \<and> bc_verified_at c \<noteq> PNone \<and> bc_actor c \<in> set (cv_audience v) \<and>
       set (cv_audience v) = set (bc_audience c) \<and>
       (cv_mode v = ''private'' \<longrightarrow> cv_audience v = [bc_actor c]))"
proof (cases "conversation_mode c")
  case None
  then show ?thesis by (simp add: describe_conversation_def)
next
  case (Some p)
  then obtain mode sole where m: "conversation_mode c = Some (mode, sole)" by (cases p) auto
  from described [OF new_context_ok [OF c] sha m] obtain v where
    v: "describe_conversation sha c = Inr (Some v)" "conv_ok v" "cv_mode v = mode"
      "cv_private_actor v = sole" "cv_audience v = sort_key utf8 (bc_audience c)" by auto
  note cs = conversation_mode_cases [OF m]
  have "cv_mode v = ''private'' \<Longrightarrow> cv_audience v = [bc_actor c]"
    using v(2,3,4) cs(4) by (auto simp: conv_ok_def)
  then show ?thesis using v cs by (auto simp: new_conversation_def)
qed

text \<open>
  C16: The session key identifies the conversation. As long as SHA-256 does not collide on what is
  hashed, two described contexts have the same key if and only if they agree on mode, binding,
  provider, account, conversation, thread, private actor and audience; the event, the proof time,
  the order of the audience and, in shared modes, the actor do not matter.
\<close>

theorem session_key_routing:
  assumes c: "new_context d = Inr c" and c': "new_context d' = Inr c'"
    and sha: "\<forall>b. hex64 (sha b)" and inj: "inj_on sha (set (hashed sha c) \<union> set (hashed sha c'))"
    and v: "describe_conversation sha c = Inr (Some v)" and v': "describe_conversation sha c' = Inr (Some v')"
  shows "cv_session_key v = cv_session_key v' \<longleftrightarrow> routing c = routing c'"
proof -
  note ok = new_context_ok [OF c] new_context_ok [OF c']
  obtain mode sole where m: "conversation_mode c = Some (mode, sole)"
    using v by (auto simp: describe_conversation_def split: option.splits prod.splits)
  obtain mode' private' where m': "conversation_mode c' = Some (mode', private')"
    using v' by (auto simp: describe_conversation_def split: option.splits prod.splits)
  from described [OF ok(1) sha m] v obtain e k where e: "framed (epoch_fields c) = Inr e"
    and k: "framed (session_fields c mode sole (sha e)) = Inr k" and key: "cv_session_key v = KEY_PREFIX @ sha k"
    by auto
  from described [OF ok(2) sha m'] v' obtain e' k' where e': "framed (epoch_fields c') = Inr e'"
    and k': "framed (session_fields c' mode' private' (sha e')) = Inr k'"
    and key': "cv_session_key v' = KEY_PREFIX @ sha k'"
    by auto
  have in_hashed: "e \<in> set (hashed sha c)" "k \<in> set (hashed sha c)" "e' \<in> set (hashed sha c')" "k' \<in> set (hashed sha c')"
    by (simp_all add: hashed_def m e k m' e' k')
  have thread: "text_or [] (bc_thread c) = text_or [] (bc_thread c') \<longleftrightarrow> bc_thread c = bc_thread c'"
    using ok by (intro text_or_inject) (auto simp: ctx_ok_def)
  have actor: "text_or [] sole = text_or [] private' \<longleftrightarrow> sole = private'"
    using ok conversation_mode_cases(4) [OF m] conversation_mode_cases(4) [OF m']
    by (intro text_or_inject) (auto simp: ctx_ok_def)
  have audience: "set (bc_audience c) = set (bc_audience c') \<longleftrightarrow> sha e = sha e'"
  proof
    assume "set (bc_audience c) = set (bc_audience c')"
    then have "epoch_fields c = epoch_fields c'"
      using ok sort_key_unique [OF inj_utf8, of "bc_audience c" "bc_audience c'"]
      by (simp add: epoch_fields_def ctx_ok_def)
    then show "sha e = sha e'" using e e' by simp
  next
    assume "sha e = sha e'"
    then have "e = e'" using inj in_hashed by (auto dest: inj_onD)
    then have "epoch_fields c = epoch_fields c'" using e e' framed_inject by blast
    then have "set (sort_key utf8 (bc_audience c)) = set (sort_key utf8 (bc_audience c'))"
      by (simp add: epoch_fields_def)
    then show "set (bc_audience c) = set (bc_audience c')" by simp
  qed
  have "cv_session_key v = cv_session_key v' \<longleftrightarrow> k = k'"
    using key key' inj in_hashed by (auto dest: inj_onD)
  also have "\<dots> \<longleftrightarrow> session_fields c mode sole (sha e) = session_fields c' mode' private' (sha e')"
    using k k' framed_inject by fastforce
  also have "\<dots> \<longleftrightarrow> routing c = routing c'"
    using thread actor audience by (auto simp: session_fields_def routing_def m m')
  finally show ?thesis .
qed


section \<open>Parts and history\<close>

text \<open>All checks of \<open>BridgeAttachment.__post_init__\<close> (sizes are natural numbers by type).\<close>

definition check_attachment :: "attachment \<Rightarrow> wire_exn option" where
  "check_attachment a =
     (case safe_filename (ba_filename a) of
        Some e \<Rightarrow> Some e
      | None \<Rightarrow>
          if (\<forall>s\<in>set_option (ba_provider_id a). is_ident s) \<and> (\<forall>s\<in>set_option (ba_sha256 a). hex64 s) \<and>
             (\<forall>s\<in>set_option (ba_reader_ref a). is_ident s)
          then None else Some ContractErr)"

datatype bpart = TextPart string | FilePart attachment

definition new_part :: "string option \<Rightarrow> attachment option \<Rightarrow> wire_exn + bpart" where
  "new_part t a =
     (case (t, a) of (Some s, None) \<Rightarrow> Inr (TextPart s) | (None, Some f) \<Rightarrow> Inr (FilePart f)
      | _ \<Rightarrow> Inl ContractErr)"

definition part_text :: "bpart \<Rightarrow> string option" where
  "part_text p = (case p of TextPart s \<Rightarrow> Some s | FilePart _ \<Rightarrow> None)"

definition part_file :: "bpart \<Rightarrow> attachment option" where
  "part_file p = (case p of TextPart _ \<Rightarrow> None | FilePart a \<Rightarrow> Some a)"

record notice =
  nt_kind :: pyval
  nt_filename :: pyval
  nt_mime_type :: pyval
  nt_size_bytes :: nat
  nt_provider_id :: "string option"
  nt_reason :: string

definition check_notice :: "notice \<Rightarrow> wire_exn option" where
  "check_notice n =
     (case check_attachment \<lparr>ba_kind = nt_kind n, ba_filename = nt_filename n, ba_mime_type = nt_mime_type n,
          ba_size_bytes = nt_size_bytes n, ba_artifact_ref = [], ba_local_path = None, ba_owned = False,
          ba_provider_id = nt_provider_id n, ba_sha256 = None, ba_reader_ref = None\<rparr> of
        Some e \<Rightarrow> Some e
      | None \<Rightarrow> if nt_reason n \<in> {''unsupported'', ''limit'', ''unavailable'', ''blocked''} then None
                else Some ContractErr)"

record history_msg =
  hm_event :: string
  hm_actor :: string
  hm_parts :: "bpart list"
  hm_timestamp :: "string option"
  hm_omitted :: "notice list"

definition new_history_msg :: "history_msg \<Rightarrow> wire_exn + history_msg" where
  "new_history_msg m =
     (if is_ident (hm_event m) \<and> is_ident (hm_actor m) \<and> length (hm_omitted m) \<le> 16 then Inr m
      else Inl ContractErr)"

definition pstr_opt :: "string option \<Rightarrow> pyval" where
  "pstr_opt x = (case x of None \<Rightarrow> PNone | Some s \<Rightarrow> PStr s)"

definition notice_dict :: "notice \<Rightarrow> pyval" where
  "notice_dict n = PDict
     [(PStr ''kind'', nt_kind n), (PStr ''filename'', nt_filename n), (PStr ''mime_type'', nt_mime_type n),
      (PStr ''size_bytes'', PInt (int (nt_size_bytes n))),
      (PStr ''provider_attachment_id'', pstr_opt (nt_provider_id n)), (PStr ''reason'', PStr (nt_reason n))]"

text \<open>The record of a message as it will be on the wire, with place holders for digest and handle.\<close>

definition sized_part :: "bpart \<Rightarrow> pyval" where
  "sized_part p = PDict
     [(PStr ''text'', pstr_opt (part_text p)),
      (PStr ''attachment'',
       case part_file p of
         None \<Rightarrow> PNone
       | Some a \<Rightarrow> PDict
           [(PStr ''kind'', ba_kind a), (PStr ''filename'', ba_filename a), (PStr ''mime_type'', ba_mime_type a),
            (PStr ''size_bytes'', PInt (int (ba_size_bytes a))), (PStr ''artifact_ref'', PStr (ba_artifact_ref a)),
            (PStr ''provider_attachment_id'', pstr_opt (ba_provider_id a)),
            (PStr ''sha256'', PStr (text_or (replicate 64 (CHR ''0'')) (ba_sha256 a))),
            (PStr ''reader_ref'', PStr (replicate 32 (CHR ''0'')))])]"

definition sized_record :: "history_msg \<Rightarrow> pyval" where
  "sized_record m = PDict
     ([(PStr ''event_id'', PStr (hm_event m)), (PStr ''actor_id'', PStr (hm_actor m)),
       (PStr ''parts'', PList (map sized_part (hm_parts m))),
       (PStr ''timestamp'', pstr_opt (hm_timestamp m))] @
      (if hm_omitted m = [] then []
       else [(PStr ''omitted_attachments'', PList (map notice_dict (hm_omitted m)))]))"

definition history_size :: "(real \<Rightarrow> string) \<Rightarrow> history_msg list \<Rightarrow> wire_exn + nat" where
  "history_size frepr hist =
     (case json_text frepr (PList (map sized_record hist)) of
        None \<Rightarrow> Inl TypeErr
      | Some t \<Rightarrow> Inr (length (utf8 t)))"

text \<open>The loop of \<open>bound_history\<close>: \<open>items\<close> is the history from the newest message on, \<open>result\<close> what is
  kept so far in chronological order.\<close>

fun keep_newest :: "nat \<Rightarrow> string list \<Rightarrow> history_msg list \<Rightarrow> history_msg list \<Rightarrow> history_msg list" where
  "keep_newest n seen [] result = result"
| "keep_newest n seen (m # ms) result =
     (if hm_event m \<in> set seen then keep_newest n seen ms result
      else let result' = m # result
           in if length result' = n then result' else keep_newest n (hm_event m # seen) ms result')"

definition bound_history ::
  "(real \<Rightarrow> string) \<Rightarrow> history_msg list \<Rightarrow> pyval \<Rightarrow> pyval \<Rightarrow> string option
     \<Rightarrow> wire_exn + history_msg list" where
  "bound_history frepr items context_messages max_bytes exclude =
     (case context_messages of
        PInt n \<Rightarrow>
          if n < 0 \<or> n > int MAX_CONTEXT_MESSAGES then Inl ContractErr
          else (case max_bytes of
             PInt b \<Rightarrow>
               if b < 2 \<or> b > int MAX_NEGOTIATED_CONTEXT_BYTES then Inl ContractErr
               else if n = 0 then Inr []
               else
                 (let seen = (case exclude of None \<Rightarrow> [] | Some e \<Rightarrow> if e = [] then [] else [e]);
                      result = keep_newest (nat n) seen (rev items) []
                  in bind_r (history_size frepr result) (\<lambda>nbytes.
                       if int nbytes > b then Inl HistoryUnavailable else Inr result))
           | _ \<Rightarrow> Inl ContractErr)
      | _ \<Rightarrow> Inl ContractErr)"

text \<open>The reference: drop what is excluded or repeated later, and keep the last \<open>n\<close> of the rest.\<close>

fun last_of_each :: "string set \<Rightarrow> history_msg list \<Rightarrow> history_msg list" where
  "last_of_each skip [] = []"
| "last_of_each skip (m # ms) =
     (if hm_event m \<in> skip \<or> hm_event m \<in> hm_event ` set ms then last_of_each skip ms
      else m # last_of_each skip ms)"

definition suffix_of :: "nat \<Rightarrow> 'a list \<Rightarrow> 'a list" where
  "suffix_of n xs = drop (length xs - n) xs"

lemma last_of_each_snoc:
  "last_of_each skip (ms @ [m]) =
     (if hm_event m \<in> skip then last_of_each skip ms else last_of_each (insert (hm_event m) skip) ms @ [m])"
proof (induction ms)
  case (Cons x ms)
  then show ?case by (cases "hm_event m \<in> skip") auto
qed simp

lemma suffix_of_append:
  "length ys < n \<Longrightarrow> suffix_of n (xs @ ys) = suffix_of (n - length ys) xs @ ys"
  by (simp add: suffix_of_def)

lemma keep_newest_eq:
  assumes "length result < n"
  shows "keep_newest n seen ms result = suffix_of n (last_of_each (set seen) (rev ms) @ result)"
  using assms
proof (induction ms arbitrary: seen result)
  case Nil
  then show ?case by (simp add: suffix_of_def)
next
  case (Cons m ms)
  show ?case
  proof (cases "hm_event m \<in> set seen")
    case True
    then show ?thesis using Cons by (simp add: last_of_each_snoc)
  next
    case False
    show ?thesis
    proof (cases "length (m # result) = n")
      case True
      then show ?thesis using False by (auto simp: last_of_each_snoc suffix_of_def Let_def)
    next
      case less: False
      with Cons.prems have "length (m # result) < n" by simp
      from Cons.IH [OF this] False less show ?thesis by (simp add: last_of_each_snoc Let_def)
    qed
  qed
qed

text \<open>
  C31: The scan for the history to send is the reference: with 1 to 200 messages asked for, the result
  is the last of them, in their order, among the messages that are not excluded and not repeated
  later, so it has no duplicate, and it is returned if and only if it fits the byte budget; no message
  is dropped to make it fit.
\<close>

theorem bounded_history_newest:
  assumes n: "0 < n" "n \<le> MAX_CONTEXT_MESSAGES"
    and b: "2 \<le> b" "b \<le> MAX_NEGOTIATED_CONTEXT_BYTES"
    and total: "history_size frepr kept = Inr nbytes"
    and kept: "kept = suffix_of n (last_of_each (set_option exclude - {[]}) items)"
  shows "bound_history frepr items (PInt (int n)) (PInt (int b)) exclude =
      (if nbytes \<le> b then Inr kept else Inl HistoryUnavailable) \<and>
    length kept \<le> n \<and> distinct (map hm_event kept) \<and>
    set kept \<subseteq> set items \<and> (\<forall>e. exclude = Some e \<and> e \<noteq> [] \<longrightarrow> e \<notin> hm_event ` set kept)"
proof -
  have sub: "set (suffix_of n xs) \<subseteq> set xs" for xs :: "history_msg list"
    by (simp add: suffix_of_def set_drop_subset)
  have each: "distinct (map hm_event (last_of_each skip xs))" "set (last_of_each skip xs) \<subseteq> set xs"
    "\<forall>m\<in>set (last_of_each skip xs). hm_event m \<notin> skip" for skip xs
    by (induction xs) auto
  have "set (case exclude of None \<Rightarrow> [] | Some e \<Rightarrow> if e = [] then [] else [e]) = set_option exclude - {[]}"
    by (auto split: option.splits)
  then have "keep_newest n (case exclude of None \<Rightarrow> [] | Some e \<Rightarrow> if e = [] then [] else [e]) (rev items) [] = kept"
    using n by (simp add: keep_newest_eq kept)
  moreover have "distinct (map hm_event kept)"
    using each(1) by (simp add: kept suffix_of_def drop_map [symmetric])
  moreover have "set kept \<subseteq> set items" "\<forall>e. exclude = Some e \<and> e \<noteq> [] \<longrightarrow> e \<notin> hm_event ` set kept"
    using each(2,3) [of "set_option exclude - {[]}" items] sub unfolding kept by fastforce+
  ultimately show ?thesis
    using n b total by (simp add: bound_history_def Let_def kept suffix_of_def)
qed


section \<open>Messages, capabilities and results\<close>

record bmessage =
  ms_context :: bctx
  ms_parts :: "bpart list"
  ms_history :: "history_msg list"
  ms_source :: string
  ms_presentation :: "string option"
  ms_conversation :: "bconv option"

definition new_message ::
  "(bytes \<Rightarrow> string) \<Rightarrow> (real \<Rightarrow> string) \<Rightarrow> bctx \<Rightarrow> bpart list \<Rightarrow> history_msg list \<Rightarrow> string \<Rightarrow> string option
     \<Rightarrow> wire_exn + bmessage" where
  "new_message sha frepr c parts hist source presentation =
     bind_r (describe_conversation sha c) (\<lambda>conversation.
       if length hist > MAX_CONTEXT_MESSAGES then Inl ContractErr
       else if length parts + sum_list (map (\<lambda>m. length (hm_parts m) + length (hm_omitted m)) hist) > 256
       then Inl ContractErr
       else bind_r (history_size frepr hist) (\<lambda>nbytes.
         if nbytes > MAX_NEGOTIATED_CONTEXT_BYTES then Inl ContractErr
         else Inr \<lparr>ms_context = c, ms_parts = parts, ms_history = hist, ms_source = source,
                   ms_presentation = presentation, ms_conversation = conversation\<rparr>))"

record command_def =
  cd_name :: string
  cd_description :: string
  cd_confirmation :: bool

record capabilities =
  cp_commands :: "command_def list"
  cp_input_media :: "string list"
  cp_output_media :: "string list"
  cp_progress_kinds :: "string list"
  cp_history_media :: bool
  cp_history_max_files :: nat
  cp_history_max_bytes :: nat
  cp_core_commands :: "string list"

text \<open>
  \<open>BridgeCapabilities(**d)\<close> with the command definitions and text lists read already.
  \<open>scope_commands\<close> is \<open>commands_for_scopes\<close> of the Core package: the names and descriptions of the
  commands of the given scopes.
\<close>

definition inherited_commands ::
  "(string list \<Rightarrow> (string \<times> string) list) \<Rightarrow> string list \<Rightarrow> command_def list \<Rightarrow> command_def list" where
  "inherited_commands scope_commands scopes own =
     (if scopes = [] then []
      else map (\<lambda>(n, t). \<lparr>cd_name = n, cd_description = t, cd_confirmation = False\<rparr>)
             (filter (\<lambda>(n, _). n \<notin> cd_name ` set own) (scope_commands scopes)))"

definition new_capabilities ::
  "(string list \<Rightarrow> (string \<times> string) list) \<Rightarrow> (pyval \<times> pyval) list \<Rightarrow> command_def list \<Rightarrow> string list
     \<Rightarrow> string list \<Rightarrow> string list \<Rightarrow> string list \<Rightarrow> wire_exn + capabilities" where
  "new_capabilities scope_commands d commands input output kinds scopes =
     bind_r (check_version (pget_or (PInt API_VERSION) ''api_version'' d)) (\<lambda>_.
       case (pget_or (PInt (int MAX_CONTEXT_BYTES)) ''history_max_bytes'' d,
             pget_or (PBool False) ''history_media'' d, pget_or (PInt 16) ''history_max_files'' d) of
         (PInt b, PBool media, PInt f) \<Rightarrow>
           if b < int MAX_CONTEXT_BYTES \<or> b > int MAX_NEGOTIATED_CONTEXT_BYTES then Inl ContractErr
           else if f < 16 \<or> f > 64 \<or> \<not> media \<and> f \<noteq> 16 then Inl ContractErr
           else Inr \<lparr>cp_commands = commands @ inherited_commands scope_commands scopes commands,
                     cp_input_media = input, cp_output_media = output, cp_progress_kinds = kinds,
                     cp_history_media = media, cp_history_max_files = nat f, cp_history_max_bytes = nat b,
                     cp_core_commands = scopes\<rparr>
       | _ \<Rightarrow> Inl ContractErr)"

record bevent =
  ev_kind :: string
  ev_text :: string
  ev_run_ref :: pyval

definition new_event :: "string \<Rightarrow> string \<Rightarrow> pyval \<Rightarrow> pyval \<Rightarrow> wire_exn + bevent" where
  "new_event kind t run_ref version =
     bind_r (check_version version) (\<lambda>_. Inr \<lparr>ev_kind = kind, ev_text = t, ev_run_ref = run_ref\<rparr>)"

record breply =
  rp_parts :: "bpart list"
  rp_status :: string
  rp_model :: pyval
  rp_session_ref :: pyval
  rp_run_ref :: pyval

definition REPLY_STATUS :: "string list" where
  "REPLY_STATUS = [''completed'', ''coalesced'', ''cancelled'', ''failed'']"

definition new_reply :: "(pyval \<times> pyval) list \<Rightarrow> bpart list \<Rightarrow> wire_exn + breply" where
  "new_reply d parts =
     bind_r (check_version (pget_or (PInt API_VERSION) ''api_version'' d)) (\<lambda>_.
       case pget_or (PStr ''completed'') ''status'' d of
         PStr s \<Rightarrow>
           if s \<in> set REPLY_STATUS
           then Inr \<lparr>rp_parts = parts, rp_status = s, rp_model = pget_or PNone ''model'' d,
                     rp_session_ref = pget_or PNone ''session_ref'' d, rp_run_ref = pget_or PNone ''run_ref'' d\<rparr>
           else Inl ContractErr
       | _ \<Rightarrow> Inl ContractErr)"

record bcommand =
  cm_context :: bctx
  cm_name :: string
  cm_argument :: "string option"
  cm_confirmed :: bool
  cm_conversation :: "bconv option"

definition new_command ::
  "(bytes \<Rightarrow> string) \<Rightarrow> bctx \<Rightarrow> string \<Rightarrow> string option \<Rightarrow> bool \<Rightarrow> wire_exn + bcommand" where
  "new_command sha c name argument confirmed =
     bind_r (describe_conversation sha c) (\<lambda>conversation.
       if is_ident name
       then Inr \<lparr>cm_context = c, cm_name = name, cm_argument = argument, cm_confirmed = confirmed,
                 cm_conversation = conversation\<rparr>
       else Inl ContractErr)"

record picker_option =
  po_value :: pyval
  po_label :: pyval
  po_subtitle :: pyval
  po_active :: pyval

record command_result =
  cr_status :: pyval
  cr_parts :: "bpart list"
  cr_options :: "picker_option list"
  cr_picker_command :: pyval
  cr_picker_prompt :: pyval

definition new_command_result ::
  "(pyval \<times> pyval) list \<Rightarrow> bpart list \<Rightarrow> picker_option list \<Rightarrow> wire_exn + command_result" where
  "new_command_result d parts options =
     bind_r (check_version (pget_or (PInt API_VERSION) ''api_version'' d)) (\<lambda>_.
       Inr \<lparr>cr_status = pget_or (PStr ''completed'') ''status'' d, cr_parts = parts, cr_options = options,
            cr_picker_command = pget_or PNone ''picker_command'' d,
            cr_picker_prompt = pget_or PNone ''picker_prompt'' d\<rparr>)"

section \<open>Sample contexts and histories\<close>

definition demo_ctx_args :: "string \<Rightarrow> string list \<Rightarrow> (pyval \<times> pyval) list" where
  "demo_ctx_args event audience =
     [(PStr ''binding_id'', PStr ''b1''), (PStr ''provider'', PStr ''slack''), (PStr ''account_id'', PStr ''T1''),
      (PStr ''actor_id'', PStr ''U1''), (PStr ''conversation_id'', PStr ''C1''), (PStr ''event_id'', PStr event),
      (PStr ''conversation_kind'', PStr ''channel''), (PStr ''audience_ids'', PList (map PStr audience)),
      (PStr ''audience_complete'', PBool True), (PStr ''audience_verified_at'', PInt 7)]"

definition demo_ctx :: "string \<Rightarrow> string list \<Rightarrow> bctx" where
  "demo_ctx event audience = \<lparr>bc_binding = ''b1'', bc_provider = ''slack'', bc_account = ''T1'', bc_actor = ''U1'',
     bc_conversation = ''C1'', bc_event = event, bc_thread = None, bc_reply_to = None, bc_kind = ''channel'',
     bc_audience = audience, bc_complete = True, bc_verified_at = PInt 7\<rparr>"

definition demo_hex :: "bytes \<Rightarrow> string" where
  "demo_hex b = replicate 63 (CHR ''0'') @ [if length b < 60 then CHR ''0'' else CHR ''1'']"

lemma demo_hex_ok: "\<forall>b. hex64 (demo_hex b)"
  by (simp add: demo_hex_def hex64_def is_hex_def char_code_def list_all_iff)

lemma demo_ctx_eq:
  "new_context (demo_ctx_args ''E1'' [''U1'', ''U2'']) = Inr (demo_ctx ''E1'' [''U1'', ''U2''])"
  "new_context (demo_ctx_args ''E2'' [''U2'', ''U1'']) = Inr (demo_ctx ''E2'' [''U2'', ''U1''])"
  by (simp_all add: new_context_def demo_ctx_args_def demo_ctx_def CONTEXT_FIELDS_def CONTEXT_REQUIRED_def pget_def
      pget_or_def bind_r_def check_version_def API_VERSION_def ctx_ident_def is_ident_def ctx_ident_opt_def
      check_kind_def CONVERSATION_KINDS_def check_audience_def check_flag_def check_verified_def DOUBLE_LIMIT_def
      utf8_def utf8_char_def char_code_def Let_def has_control_def)

theorem describing_never_raises_witness:
  "\<exists>v. describe_conversation demo_hex (demo_ctx ''E1'' [''U1'', ''U2'']) = Inr v"
  using describing_never_raises [OF demo_ctx_eq(1) demo_hex_ok] by blast

lemmas demo_routes = conversation_mode_def demo_ctx_def epoch_fields_def session_fields_def text_or_def to_bytes4_def
  utf8_def utf8_char_def char_code_def Let_def bind_r_def demo_hex_def

lemma demo_sorted: "sort_key utf8 [''U1'', ''U2''] = [''U1'', ''U2'']" "sort_key utf8 [''U2'', ''U1''] = [''U1'', ''U2'']"
  by (simp_all add: utf8_def utf8_char_def char_code_def Let_def)

lemma demo_hex_digits: "list_all is_hex (replicate 63 CHR ''0'')"
  by (simp add: list_all_iff is_hex_def char_code_def)

lemma demo_described:
  "\<exists>v. describe_conversation demo_hex (demo_ctx ''E1'' [''U1'', ''U2'']) = Inr (Some v)"
  "\<exists>v. describe_conversation demo_hex (demo_ctx ''E2'' [''U2'', ''U1'']) = Inr (Some v)"
  by (simp_all add: describe_conversation_def demo_routes demo_sorted new_conversation_def conv_ok_def is_ident_def
     has_control_def hex64_def is_hex_def KEY_PREFIX_def startswith_def demo_hex_digits)

lemma demo_hashed:
  "inj_on demo_hex (set (hashed demo_hex (demo_ctx ''E1'' [''U1'', ''U2''])) \<union>
     set (hashed demo_hex (demo_ctx ''E2'' [''U2'', ''U1''])))"
  by (simp add: hashed_def demo_routes demo_sorted)

theorem session_key_routing_witness:
  "\<exists>v v'. describe_conversation demo_hex (demo_ctx ''E1'' [''U1'', ''U2'']) = Inr (Some v) \<and>
     describe_conversation demo_hex (demo_ctx ''E2'' [''U2'', ''U1'']) = Inr (Some v') \<and>
     cv_session_key v = cv_session_key v'"
proof -
  obtain v v' where v: "describe_conversation demo_hex (demo_ctx ''E1'' [''U1'', ''U2'']) = Inr (Some v)"
    "describe_conversation demo_hex (demo_ctx ''E2'' [''U2'', ''U1'']) = Inr (Some v')"
    using demo_described by blast
  have "routing (demo_ctx ''E1'' [''U1'', ''U2'']) = routing (demo_ctx ''E2'' [''U2'', ''U1''])"
    by (auto simp: routing_def demo_routes)
  then show ?thesis
    using session_key_routing [OF demo_ctx_eq demo_hex_ok demo_hashed v] v by blast
qed

definition demo_post :: "string \<Rightarrow> string \<Rightarrow> history_msg" where
  "demo_post event actor = \<lparr>hm_event = event, hm_actor = actor, hm_parts = [], hm_timestamp = None, hm_omitted = []\<rparr>"

lemma demo_history:
  "suffix_of 2 (last_of_each (set_option (Some ''E4'') - {[]}) [demo_post ''E1'' ''U1'', demo_post ''E2'' ''U1'',
     demo_post ''E1'' ''U2'', demo_post ''E3'' ''U1'', demo_post ''E4'' ''U2'']) = [demo_post ''E1'' ''U2'', demo_post ''E3'' ''U1'']"
  "history_size f [demo_post ''E1'' ''U2'', demo_post ''E3'' ''U1''] = Inr 125"
  by (simp_all add: suffix_of_def demo_post_def history_size_def sized_record_def pstr_opt_def key_text_def
      string_text_def escapes_def escape_char_def char_code_def utf8_def utf8_char_def Let_def member_text_def)

theorem bounded_history_newest_witness:
  "bound_history (\<lambda>_. []) [demo_post ''E1'' ''U1'', demo_post ''E2'' ''U1'', demo_post ''E1'' ''U2'', demo_post ''E3'' ''U1'',
     demo_post ''E4'' ''U2''] (PInt (int 2)) (PInt (int 200)) (Some ''E4'') =
   Inr [demo_post ''E1'' ''U2'', demo_post ''E3'' ''U1'']"
  using bounded_history_newest [OF _ _ _ _ demo_history(2) demo_history(1) [symmetric], of 200]
  by (simp add: MAX_CONTEXT_MESSAGES_def MAX_NEGOTIATED_CONTEXT_BYTES_def)

end
