(* ===== verification/Channel_Wire.thy ===== *)
theory Channel_Wire
  imports Channel_Contracts
begin

text \<open>
  The codec of the channel runner's protocol (\<open>channel-bridges/wire.py\<close>): a line of JSON text per frame,
  the wire form of the contracts and the checked decoding of what the host answers.

  Serialising a message registers its files with the artifact store of the request; the inputs of each
  registration (handle, file system and bytes read) are a sequence that the serialisation consumes.
  The scopes and commands of the Core package are parameters.
\<close>

section \<open>Lines\<close>

definition PROTOCOL :: string where "PROTOCOL = ''channel-bridge-ipc/v1''"
definition MAX_LINE :: nat where "MAX_LINE = 2 * 1024 * 1024"
definition MAX_VALUES :: nat where "MAX_VALUES = 20000"
definition MAX_DEPTH :: nat where "MAX_DEPTH = 32"

text \<open>\<open>_budget\<close> returns how many more values are allowed.\<close>

fun budget :: "pyval \<Rightarrow> nat \<Rightarrow> nat \<Rightarrow> wire_exn + nat"
  and budget_items :: "pyval list \<Rightarrow> nat \<Rightarrow> nat \<Rightarrow> wire_exn + nat"
  and budget_members :: "(pyval \<times> pyval) list \<Rightarrow> nat \<Rightarrow> nat \<Rightarrow> wire_exn + nat" where
  "budget v depth remaining =
     (if remaining = 0 \<or> depth > MAX_DEPTH then Inl (WireError ''metadata_limit'')
      else case v of
             PDict d \<Rightarrow> budget_members d (Suc depth) (remaining - 1)
           | PList xs \<Rightarrow> budget_items xs (Suc depth) (remaining - 1)
           | _ \<Rightarrow> Inr (remaining - 1))"
| "budget_items [] depth remaining = Inr remaining"
| "budget_items (x # xs) depth remaining =
     bind_r (budget x depth remaining) (\<lambda>remaining. budget_items xs depth remaining)"
| "budget_members [] depth remaining = Inr remaining"
| "budget_members ((k, x) # kvs) depth remaining =
     (if is_str k then bind_r (budget x depth remaining) (\<lambda>remaining. budget_members kvs depth remaining)
      else Inl (WireError ''invalid_fields''))"

text \<open>The \<open>object_pairs_hook\<close>: a repeated key is rejected.\<close>

definition unique_pairs :: "(pyval \<times> pyval) list \<Rightarrow> pyval option" where
  "unique_pairs d = (if distinct (map fst d) then Some (PDict d) else None)"

definition NEWLINE :: "8 word" where "NEWLINE = 10"

definition decode_line ::
  "(string \<Rightarrow> pyfloat) \<Rightarrow> (bytes \<Rightarrow> string option) \<Rightarrow> bytes \<Rightarrow> wire_exn + (pyval \<times> pyval) list" where
  "decode_line fread other line =
     (if length line > MAX_LINE \<or> line = [] \<or> last line \<noteq> NEWLINE then Inl (WireError ''invalid_line'')
      else case json_loads fread other unique_pairs line of
             None \<Rightarrow> Inl (WireError ''invalid_json'')
           | Some v \<Rightarrow>
               (case budget v 0 MAX_VALUES of
                  Inl _ \<Rightarrow> Inl (WireError ''invalid_json'')
                | Inr _ \<Rightarrow>
                    (case v of
                       PDict d \<Rightarrow>
                         if pget ''protocol'' d = Some (PStr PROTOCOL) then Inr d
                         else Inl (WireError ''invalid_protocol'')
                     | _ \<Rightarrow> Inl (WireError ''invalid_protocol''))))"

definition encode_line :: "(real \<Rightarrow> string) \<Rightarrow> pyval \<Rightarrow> wire_exn + bytes" where
  "encode_line frepr v =
     bind_r (budget v 0 MAX_VALUES) (\<lambda>_.
       case json_text frepr v of
         None \<Rightarrow> Inl (WireError ''invalid_metadata'')
       | Some t \<Rightarrow>
           (let line = utf8 t @ [NEWLINE]
            in if length line > MAX_LINE then Inl (WireError ''metadata_limit'') else Inr line))"

declare budget.simps [simp del]

subsection \<open>Round trip\<close>

lemma utf8_newline: "utf8 [CHR 0x0A] = [NEWLINE]"
  by (simp add: utf8_def utf8_char_def char_code_def NEWLINE_def)

lemma join_opt_first:
  assumes "join_opt (x # xs) = Some t"
  obtains a r where "x = Some a" "t = a @ r"
proof (cases xs)
  case Nil
  then show ?thesis using assms that [of t "[]"] by simp
next
  case (Cons y ys)
  then show ?thesis using assms that by (auto split: option.splits)
qed

lemma json_dict_starts:
  assumes "json_text frepr (PDict d) = Some t" "d \<noteq> []"
  obtains u where "t = CHR ''{'' # CHR 0x22 # u"
proof -
  obtain k v kvs where d: "d = (k, v) # kvs" using assms(2) by (cases d) auto
  obtain b where b: "join_opt (member_text (key_text frepr k) (json_text frepr v) #
      map (\<lambda>(k, v). member_text (key_text frepr k) (json_text frepr v)) kvs) = Some b"
    "t = CHR ''{'' # b @ ''}''"
    using assms(1) by (auto simp: d)
  from join_opt_first [OF b(1)] obtain a r where "member_text (key_text frepr k) (json_text frepr v) = Some a" "b = a @ r" .
  then show ?thesis using that b(2) by (auto simp: member_text_def string_text_def split: option.splits)
qed

lemma plain_object:
  assumes "bs = 123 # 34 # r"
  shows "plain_utf8 bs"
  by (auto simp: plain_utf8_def assms)

lemma decode_encode:
  assumes enc: "encode_line frepr (PDict d) = Inr line"
    and keys: "json_like (\<lambda>kvs. distinct (map fst kvs)) (float_ok fread frepr) (PDict d)"
    and proto: "pget ''protocol'' d = Some (PStr PROTOCOL)"
  shows "decode_line fread other line = Inr d"
proof -
  obtain left t where b: "budget (PDict d) 0 MAX_VALUES = Inr left" and t: "json_text frepr (PDict d) = Some t"
    and line: "line = utf8 t @ [NEWLINE]" and len: "length line \<le> MAX_LINE"
    using enc by (auto simp: encode_line_def result_simps Let_def split: option.splits if_splits)
  have "d \<noteq> []" using proto by auto
  from json_dict_starts [OF t this] obtain u where "t = CHR ''{'' # CHR 0x22 # u" .
  then have "line = 123 # 34 # utf8 u @ [NEWLINE]"
    by (simp add: line utf8_Cons utf8_char_def char_code_def)
  then have plain: "plain_utf8 (utf8 (t @ [CHR 0x0A]))"
    by (intro plain_object) (simp add: line utf8_newline)
  have "json_like (\<lambda>kvs. unique_pairs kvs = Some (PDict kvs)) (float_ok fread frepr) (PDict d)"
    using keys by (simp add: unique_pairs_def)
  from loads_dumps [OF t this plain, of other]
  have "json_loads fread other unique_pairs line = Some (PDict d)" by (simp add: line utf8_newline)
  then show ?thesis using len by (simp add: decode_line_def line b proto)
qed


subsection \<open>What a decoded frame is\<close>

fun nodes :: "pyval \<Rightarrow> nat" where
  "nodes (PList xs) = Suc (sum_list (map nodes xs))"
| "nodes (PDict kvs) = Suc (sum_list (map (\<lambda>(k, v). nodes v) kvs))"
| "nodes _ = 1"

text \<open>Every value sits at most \<open>n\<close> levels deep.\<close>

fun nested_in :: "nat \<Rightarrow> pyval \<Rightarrow> bool" where
  "nested_in n (PList xs) = (xs = [] \<or> 0 < n \<and> list_all (nested_in (n - 1)) xs)"
| "nested_in n (PDict kvs) = (kvs = [] \<or> 0 < n \<and> list_all (\<lambda>(k, v). nested_in (n - 1) v) kvs)"
| "nested_in n _ = True"

lemma budget_sound:
  "budget v depth m = Inr left \<Longrightarrow> nodes v + left = m \<and> depth \<le> MAX_DEPTH \<and> nested_in (MAX_DEPTH - depth) v"
  "budget_items xs depth m = Inr left \<Longrightarrow>
     sum_list (map nodes xs) + left = m \<and> (xs = [] \<or> depth \<le> MAX_DEPTH) \<and> list_all (nested_in (MAX_DEPTH - depth)) xs"
  "budget_members kvs depth m = Inr left \<Longrightarrow>
     sum_list (map (\<lambda>(k, v). nodes v) kvs) + left = m \<and> (kvs = [] \<or> depth \<le> MAX_DEPTH) \<and>
     list_all (\<lambda>(k, v). nested_in (MAX_DEPTH - depth) v) kvs"
proof (induction v depth m and xs depth m and kvs depth m arbitrary: left and left and left
    rule: budget_budget_items_budget_members.induct)
  case (1 v depth m)
  have m: "m \<noteq> 0" "depth \<le> MAX_DEPTH"
    using 1(3) by (auto simp: budget.simps split: if_splits)
  show ?case
  proof (cases v)
    case (PList xs)
    then have "budget_items xs (Suc depth) (m - 1) = Inr left"
      using 1(3) m by (simp add: budget.simps)
    then have "sum_list (map nodes xs) + left = m - 1 \<and> (xs = [] \<or> Suc depth \<le> MAX_DEPTH) \<and>
        list_all (nested_in (MAX_DEPTH - Suc depth)) xs"
      using 1(1,2) m PList by (metis not_less)
    then show ?thesis using m by (auto simp: PList)
  next
    case (PDict kvs)
    then have "budget_members kvs (Suc depth) (m - 1) = Inr left"
      using 1(3) m by (simp add: budget.simps)
    then have "sum_list (map (\<lambda>(k, v). nodes v) kvs) + left = m - 1 \<and> (kvs = [] \<or> Suc depth \<le> MAX_DEPTH) \<and>
        list_all (\<lambda>(k, v). nested_in (MAX_DEPTH - Suc depth) v) kvs"
      using 1(1,2) m PDict by (metis not_less)
    then show ?thesis using m by (auto simp: PDict)
  qed (use 1(3) m in \<open>auto simp: budget.simps\<close>)
next
  case (3 x xs depth m)
  then show ?case by (fastforce simp: bind_r_Inr_iff)
next
  case (5 k x kvs depth m)
  then show ?case by (fastforce simp: bind_r_Inr_iff split: if_splits)
qed auto

text \<open>
  A line that decodes is one bounded frame of the protocol: at most 2 MiB long and terminated,
  with at most 20000 values nested at most 32 deep, whose dictionaries have texts as keys and never a
  key twice, so no field can be read in two ways.
\<close>

theorem decoded_frame_bounded:
  assumes "decode_line fread other line = Inr d"
  shows "length line \<le> MAX_LINE \<and> last line = NEWLINE \<and> nodes (PDict d) \<le> MAX_VALUES \<and>
    nested_in MAX_DEPTH (PDict d) \<and> json_like (\<lambda>kvs. distinct (map fst kvs)) (\<lambda>_. True) (PDict d) \<and>
    pget ''protocol'' d = Some (PStr PROTOCOL)"
proof -
  obtain left where l: "length line \<le> MAX_LINE" "last line = NEWLINE"
    and j: "json_loads fread other unique_pairs line = Some (PDict d)"
    and b: "budget (PDict d) 0 MAX_VALUES = Inr left" and p: "pget ''protocol'' d = Some (PStr PROTOCOL)"
    using assms by (auto simp: decode_line_def split: if_splits option.splits sum.splits pyval.splits)
  have "json_like (\<lambda>kvs. distinct (map fst kvs)) (\<lambda>_. True) (PDict d)"
    by (rule json_loads_ok [OF _ j]) (auto simp: unique_pairs_def split: if_splits)
  then show ?thesis using l p budget_sound(1) [OF b] by auto
qed

section \<open>Serialising\<close>

text \<open>The inputs of one \<open>register\<close> call.\<close>

record reg_input =
  ri_ref :: string
  ri_lstat :: fsys
  ri_open :: fsys
  ri_read :: bytes
  ri_after :: fsys

type_synonym reg_inputs = "nat \<Rightarrow> reg_input"
type_synonym 'a wire_op = "(artifact_store \<times> nat, wire_exn, 'a) handler"

definition wire_file :: "(bytes \<Rightarrow> string) \<Rightarrow> reg_inputs \<Rightarrow> string \<Rightarrow> attachment \<Rightarrow> pyval wire_op" where
  "wire_file sha inputs rid a s =
     (case s of (st, n) \<Rightarrow>
        let i = inputs n
        in case register sha (ri_ref i) (ri_lstat i) (ri_open i) (ri_read i) (ri_after i) rid a st of
             (Inl e, st') \<Rightarrow> (Inl e, (st', Suc n))
           | (Inr d, st') \<Rightarrow> (Inr (PDict d), (st', Suc n)))"

definition wire_part :: "(bytes \<Rightarrow> string) \<Rightarrow> reg_inputs \<Rightarrow> string \<Rightarrow> bpart \<Rightarrow> pyval wire_op" where
  "wire_part sha inputs rid p =
     (case p of
        TextPart t \<Rightarrow> ret_s (PDict [(PStr ''text'', PStr t), (PStr ''attachment'', PNone)])
      | FilePart a \<Rightarrow>
          bind_s (wire_file sha inputs rid a) (\<lambda>v.
            ret_s (PDict [(PStr ''text'', PNone), (PStr ''attachment'', v)])))"

fun wire_all :: "('a \<Rightarrow> pyval wire_op) \<Rightarrow> 'a list \<Rightarrow> pyval list wire_op" where
  "wire_all f [] = ret_s []"
| "wire_all f (x # xs) = bind_s (f x) (\<lambda>v. bind_s (wire_all f xs) (\<lambda>vs. ret_s (v # vs)))"

definition wire_context :: "bctx \<Rightarrow> pyval" where
  "wire_context c = PDict
     [(PStr ''binding_id'', PStr (bc_binding c)), (PStr ''provider'', PStr (bc_provider c)),
      (PStr ''account_id'', PStr (bc_account c)), (PStr ''actor_id'', PStr (bc_actor c)),
      (PStr ''conversation_id'', PStr (bc_conversation c)), (PStr ''event_id'', PStr (bc_event c)),
      (PStr ''thread_id'', pstr_opt (bc_thread c)), (PStr ''reply_to_event_id'', pstr_opt (bc_reply_to c)),
      (PStr ''api_version'', PInt API_VERSION), (PStr ''conversation_kind'', PStr (bc_kind c)),
      (PStr ''audience_ids'', PList (map PStr (bc_audience c))),
      (PStr ''audience_complete'', PBool (bc_complete c)),
      (PStr ''audience_verified_at'', bc_verified_at c)]"

definition wire_conversation :: "bconv option \<Rightarrow> pyval" where
  "wire_conversation x =
     (case x of
        None \<Rightarrow> PNone
      | Some v \<Rightarrow> PDict
          [(PStr ''mode'', PStr (cv_mode v)), (PStr ''binding_id'', PStr (cv_binding v)),
           (PStr ''provider'', PStr (cv_provider v)), (PStr ''account_id'', PStr (cv_account v)),
           (PStr ''conversation_id'', PStr (cv_conversation v)), (PStr ''thread_id'', pstr_opt (cv_thread v)),
           (PStr ''private_actor_id'', pstr_opt (cv_private_actor v)),
           (PStr ''audience_ids'', PList (map PStr (cv_audience v))), (PStr ''audience_epoch'', PStr (cv_epoch v)),
           (PStr ''session_key'', PStr (cv_session_key v)), (PStr ''api_version'', PInt API_VERSION)])"

definition wire_history :: "(bytes \<Rightarrow> string) \<Rightarrow> reg_inputs \<Rightarrow> string \<Rightarrow> history_msg \<Rightarrow> pyval wire_op" where
  "wire_history sha inputs rid m =
     bind_s (wire_all (wire_part sha inputs rid) (hm_parts m)) (\<lambda>parts.
       ret_s (PDict
         ([(PStr ''event_id'', PStr (hm_event m)), (PStr ''actor_id'', PStr (hm_actor m)),
           (PStr ''parts'', PList parts), (PStr ''timestamp'', pstr_opt (hm_timestamp m))] @
          (if hm_omitted m = [] then []
           else [(PStr ''omitted_attachments'', PList (map notice_dict (hm_omitted m)))]))))"

text \<open>What a request carries.\<close>

datatype params =
    NoParams
  | ContextParams bctx
  | MessageParams bmessage
  | CommandParams bcommand
  | TranscribeParams bctx attachment
  | SynthesizeParams bctx string

definition to_wire :: "(bytes \<Rightarrow> string) \<Rightarrow> reg_inputs \<Rightarrow> string \<Rightarrow> params \<Rightarrow> pyval wire_op" where
  "to_wire sha inputs rid v =
     (case v of
        NoParams \<Rightarrow> ret_s PNone
      | ContextParams c \<Rightarrow> ret_s (wire_context c)
      | MessageParams m \<Rightarrow>
          bind_s (wire_all (wire_part sha inputs rid) (ms_parts m)) (\<lambda>parts.
          bind_s (wire_all (wire_history sha inputs rid) (ms_history m)) (\<lambda>hist.
            ret_s (PDict
              [(PStr ''context'', wire_context (ms_context m)), (PStr ''parts'', PList parts),
               (PStr ''history'', PList hist), (PStr ''source'', PStr (ms_source m)),
               (PStr ''presentation'', pstr_opt (ms_presentation m)), (PStr ''api_version'', PInt API_VERSION),
               (PStr ''conversation'', wire_conversation (ms_conversation m))])))
      | CommandParams m \<Rightarrow>
          ret_s (PDict
            [(PStr ''context'', wire_context (cm_context m)), (PStr ''name'', PStr (cm_name m)),
             (PStr ''argument'', pstr_opt (cm_argument m)), (PStr ''confirmed'', PBool (cm_confirmed m)),
             (PStr ''api_version'', PInt API_VERSION),
             (PStr ''conversation'', wire_conversation (cm_conversation m))])
      | TranscribeParams c a \<Rightarrow>
          bind_s (wire_file sha inputs rid a) (\<lambda>v.
            ret_s (PDict [(PStr ''context'', wire_context c), (PStr ''attachment'', v)]))
      | SynthesizeParams c t \<Rightarrow>
          ret_s (PDict [(PStr ''context'', wire_context c), (PStr ''text'', PStr t)]))"

section \<open>Decoding what the host answers\<close>

definition context_dto :: "pyval \<Rightarrow> wire_exn + bctx" where
  "context_dto v =
     bind_r (object_fields CONTEXT_FIELDS CONTEXT_REQUIRED v) (\<lambda>d.
       case new_context d of
         Inl e \<Rightarrow> Inl (if e \<in> {TypeErr, ContractErr} then WireError ''invalid_context'' else e)
       | Inr c \<Rightarrow> Inr c)"

lemma map_PStr_inject: "map PStr xs = map PStr ys \<longleftrightarrow> xs = ys"
  by (rule inj_map_eq_map) (simp add: inj_def)

lemma wire_context_fields:
  "list_all (\<lambda>(k, _). k \<in> PStr ` set CONTEXT_FIELDS)
     [(PStr ''binding_id'', a1), (PStr ''provider'', a2), (PStr ''account_id'', a3), (PStr ''actor_id'', a4),
      (PStr ''conversation_id'', a5), (PStr ''event_id'', a6), (PStr ''thread_id'', a7),
      (PStr ''reply_to_event_id'', a8), (PStr ''api_version'', a9), (PStr ''conversation_kind'', a10),
      (PStr ''audience_ids'', a11), (PStr ''audience_complete'', a12), (PStr ''audience_verified_at'', a13)]"
  by (simp add: CONTEXT_FIELDS_def CONTEXT_REQUIRED_def)

lemma ctx_ident_opt_pstr: "\<forall>s\<in>set_option x. is_ident s \<Longrightarrow> ctx_ident_opt (pstr_opt x) = Inr x"
  by (auto simp: pstr_opt_def ctx_ident_opt_Inr split: option.splits)

lemma context_dto_wire: "ctx_ok c \<Longrightarrow> context_dto (wire_context c) = Inr c"
proof -
  assume c: "ctx_ok c"
  obtain d where w: "wire_context c = PDict d"
    and f: "list_all (\<lambda>(k, _). k \<in> PStr ` set CONTEXT_FIELDS) d"
    and r: "list_all (\<lambda>k. pget k d \<noteq> None) CONTEXT_REQUIRED"
    and g: "pget ''binding_id'' d = Some (PStr (bc_binding c))" "pget ''provider'' d = Some (PStr (bc_provider c))"
      "pget ''account_id'' d = Some (PStr (bc_account c))" "pget ''actor_id'' d = Some (PStr (bc_actor c))"
      "pget ''conversation_id'' d = Some (PStr (bc_conversation c))" "pget ''event_id'' d = Some (PStr (bc_event c))"
      "pget ''thread_id'' d = Some (pstr_opt (bc_thread c))" "pget ''reply_to_event_id'' d = Some (pstr_opt (bc_reply_to c))"
      "pget ''api_version'' d = Some (PInt API_VERSION)" "pget ''conversation_kind'' d = Some (PStr (bc_kind c))"
      "pget ''audience_ids'' d = Some (PList (map PStr (bc_audience c)))"
      "pget ''audience_complete'' d = Some (PBool (bc_complete c))"
      "pget ''audience_verified_at'' d = Some (bc_verified_at c)"
    using wire_context_fields unfolding wire_context_def by (simp add: CONTEXT_REQUIRED_def)
  have "new_context d = Inr c"
    using c f r unfolding new_context_def ctx_ok_def
    by (cases c) (simp add: pget_or_def g check_version_def bind_r_Inr_iff ctx_ident_Inr ctx_ident_opt_pstr
        check_kind_Inr check_audience_Inr check_flag_Inr map_PStr_inject)
  then show ?thesis using f r by (simp add: context_dto_def w object_fields_def)
qed

interpretation context_codec: codec wire_context "\<lambda>v. case context_dto v of Inr c \<Rightarrow> Some c | Inl _ \<Rightarrow> None" ctx_ok
  by unfold_locales (simp add: context_dto_wire)


definition wire_err :: "string \<Rightarrow> wire_exn + 'a" where
  "wire_err m = Inl (WireError m)"

lemma wire_err_Inr [simp]: "wire_err m \<noteq> Inr x"
  by (simp add: wire_err_def)

definition text_opt :: "string \<Rightarrow> pyval \<Rightarrow> wire_exn + string option" where
  "text_opt e v = (case v of PNone \<Rightarrow> Inr None | PStr s \<Rightarrow> Inr (Some s) | _ \<Rightarrow> wire_err e)"

text \<open>One element of \<open>parts\<close>: a text, or the handle of a finished upload of this request.\<close>

definition read_part :: "string \<Rightarrow> pyval \<Rightarrow> bpart store_op" where
  "read_part rid v =
     bind_s (lift_s (object_fields [''text'', ''attachment''] [] v)) (\<lambda>d.
     bind_s (lift_s (text_opt ''invalid_text'' (pget_or PNone ''text'' d))) (\<lambda>t.
     let handle = pget_or PNone ''attachment'' d
     in if handle = PNone then lift_s (new_part t None)
        else bind_s (resolve rid handle) (\<lambda>a. lift_s (new_part t (Some a)))))"

fun read_parts :: "string \<Rightarrow> pyval list \<Rightarrow> bpart list store_op" where
  "read_parts rid [] = ret_s []"
| "read_parts rid (v # vs) = bind_s (read_part rid v) (\<lambda>p. bind_s (read_parts rid vs) (\<lambda>ps. ret_s (p # ps)))"

definition parts_dto :: "string \<Rightarrow> pyval \<Rightarrow> bpart list store_op" where
  "parts_dto rid v =
     (case v of
        PList vs \<Rightarrow> if length vs > 256 then raise_s (WireError ''invalid_parts'') else read_parts rid vs
      | _ \<Rightarrow> raise_s (WireError ''invalid_parts''))"

section \<open>Capabilities\<close>

definition command_dto :: "pyval \<Rightarrow> wire_exn + command_def" where
  "command_dto v =
     bind_r (object_fields [''name'', ''description'', ''confirmation_required''] [''name'', ''description''] v) (\<lambda>d.
     bind_r (ident (pget_or PNone ''name'' d)) (\<lambda>name.
       case (pget_or PNone ''description'' d, pget_or (PBool False) ''confirmation_required'' d) of
         (PStr t, PBool b) \<Rightarrow> Inr \<lparr>cd_name = name, cd_description = t, cd_confirmation = b\<rparr>
       | _ \<Rightarrow> wire_err ''invalid_command''))"

fun each_r :: "('a \<Rightarrow> 'e + 'b) \<Rightarrow> 'a list \<Rightarrow> 'e + 'b list" where
  "each_r f [] = Inr []"
| "each_r f (x # xs) = bind_r (f x) (\<lambda>y. bind_r (each_r f xs) (\<lambda>ys. Inr (y # ys)))"

definition text_list :: "pyval \<Rightarrow> wire_exn + string list" where
  "text_list v =
     (case v of
        PList vs \<Rightarrow>
          if length vs > 64 then wire_err ''invalid_capabilities''
          else each_r (\<lambda>x. case x of PStr s \<Rightarrow> Inr s | _ \<Rightarrow> wire_err ''invalid_capabilities'') vs
      | _ \<Rightarrow> wire_err ''invalid_capabilities'')"

definition CAPABILITY_FIELDS :: "string list" where
  "CAPABILITY_FIELDS = [''commands'', ''input_media'', ''output_media'', ''progress_kinds'', ''api_version'',
     ''history_media'', ''history_max_files'', ''history_max_bytes'', ''core_commands'']"

definition capabilities_dto ::
  "string list \<Rightarrow> (string list \<Rightarrow> (string \<times> string) list) \<Rightarrow> pyval \<Rightarrow> wire_exn + capabilities" where
  "capabilities_dto all_scopes scope_commands v =
     bind_r (object_fields CAPABILITY_FIELDS [] v) (\<lambda>d.
     bind_r (case pget_or (PList []) ''commands'' d of
               PList cs \<Rightarrow> if length cs > 256 then wire_err ''invalid_capabilities'' else each_r command_dto cs
             | _ \<Rightarrow> wire_err ''invalid_capabilities'') (\<lambda>commands.
     bind_r (text_list (pget_or (PList []) ''input_media'' d)) (\<lambda>input.
     bind_r (text_list (pget_or (PList []) ''output_media'' d)) (\<lambda>output.
     bind_r (text_list (pget_or (PList []) ''progress_kinds'' d)) (\<lambda>kinds.
     bind_r (text_list (pget_or (PList []) ''core_commands'' d)) (\<lambda>scopes.
       if \<not> set scopes \<subseteq> set all_scopes then wire_err ''invalid_capabilities''
       else new_capabilities scope_commands d commands input output kinds scopes))))))"

section \<open>Results and progress\<close>

datatype dto =
    DNone
  | DCapabilities capabilities
  | DBool bool
  | DText "string option"
  | DFile "attachment option"
  | DReply breply
  | DCommand command_result

definition option_dto :: "pyval \<Rightarrow> wire_exn + picker_option" where
  "option_dto v =
     bind_r (object_fields [''value'', ''label'', ''subtitle'', ''active''] [''value'', ''label''] v) (\<lambda>d.
       Inr \<lparr>po_value = pget_or PNone ''value'' d, po_label = pget_or PNone ''label'' d,
            po_subtitle = pget_or PNone ''subtitle'' d, po_active = pget_or (PBool False) ''active'' d\<rparr>)"

definition REPLY_FIELDS :: "string list" where
  "REPLY_FIELDS = [''parts'', ''status'', ''model'', ''session_ref'', ''run_ref'', ''api_version'']"

definition COMMAND_FIELDS :: "string list" where
  "COMMAND_FIELDS = [''status'', ''parts'', ''options'', ''picker_command'', ''picker_prompt'', ''api_version'']"

definition result_dto ::
  "string list \<Rightarrow> (string list \<Rightarrow> (string \<times> string) list) \<Rightarrow> string \<Rightarrow> pyval \<Rightarrow> string \<Rightarrow> dto store_op" where
  "result_dto all_scopes scope_commands method v rid =
     (if method = ''start'' then lift_s (bind_r (capabilities_dto all_scopes scope_commands v) (\<lambda>c. Inr (DCapabilities c)))
      else if method \<in> {''authorize_context'', ''authorize_delivery''} then
        (case v of PBool b \<Rightarrow> ret_s (DBool b) | _ \<Rightarrow> raise_s (WireError ''invalid_authorization''))
      else if method = ''stop'' then (if v = PNone then ret_s DNone else raise_s (WireError ''invalid_stop''))
      else if method = ''transcribe'' then lift_s (bind_r (text_opt ''invalid_transcript'' v) (\<lambda>t. Inr (DText t)))
      else if method = ''synthesize'' then
        (if v = PNone then ret_s (DFile None) else bind_s (resolve rid v) (\<lambda>a. ret_s (DFile (Some a))))
      else if method = ''send'' then
        bind_s (lift_s (object_fields REPLY_FIELDS [] v)) (\<lambda>d.
        bind_s (parts_dto rid (pget_or (PList []) ''parts'' d)) (\<lambda>parts.
        bind_s (lift_s (new_reply d parts)) (\<lambda>r. ret_s (DReply r))))
      else
        bind_s (lift_s (object_fields COMMAND_FIELDS [] v)) (\<lambda>d.
        bind_s (parts_dto rid (pget_or (PList []) ''parts'' d)) (\<lambda>parts.
        bind_s (case pget_or (PList []) ''options'' d of
                  PList os \<Rightarrow> if length os > 256 then raise_s (WireError ''invalid_options'')
                             else lift_s (each_r option_dto os)
                | _ \<Rightarrow> raise_s (WireError ''invalid_options'')) (\<lambda>options.
        bind_s (lift_s (new_command_result d parts options)) (\<lambda>r. ret_s (DCommand r))))))"

definition progress :: "pyval \<Rightarrow> wire_exn + bevent" where
  "progress v =
     bind_r (object_fields [''kind'', ''text'', ''run_ref'', ''api_version''] [''kind''] v) (\<lambda>d.
       case (pget_or PNone ''kind'' d, pget_or (PStr []) ''text'' d) of
         (PStr k, PStr t) \<Rightarrow>
           new_event k t (pget_or PNone ''run_ref'' d) (pget_or (PInt API_VERSION) ''api_version'' d)
       | _ \<Rightarrow> wire_err ''invalid_progress'')"

end
