(* ===== verification/Channel_Transport.thy ===== *)
theory Channel_Transport
  imports Channel_Wire
begin

text \<open>
  The runner's side of the channel protocol (\<open>channel-bridges/stdio.py\<close>): the requests of the bridge and
  their answers, progress deliveries, the host's requests for media and for fresh provider evidence, and
  the reading loop.

  The coroutines are cut at their suspension points; each event of the scheduler runs one segment. What
  is shared (\<open>_pending\<close>, \<open>_cancelled_requests\<close>, the artifact store) and what a coroutine holds on its own
  (the phase of a request) are kept apart. A delivery that ends and its done callback are one step, and
  so is a reply that the reading loop writes itself. Lines written, progress handed to the bridge and
  outcomes of requests are recorded in order.

  A callback that is cancelled is taken to let the cancellation through or to fail otherwise, never to
  swallow it and return. A request cancelled while it awaits its last delivery goes to \<open>Doomed\<close>: the
  source first waits for that delivery, which it cancels too, and the model leaves the moment open at
  which the \<open>finally\<close> block begins.
\<close>

section \<open>State\<close>

definition MAX_PENDING :: nat where "MAX_PENDING = 64"
definition PROVIDERS :: "string list" where
  "PROVIDERS = [''slack'', ''discord'', ''telegram'', ''whatsapp'']"

datatype fut = FutPending | FutResult pyval | FutFailed wire_exn | FutCancelled

text \<open>A progress delivery: waiting for the one before it, in the callback, or ended.\<close>

datatype delivery = Queued | Showing | Shown | Broke wire_exn | Stopped

definition over :: "delivery \<Rightarrow> bool" where
  "over s = (case s of Queued \<Rightarrow> False | Showing \<Rightarrow> False | _ \<Rightarrow> True)"

text \<open>\<open>_Pending\<close>; \<open>pn_events\<close> are the deliveries in the order of their creation, the last is \<open>event_tail\<close>.\<close>

record pending =
  pn_method :: string
  pn_future :: fut
  pn_callback :: bool
  pn_events :: "(bevent \<times> delivery) list"
  pn_failure :: "wire_exn option"

definition live :: "pending \<Rightarrow> nat" where
  "live p = length (filter (\<lambda>e. \<not> over (snd e)) (pn_events p))"

type_synonym outcome = "wire_exn + dto"

text \<open>Where the coroutine \<open>_request\<close> of a request is suspended. The flag of \<open>Cleaning\<close> says that it was
  cancelled again there, so that the rest of the \<open>finally\<close> block will be skipped.\<close>

datatype phase =
    Sending pyval
  | Waiting
  | Draining pyval
  | Doomed
  | Cleaning pending outcome bool

record transport =
  tr_binding :: string
  tr_provider :: string
  tr_can_attest :: bool
  tr_pending :: "(string, pending) dict"
  tr_running :: "(string, phase) dict"
  tr_serial :: nat
  tr_closed :: bool
  tr_reading :: bool
  tr_cancelled :: "(string, unit) dict"
  tr_event_count :: nat
  tr_max_files :: nat
  tr_max_bytes :: nat
  tr_artifacts :: artifact_store
  tr_host :: "(string, pyval) dict"
  tr_out :: "bytes list"
  tr_shown :: "(string \<times> bevent) list"
  tr_results :: "(string \<times> outcome) list"

text \<open>The surroundings: hashing, the codecs of the standard library and the Core command catalogue.\<close>

record tr_env =
  te_sha :: "bytes \<Rightarrow> string"
  te_frepr :: "real \<Rightarrow> string"
  te_fread :: "string \<Rightarrow> pyfloat"
  te_other :: "bytes \<Rightarrow> string option"
  te_b64 :: "bytes \<Rightarrow> string"
  te_unb64 :: "string \<Rightarrow> bytes option"
  te_scopes :: "string list"
  te_scope_commands :: "string list \<Rightarrow> (string \<times> string) list"

definition new_transport :: "pyval \<Rightarrow> pyval \<Rightarrow> bool \<Rightarrow> fsys \<Rightarrow> wire_exn + transport" where
  "new_transport binding provider can_attest fs =
     bind_r (ident binding) (\<lambda>b.
       case provider of
         PStr p \<Rightarrow>
           if p \<in> set PROVIDERS
           then Inr \<lparr>tr_binding = b, tr_provider = p, tr_can_attest = can_attest, tr_pending = [],
                     tr_running = [], tr_serial = 0, tr_closed = False, tr_reading = True,
                     tr_cancelled = [], tr_event_count = 0, tr_max_files = 16, tr_max_bytes = 65536,
                     tr_artifacts = new_store fs, tr_host = [], tr_out = [], tr_shown = [], tr_results = []\<rparr>
           else Inl (WireError ''unsupported_provider'')
       | _ \<Rightarrow> Inl (WireError ''unsupported_provider''))"

definition frame_of :: "(pyval \<times> pyval) list \<Rightarrow> pyval" where
  "frame_of d = PDict ((PStr ''protocol'', PStr PROTOCOL) # d)"

section \<open>Requests of the bridge\<close>

text \<open>\<open>_context\<close>: a context of another binding or provider is refused before anything is sent.\<close>

definition bound_context :: "transport \<Rightarrow> bctx \<Rightarrow> bool" where
  "bound_context t c = (bc_binding c = tr_binding t \<and> bc_provider c = tr_provider t)"

definition params_context :: "params \<Rightarrow> bctx option" where
  "params_context v =
     (case v of
        NoParams \<Rightarrow> None
      | ContextParams c \<Rightarrow> Some c
      | MessageParams m \<Rightarrow> Some (ms_context m)
      | CommandParams m \<Rightarrow> Some (cm_context m)
      | TranscribeParams c _ \<Rightarrow> Some c
      | SynthesizeParams c _ \<Rightarrow> Some c)"

text \<open>What \<open>start\<close> does with the capabilities it is answered.\<close>

definition learn :: "outcome \<Rightarrow> transport \<Rightarrow> transport" where
  "learn out t =
     (case out of
        Inr (DCapabilities c) \<Rightarrow> t\<lparr>tr_max_files := cp_history_max_files c, tr_max_bytes := cp_history_max_bytes c\<rparr>
      | _ \<Rightarrow> t)"

text \<open>The second half of the \<open>finally\<close> block of \<open>_request\<close>, on the request's own \<open>_Pending\<close>.\<close>

definition tombstone :: "string \<Rightarrow> (string, unit) dict \<Rightarrow> (string, unit) dict" where
  "tombstone rid d =
     (let d' = dict_set rid () d in if length d' > 2 * MAX_PENDING then tl d' else d')"

definition cleanup_end :: "string \<Rightarrow> pending \<Rightarrow> outcome \<Rightarrow> transport \<Rightarrow> transport" where
  "cleanup_end rid p out t =
     (let cancelled = pn_future p \<in> {FutPending, FutCancelled};
          t1 = (if cancelled then t\<lparr>tr_cancelled := tombstone rid (tr_cancelled t)\<rparr> else t)
      in case end_request rid (tr_artifacts t1) of
           (r, st) \<Rightarrow>
             (let out' = (case r of Inl e \<Rightarrow> Inl e | Inr _ \<Rightarrow> out)
              in learn out' (t1\<lparr>tr_artifacts := st, tr_running := dict_pop rid (tr_running t1),
                   tr_results := tr_results t1 @ [(rid, out')]\<rparr>)))"

text \<open>The first half: the request leaves the table, its unfinished deliveries are cancelled, and if there
  are any the coroutine waits for them.\<close>

definition cleanup_begin :: "string \<Rightarrow> pending \<Rightarrow> outcome \<Rightarrow> transport \<Rightarrow> transport" where
  "cleanup_begin rid p out t =
     (let t1 = t\<lparr>tr_pending := dict_pop rid (tr_pending t)\<rparr>
      in if live p = 0 then cleanup_end rid p out t1
         else t1\<lparr>tr_running := dict_set rid (Cleaning p out False) (tr_running t1)\<rparr>)"

definition input_count :: "params \<Rightarrow> nat" where
  "input_count v =
     (case v of MessageParams m \<Rightarrow> length (filter (\<lambda>p. part_file p \<noteq> None) (ms_parts m)) | _ \<Rightarrow> 0)"

definition request_limit :: "string \<Rightarrow> params \<Rightarrow> transport \<Rightarrow> nat" where
  "request_limit method v t =
     (case v of
        MessageParams m \<Rightarrow> if method = ''send'' \<and> ms_history m \<noteq> [] then tr_max_files t else 16
      | _ \<Rightarrow> 16)"

definition history_error :: "tr_env \<Rightarrow> string \<Rightarrow> params \<Rightarrow> transport \<Rightarrow> wire_exn option" where
  "history_error E method v t =
     (case v of
        MessageParams m \<Rightarrow>
          if method = ''send'' then
            (case history_size (te_frepr E) (ms_history m) of
               Inl e \<Rightarrow> Some e
             | Inr n \<Rightarrow> if n > tr_max_bytes t then Some (WireError ''history_byte_limit'') else None)
          else None
      | _ \<Rightarrow> None)"

definition request_id :: "nat \<Rightarrow> string" where
  "request_id n = ''child-'' @ dec_text n"

text \<open>\<open>_request\<close> up to its first suspension, inside \<open>emit\<close>: \<open>Inr\<close> is the identifier of the request. The
  first definition is the beginning of its \<open>try\<close> block.\<close>

definition emit_request ::
  "tr_env \<Rightarrow> reg_inputs \<Rightarrow> string \<Rightarrow> pending \<Rightarrow> params \<Rightarrow> transport \<Rightarrow> (wire_exn + string) \<times> transport" where
  "emit_request E inputs rid p v t =
     (case to_wire (te_sha E) inputs rid v (tr_artifacts t, 0) of
        (r, (st, _)) \<Rightarrow>
          (let t1 = t\<lparr>tr_artifacts := st\<rparr>
           in case bind_r r (\<lambda>params.
                let frame = frame_of [(PStr ''type'', PStr ''request''), (PStr ''request_id'', PStr rid),
                      (PStr ''method'', PStr (pn_method p)), (PStr ''params'', params)]
                in bind_r (encode_line (te_frepr E) frame) (\<lambda>_. Inr frame)) of
                Inl e \<Rightarrow> (Inl e, cleanup_begin rid p (Inl e) t1)
              | Inr frame \<Rightarrow> (Inr rid, t1\<lparr>tr_running := dict_set rid (Sending frame) (tr_running t1)\<rparr>)))"

definition open_request ::
  "tr_env \<Rightarrow> reg_inputs \<Rightarrow> string \<Rightarrow> params \<Rightarrow> bool \<Rightarrow> transport \<Rightarrow> (wire_exn + string) \<times> transport" where
  "open_request E inputs method v callback t =
     (if tr_closed t then (Inl HostClosed, t)
      else if length (tr_pending t) \<ge> MAX_PENDING then (Inl (WireError ''pending_limit''), t)
      else case history_error E method v t of
             Some e \<Rightarrow> (Inl e, t)
           | None \<Rightarrow>
               (let limit = request_limit method v t
                in if limit > 16 \<and> input_count v > 16 then (Inl (WireError ''artifact_limit''), t)
                   else
                     (let rid = request_id (Suc (tr_serial t));
                          p = \<lparr>pn_method = method, pn_future = FutPending, pn_callback = callback,
                               pn_events = [], pn_failure = None\<rparr>;
                          t1 = t\<lparr>tr_serial := Suc (tr_serial t), tr_pending := dict_set rid p (tr_pending t)\<rparr>
                      in case begin_request (PStr rid) limit (if limit > 16 then Some INPUT_BYTES else None)
                                (tr_artifacts t1) of
                           (Inl e, st) \<Rightarrow> (Inl e, t1\<lparr>tr_artifacts := st\<rparr>)
                         | (Inr _, st) \<Rightarrow> emit_request E inputs rid p v (t1\<lparr>tr_artifacts := st\<rparr>))))"

text \<open>The public methods: the context is checked first.\<close>

definition call ::
  "tr_env \<Rightarrow> reg_inputs \<Rightarrow> string \<Rightarrow> params \<Rightarrow> bool \<Rightarrow> transport \<Rightarrow> (wire_exn + string) \<times> transport" where
  "call E inputs method v callback t =
     (if \<forall>c\<in>set_option (params_context v). bound_context t c
      then open_request E inputs method v callback t else (Inl PermissionErr, t))"

text \<open>\<open>emit\<close> comes back: the line is written, or writing raised.\<close>

definition write_frame :: "tr_env \<Rightarrow> pyval \<Rightarrow> transport \<Rightarrow> transport" where
  "write_frame E frame t =
     (case encode_line (te_frepr E) frame of Inl _ \<Rightarrow> t | Inr line \<Rightarrow> t\<lparr>tr_out := tr_out t @ [line]\<rparr>)"

definition sent :: "tr_env \<Rightarrow> string \<Rightarrow> bool \<Rightarrow> transport \<Rightarrow> transport" where
  "sent E rid ok t =
     (case (dict_get (tr_running t) rid, dict_get (tr_pending t) rid) of
        (Some (Sending frame), Some p) \<Rightarrow>
          if ok then (write_frame E frame t)\<lparr>tr_running := dict_set rid Waiting (tr_running t)\<rparr>
          else cleanup_begin rid p (Inl OSErr) t
      | _ \<Rightarrow> t)"

text \<open>What follows once the answer and all deliveries are in.\<close>

definition complete_request :: "tr_env \<Rightarrow> string \<Rightarrow> pending \<Rightarrow> pyval \<Rightarrow> transport \<Rightarrow> transport" where
  "complete_request E rid p v t =
     (case pn_failure p of
        Some e \<Rightarrow> cleanup_begin rid p (Inl e) t
      | None \<Rightarrow>
          (case result_dto (te_scopes E) (te_scope_commands E) (pn_method p) v rid (tr_artifacts t) of
             (r, st) \<Rightarrow> cleanup_begin rid p r (t\<lparr>tr_artifacts := st\<rparr>)))"

text \<open>Awaiting the last delivery: it may be over, over with an exception, or still to come.\<close>

definition drain :: "tr_env \<Rightarrow> string \<Rightarrow> pending \<Rightarrow> pyval \<Rightarrow> transport \<Rightarrow> transport" where
  "drain E rid p v t =
     (if pn_events p = [] then complete_request E rid p v t
      else case snd (last (pn_events p)) of
             Shown \<Rightarrow> complete_request E rid p v t
           | Broke e \<Rightarrow> cleanup_begin rid p (Inl e) t
           | Stopped \<Rightarrow> cleanup_begin rid p (Inl Cancelled) t
           | _ \<Rightarrow> t\<lparr>tr_running := dict_set rid (Draining v) (tr_running t)\<rparr>)"

definition leave :: "string \<Rightarrow> transport \<Rightarrow> transport" where
  "leave rid t =
     t\<lparr>tr_running := dict_pop rid (tr_running t), tr_results := tr_results t @ [(rid, Inl Cancelled)]\<rparr>"

definition resume_request :: "tr_env \<Rightarrow> string \<Rightarrow> transport \<Rightarrow> transport" where
  "resume_request E rid t =
     (case (dict_get (tr_running t) rid, dict_get (tr_pending t) rid) of
        (Some Waiting, Some p) \<Rightarrow>
          (case pn_future p of
             FutPending \<Rightarrow> t
           | FutResult v \<Rightarrow> drain E rid p v t
           | FutFailed e \<Rightarrow> cleanup_begin rid p (Inl e) t
           | FutCancelled \<Rightarrow> cleanup_begin rid p (Inl Cancelled) t)
      | (Some (Draining v), Some p) \<Rightarrow> drain E rid p v t
      | (Some Doomed, Some p) \<Rightarrow> cleanup_begin rid p (Inl Cancelled) t
      | (Some (Cleaning p out skip), _) \<Rightarrow>
          if live p \<noteq> 0 then t else if skip then leave rid t else cleanup_end rid p out t
      | _ \<Rightarrow> t)"

text \<open>
  The bridge cancels the coroutine of a request. While it awaits the answer, this cancels the future at
  once. In the \<open>finally\<close> block the wait for the deliveries raises, and the second half is skipped.
\<close>

definition set_pending :: "string \<Rightarrow> pending \<Rightarrow> transport \<Rightarrow> transport" where
  "set_pending rid p t = t\<lparr>tr_pending := dict_set rid p (tr_pending t)\<rparr>"

definition interrupt :: "tr_env \<Rightarrow> string \<Rightarrow> bool \<Rightarrow> transport \<Rightarrow> transport" where
  "interrupt E rid written t =
     (case (dict_get (tr_running t) rid, dict_get (tr_pending t) rid) of
        (Some (Sending frame), Some p) \<Rightarrow>
          cleanup_begin rid p (Inl Cancelled) (if written then write_frame E frame t else t)
      | (Some Waiting, Some p) \<Rightarrow>
          if pn_future p = FutPending then set_pending rid (p\<lparr>pn_future := FutCancelled\<rparr>) t
          else t\<lparr>tr_running := dict_set rid Doomed (tr_running t)\<rparr>
      | (Some (Draining _), Some _) \<Rightarrow> t\<lparr>tr_running := dict_set rid Doomed (tr_running t)\<rparr>
      | (Some (Cleaning p out _), _) \<Rightarrow>
          t\<lparr>tr_running := dict_set rid (Cleaning p (Inl Cancelled) True) (tr_running t)\<rparr>
      | _ \<Rightarrow> t)"


section \<open>Progress deliveries\<close>

text \<open>The first delivery that has not ended, split off from those before it.\<close>

definition split_events :: "pending \<Rightarrow> (bevent \<times> delivery) list \<times> (bevent \<times> delivery) list" where
  "split_events p =
     (takeWhile (\<lambda>e. over (snd e)) (pn_events p), dropWhile (\<lambda>e. over (snd e)) (pn_events p))"

text \<open>How a delivery starts: after the one before it, whose exception it takes over.\<close>

definition start_status :: "(bevent \<times> delivery) list \<Rightarrow> delivery" where
  "start_status before =
     (if before = [] then Showing
      else case snd (last before) of Broke e \<Rightarrow> Broke e | Stopped \<Rightarrow> Stopped | _ \<Rightarrow> Showing)"

definition note_end :: "delivery \<Rightarrow> pending \<Rightarrow> pending" where
  "note_end s p =
     (case s of
        Broke e \<Rightarrow> (if pn_failure p = None then p\<lparr>pn_failure := Some e\<rparr> else p)
      | _ \<Rightarrow> p)"

definition close_delivery :: "delivery \<Rightarrow> pending \<Rightarrow> pending" where
  "close_delivery s p =
     (case split_events p of
        (before, (ev, _) # rest) \<Rightarrow> note_end s (p\<lparr>pn_events := before @ (ev, s) # rest\<rparr>)
      | _ \<Rightarrow> p)"

text \<open>
  The first unfinished delivery of a request goes on: a queued one starts, one in the callback ends with
  the given outcome. In the \<open>finally\<close> block queued deliveries have been cancelled.
\<close>

definition deliver :: "string \<Rightarrow> delivery \<Rightarrow> transport \<Rightarrow> transport" where
  "deliver rid how t =
     (case (dict_get (tr_pending t) rid, dict_get (tr_running t) rid) of
        (Some p, _) \<Rightarrow>
          (case split_events p of
             (before, (ev, Queued) # rest) \<Rightarrow>
               (case start_status before of
                  Showing \<Rightarrow>
                    (set_pending rid (p\<lparr>pn_events := before @ (ev, Showing) # rest\<rparr>) t)
                      \<lparr>tr_shown := tr_shown t @ [(rid, ev)]\<rparr>
                | s \<Rightarrow>
                    (set_pending rid (close_delivery s p) t)\<lparr>tr_event_count := tr_event_count t - 1\<rparr>)
           | (before, (ev, Showing) # rest) \<Rightarrow>
               if over how
               then (set_pending rid (close_delivery how p) t)\<lparr>tr_event_count := tr_event_count t - 1\<rparr>
               else t
           | _ \<Rightarrow> t)
      | (None, Some (Cleaning p out skip)) \<Rightarrow>
          (case split_events p of
             (before, (ev, Queued) # rest) \<Rightarrow>
               t\<lparr>tr_running := dict_set rid (Cleaning (close_delivery Stopped p) out skip) (tr_running t),
                 tr_event_count := tr_event_count t - 1\<rparr>
           | (before, (ev, Showing) # rest) \<Rightarrow>
               if over how
               then t\<lparr>tr_running := dict_set rid (Cleaning (close_delivery how p) out skip) (tr_running t),
                      tr_event_count := tr_event_count t - 1\<rparr>
               else t
           | _ \<Rightarrow> t)
      | _ \<Rightarrow> t)"

section \<open>Frames of the host\<close>

text \<open>What the surroundings contribute to one frame: the handle, path and inode of a new upload, the
  outcomes of \<open>os.write\<close>, and whether the two attempts at writing a reply succeed.\<close>

record host_input =
  hi_ref :: string
  hi_path :: string
  hi_node :: nat
  hi_writes :: "nat option list"
  hi_first :: bool
  hi_second :: bool

type_synonym 'a transport_op = "(transport, wire_exn, 'a) handler"

definition answer_fields :: "string \<Rightarrow> string list" where
  "answer_fields kind = [''protocol'', ''type'', ''request_id'', kind]"

text \<open>\<open>result\<close>, \<open>error\<close> and \<open>event\<close> frames.\<close>

definition fulfil :: "string \<Rightarrow> string \<Rightarrow> pending \<Rightarrow> (pyval \<times> pyval) list \<Rightarrow> unit transport_op" where
  "fulfil kind rid p d t =
     (if kind = ''error'' then
        (case bind_r (object_fields [''code''] [''code''] (pget_or PNone ''error'' d)) (\<lambda>e.
                ident (pget_or PNone ''code'' e)) of
           Inl e \<Rightarrow> (Inl e, t)
         | Inr _ \<Rightarrow> (Inr (), set_pending rid (p\<lparr>pn_future := FutFailed HostRejected\<rparr>) t))
      else if kind = ''result'' then
        (Inr (), set_pending rid (p\<lparr>pn_future := FutResult (pget_or PNone ''result'' d)\<rparr>) t)
      else if \<not> pn_callback p \<or> tr_event_count t \<ge> MAX_PENDING then (Inl (WireError ''invalid_progress''), t)
      else
        (case progress (pget_or PNone ''event'' d) of
           Inl e \<Rightarrow> (Inl e, t)
         | Inr ev \<Rightarrow>
             (Inr (), (set_pending rid (p\<lparr>pn_events := pn_events p @ [(ev, Queued)]\<rparr>) t)
                        \<lparr>tr_event_count := Suc (tr_event_count t)\<rparr>)))"

definition receive_answer :: "string \<Rightarrow> (pyval \<times> pyval) list \<Rightarrow> unit transport_op" where
  "receive_answer kind d t =
     (case bind_r (object_fields (answer_fields kind) (answer_fields kind) (PDict d)) (\<lambda>_.
             ident (pget_or PNone ''request_id'' d)) of
        Inl e \<Rightarrow> (Inl e, t)
      | Inr rid \<Rightarrow>
          if dict_get (tr_cancelled t) rid \<noteq> None then (Inr (), t)
          else (case dict_get (tr_pending t) rid of
                  None \<Rightarrow> (Inl (WireError ''unknown_request''), t)
                | Some p \<Rightarrow>
                    if pn_future p = FutCancelled then (Inr (), t)
                    else if pn_future p \<noteq> FutPending then (Inl (WireError ''unknown_request''), t)
                    else fulfil kind rid p d t))"

definition attest_fields :: "string list" where
  "attest_fields = [''protocol'', ''type'', ''request_id'', ''method'', ''params'']"

definition receive_attest :: "(pyval \<times> pyval) list \<Rightarrow> unit transport_op" where
  "receive_attest d t =
     (case bind_r (object_fields attest_fields attest_fields (PDict d)) (\<lambda>_.
             ident (pget_or PNone ''request_id'' d)) of
        Inl e \<Rightarrow> (Inl e, t)
      | Inr hid \<Rightarrow>
          if tr_closed t then (Inl HostClosed, t)
          else if dict_get (tr_host t) hid \<noteq> None \<or> length (tr_host t) \<ge> MAX_PENDING
          then (Inl (WireError ''pending_limit''), t)
          else (Inr (), t\<lparr>tr_host := dict_set hid (pget_or PNone ''params'' d) (tr_host t)\<rparr>))"

text \<open>Media requests of the host act under a pending request of this side.\<close>

definition media_request ::
  "tr_env \<Rightarrow> host_input \<Rightarrow> string \<Rightarrow> (pyval \<times> pyval) list \<Rightarrow> transport
     \<Rightarrow> (wire_exn + (pyval \<times> pyval) list) \<times> artifact_store" where
  "media_request E i parent d t =
     (let st = tr_artifacts t; params = pget_or PNone ''params'' d; method = pget_or PNone ''method'' d
      in case dict_get (tr_pending t) parent of
           None \<Rightarrow> (Inl (WireError ''inactive_request''), st)
         | Some p \<Rightarrow>
             if pn_future p \<noteq> FutPending then (Inl (WireError ''inactive_request''), st)
             else if method = PStr ''read_artifact'' \<and> pn_method p \<in> {''send'', ''transcribe'', ''command''}
             then read_artifact (te_b64 E) parent params st
             else if pn_method p \<in> {''send'', ''command'', ''synthesize''} then
               (if method = PStr ''upload_begin'' then upload_begin (hi_ref i) (hi_path i) (hi_node i) parent params st
                else if method = PStr ''upload_chunk'' then upload_chunk (te_unb64 E) (hi_writes i) parent params st
                else if method = PStr ''upload_finish'' then upload_finish (te_sha E) parent params st
                else (Inl (WireError ''unsupported_method''), st))
             else (Inl (WireError ''unsupported_method''), st))"

text \<open>\<open>emit\<close> from the reading loop, where \<open>ok\<close> says whether writing succeeds.\<close>

definition emit :: "tr_env \<Rightarrow> (pyval \<times> pyval) list \<Rightarrow> bool \<Rightarrow> unit transport_op" where
  "emit E d ok t =
     (case encode_line (te_frepr E) (frame_of d) of
        Inl e \<Rightarrow> (Inl e, t)
      | Inr line \<Rightarrow> if ok then (Inr (), t\<lparr>tr_out := tr_out t @ [line]\<rparr>) else (Inl OSErr, t))"

definition caught :: "wire_exn \<Rightarrow> bool" where
  "caught e = (case e of WireError _ \<Rightarrow> True | ContractErr \<Rightarrow> True | TypeErr \<Rightarrow> True | OSErr \<Rightarrow> True | _ \<Rightarrow> False)"

definition rejection :: "string \<Rightarrow> string \<Rightarrow> (pyval \<times> pyval) list" where
  "rejection rid code =
     [(PStr ''type'', PStr ''error''), (PStr ''request_id'', PStr rid),
      (PStr ''error'', PDict [(PStr ''code'', PStr code)])]"

definition result_frame :: "string \<Rightarrow> pyval \<Rightarrow> (pyval \<times> pyval) list" where
  "result_frame rid v = [(PStr ''type'', PStr ''result''), (PStr ''request_id'', PStr rid), (PStr ''result'', v)]"

definition media_fields :: "string list" where
  "media_fields = [''protocol'', ''type'', ''request_id'', ''method'', ''parent_request_id'', ''params'']"

definition receive_media :: "tr_env \<Rightarrow> host_input \<Rightarrow> (pyval \<times> pyval) list \<Rightarrow> unit transport_op" where
  "receive_media E i d t =
     (case bind_r (object_fields media_fields media_fields (PDict d)) (\<lambda>_.
           bind_r (if pget ''type'' d = Some (PStr ''request'') then Inr () else wire_err ''invalid_frame'') (\<lambda>_.
           bind_r (ident (pget_or PNone ''request_id'' d)) (\<lambda>hid.
           bind_r (ident (pget_or PNone ''parent_request_id'' d)) (\<lambda>parent. Inr (hid, parent))))) of
        Inl e \<Rightarrow> (Inl e, t)
      | Inr (hid, parent) \<Rightarrow>
          (case media_request E i parent d t of
             (r, st) \<Rightarrow>
               (let t1 = t\<lparr>tr_artifacts := st\<rparr>
                in case (case r of Inl e \<Rightarrow> (Inl e, t1)
                         | Inr out \<Rightarrow> emit E (result_frame hid (PDict out)) (hi_first i) t1) of
                     (Inr _, t2) \<Rightarrow> (Inr (), t2)
                   | (Inl e, t2) \<Rightarrow>
                       if caught e then emit E (rejection hid ''artifact_rejected'') (hi_second i) t2
                       else (Inl e, t2))))"

definition receive_frame :: "tr_env \<Rightarrow> host_input \<Rightarrow> (pyval \<times> pyval) list \<Rightarrow> unit transport_op" where
  "receive_frame E i d t =
     (case pget ''type'' d of
        Some (PStr kind) \<Rightarrow>
          if kind \<in> {''result'', ''error'', ''event''} then receive_answer kind d t
          else if kind = ''request'' \<and> pget ''method'' d = Some (PStr ''attest_context'') then receive_attest d t
          else receive_media E i d t
      | _ \<Rightarrow> receive_media E i d t)"

text \<open>The task of an \<open>attest_context\<close> request: \<open>fresh\<close> is what the bridge's own check comes back with.\<close>

definition attested :: "transport \<Rightarrow> pyval \<Rightarrow> wire_exn + bctx \<Rightarrow> wire_exn + bctx" where
  "attested t params fresh =
     bind_r (object_fields [''context''] [''context''] params) (\<lambda>d.
     bind_r (context_dto (pget_or PNone ''context'' d)) (\<lambda>c.
       if \<not> bound_context t c then Inl PermissionErr
       else if \<not> tr_can_attest t then wire_err ''unsupported_method''
       else bind_r fresh (\<lambda>f. if bound_context t f then Inr f else Inl PermissionErr)))"

definition finish_attest :: "tr_env \<Rightarrow> string \<Rightarrow> wire_exn + bctx \<Rightarrow> bool \<Rightarrow> bool \<Rightarrow> transport \<Rightarrow> transport" where
  "finish_attest E hid fresh ok1 ok2 t =
     (case dict_get (tr_host t) hid of
        None \<Rightarrow> t
      | Some params \<Rightarrow>
          (let t1 = t\<lparr>tr_host := dict_pop hid (tr_host t)\<rparr>
           in case (case attested t params fresh of
                      Inl e \<Rightarrow> (Inl e, t1)
                    | Inr f \<Rightarrow> emit E (result_frame hid (wire_context f)) ok1 t1) of
                (Inr _, t2) \<Rightarrow> t2
              | (Inl _, t2) \<Rightarrow>
                  if tr_closed t2 then t2 else snd (emit E (rejection hid ''context_rejected'') ok2 t2)))"

section \<open>The reading loop\<close>

text \<open>\<open>eof\<close>: the tasks of the host's requests are cancelled and no answer is waited for any more.\<close>

definition close_future :: "pending \<Rightarrow> pending" where
  "close_future p = (if pn_future p = FutPending then p\<lparr>pn_future := FutFailed HostClosed\<rparr> else p)"

definition eof :: "transport \<Rightarrow> transport" where
  "eof t = t\<lparr>tr_closed := True, tr_host := [], tr_pending := map (apsnd close_future) (tr_pending t)\<rparr>"

text \<open>One turn of the loop of \<open>serve\<close>; an empty line is the end of input, any exception ends the loop.\<close>

definition stop_reading :: "transport \<Rightarrow> transport" where
  "stop_reading t = eof (t\<lparr>tr_reading := False\<rparr>)"

definition read_line :: "tr_env \<Rightarrow> host_input \<Rightarrow> bytes \<Rightarrow> transport \<Rightarrow> transport" where
  "read_line E i line t =
     (if \<not> tr_reading t then t
      else if line = [] then stop_reading t
      else case decode_line (te_fread E) (te_other E) line of
             Inl _ \<Rightarrow> stop_reading t
           | Inr d \<Rightarrow> (case receive_frame E i d t of (Inl _, t') \<Rightarrow> stop_reading t' | (Inr _, t') \<Rightarrow> t'))"

text \<open>\<open>close\<close>, at the end of \<open>serve\<close>.\<close>

definition close_transport :: "transport \<Rightarrow> transport" where
  "close_transport t =
     (let t1 = eof t in t1\<lparr>tr_artifacts := snd (close_store (tr_artifacts t1))\<rparr>)"

text \<open>Events of the scheduler.\<close>

datatype tevent =
    Call reg_inputs string params bool
  | Sent string bool
  | Resume string
  | Interrupt string bool
  | Deliver string delivery
  | Line host_input bytes
  | Attested string "wire_exn + bctx" bool bool
  | Outside fsys

definition tstep :: "tr_env \<Rightarrow> transport \<Rightarrow> tevent \<Rightarrow> transport" where
  "tstep E t e =
     (case e of
        Call inputs method v callback \<Rightarrow> snd (call E inputs method v callback t)
      | Sent rid ok \<Rightarrow> sent E rid ok t
      | Resume rid \<Rightarrow> resume_request E rid t
      | Interrupt rid written \<Rightarrow> interrupt E rid written t
      | Deliver rid how \<Rightarrow> deliver rid how t
      | Line i line \<Rightarrow> read_line E i line t
      | Attested hid fresh ok1 ok2 \<Rightarrow> finish_attest E hid fresh ok1 ok2 t
      | Outside fs \<Rightarrow> t\<lparr>tr_artifacts := (tr_artifacts t)\<lparr>st_fs := fs\<rparr>\<rparr>)"

end
