(* ===== verification/Channel_Guarantees.thy ===== *)
theory Channel_Guarantees
  imports Channel_Transport
begin

text \<open>
  What the channel protocol guarantees over every run of its events: bounds, the correspondence of
  requests and answers, ordered progress, the scope of media access, and shut-down; and two ways in
  which cancelling a request goes wrong.
\<close>

section \<open>Views\<close>

definition scope_ids :: "artifact_store \<Rightarrow> string set" where
  "scope_ids st = set (dict_keys (st_scopes st))"

definition log_of :: "transport \<Rightarrow> string \<Rightarrow> bevent list" where
  "log_of t rid = map snd (filter (\<lambda>e. fst e = rid) (tr_shown t))"

fun cleaning :: "phase \<Rightarrow> bool" where
  "cleaning (Cleaning p out skip) = True"
| "cleaning _ = False"

fun phase_live :: "phase \<Rightarrow> nat" where
  "phase_live (Cleaning p out skip) = live p"
| "phase_live _ = 0"

definition issued :: "nat \<Rightarrow> string \<Rightarrow> bool" where
  "issued n rid = (\<exists>k. 1 \<le> k \<and> k \<le> n \<and> rid = request_id k)"

text \<open>The deliveries of a request run one after the other: those shown, then at most one in the callback
  or failed there with others that took over its failure, then the queued ones.\<close>

definition failed :: "bevent \<times> delivery \<Rightarrow> bool" where
  "failed e = (case snd e of Broke _ \<Rightarrow> True | Stopped \<Rightarrow> True | _ \<Rightarrow> False)"

abbreviation all_shown :: "(bevent \<times> delivery) list \<Rightarrow> bool" where
  "all_shown es \<equiv> list_all (\<lambda>e. snd e = Shown) es"

abbreviation all_queued :: "(bevent \<times> delivery) list \<Rightarrow> bool" where
  "all_queued es \<equiv> list_all (\<lambda>e. snd e = Queued) es"

inductive in_order :: "bevent list \<Rightarrow> (bevent \<times> delivery) list \<Rightarrow> bool" where
  idle: "all_shown a \<Longrightarrow> all_queued c \<Longrightarrow> in_order (map fst a) (a @ c)"
| busy: "all_shown a \<Longrightarrow> all_queued c \<Longrightarrow> in_order (map fst a @ [ev]) (a @ (ev, Showing) # c)"
| failing: "all_shown a \<Longrightarrow> failed (ev, s) \<Longrightarrow> list_all failed b \<Longrightarrow> all_queued c \<Longrightarrow>
    in_order (map fst a @ [ev]) (a @ (ev, s) # b @ c)"

definition tomb :: "(string, unit) dict \<Rightarrow> string \<Rightarrow> bool" where
  "tomb d rid = (dict_get d rid \<noteq> None)"

text \<open>One request: its entry in the table, the state of its coroutine, whether it is remembered as
  cancelled, whether it has a scope in the artifact store, and what was shown of its progress.\<close>

record slot =
  sl_pending :: "pending option"
  sl_phase :: "phase option"
  sl_cancelled :: bool
  sl_scope :: bool
  sl_closed :: bool
  sl_shown :: "bevent list"

definition slot_of :: "transport \<Rightarrow> string \<Rightarrow> slot" where
  "slot_of t rid =
     \<lparr>sl_pending = dict_get (tr_pending t) rid, sl_phase = dict_get (tr_running t) rid,
      sl_cancelled = tomb (tr_cancelled t) rid, sl_scope = (rid \<in> scope_ids (tr_artifacts t)),
      sl_closed = tr_closed t, sl_shown = log_of t rid\<rparr>"

definition slot_ok :: "nat \<Rightarrow> string \<Rightarrow> slot \<Rightarrow> bool" where
  "slot_ok n rid s \<longleftrightarrow>
     (sl_pending s \<noteq> None \<longleftrightarrow> (\<exists>ph. sl_phase s = Some ph \<and> \<not> cleaning ph)) \<and>
     (\<forall>v p. sl_phase s = Some (Draining v) \<longrightarrow> sl_pending s = Some p \<longrightarrow> pn_future p = FutResult v) \<and>
     (\<forall>p out skip. sl_phase s = Some (Cleaning p out skip) \<longrightarrow> isl out) \<and>
     (sl_cancelled s \<longrightarrow> sl_phase s = None) \<and>
     (sl_phase s \<noteq> None \<longrightarrow> sl_scope s) \<and>
     (sl_phase s \<noteq> None \<or> sl_cancelled s \<or> sl_scope s \<or> sl_shown s \<noteq> [] \<longrightarrow> issued n rid) \<and>
     (\<forall>p. sl_closed s \<longrightarrow> sl_pending s = Some p \<longrightarrow> pn_future p \<noteq> FutPending) \<and>
     (\<forall>p. sl_pending s = Some p \<longrightarrow> in_order (sl_shown s) (pn_events p))"

definition glob_ok :: "transport \<Rightarrow> bool" where
  "glob_ok t \<longleftrightarrow>
     dict_ok (tr_pending t) \<and> dict_ok (tr_running t) \<and> dict_ok (tr_cancelled t) \<and> dict_ok (tr_host t) \<and>
     length (tr_pending t) \<le> MAX_PENDING \<and> length (tr_cancelled t) \<le> 2 * MAX_PENDING \<and>
     length (tr_host t) \<le> MAX_PENDING \<and>
     tr_event_count t = total_of live (tr_pending t) + total_of phase_live (tr_running t) \<and>
     tr_event_count t \<le> MAX_PENDING \<and> 16 \<le> tr_max_files t \<and> tr_max_files t \<le> 64"

text \<open>Identifiers stay within the protocol's 128 characters for the first \<open>10^100\<close> requests.\<close>

definition SERIAL_LIMIT :: nat where "SERIAL_LIMIT = 10 ^ 100"

definition transport_ok :: "transport \<Rightarrow> bool" where
  "transport_ok t \<longleftrightarrow>
     (tr_serial t < SERIAL_LIMIT \<longrightarrow> glob_ok t \<and> (\<forall>rid. slot_ok (tr_serial t) rid (slot_of t rid)))"

section \<open>Request identifiers\<close>

lemma request_id_inject: "request_id m = request_id n \<longleftrightarrow> m = n"
  by (metis append_same_eq dec_text_value request_id_def same_append_eq)

lemma dec_text_length: "n < 10 ^ k \<Longrightarrow> 0 < k \<Longrightarrow> length (dec_text n) \<le> k"
proof (induction n arbitrary: k rule: dec_text.induct)
  case (1 n)
  show ?case
  proof (cases "n < 10")
    case True
    then show ?thesis using 1 by (subst dec_text.simps) simp
  next
    case False
    obtain j where k: "k = Suc j" using 1 by (cases k) auto
    then have j: "k = Suc j" "0 < j" using 1 False by (cases j; simp)+
    then have "n div 10 < 10 ^ j" using 1 by (simp add: div_less_iff_less_mult mult.commute)
    then show ?thesis using 1 False j by (subst dec_text.simps) auto
  qed
qed

lemma dec_text_plain: "list_all (\<lambda>c. 33 \<le> char_code c \<and> char_code c \<le> 126) (dec_text n)"
  using dec_text_digits [of n] by (auto simp: list_all_iff is_digit_def Let_def)

lemma ident_request_id:
  assumes "n < SERIAL_LIMIT"
  shows "ident (PStr (request_id n)) = Inr (request_id n)"
proof -
  have "length (dec_text n) \<le> 100" using assms by (intro dec_text_length) (simp_all add: SERIAL_LIMIT_def)
  moreover have "\<not> list_ex (\<lambda>c. char_code c < 33 \<or> char_code c > 126) (dec_text n)"
    using dec_text_plain [of n] by (auto simp: list_ex_iff list_all_iff)
  moreover have "\<not> list_ex (\<lambda>c. char_code c < 33 \<or> char_code c > 126) ''child-''"
    by (simp add: char_code_def)
  ultimately show ?thesis by (simp add: ident_def request_id_def)
qed

lemma issued_mono: "issued m rid \<Longrightarrow> m \<le> n \<Longrightarrow> issued n rid"
  by (auto simp: issued_def)

lemma fresh_not_issued: "\<not> issued n (request_id (Suc n))"
  by (auto simp: issued_def request_id_inject)

section \<open>Scopes of the artifact store\<close>

lemma scope_ids_get: "rid \<in> scope_ids st \<longleftrightarrow> dict_get (st_scopes st) rid \<noteq> None"
  using dict_get_None_iff [of "st_scopes st" rid] by (auto simp: scope_ids_def)

lemma scope_ids_put [simp]: "scope_ids (put_record rid ref a st) = scope_ids st"
  by (auto simp: scope_ids_get put_record_def dict_get_set split: option.splits if_splits)

lemma scope_ids_fs [simp]: "scope_ids (st\<lparr>st_fs := fs\<rparr>) = scope_ids st"
  "scope_ids (st\<lparr>st_total := n\<rparr>) = scope_ids st" "scope_ids (st\<lparr>st_retained := r\<rparr>) = scope_ids st"
  by (simp_all add: scope_ids_def)

text \<open>No operation but beginning and ending a request changes which requests have a scope.\<close>

definition same_scopes :: "artifact_store \<Rightarrow> artifact_store \<Rightarrow> bool" where
  "same_scopes st st' = (scope_ids st' = scope_ids st)"

interpretation scopes: preorder_rel same_scopes
  by unfold_locales (simp_all add: same_scopes_def)

definition same_scopes_fst :: "artifact_store \<times> nat \<Rightarrow> artifact_store \<times> nat \<Rightarrow> bool" where
  "same_scopes_fst s s' = same_scopes (fst s) (fst s')"

interpretation wire_scopes: preorder_rel same_scopes_fst
  by unfold_locales (simp_all add: same_scopes_fst_def same_scopes_def)

lemma keeps_step: "keeps R m \<Longrightarrow> m s = (r, s') \<Longrightarrow> R s s'"
  unfolding keeps_def by (metis snd_conv)

lemma scope_ids_reclaim [simp]: "scope_ids (reclaim st) = scope_ids st"
  by (simp add: reclaim_def Let_def scope_ids_get)

lemma keeps_add: "keeps same_scopes (add_artifact ref rid r)"
  by (auto simp: keeps_def same_scopes_def add_artifact_def scope_ids_get Let_def dict_get_set reclaim_def
      split: option.splits if_splits)

lemma keeps_registering: "keeps same_scopes (register sha ref fs0 fs1 got fs2 rid a)"
proof -
  have "same_scopes st (snd (bind_s (add_artifact ref rid r) (\<lambda>x. ret_s (f x)) st))" for r st and f :: "string \<Rightarrow> 'a"
    using scopes.keeps_bind [OF keeps_add scopes.keeps_ret, of ref rid r f] by (simp add: keeps_def)
  then show ?thesis
    unfolding keeps_def register_def
    by (auto simp: Let_def scopes.R_refl split: option.splits if_splits)
qed

lemma keeps_read: "keeps same_scopes (read_artifact b64 rid v)"
  by (simp add: keeps_def read_artifact_def scopes.R_refl)

lemma keeps_upload_begin: "keeps same_scopes (upload_begin ref path node rid v)"
proof -
  have "scope_ids st2 = scope_ids st1" if "add_artifact ref rid r st1 = (res, st2)" for r st1 res st2
    using keeps_step [OF keeps_add that] by (simp add: same_scopes_def)
  then show ?thesis
    by (auto simp: keeps_def same_scopes_def upload_begin_def Let_def
        split: sum.splits prod.splits)
qed

lemma keeps_upload_chunk: "keeps same_scopes (upload_chunk unb64 ws rid v)"
  by (auto simp: keeps_def same_scopes_def upload_chunk_def Let_def split: sum.splits prod.splits option.splits)

lemma keeps_upload_finish: "keeps same_scopes (upload_finish sha rid v)"
  by (auto simp: keeps_def same_scopes_def upload_finish_def split: sum.splits prod.splits)

lemma keeps_resolve: "keeps same_scopes (resolve rid v)"
  by (auto simp: keeps_def same_scopes_def resolve_def split: sum.splits prod.splits)

lemma keeps_wire_file: "keeps same_scopes_fst (wire_file sha inputs rid a)"
  unfolding keeps_def wire_file_def same_scopes_fst_def
  using keeps_step [OF keeps_registering]
  by (auto simp: Let_def split: prod.splits sum.splits)

lemma keeps_wire_part: "keeps same_scopes_fst (wire_part sha inputs rid p)"
  by (cases p) (auto simp: wire_part_def intro!: wire_scopes.keeps_intros keeps_wire_file)

lemma keeps_wire_all: "(\<And>x. keeps same_scopes_fst (f x)) \<Longrightarrow> keeps same_scopes_fst (wire_all f xs)"
  by (induction xs) (auto intro!: wire_scopes.keeps_intros)

lemma keeps_wire_history: "keeps same_scopes_fst (wire_history sha inputs rid m)"
  unfolding wire_history_def by (intro wire_scopes.keeps_intros keeps_wire_all keeps_wire_part)

lemma keeps_to_wire: "keeps same_scopes_fst (to_wire sha inputs rid v)"
  by (cases v)
    (auto simp: to_wire_def intro!: wire_scopes.keeps_intros keeps_wire_all keeps_wire_part
      keeps_wire_history keeps_wire_file)

lemma keeps_read_part: "keeps same_scopes (read_part rid v)"
  unfolding read_part_def Let_def
  by (auto intro!: scopes.keeps_intros keeps_resolve)

lemma keeps_read_parts: "keeps same_scopes (read_parts rid vs)"
  by (induction vs) (auto intro!: scopes.keeps_intros keeps_read_part)

lemma keeps_parts_dto: "keeps same_scopes (parts_dto rid v)"
  by (auto simp: parts_dto_def intro!: scopes.keeps_intros keeps_read_parts split: pyval.splits)

lemma keeps_result_dto: "keeps same_scopes (result_dto all_scopes cmds method v rid)"
  unfolding result_dto_def
  by (auto intro!: scopes.keeps_intros keeps_parts_dto keeps_resolve split: pyval.splits)

lemma scope_ids_begin:
  assumes "begin_request v m b st = (r, st')"
  shows "(r = Inr () \<and> (\<exists>rid. ident v = Inr rid \<and> rid \<notin> scope_ids st \<and> scope_ids st' = insert rid (scope_ids st))) \<or>
    (isl r \<and> st' = st)"
  using assms
  by (auto simp: begin_request_def Let_def scope_ids_get dict_get_set
      split: sum.splits if_splits)

lemma begin_request_fresh:
  assumes "ident v = Inr rid" "rid \<notin> scope_ids st" "16 \<le> m" "m \<le> 64"
  shows "\<exists>st'. begin_request v m (if m > 16 then Some INPUT_BYTES else None) st = (Inr (), st') \<and>
    scope_ids st' = insert rid (scope_ids st)"
  using assms by (auto simp: begin_request_def Let_def MAX_FILES_def scope_ids_get dict_get_set split: if_splits)

lemma scope_ids_end_record: "scope_ids (snd (end_record a st)) = scope_ids st"
  by (simp add: end_record_def Let_def)

lemma scope_ids_end_records: "scope_ids (snd (end_records as st)) = scope_ids st"
proof (induction as arbitrary: st)
  case (Cons a as)
  then show ?case using scope_ids_end_record [of a st]
    by (auto simp: bind_s_def split: prod.splits sum.splits)
qed simp

lemma scope_ids_end: "end_request rid st = (r, st') \<Longrightarrow> scope_ids st' = scope_ids st - {rid}"
proof -
  assume e: "end_request rid st = (r, st')"
  let ?st0 = "st\<lparr>st_limits := dict_pop rid (st_limits st), st_scopes := dict_pop rid (st_scopes st)\<rparr>"
  have "scope_ids st' = scope_ids ?st0"
    using e scope_ids_end_records [of _ ?st0] unfolding end_request_def by (metis snd_conv)
  also have "\<dots> = scope_ids st - {rid}" by (auto simp: scope_ids_get dict_get_pop split: if_splits)
  finally show ?thesis .
qed


section \<open>Deliveries\<close>

lemma over_simps [simp]:
  "over Shown" "over (Broke e)" "over Stopped" "\<not> over Queued" "\<not> over Showing"
  by (simp_all add: over_def)

lemma failed_over: "failed e \<Longrightarrow> over (snd e)"
  by (cases "snd e") (auto simp: failed_def)

lemma takeWhile_queued: "all_queued c \<Longrightarrow> takeWhile (\<lambda>e. over (snd e)) c = []"
  "all_queued c \<Longrightarrow> dropWhile (\<lambda>e. over (snd e)) c = c"
  by (cases c; simp)+

lemma takeWhile_over: "list_all (\<lambda>e. over (snd e)) a \<Longrightarrow> takeWhile (\<lambda>e. over (snd e)) (a @ r) = a @ takeWhile (\<lambda>e. over (snd e)) r"
  "list_all (\<lambda>e. over (snd e)) a \<Longrightarrow> dropWhile (\<lambda>e. over (snd e)) (a @ r) = dropWhile (\<lambda>e. over (snd e)) r"
  by (induction a) auto

lemma shown_over: "all_shown a \<Longrightarrow> list_all (\<lambda>e. over (snd e)) a"
  by (simp add: list_all_iff)

lemma failed_all_over: "list_all failed b \<Longrightarrow> list_all (\<lambda>e. over (snd e)) b"
  using failed_over by (auto simp: list_all_iff)

lemma split_idle: "all_shown a \<Longrightarrow> all_queued c \<Longrightarrow> pn_events p = a @ c \<Longrightarrow> split_events p = (a, c)"
  by (simp add: split_events_def takeWhile_over shown_over takeWhile_queued)

lemma split_busy: "all_shown a \<Longrightarrow> pn_events p = a @ (ev, Showing) # c \<Longrightarrow> split_events p = (a, (ev, Showing) # c)"
  by (simp add: split_events_def takeWhile_over shown_over)

lemma split_failing:
  "all_shown a \<Longrightarrow> failed (ev, s) \<Longrightarrow> list_all failed b \<Longrightarrow> all_queued c \<Longrightarrow> pn_events p = a @ (ev, s) # b @ c \<Longrightarrow>
     split_events p = (a @ (ev, s) # b, c)"
  using failed_over [of "(ev, s)"]
  by (simp add: split_events_def takeWhile_over shown_over failed_all_over takeWhile_queued)

lemma split_append: "split_events p = (before, rest) \<Longrightarrow> pn_events p = before @ rest"
  by (auto simp: split_events_def)

lemma in_order_queue: "in_order sh es \<Longrightarrow> in_order sh (es @ [(ev, Queued)])"
proof (induction rule: in_order.induct)
  case (idle a c)
  then show ?case using in_order.idle [of a "c @ [(ev, Queued)]"] by simp
next
  case (busy a c e)
  then show ?case using in_order.busy [of a "c @ [(ev, Queued)]" e] by simp
next
  case (failing a e s b c)
  then show ?case using in_order.failing [of a e s b "c @ [(ev, Queued)]"] by simp
qed

lemma start_failed:
  "before \<noteq> [] \<Longrightarrow> failed (last before) \<Longrightarrow> start_status before = snd (last before) \<and> failed (ev, start_status before)"
  by (cases "snd (last before)") (auto simp: start_status_def failed_def)

lemma in_order_start:
  assumes "in_order sh (pn_events p)" "split_events p = (before, (ev, Queued) # rest)"
  shows "(start_status before = Showing \<and> in_order (sh @ [ev]) (before @ (ev, Showing) # rest)) \<or>
    (start_status before \<noteq> Showing \<and> over (start_status before) \<and> start_status before \<noteq> Shown \<and>
     in_order sh (before @ (ev, start_status before) # rest))"
  using assms(1)
proof (cases rule: in_order.cases)
  case (idle a c)
  then have "before = a" "c = (ev, Queued) # rest" using assms(2) split_idle [of a c p] by auto
  moreover have "start_status a = Showing"
    using idle by (cases a rule: rev_cases) (auto simp: start_status_def)
  ultimately show ?thesis using idle in_order.busy [of a rest ev] by auto
next
  case (busy a c e)
  then show ?thesis using assms(2) split_busy [of a p e c] by auto
next
  case (failing a e s b c)
  then have b: "before = a @ (e, s) # b" "c = (ev, Queued) # rest"
    using assms(2) split_failing [of a e s b c p] by auto
  have "failed (last before)" using b failing by (cases b rule: rev_cases) (auto simp: list_all_iff)
  then have f: "failed (ev, start_status before)" using start_failed [of before ev] b by (metis append_is_Nil_conv list.distinct(1))
  then have "in_order sh (a @ (e, s) # (b @ [(ev, start_status before)]) @ rest)"
    using failing b in_order.failing [of a e s "b @ [(ev, start_status before)]" rest] by simp
  moreover have "start_status before \<noteq> Showing \<and> over (start_status before) \<and> start_status before \<noteq> Shown"
    using f failed_over [OF f] by (auto simp: failed_def)
  ultimately show ?thesis using b by simp
qed

lemma in_order_finish:
  assumes "in_order sh (pn_events p)" "split_events p = (before, (ev, Showing) # rest)" "over how"
  shows "in_order sh (before @ (ev, how) # rest)"
  using assms(1)
proof (cases rule: in_order.cases)
  case (idle a c)
  then show ?thesis using assms(2) split_idle [of a c p] by auto
next
  case (busy a c e)
  then have b: "before = a" "e = ev" "c = rest" using assms(2) split_busy [of a p e c] by auto
  show ?thesis
  proof (cases "how = Shown")
    case True
    then show ?thesis using busy b in_order.idle [of "a @ [(ev, Shown)]" rest] by simp
  next
    case False
    then have "failed (ev, how)" using assms(3) by (cases how) (auto simp: failed_def)
    then show ?thesis using busy b in_order.failing [of a ev how "[]" rest] by simp
  qed
next
  case (failing a e s b c)
  then show ?thesis using assms(2) split_failing [of a e s b c p] by auto
qed

text \<open>When the last delivery was shown, all were, in their order.\<close>

lemma in_order_complete:
  assumes "in_order sh es" "es = [] \<or> snd (last es) = Shown"
  shows "sh = map fst es \<and> all_shown es"
  using assms(1)
proof (cases rule: in_order.cases)
  case (idle a c)
  then have "c = []" using assms(2) by (cases c rule: rev_cases) auto
  then show ?thesis using idle by simp
next
  case (busy a c e)
  then show ?thesis using assms(2) by (cases c rule: rev_cases) auto
next
  case (failing a e s b c)
  then show ?thesis using assms(2)
    by (cases c rule: rev_cases; cases b rule: rev_cases) (auto simp: failed_def)
qed

lemma live_shown: "all_shown (pn_events p) \<Longrightarrow> live p = 0"
  by (auto simp: live_def filter_empty_conv list_all_iff)

lemma live_close:
  assumes "split_events p = (before, (ev, s) # rest)" "\<not> over s" "over s'"
  shows "Suc (live (close_delivery s' p)) = live p"
proof -
  have "pn_events (close_delivery s' p) = before @ (ev, s') # rest"
    using assms(1) by (auto simp: close_delivery_def note_end_def split: delivery.splits)
  then show ?thesis using split_append [OF assms(1)] assms(2,3) by (simp add: live_def)
qed

lemma close_delivery_simps [simp]:
  "pn_future (close_delivery s p) = pn_future p" "pn_method (close_delivery s p) = pn_method p"
  by (auto simp: close_delivery_def note_end_def split: delivery.splits prod.splits list.splits)

lemma close_delivery_events:
  "split_events p = (before, (ev, s) # rest) \<Longrightarrow> pn_events (close_delivery s' p) = before @ (ev, s') # rest"
  by (auto simp: close_delivery_def note_end_def split: delivery.splits)


section \<open>The invariant\<close>

lemma slot_ok_frame:
  assumes "slot_ok n rid s" "n \<le> m"
    and "sl_pending s' = sl_pending s" "sl_phase s' = sl_phase s" "sl_cancelled s' \<longrightarrow> sl_cancelled s"
    and "sl_scope s' = sl_scope s" "sl_closed s' \<longrightarrow> sl_closed s" "sl_shown s' = sl_shown s"
  shows "slot_ok m rid s'"
proof -
  have "issued n rid \<Longrightarrow> issued m rid" using issued_mono [OF _ assms(2)] by blast
  with assms show ?thesis unfolding slot_ok_def by auto
qed

lemma slot_of_simps [simp]:
  "sl_pending (slot_of t rid) = dict_get (tr_pending t) rid"
  "sl_phase (slot_of t rid) = dict_get (tr_running t) rid"
  "sl_cancelled (slot_of t rid) = tomb (tr_cancelled t) rid"
  "sl_scope (slot_of t rid) = (rid \<in> scope_ids (tr_artifacts t))"
  "sl_closed (slot_of t rid) = tr_closed t" "sl_shown (slot_of t rid) = log_of t rid"
  by (simp_all add: slot_of_def)

lemma log_of_simps [simp]:
  "log_of (t\<lparr>tr_pending := a\<rparr>) = log_of t" "log_of (t\<lparr>tr_running := b\<rparr>) = log_of t"
  "log_of (t\<lparr>tr_cancelled := c\<rparr>) = log_of t" "log_of (t\<lparr>tr_artifacts := f\<rparr>) = log_of t"
  "log_of (t\<lparr>tr_results := g\<rparr>) = log_of t" "log_of (t\<lparr>tr_out := h\<rparr>) = log_of t"
  "log_of (t\<lparr>tr_event_count := i\<rparr>) = log_of t" "log_of (t\<lparr>tr_serial := j\<rparr>) = log_of t"
  "log_of (t\<lparr>tr_max_files := k\<rparr>) = log_of t" "log_of (t\<lparr>tr_max_bytes := l\<rparr>) = log_of t"
  "log_of (t\<lparr>tr_host := m\<rparr>) = log_of t" "log_of (t\<lparr>tr_closed := n\<rparr>) = log_of t"
  "log_of (t\<lparr>tr_reading := q\<rparr>) = log_of t"
  by (simp_all add: log_of_def fun_eq_iff)

text \<open>The requests other than \<open>rid\<close> are as they were (a tombstone may be gone).\<close>

definition others :: "string \<Rightarrow> transport \<Rightarrow> transport \<Rightarrow> bool" where
  "others rid t t' \<longleftrightarrow>
     tr_serial t \<le> tr_serial t' \<and> (tr_closed t' \<longrightarrow> tr_closed t) \<and>
     (\<forall>r. r \<noteq> rid \<longrightarrow>
        dict_get (tr_pending t') r = dict_get (tr_pending t) r \<and>
        dict_get (tr_running t') r = dict_get (tr_running t) r \<and>
        (tomb (tr_cancelled t') r \<longrightarrow> tomb (tr_cancelled t) r) \<and>
        (r \<in> scope_ids (tr_artifacts t') \<longleftrightarrow> r \<in> scope_ids (tr_artifacts t)) \<and>
        log_of t' r = log_of t r)"

lemma others_slots:
  assumes "others rid t t'" "\<forall>r. r \<noteq> rid \<longrightarrow> slot_ok (tr_serial t) r (slot_of t r)"
    and "slot_ok (tr_serial t') rid (slot_of t' rid)"
  shows "\<forall>r. slot_ok (tr_serial t') r (slot_of t' r)"
proof
  fix r
  show "slot_ok (tr_serial t') r (slot_of t' r)"
  proof (cases "r = rid")
    case False
    then have "slot_ok (tr_serial t) r (slot_of t r)" using assms(2) by blast
    then show ?thesis by (rule slot_ok_frame) (use False assms(1) in \<open>auto simp: others_def\<close>)
  qed (use assms(3) in simp)
qed

lemma tombstone_ok:
  assumes "dict_ok d" "length d \<le> 2 * MAX_PENDING"
  shows "dict_ok (tombstone rid d)" "length (tombstone rid d) \<le> 2 * MAX_PENDING"
    "r \<noteq> rid \<Longrightarrow> tomb (tombstone rid d) r \<Longrightarrow> tomb d r"
proof -
  let ?d = "dict_set rid () d"
  have ok: "dict_ok ?d" and len: "length ?d \<le> Suc (2 * MAX_PENDING)"
    using assms length_dict_set [of rid "()" d] by (auto intro: dict_ok_set)
  have sub: "set (tl xs) \<subseteq> set xs" for xs :: "(string \<times> unit) list" by (cases xs) auto
  show "dict_ok (tombstone rid d)" using ok by (auto simp: tombstone_def Let_def dict_ok_def map_tl distinct_tl)
  show "length (tombstone rid d) \<le> 2 * MAX_PENDING"
    using len unfolding tombstone_def Let_def by (auto simp del: length_tl) (simp add: length_tl)
  assume "r \<noteq> rid" "tomb (tombstone rid d) r"
  then have "r \<in> fst ` set ?d"
    using sub [of ?d] by (auto simp: tomb_def tombstone_def Let_def dict_get_None_iff dict_keys_def split: if_splits)
  then show "tomb d r"
    using \<open>r \<noteq> rid\<close> by (auto simp: tomb_def set_keys_dict_set dict_get_None_iff dict_keys_def)
qed

text \<open>An outcome that may become the limits of the transport.\<close>

definition limits_ok :: "outcome \<Rightarrow> bool" where
  "limits_ok out = (\<forall>c. out = Inr (DCapabilities c) \<longrightarrow> 16 \<le> cp_history_max_files c \<and> cp_history_max_files c \<le> 64)"

lemma limits_Inl [simp]: "limits_ok (Inl e)"
  by (simp add: limits_ok_def)

lemma learn_frame [simp]:
  "tr_pending (learn out t) = tr_pending t" "tr_running (learn out t) = tr_running t"
  "tr_cancelled (learn out t) = tr_cancelled t" "tr_artifacts (learn out t) = tr_artifacts t"
  "tr_host (learn out t) = tr_host t" "tr_event_count (learn out t) = tr_event_count t"
  "tr_serial (learn out t) = tr_serial t" "tr_closed (learn out t) = tr_closed t"
  "tr_reading (learn out t) = tr_reading t" "tr_results (learn out t) = tr_results t"
  "tr_out (learn out t) = tr_out t" "tr_shown (learn out t) = tr_shown t" "log_of (learn out t) = log_of t"
  by (simp_all add: learn_def log_of_def fun_eq_iff split: sum.splits dto.splits)

lemma learn_limits:
  "limits_ok out \<Longrightarrow> 16 \<le> tr_max_files t \<and> tr_max_files t \<le> 64 \<Longrightarrow>
     16 \<le> tr_max_files (learn out t) \<and> tr_max_files (learn out t) \<le> 64"
  by (auto simp: learn_def limits_ok_def split: sum.splits dto.splits)

lemma cleanup_end_ok:
  assumes g: "glob_ok t" and lv: "\<forall>ph. dict_get (tr_running t) rid = Some ph \<longrightarrow> phase_live ph = 0"
    and p: "dict_get (tr_pending t) rid = None" and iss: "issued (tr_serial t) rid" and out: "limits_ok out"
  shows "glob_ok (cleanup_end rid p out t) \<and> others rid t (cleanup_end rid p out t) \<and>
    slot_ok (tr_serial t) rid (slot_of (cleanup_end rid p out t) rid) \<and>
    tr_serial (cleanup_end rid p out t) = tr_serial t"
proof -
  obtain r st where e: "end_request rid (tr_artifacts t) = (r, st)" by (metis surj_pair)
  define out' where "out' = (case r of Inl e \<Rightarrow> Inl e | Inr _ \<Rightarrow> out)"
  define c where "c = (if pn_future p \<in> {FutPending, FutCancelled} then tombstone rid (tr_cancelled t) else tr_cancelled t)"
  define t' where "t' = t\<lparr>tr_cancelled := c, tr_artifacts := st, tr_running := dict_pop rid (tr_running t),
    tr_results := tr_results t @ [(rid, out')]\<rparr>"
  have t: "cleanup_end rid p out t = learn out' t'"
    by (simp add: cleanup_end_def Let_def e out'_def c_def t'_def)
  have out': "limits_ok out'" using out by (simp add: out'_def split: sum.splits)
  have "total_of phase_live (dict_pop rid (tr_running t)) = total_of phase_live (tr_running t)"
    using g lv total_of_pop [where f = phase_live and d = "tr_running t" and k = rid] total_of_absent [of "tr_running t" rid]
    by (cases "dict_get (tr_running t) rid") (auto simp: glob_ok_def)
  moreover have "dict_ok c" "length c \<le> 2 * MAX_PENDING"
    "\<And>r. r \<noteq> rid \<Longrightarrow> tomb c r \<Longrightarrow> tomb (tr_cancelled t) r"
    using g tombstone_ok [where d = "tr_cancelled t" and rid = rid] by (auto simp: c_def glob_ok_def split: if_splits)
  moreover have "16 \<le> tr_max_files (learn out' t') \<and> tr_max_files (learn out' t') \<le> 64"
    using g by (intro learn_limits out') (simp add: glob_ok_def t'_def)
  ultimately have "glob_ok (learn out' t')"
    using g by (simp add: glob_ok_def t'_def dict_ok_pop)
  moreover have "others rid t (learn out' t')"
    using scope_ids_end [OF e] \<open>\<And>r. r \<noteq> rid \<Longrightarrow> tomb c r \<Longrightarrow> tomb (tr_cancelled t) r\<close>
    by (auto simp: others_def t'_def)
  moreover have "slot_ok (tr_serial t) rid (slot_of (learn out' t') rid)"
    using p iss by (auto simp: slot_ok_def t'_def)
  ultimately show ?thesis by (simp add: t t'_def)
qed


text \<open>The hypotheses under which \<open>_request\<close> leaves through its \<open>finally\<close> block.\<close>

definition leaving :: "transport \<Rightarrow> string \<Rightarrow> pending \<Rightarrow> outcome \<Rightarrow> bool" where
  "leaving t rid p out \<longleftrightarrow>
     glob_ok t \<and> dict_get (tr_pending t) rid = Some p \<and>
     (\<forall>ph. dict_get (tr_running t) rid = Some ph \<longrightarrow> phase_live ph = 0) \<and>
     \<not> tomb (tr_cancelled t) rid \<and> rid \<in> scope_ids (tr_artifacts t) \<and>
     issued (tr_serial t) rid \<and> limits_ok out \<and> (live p \<noteq> 0 \<longrightarrow> isl out)"

lemma others_trans: "others rid t u \<Longrightarrow> others rid u w \<Longrightarrow> others rid t w"
  by (auto simp: others_def)

lemma cleanup_begin_ok:
  assumes l: "leaving t rid p out"
  shows "glob_ok (cleanup_begin rid p out t) \<and> others rid t (cleanup_begin rid p out t) \<and>
    slot_ok (tr_serial t) rid (slot_of (cleanup_begin rid p out t) rid) \<and>
    tr_serial (cleanup_begin rid p out t) = tr_serial t"
proof -
  let ?t1 = "t\<lparr>tr_pending := dict_pop rid (tr_pending t)\<rparr>"
  have g: "glob_ok t" and p: "dict_get (tr_pending t) rid = Some p"
    and ph: "\<forall>ph. dict_get (tr_running t) rid = Some ph \<longrightarrow> phase_live ph = 0"
    using l by (auto simp: leaving_def)
  have pop: "total_of live (dict_pop rid (tr_pending t)) + live p = total_of live (tr_pending t)"
    using g p by (intro total_of_pop) (simp add: glob_ok_def)
  have len: "length (dict_pop rid (tr_pending t)) \<le> length (tr_pending t)" by (simp add: dict_pop_def)
  have oth: "others rid t ?t1" by (simp add: others_def)
  show ?thesis
  proof (cases "live p = 0")
    case True
    then have "glob_ok ?t1" using g pop len by (simp add: glob_ok_def dict_ok_pop)
    from cleanup_end_ok [of ?t1 rid out p, OF this] ph l oth others_trans [OF oth]
    show ?thesis by (simp add: cleanup_begin_def Let_def True leaving_def)
  next
    case False
    let ?r = "dict_set rid (Cleaning p out False) (tr_running t)"
    have tot: "total_of phase_live ?r = total_of phase_live (tr_running t) + live p"
    proof (cases "dict_get (tr_running t) rid")
      case None
      then show ?thesis by (simp add: total_of_fresh)
    next
      case (Some ph')
      then show ?thesis
        using g ph total_of_set [where d = "tr_running t" and k = rid and f = phase_live and v' = "Cleaning p out False"]
        by (simp add: glob_ok_def)
    qed
    have "glob_ok (?t1\<lparr>tr_running := ?r\<rparr>)"
      using g pop tot len by (simp add: glob_ok_def dict_ok_pop dict_ok_set)
    moreover have "slot_ok (tr_serial t) rid (slot_of (?t1\<lparr>tr_running := ?r\<rparr>) rid)"
      using l False by (auto simp: slot_ok_def leaving_def)
    ultimately show ?thesis by (simp add: cleanup_begin_def Let_def False others_def)
  qed
qed

lemma cleanup_begin_transport:
  assumes l: "leaving t rid p out" and slots: "\<forall>r. r \<noteq> rid \<longrightarrow> slot_ok (tr_serial t) r (slot_of t r)"
  shows "transport_ok (cleanup_begin rid p out t)"
proof -
  note c = cleanup_begin_ok [OF l]
  have "\<forall>r. slot_ok (tr_serial (cleanup_begin rid p out t)) r (slot_of (cleanup_begin rid p out t) r)"
    by (rule others_slots [of rid t]) (use c slots in auto)
  then show ?thesis using c by (simp add: transport_ok_def)
qed

text \<open>An active request satisfies most of these hypotheses.\<close>

lemma active_leaving:
  assumes "glob_ok t" "slot_ok (tr_serial t) rid (slot_of t rid)" "dict_get (tr_pending t) rid = Some p"
    and "limits_ok out" "live p \<noteq> 0 \<longrightarrow> isl out"
  shows "leaving t rid p out"
proof -
  obtain ph where "dict_get (tr_running t) rid = Some ph" "\<not> cleaning ph"
    using assms(2,3) by (auto simp: slot_ok_def)
  then show ?thesis using assms by (cases ph) (auto simp: leaving_def slot_ok_def)
qed

lemma limits_new_capabilities:
  "new_capabilities cmds d a b c e f = Inr cap \<Longrightarrow> 16 \<le> cp_history_max_files cap \<and> cp_history_max_files cap \<le> 64"
  by (auto simp: new_capabilities_def result_simps split: pyval.splits if_splits)

lemma result_dto_limits: "result_dto all_scopes cmds m v rid st = (r, st') \<Longrightarrow> limits_ok r"
proof -
  assume e: "result_dto all_scopes cmds m v rid st = (r, st')"
  have "16 \<le> cp_history_max_files c \<and> cp_history_max_files c \<le> 64" if "r = Inr (DCapabilities c)" for c
  proof -
    have "m = ''start''" and cap: "capabilities_dto all_scopes cmds v = Inr c"
      using e that
      by (auto simp: result_dto_def result_simps split: if_splits pyval.splits)
    then show ?thesis
      using limits_new_capabilities by (auto simp: capabilities_dto_def bind_r_Inr_iff split: if_splits)
  qed
  then show ?thesis by (simp add: limits_ok_def)
qed


lemma transport_step:
  assumes "transport_ok t" "tr_serial t \<le> tr_serial t'"
    and "glob_ok t \<Longrightarrow> \<forall>r. slot_ok (tr_serial t) r (slot_of t r) \<Longrightarrow> tr_serial t' < SERIAL_LIMIT \<Longrightarrow> transport_ok t'"
  shows "transport_ok t'"
  using assms by (cases "tr_serial t' < SERIAL_LIMIT") (auto simp: transport_ok_def)

lemma transport_okI:
  assumes "glob_ok t'" "others rid t t'" "\<forall>r. slot_ok (tr_serial t) r (slot_of t r)"
    and "slot_ok (tr_serial t') rid (slot_of t' rid)"
  shows "transport_ok t'"
  using assms others_slots [of rid t t'] by (simp add: transport_ok_def)

text \<open>Parts of the state that the invariant does not read.\<close>

lemma transport_ok_out [simp]: "transport_ok (t\<lparr>tr_out := out\<rparr>) = transport_ok t"
  by (simp add: transport_ok_def glob_ok_def slot_of_def)

lemma transport_ok_reading [simp]: "transport_ok (t\<lparr>tr_reading := b\<rparr>) = transport_ok t"
  by (simp add: transport_ok_def glob_ok_def slot_of_def)

lemma transport_ok_artifacts:
  "same_scopes (tr_artifacts t) st \<Longrightarrow> transport_ok (t\<lparr>tr_artifacts := st\<rparr>) = transport_ok t"
  by (simp add: transport_ok_def glob_ok_def slot_of_def same_scopes_def)

lemma write_frame_frame [simp]:
  "tr_pending (write_frame E f t) = tr_pending t" "tr_running (write_frame E f t) = tr_running t"
  "tr_serial (write_frame E f t) = tr_serial t" "glob_ok (write_frame E f t) = glob_ok t"
  "slot_of (write_frame E f t) = slot_of t" "transport_ok (write_frame E f t) = transport_ok t"
  "tr_artifacts (write_frame E f t) = tr_artifacts t" "tr_closed (write_frame E f t) = tr_closed t"
  by (simp_all add: write_frame_def glob_ok_def slot_of_def log_of_def fun_eq_iff split: sum.splits)

text \<open>A request moves to another phase outside its \<open>finally\<close> block.\<close>

lemma set_running_ok:
  assumes t: "glob_ok t" "\<forall>r. slot_ok (tr_serial t) r (slot_of t r)"
    and p: "dict_get (tr_pending t) rid = Some p"
    and ph: "\<not> cleaning ph" "\<And>v. ph = Draining v \<Longrightarrow> pn_future p = FutResult v"
  shows "transport_ok (t\<lparr>tr_running := dict_set rid ph (tr_running t)\<rparr>)"
proof (rule transport_okI [where rid = rid and t = t])
  obtain ph0 where ph0: "dict_get (tr_running t) rid = Some ph0" "\<not> cleaning ph0"
    using t(2) p by (auto simp: slot_ok_def)
  have z: "phase_live ph0 = 0" "phase_live ph = 0" using ph0(2) ph(1) by (cases ph0; simp; cases ph; simp)+
  have "total_of phase_live (dict_set rid ph (tr_running t)) = total_of phase_live (tr_running t)"
    using total_of_set [where d = "tr_running t" and k = rid and f = phase_live and v' = ph] ph0(1) t(1) z
    by (simp add: glob_ok_def)
  then show "glob_ok (t\<lparr>tr_running := dict_set rid ph (tr_running t)\<rparr>)"
    using t(1) by (simp add: glob_ok_def dict_ok_set)
  show "others rid t (t\<lparr>tr_running := dict_set rid ph (tr_running t)\<rparr>)" by (simp add: others_def)
  have "slot_ok (tr_serial t) rid (slot_of t rid)" using t(2) by blast
  then show "slot_ok (tr_serial (t\<lparr>tr_running := dict_set rid ph (tr_running t)\<rparr>)) rid
      (slot_of (t\<lparr>tr_running := dict_set rid ph (tr_running t)\<rparr>) rid)"
    using ph p ph0 by (auto simp: slot_ok_def)
qed (use t in auto)

text \<open>The table entry of a request changes, with the count of deliveries and what was shown.\<close>

lemma set_pending_ok:
  assumes t: "glob_ok t" "\<forall>r. slot_ok (tr_serial t) r (slot_of t r)"
    and p: "dict_get (tr_pending t) rid = Some p"
    and n: "n + live p = tr_event_count t + live p'" "n \<le> MAX_PENDING"
    and sh: "\<And>r. r \<noteq> rid \<Longrightarrow> filter (\<lambda>e. fst e = r) sh = filter (\<lambda>e. fst e = r) (tr_shown t)"
    and ord: "in_order (map snd (filter (\<lambda>e. fst e = rid) sh)) (pn_events p')"
    and fut: "pn_future p' = pn_future p \<or> pn_future p = FutPending \<and> pn_future p' \<noteq> FutPending"
  shows "transport_ok (t\<lparr>tr_pending := dict_set rid p' (tr_pending t), tr_event_count := n, tr_shown := sh\<rparr>)"
    (is "transport_ok ?t'")
proof (rule transport_okI [where rid = rid and t = t])
  have tot: "total_of live (dict_set rid p' (tr_pending t)) + live p = total_of live (tr_pending t) + live p'"
    using t(1) p by (intro total_of_set) (simp_all add: glob_ok_def)
  have len: "length (dict_set rid p' (tr_pending t)) = length (tr_pending t)"
    using p by (rule length_dict_set_same)
  show "glob_ok ?t'" using t(1) n tot len by (simp add: glob_ok_def dict_ok_set)
  show "others rid t ?t'" using sh by (simp add: others_def log_of_def)
  have s: "slot_ok (tr_serial t) rid (slot_of t rid)" using t(2) by blast
  then obtain ph where ph: "dict_get (tr_running t) rid = Some ph" "\<not> cleaning ph" using p by (auto simp: slot_ok_def)
  then show "slot_ok (tr_serial ?t') rid (slot_of ?t' rid)"
    using s p ord fut by (cases ph) (auto simp: slot_ok_def log_of_def)
qed (use t in auto)

lemma set_future_ok:
  assumes "glob_ok t" "\<forall>r. slot_ok (tr_serial t) r (slot_of t r)" "dict_get (tr_pending t) rid = Some p"
    and "pn_future p = FutPending" "f \<noteq> FutPending"
  shows "transport_ok (set_pending rid (p\<lparr>pn_future := f\<rparr>) t)"
proof -
  have "in_order (log_of t rid) (pn_events p)" using assms(2,3) by (auto simp: slot_ok_def)
  moreover have "tr_event_count t \<le> MAX_PENDING" using assms(1) by (simp add: glob_ok_def)
  ultimately have "transport_ok (t\<lparr>tr_pending := dict_set rid (p\<lparr>pn_future := f\<rparr>) (tr_pending t),
      tr_event_count := tr_event_count t, tr_shown := tr_shown t\<rparr>)"
    using assms by (intro set_pending_ok [where p = p]) (auto simp: live_def log_of_def)
  then show ?thesis by (simp add: set_pending_def)
qed


subsection \<open>Requests\<close>

lemma cleanup_leave_ok:
  assumes "glob_ok t" "\<forall>r. slot_ok (tr_serial t) r (slot_of t r)" "dict_get (tr_pending t) rid = Some p"
    and "limits_ok out" "live p \<noteq> 0 \<longrightarrow> isl out"
  shows "transport_ok (cleanup_begin rid p out t)"
  using assms by (intro cleanup_begin_transport active_leaving) auto

lemma cleanup_serial [simp]:
  "tr_serial (cleanup_begin rid p out t) = tr_serial t" "tr_serial (cleanup_end rid p out t) = tr_serial t"
  by (simp_all add: cleanup_begin_def cleanup_end_def Let_def split: prod.splits)

lemma open_request_ok:
  assumes ok: "transport_ok t"
  shows "transport_ok (snd (open_request E inputs method v cb t))"
proof (cases "tr_closed t \<or> length (tr_pending t) \<ge> MAX_PENDING \<or> history_error E method v t \<noteq> None \<or>
    request_limit method v t > 16 \<and> input_count v > 16")
  case True
  then have "snd (open_request E inputs method v cb t) = t"
    by (auto simp: open_request_def Let_def split: option.splits)
  then show ?thesis using ok by simp
next
  case go: False
  define limit where "limit = request_limit method v t"
  define rid where "rid = request_id (Suc (tr_serial t))"
  define p where "p = \<lparr>pn_method = method, pn_future = FutPending, pn_callback = cb, pn_events = [], pn_failure = None\<rparr>"
  define t1 where "t1 = t\<lparr>tr_serial := Suc (tr_serial t), tr_pending := dict_set rid p (tr_pending t)\<rparr>"
  have op: "open_request E inputs method v cb t =
     (case begin_request (PStr rid) limit (if limit > 16 then Some INPUT_BYTES else None) (tr_artifacts t1) of
        (Inl e, st) \<Rightarrow> (Inl e, t1\<lparr>tr_artifacts := st\<rparr>)
      | (Inr _, st) \<Rightarrow> emit_request E inputs rid p v (t1\<lparr>tr_artifacts := st\<rparr>))"
    using go unfolding open_request_def limit_def rid_def p_def t1_def by (auto simp: Let_def)
  have ser: "tr_serial t1 = Suc (tr_serial t)" by (simp add: t1_def)
  show ?thesis
  proof (cases "Suc (tr_serial t) < SERIAL_LIMIT")
    case False
    have "tr_serial (snd (open_request E inputs method v cb t)) = Suc (tr_serial t)"
      unfolding op by (simp add: ser emit_request_def Let_def split: prod.splits sum.splits)
    then show ?thesis using False by (simp add: transport_ok_def)
  next
    case True
    then have g: "glob_ok t" and slots: "\<forall>r. slot_ok (tr_serial t) r (slot_of t r)"
      using ok by (auto simp: transport_ok_def)
    have "\<not> issued (tr_serial t) rid" unfolding rid_def by (rule fresh_not_issued)
    then have fresh: "dict_get (tr_running t) rid = None" "\<not> tomb (tr_cancelled t) rid"
      "rid \<notin> scope_ids (tr_artifacts t)" "log_of t rid = []" "dict_get (tr_pending t) rid = None"
      using slots [rule_format, of rid] by (auto simp: slot_ok_def)
    have lim: "16 \<le> limit" "limit \<le> 64"
      using g by (auto simp: limit_def request_limit_def glob_ok_def split: params.splits)
    obtain st where st: "begin_request (PStr rid) limit (if limit > 16 then Some INPUT_BYTES else None)
        (tr_artifacts t1) = (Inr (), st)" "scope_ids st = insert rid (scope_ids (tr_artifacts t))"
      using begin_request_fresh [OF ident_request_id [OF True] _ lim, of "tr_artifacts t1"] fresh(3)
      by (auto simp: rid_def t1_def)
    obtain r st' n where w: "to_wire (te_sha E) inputs rid v (st, 0) = (r, (st', n))" by (metis prod.exhaust)
    have sc: "scope_ids st' = insert rid (scope_ids (tr_artifacts t))"
      using keeps_step [OF keeps_to_wire w] st(2) by (simp add: same_scopes_fst_def same_scopes_def)
    define t2 where "t2 = t1\<lparr>tr_artifacts := st'\<rparr>"
    have live0: "live p = 0" by (simp add: p_def live_def)
    have "glob_ok t2"
      using g go fresh(5) live0
      by (simp add: glob_ok_def t2_def t1_def dict_ok_set total_of_fresh length_dict_set_fresh Suc_le_eq)
    moreover have slots2: "\<forall>r. r \<noteq> rid \<longrightarrow> slot_ok (tr_serial t2) r (slot_of t2 r)"
    proof (intro allI impI)
      fix r assume r: "r \<noteq> rid"
      have "slot_ok (tr_serial t) r (slot_of t r)" using slots by blast
      then show "slot_ok (tr_serial t2) r (slot_of t2 r)"
        by (rule slot_ok_frame) (use r sc in \<open>auto simp: t2_def t1_def\<close>)
    qed
    moreover have iss: "issued (tr_serial t2) rid" by (auto simp: issued_def rid_def t2_def t1_def)
    ultimately have lv: "leaving t2 rid p (Inl e)" for e
      using fresh sc by (auto simp: leaving_def t2_def t1_def)
    have cl: "transport_ok (cleanup_begin rid p (Inl e) t2)" for e
      by (rule cleanup_begin_transport [OF lv slots2])
    have run: "transport_ok (t2\<lparr>tr_running := dict_set rid (Sending f) (tr_running t2)\<rparr>)" for f
    proof -
      let ?t3 = "t2\<lparr>tr_running := dict_set rid (Sending f) (tr_running t2)\<rparr>"
      have "glob_ok ?t3"
        using \<open>glob_ok t2\<close> fresh(1) by (simp add: glob_ok_def dict_ok_set total_of_fresh t2_def t1_def)
      moreover have "slot_ok (tr_serial ?t3) rid (slot_of ?t3 rid)"
        using iss go fresh sc in_order.idle [of "[]" "[]"]
        by (auto simp: slot_ok_def t2_def t1_def p_def)
      moreover have "slot_ok (tr_serial ?t3) r (slot_of ?t3 r)" if "r \<noteq> rid" for r
      proof -
        have "slot_ok (tr_serial t2) r (slot_of t2 r)" using slots2 that by blast
        then show ?thesis by (rule slot_ok_frame) (use that in auto)
      qed
      ultimately have "slot_ok (tr_serial ?t3) r (slot_of ?t3 r)" for r by (cases "r = rid") auto
      with \<open>glob_ok ?t3\<close> show ?thesis by (simp add: transport_ok_def)
    qed
    show ?thesis
      unfolding op st(1) emit_request_def using w cl run
      by (auto simp: Let_def t2_def split: sum.splits)
  qed
qed

lemma call_ok: "transport_ok t \<Longrightarrow> transport_ok (snd (call E inputs method v cb t))"
  by (simp add: call_def open_request_ok)

lemma sent_ok:
  assumes "transport_ok t"
  shows "transport_ok (sent E rid ok t)"
proof (rule transport_step [OF assms])
  show "tr_serial t \<le> tr_serial (sent E rid ok t)"
    by (simp add: sent_def split: option.splits phase.splits)
next
  assume g: "glob_ok t" and s: "\<forall>r. slot_ok (tr_serial t) r (slot_of t r)"
  show "transport_ok (sent E rid ok t)"
  proof (cases "\<exists>f p. dict_get (tr_running t) rid = Some (Sending f) \<and> dict_get (tr_pending t) rid = Some p")
    case True
    then obtain f p where fp: "dict_get (tr_running t) rid = Some (Sending f)" "dict_get (tr_pending t) rid = Some p"
      by blast
    have "transport_ok (write_frame E f (t\<lparr>tr_running := dict_set rid Waiting (tr_running t)\<rparr>))"
      using set_running_ok [OF g s fp(2), of Waiting] by simp
    moreover have "write_frame E f (t\<lparr>tr_running := r\<rparr>) = (write_frame E f t)\<lparr>tr_running := r\<rparr>" for r
      by (simp add: write_frame_def split: sum.splits)
    ultimately show ?thesis
      using cleanup_leave_ok [OF g s fp(2)] fp by (simp add: sent_def)
  next
    case False
    then have "sent E rid ok t = t" by (auto simp: sent_def split: option.splits phase.splits)
    then show ?thesis using assms by simp
  qed
qed


lemma complete_ok:
  assumes g: "glob_ok t" and s: "\<forall>r. slot_ok (tr_serial t) r (slot_of t r)"
    and p: "dict_get (tr_pending t) rid = Some p" and lv: "live p = 0"
  shows "transport_ok (complete_request E rid p v t)"
proof (cases "pn_failure p")
  case (Some e)
  then show ?thesis using cleanup_leave_ok [OF g s p] by (simp add: complete_request_def)
next
  case None
  obtain r st where r: "result_dto (te_scopes E) (te_scope_commands E) (pn_method p) v rid (tr_artifacts t) = (r, st)"
    by (metis surj_pair)
  have sc: "scope_ids st = scope_ids (tr_artifacts t)"
    using keeps_step [OF keeps_result_dto r] by (simp add: same_scopes_def)
  let ?t = "t\<lparr>tr_artifacts := st\<rparr>"
  have "glob_ok ?t" using g by (simp add: glob_ok_def)
  moreover have "\<forall>q. slot_ok (tr_serial ?t) q (slot_of ?t q)" using s sc by (simp add: slot_of_def)
  ultimately have "transport_ok (cleanup_begin rid p r ?t)"
    using p lv result_dto_limits [OF r] by (intro cleanup_leave_ok) auto
  then show ?thesis by (simp add: complete_request_def None r)
qed

lemma drain_ok:
  assumes g: "glob_ok t" and s: "\<forall>r. slot_ok (tr_serial t) r (slot_of t r)"
    and p: "dict_get (tr_pending t) rid = Some p" "pn_future p = FutResult v"
  shows "transport_ok (drain E rid p v t)"
proof -
  have o: "in_order (log_of t rid) (pn_events p)" using s p(1) by (auto simp: slot_ok_def)
  have done0: "live p = 0" if "pn_events p = [] \<or> snd (last (pn_events p)) = Shown"
    using in_order_complete [OF o that] live_shown by blast
  show ?thesis
    unfolding drain_def
    using done0 complete_ok [OF g s p(1)] cleanup_leave_ok [OF g s p(1)] set_running_ok [OF g s p(1), of "Draining v"] p(2)
    by (auto split: delivery.splits)
qed

text \<open>A request leaves while it has no entry in the table.\<close>

lemma cleaning_left:
  assumes g: "glob_ok t" and s: "\<forall>r. slot_ok (tr_serial t) r (slot_of t r)"
    and ph: "dict_get (tr_running t) rid = Some (Cleaning p out skip)" and lv: "live p = 0"
  shows "transport_ok (cleanup_end rid p out t)" "transport_ok (leave rid t)"
proof -
  have sl: "slot_ok (tr_serial t) rid (slot_of t rid)" using s by blast
  then have none: "dict_get (tr_pending t) rid = None" and iss: "issued (tr_serial t) rid" and "isl out"
    using ph by (auto simp: slot_ok_def)
  then have "limits_ok out" by (auto simp: limits_ok_def)
  with cleanup_end_ok [OF g _ none iss this, of p] ph lv
  have c: "glob_ok (cleanup_end rid p out t)" "others rid t (cleanup_end rid p out t)"
    "slot_ok (tr_serial t) rid (slot_of (cleanup_end rid p out t) rid)" by auto
  show "transport_ok (cleanup_end rid p out t)"
    by (rule transport_okI [OF c(1,2) s]) (use c(3) in simp)
  have tot: "total_of phase_live (dict_pop rid (tr_running t)) = total_of phase_live (tr_running t)"
    using g lv total_of_pop [where f = phase_live and d = "tr_running t" and k = rid, OF _ ph]
    by (simp add: glob_ok_def)
  show "transport_ok (leave rid t)"
  proof (rule transport_okI [where rid = rid and t = t])
    show "glob_ok (leave rid t)" using g tot by (simp add: leave_def glob_ok_def dict_ok_pop)
    show "others rid t (leave rid t)" by (simp add: leave_def others_def)
    show "slot_ok (tr_serial (leave rid t)) rid (slot_of (leave rid t) rid)"
      using sl none by (auto simp: leave_def slot_ok_def)
  qed (use s in simp)
qed

lemma resume_request_ok:
  assumes "transport_ok t"
  shows "transport_ok (resume_request E rid t)"
proof (rule transport_step [OF assms])
  show "tr_serial t \<le> tr_serial (resume_request E rid t)"
    by (simp add: resume_request_def drain_def complete_request_def leave_def
        split: option.splits phase.splits fut.splits delivery.splits prod.splits)
next
  assume g: "glob_ok t" and s: "\<forall>r. slot_ok (tr_serial t) r (slot_of t r)"
  show "transport_ok (resume_request E rid t)"
  proof (cases "dict_get (tr_running t) rid")
    case None
    then show ?thesis using assms by (simp add: resume_request_def)
  next
    case (Some ph)
    have sl: "slot_ok (tr_serial t) rid (slot_of t rid)" using s by blast
    show ?thesis
    proof (cases "dict_get (tr_pending t) rid")
      case None
      then have "cleaning ph" using sl Some by (auto simp: slot_ok_def)
      then obtain p out skip where "ph = Cleaning p out skip" by (cases ph) auto
      then show ?thesis
        using assms Some None cleaning_left [OF g s, of rid p out skip] by (simp add: resume_request_def)
    next
      case p: (Some p)
      have nc: "\<not> cleaning ph" using sl Some p by (auto simp: slot_ok_def)
      have dr: "ph = Draining v \<Longrightarrow> pn_future p = FutResult v" for v using sl Some p by (auto simp: slot_ok_def)
      show ?thesis
        using assms Some p nc dr drain_ok [OF g s p] cleanup_leave_ok [OF g s p]
        by (cases ph) (auto simp: resume_request_def split: fut.splits)
    qed
  qed
qed

lemma interrupt_ok:
  assumes "transport_ok t"
  shows "transport_ok (interrupt E rid written t)"
proof (rule transport_step [OF assms])
  show "tr_serial t \<le> tr_serial (interrupt E rid written t)"
    by (simp add: interrupt_def set_pending_def split: option.splits phase.splits)
next
  assume g: "glob_ok t" and s: "\<forall>r. slot_ok (tr_serial t) r (slot_of t r)"
  show "transport_ok (interrupt E rid written t)"
  proof (cases "dict_get (tr_running t) rid")
    case None
    then show ?thesis using assms by (simp add: interrupt_def)
  next
    case (Some ph)
    have sl: "slot_ok (tr_serial t) rid (slot_of t rid)" using s by blast
    show ?thesis
    proof (cases "dict_get (tr_pending t) rid")
      case None
      then have "cleaning ph" using sl Some by (auto simp: slot_ok_def)
      then obtain p out skip where ph: "ph = Cleaning p out skip" by (cases ph) auto
      let ?t' = "t\<lparr>tr_running := dict_set rid (Cleaning p (Inl Cancelled) True) (tr_running t)\<rparr>"
      have "total_of phase_live (tr_running ?t') = total_of phase_live (tr_running t)"
        using g Some ph total_of_set [where d = "tr_running t" and k = rid and f = phase_live
            and v' = "Cleaning p (Inl Cancelled) True"]
        by (simp add: glob_ok_def)
      then have "glob_ok ?t'" using g by (simp add: glob_ok_def dict_ok_set)
      then have "transport_ok ?t'"
      proof (rule transport_okI [where rid = rid and t = t])
        show "slot_ok (tr_serial ?t') rid (slot_of ?t' rid)" using sl Some ph None by (auto simp: slot_ok_def)
      qed (use s in \<open>auto simp: others_def\<close>)
      then show ?thesis using Some ph None by (simp add: interrupt_def)
    next
      case p: (Some p)
      have nc: "\<not> cleaning ph" using sl Some p by (auto simp: slot_ok_def)
      have gw: "glob_ok (write_frame E f t)" "\<forall>r. slot_ok (tr_serial (write_frame E f t)) r (slot_of (write_frame E f t) r)"
        "dict_get (tr_pending (write_frame E f t)) rid = Some p" for f
        using g s p by simp_all
      show ?thesis
        using assms Some p nc cleanup_leave_ok [OF g s p] cleanup_leave_ok [OF gw] set_running_ok [OF g s p, of Doomed]
          set_future_ok [OF g s p, of FutCancelled]
        by (cases ph) (auto simp: interrupt_def)
    qed
  qed
qed


subsection \<open>Deliveries\<close>

lemma close_pending_ok:
  assumes g: "glob_ok t" and s: "\<forall>r. slot_ok (tr_serial t) r (slot_of t r)"
    and p: "dict_get (tr_pending t) rid = Some p" and sp: "split_events p = (before, (ev, d) # rest)"
    and d: "\<not> over d" "over how" and o: "in_order (log_of t rid) (before @ (ev, how) # rest)"
  shows "transport_ok ((set_pending rid (close_delivery how p) t)\<lparr>tr_event_count := tr_event_count t - 1\<rparr>)"
proof -
  note lv = live_close [OF sp d]
  have "total_of live (tr_pending t) \<ge> live p"
    using total_of_pop [where f = live and d = "tr_pending t" and k = rid, OF _ p] g by (simp add: glob_ok_def)
  then have n: "1 \<le> tr_event_count t" "tr_event_count t \<le> MAX_PENDING" using g lv by (auto simp: glob_ok_def)
  have "transport_ok (t\<lparr>tr_pending := dict_set rid (close_delivery how p) (tr_pending t),
      tr_event_count := tr_event_count t - 1, tr_shown := tr_shown t\<rparr>)"
    using n lv o by (intro set_pending_ok [OF g s p]) (auto simp: log_of_def close_delivery_events [OF sp])
  then show ?thesis by (simp add: set_pending_def)
qed

lemma close_cleaning_ok:
  assumes g: "glob_ok t" and s: "\<forall>r. slot_ok (tr_serial t) r (slot_of t r)"
    and ph: "dict_get (tr_running t) rid = Some (Cleaning p out skip)" and lv: "Suc (live p') = live p"
  shows "transport_ok (t\<lparr>tr_running := dict_set rid (Cleaning p' out skip) (tr_running t),
    tr_event_count := tr_event_count t - 1\<rparr>)" (is "transport_ok ?t'")
proof (rule transport_okI [where rid = rid and t = t])
  have tot: "total_of phase_live (dict_set rid (Cleaning p' out skip) (tr_running t)) + live p =
      total_of phase_live (tr_running t) + live p'"
    using g total_of_set [where d = "tr_running t" and k = rid and f = phase_live and v' = "Cleaning p' out skip", OF _ ph]
    by (simp add: glob_ok_def)
  have "live p \<le> total_of phase_live (tr_running t)"
    using total_of_pop [where f = phase_live and d = "tr_running t" and k = rid, OF _ ph] g by (simp add: glob_ok_def)
  with tot have "tr_event_count t - 1 =
      total_of live (tr_pending t) + total_of phase_live (dict_set rid (Cleaning p' out skip) (tr_running t))"
    using g lv by (simp add: glob_ok_def)
  moreover have "total_of live (tr_pending t) +
      total_of phase_live (dict_set rid (Cleaning p' out skip) (tr_running t)) \<le> MAX_PENDING"
    using tot lv g unfolding glob_ok_def by linarith
  ultimately show "glob_ok ?t'" using g by (simp add: glob_ok_def dict_ok_set)
  have "slot_ok (tr_serial t) rid (slot_of t rid)" using s by blast
  then show "slot_ok (tr_serial ?t') rid (slot_of ?t' rid)" using ph by (auto simp: slot_ok_def)
qed (use s in \<open>auto simp: others_def\<close>)

lemma split_not_over: "split_events p = (before, (ev, d) # rest) \<Longrightarrow> \<not> over d"
  using hd_dropWhile [of "\<lambda>e. over (snd e)" "pn_events p"] by (auto simp: split_events_def)

lemma not_over_cases: "\<not> over d \<Longrightarrow> d = Queued \<or> d = Showing"
  by (cases d) auto

lemma deliver_pending_ok:
  assumes ok: "transport_ok t" and g: "glob_ok t" and s: "\<forall>r. slot_ok (tr_serial t) r (slot_of t r)"
    and p: "dict_get (tr_pending t) rid = Some p"
  shows "transport_ok (deliver rid how t)"
proof -
  have o: "in_order (log_of t rid) (pn_events p)" using s p by (auto simp: slot_ok_def)
  obtain before us where sp: "split_events p = (before, us)" by (metis surj_pair)
  show ?thesis
  proof (cases us)
    case Nil
    then show ?thesis using ok p sp by (simp add: deliver_def)
  next
    case (Cons e rest)
    obtain ev d where e: "e = (ev, d)" by (cases e)
    with sp Cons have sp: "split_events p = (before, (ev, d) # rest)" by simp
    consider "d = Queued" | "d = Showing" using split_not_over [OF sp] not_over_cases by blast
    then show ?thesis
    proof cases
      case 1
      note st = in_order_start [OF o sp [unfolded 1]]
      show ?thesis
      proof (cases "start_status before = Showing")
        case True
        let ?p' = "p\<lparr>pn_events := before @ (ev, Showing) # rest\<rparr>"
        have "live ?p' = live p" using split_append [OF sp] by (simp add: live_def 1)
        moreover have "tr_event_count t \<le> MAX_PENDING" using g by (simp add: glob_ok_def)
        ultimately have "transport_ok (t\<lparr>tr_pending := dict_set rid ?p' (tr_pending t),
            tr_event_count := tr_event_count t, tr_shown := tr_shown t @ [(rid, ev)]\<rparr>)"
          using st True by (intro set_pending_ok [OF g s p]) (auto simp: log_of_def)
        then show ?thesis using sp p 1 True by (simp add: deliver_def set_pending_def)
      next
        case False
        have "deliver rid how t =
            (set_pending rid (close_delivery (start_status before) p) t)\<lparr>tr_event_count := tr_event_count t - 1\<rparr>"
          using sp p 1 False by (simp add: deliver_def split: delivery.splits)
        moreover have "transport_ok ((set_pending rid (close_delivery (start_status before) p) t)
            \<lparr>tr_event_count := tr_event_count t - 1\<rparr>)"
          using st False by (intro close_pending_ok [OF g s p sp]) (auto simp: 1)
        ultimately show ?thesis by simp
      qed
    next
      case 2
      show ?thesis
      proof (cases "over how")
        case True
        have "transport_ok ((set_pending rid (close_delivery how p) t)\<lparr>tr_event_count := tr_event_count t - 1\<rparr>)"
          by (rule close_pending_ok [OF g s p sp])
            (use True in_order_finish [OF o sp [unfolded 2] True] in \<open>auto simp: 2\<close>)
        then show ?thesis using sp p 2 True by (simp add: deliver_def)
      next
        case False
        then show ?thesis using ok sp p 2 by (simp add: deliver_def)
      qed
    qed
  qed
qed

lemma deliver_ok:
  assumes "transport_ok t"
  shows "transport_ok (deliver rid how t)"
proof (rule transport_step [OF assms])
  show "tr_serial t \<le> tr_serial (deliver rid how t)"
    by (simp add: deliver_def set_pending_def split: option.splits phase.splits prod.splits list.splits delivery.splits)
next
  assume g: "glob_ok t" and s: "\<forall>r. slot_ok (tr_serial t) r (slot_of t r)"
  show "transport_ok (deliver rid how t)"
  proof (cases "dict_get (tr_pending t) rid")
    case (Some p)
    then show ?thesis by (rule deliver_pending_ok [OF assms g s])
  next
    case None
    show ?thesis
    proof (cases "\<exists>p out skip before ev d rest. dict_get (tr_running t) rid = Some (Cleaning p out skip) \<and>
        split_events p = (before, (ev, d) # rest)")
      case True
      then obtain p out skip before ev d rest where ph: "dict_get (tr_running t) rid = Some (Cleaning p out skip)"
        and sp: "split_events p = (before, (ev, d) # rest)" by blast
      have d: "\<not> over d" by (rule split_not_over [OF sp])
      then consider "d = Queued" | "d = Showing" using not_over_cases by blast
      then show ?thesis
      proof cases
        case 1
        then show ?thesis
          using None ph sp close_cleaning_ok [OF g s ph live_close [OF sp d, of Stopped]] by (simp add: deliver_def)
      next
        case 2
        then show ?thesis
          using None ph sp assms close_cleaning_ok [OF g s ph live_close [OF sp d, of how]] by (simp add: deliver_def)
      qed
    next
      case False
      then have "deliver rid how t = t"
        using None by (auto simp: deliver_def split: option.splits phase.splits prod.splits list.splits)
      then show ?thesis using assms by simp
    qed
  qed
qed

subsection \<open>Frames and shut-down\<close>

lemma queue_ok:
  assumes g: "glob_ok t" and s: "\<forall>r. slot_ok (tr_serial t) r (slot_of t r)"
    and p: "dict_get (tr_pending t) rid = Some p" and n: "tr_event_count t < MAX_PENDING"
  shows "transport_ok ((set_pending rid (p\<lparr>pn_events := pn_events p @ [(ev, Queued)]\<rparr>) t)
    \<lparr>tr_event_count := Suc (tr_event_count t)\<rparr>)"
proof -
  have o: "in_order (log_of t rid) (pn_events p)" using s p by (auto simp: slot_ok_def)
  have "transport_ok (t\<lparr>tr_pending := dict_set rid (p\<lparr>pn_events := pn_events p @ [(ev, Queued)]\<rparr>) (tr_pending t),
      tr_event_count := Suc (tr_event_count t), tr_shown := tr_shown t\<rparr>)"
    using n in_order_queue [OF o] by (intro set_pending_ok [OF g s p]) (auto simp: live_def log_of_def)
  then show ?thesis by (simp add: set_pending_def)
qed

lemma receive_answer_ok:
  assumes "transport_ok t"
  shows "transport_ok (snd (receive_answer kind d t))"
proof (rule transport_step [OF assms])
  show "tr_serial t \<le> tr_serial (snd (receive_answer kind d t))"
    by (simp add: receive_answer_def fulfil_def set_pending_def split: sum.splits option.splits)
next
  assume g: "glob_ok t" and s: "\<forall>r. slot_ok (tr_serial t) r (slot_of t r)"
  have f: "transport_ok (snd (fulfil kind rid p d t))"
    if p: "dict_get (tr_pending t) rid = Some p" "pn_future p = FutPending" for rid p
    using assms set_future_ok [OF g s p] queue_ok [OF g s p(1)]
    by (auto simp: fulfil_def not_le split: sum.splits)
  show "transport_ok (snd (receive_answer kind d t))"
    using assms f by (auto simp: receive_answer_def split: sum.splits option.splits)
qed

lemma host_ok:
  "transport_ok t \<Longrightarrow> dict_ok h \<Longrightarrow> length h \<le> MAX_PENDING \<Longrightarrow> transport_ok (t\<lparr>tr_host := h\<rparr>)"
  by (auto simp: transport_ok_def glob_ok_def slot_of_def log_of_def)

lemma receive_attest_ok:
  assumes "transport_ok t"
  shows "transport_ok (snd (receive_attest d t))"
proof (rule transport_step [OF assms])
  show "tr_serial t \<le> tr_serial (snd (receive_attest d t))"
    by (simp add: receive_attest_def split: sum.splits)
next
  assume g: "glob_ok t"
  then have "transport_ok (t\<lparr>tr_host := dict_set hid v (tr_host t)\<rparr>)"
    if "dict_get (tr_host t) hid = None" "\<not> MAX_PENDING \<le> length (tr_host t)" for hid v
    using that assms by (intro host_ok) (auto simp: glob_ok_def dict_ok_set length_dict_set_fresh)
  then show "transport_ok (snd (receive_attest d t))"
    using assms by (simp add: receive_attest_def split: sum.splits)
qed

lemma emit_frame:
  "emit E d ok t = (r, t') \<Longrightarrow> \<exists>out. t' = t\<lparr>tr_out := out\<rparr>"
  by (auto simp: emit_def split: sum.splits if_splits intro: exI [where x = "tr_out t"])

lemma keeps_media: "media_request E i parent d t = (r, st) \<Longrightarrow> same_scopes (tr_artifacts t) st"
  unfolding media_request_def Let_def
  by (auto split: option.splits if_splits simp: scopes.R_refl
      dest: keeps_step [OF keeps_read] keeps_step [OF keeps_upload_begin] keeps_step [OF keeps_upload_chunk]
        keeps_step [OF keeps_upload_finish])

text \<open>A media request changes the artifacts and the output only.\<close>

lemma receive_media_frame:
  assumes "receive_media E i d t = (r, t')"
  shows "\<exists>st out. t' = t\<lparr>tr_artifacts := st, tr_out := out\<rparr> \<and> same_scopes (tr_artifacts t) st"
proof -
  have self: "t = t\<lparr>tr_artifacts := tr_artifacts t, tr_out := tr_out t\<rparr>" by simp
  have emits: "\<exists>out. u = t\<lparr>tr_artifacts := st, tr_out := out\<rparr>"
    if "emit E f ok (t\<lparr>tr_artifacts := st, tr_out := o'\<rparr>) = (q, u)" for f ok st o' q u
    using emit_frame [OF that] by auto
  show ?thesis
  proof (cases "bind_r (object_fields media_fields media_fields (PDict d)) (\<lambda>_.
           bind_r (if pget ''type'' d = Some (PStr ''request'') then Inr () else wire_err ''invalid_frame'') (\<lambda>_.
           bind_r (ident (pget_or PNone ''request_id'' d)) (\<lambda>hid.
           bind_r (ident (pget_or PNone ''parent_request_id'' d)) (\<lambda>parent. Inr (hid, parent)))))")
    case (Inl e)
    then have "t' = t" using assms by (simp add: receive_media_def)
    then show ?thesis using self scopes.R_refl by metis
  next
    case (Inr hp)
    obtain hid parent where hp: "hp = (hid, parent)" by (cases hp)
    obtain q st where m: "media_request E i parent d t = (q, st)" by (metis surj_pair)
    define first where "first = (case q of Inl e \<Rightarrow> (Inl e, t\<lparr>tr_artifacts := st\<rparr>)
      | Inr out \<Rightarrow> emit E (result_frame hid (PDict out)) (hi_first i) (t\<lparr>tr_artifacts := st\<rparr>))"
    obtain q2 t2 where f: "first = (q2, t2)" by (metis surj_pair)
    have "\<exists>o2. t2 = t\<lparr>tr_artifacts := st, tr_out := o2\<rparr>"
      using f emits [where st = st and o' = "tr_out t"] unfolding first_def
      by (cases q) (auto intro: exI [where x = "tr_out t"])
    then obtain o2 where t2: "t2 = t\<lparr>tr_artifacts := st, tr_out := o2\<rparr>" ..
    have "(r, t') = (case q2 of Inr _ \<Rightarrow> (Inr (), t2)
        | Inl e \<Rightarrow> if caught e then emit E (rejection hid ''artifact_rejected'') (hi_second i) t2 else (Inl e, t2))"
      using assms unfolding receive_media_def Inr hp
      by (simp add: m Let_def first_def [symmetric] f)
    then have "\<exists>out. t' = t\<lparr>tr_artifacts := st, tr_out := out\<rparr>"
      using t2 by (auto split: sum.splits if_splits intro: emits [where st = st and o' = o2, OF sym])
    then show ?thesis using keeps_media [OF m] by blast
  qed
qed

lemma receive_media_ok:
  assumes "transport_ok t"
  shows "transport_ok (snd (receive_media E i d t))"
proof -
  obtain r t' where r: "receive_media E i d t = (r, t')" by (metis surj_pair)
  from receive_media_frame [OF r] obtain st out where
    "t' = t\<lparr>tr_artifacts := st, tr_out := out\<rparr>" "same_scopes (tr_artifacts t) st" by blast
  then show ?thesis using assms r transport_ok_artifacts [of t st] by simp
qed

lemma receive_frame_ok: "transport_ok t \<Longrightarrow> transport_ok (snd (receive_frame E i d t))"
  using receive_answer_ok receive_attest_ok receive_media_ok
  by (auto simp: receive_frame_def split: option.splits pyval.splits)

lemma finish_attest_ok:
  assumes "transport_ok t"
  shows "transport_ok (finish_attest E hid fresh ok1 ok2 t)"
proof (cases "dict_get (tr_host t) hid")
  case None
  then show ?thesis using assms by (simp add: finish_attest_def)
next
  case (Some params)
  let ?t1 = "t\<lparr>tr_host := dict_pop hid (tr_host t)\<rparr>"
  have t1: "transport_ok ?t1"
    using assms dict_ok_pop [of "tr_host t" hid]
      le_trans [OF length_filter_le [of _ "tr_host t"]]
    by (auto simp: transport_ok_def glob_ok_def slot_of_def dict_pop_def)
  have em: "transport_ok u" if "emit E f ok ?t1 = (q, u)" for f ok q u
    using emit_frame [OF that] t1 by auto
  have em2: "transport_ok w" if "emit E f ok ?t1 = (q, u)" "emit E f' ok' u = (q', w)" for f ok q u f' ok' q' w
    using emit_frame [OF that(2)] em [OF that(1)] by auto
  show ?thesis
    using t1 em em2 emit_frame
    by (auto simp: finish_attest_def Some Let_def split: sum.splits prod.splits) (metis surj_pair snd_conv)+
qed

text \<open>The end of input.\<close>

lemma live_close_future [simp]: "live (close_future p) = live p" "pn_events (close_future p) = pn_events p"
  by (simp_all add: close_future_def live_def)

lemma close_future_resolved: "pn_future (close_future p) \<noteq> FutPending"
  "pn_future p = FutResult v \<Longrightarrow> pn_future (close_future p) = FutResult v"
  by (simp_all add: close_future_def)

lemma total_of_apsnd: "(\<And>v. f (g v) = f v) \<Longrightarrow> total_of f (map (apsnd g) d) = total_of f d"
  by (induction d) (auto simp: total_of_def)

lemma dict_get_apsnd: "dict_get (map (apsnd g) d) k = map_option g (dict_get d k)"
  by (induction d) (auto simp: dict_get_def)

lemma dict_ok_apsnd: "dict_ok (map (apsnd g) d) = dict_ok d"
  by (simp add: dict_ok_def)

lemma eof_ok:
  assumes "transport_ok t"
  shows "transport_ok (eof t)"
proof (rule transport_step [OF assms])
  show "tr_serial t \<le> tr_serial (eof t)" by (simp add: eof_def)
next
  assume g: "glob_ok t" and s: "\<forall>r. slot_ok (tr_serial t) r (slot_of t r)"
  have "glob_ok (eof t)"
    using g by (simp add: glob_ok_def eof_def total_of_apsnd dict_ok_apsnd)
  moreover have "slot_ok (tr_serial t) r (slot_of (eof t) r)" for r
  proof -
    have e: "slot_of (eof t) r =
        (slot_of t r)\<lparr>sl_pending := map_option close_future (dict_get (tr_pending t) r), sl_closed := True\<rparr>"
      by (simp add: slot_of_def eof_def dict_get_apsnd log_of_def)
    have o: "slot_ok (tr_serial t) r (slot_of t r)" using s by blast
    show ?thesis
    proof (cases "dict_get (tr_pending t) r")
      case None
      then show ?thesis using o unfolding e slot_ok_def by simp
    next
      case (Some p)
      then show ?thesis using o unfolding e slot_ok_def by (simp add: close_future_resolved)
    qed
  qed
  ultimately show "transport_ok (eof t)" by (simp add: transport_ok_def eof_def)
qed

lemma stop_ok: "transport_ok t \<Longrightarrow> transport_ok (stop_reading t)"
  by (simp add: stop_reading_def eof_ok)

lemma read_line_ok:
  assumes "transport_ok t"
  shows "transport_ok (read_line E i line t)"
proof (cases "decode_line (te_fread E) (te_other E) line")
  case (Inl e)
  then show ?thesis using assms by (simp add: read_line_def stop_ok)
next
  case (Inr d)
  obtain q u where u: "receive_frame E i d t = (q, u)" by (cases "receive_frame E i d t")
  then have "transport_ok u" using receive_frame_ok [OF assms, of E i d] by simp
  then show ?thesis using assms Inr u by (cases q) (simp_all add: read_line_def stop_ok)
qed

lemma outside_ok: "transport_ok t \<Longrightarrow> transport_ok (t\<lparr>tr_artifacts := (tr_artifacts t)\<lparr>st_fs := fs\<rparr>\<rparr>)"
  by (simp add: transport_ok_artifacts same_scopes_def)

lemma tstep_ok: "transport_ok t \<Longrightarrow> transport_ok (tstep E t e)"
  by (cases e) (simp_all add: tstep_def call_ok sent_ok resume_request_ok interrupt_ok deliver_ok read_line_ok
      finish_attest_ok outside_ok)

interpretation channel: invariant_system "tstep E" transport_ok for E
  by unfold_locales (rule tstep_ok)

lemma new_transport_ok:
  assumes "new_transport b p a fs = Inr t"
  shows "transport_ok t"
proof -
  have "tr_pending t = [] \<and> tr_running t = [] \<and> tr_cancelled t = [] \<and> tr_host t = [] \<and> tr_shown t = [] \<and>
      tr_event_count t = 0 \<and> tr_max_files t = 16 \<and> st_scopes (tr_artifacts t) = []"
    using assms by (auto simp: new_transport_def new_store_def bind_r_def split: sum.splits pyval.splits if_splits)
  then show ?thesis
    by (simp add: transport_ok_def glob_ok_def slot_ok_def slot_of_def log_of_def tomb_def dict_get_def dict_ok_def
        dict_keys_def scope_ids_def total_of_def)
qed

end
