(* ===== verification/Channel_Answers.thy ===== *)
theory Channel_Answers
  imports Channel_Guarantees
begin

text \<open>
  Where the outcomes of requests come from. Each request ends at most once, and it ends with a value only
  when the host sent a result under its identifier while it was waiting.
\<close>

section \<open>One outcome per request\<close>

text \<open>What one step adds to the outcomes: at most one, of a request that was running and is no longer, or
  of one that was begun by this step and failed in it.\<close>

definition begun :: "transport \<Rightarrow> transport \<Rightarrow> string \<Rightarrow> bool" where
  "begun t t' rid = (rid = request_id (Suc (tr_serial t)) \<and> tr_serial t' = Suc (tr_serial t))"

definition ends_one :: "transport \<Rightarrow> transport \<Rightarrow> bool" where
  "ends_one t t' \<longleftrightarrow>
     tr_serial t \<le> tr_serial t' \<and>
     (tr_results t' = tr_results t \<or>
      (\<exists>rid o'. tr_results t' = tr_results t @ [(rid, o')] \<and>
         (dict_get (tr_running t) rid \<noteq> None \<or> begun t t' rid) \<and> dict_get (tr_running t') rid = None)) \<and>
     (\<forall>rid. dict_get (tr_running t') rid \<noteq> None \<longrightarrow> dict_get (tr_running t) rid \<noteq> None \<or> begun t t' rid)"

definition single_outcomes :: "transport \<Rightarrow> bool" where
  "single_outcomes t \<longleftrightarrow>
     distinct (map fst (tr_results t)) \<and>
     (\<forall>rid\<in>fst ` set (tr_results t). dict_get (tr_running t) rid = None \<and> issued (tr_serial t) rid) \<and>
     (\<forall>rid. dict_get (tr_running t) rid \<noteq> None \<longrightarrow> issued (tr_serial t) rid)"

lemma begun_issued: "begun t t' rid \<Longrightarrow> issued (tr_serial t') rid \<and> \<not> issued (tr_serial t) rid"
  using fresh_not_issued by (auto simp: begun_def issued_def)

lemma single_outcomes_step:
  assumes s: "single_outcomes t" and e: "ends_one t t'"
  shows "single_outcomes t'"
proof -
  have up: "issued (tr_serial t) rid \<Longrightarrow> issued (tr_serial t') rid" for rid
    using e issued_mono by (auto simp: ends_one_def)
  have run: "issued (tr_serial t') rid" "rid \<notin> fst ` set (tr_results t)" if "dict_get (tr_running t') rid \<noteq> None" for rid
  proof -
    have "dict_get (tr_running t) rid \<noteq> None \<or> begun t t' rid" using e that by (auto simp: ends_one_def)
    then show "issued (tr_serial t') rid" "rid \<notin> fst ` set (tr_results t)"
      using s up begun_issued by (fastforce simp: single_outcomes_def)+
  qed
  have gone: "dict_get (tr_running t') rid = None" if "rid \<in> fst ` set (tr_results t)" for rid
    using run(2) that by blast
  have old: "issued (tr_serial t') rid" if "rid \<in> fst ` set (tr_results t)" for rid
    using s up that by (auto simp: single_outcomes_def)
  consider "tr_results t' = tr_results t"
    | rid o' where "tr_results t' = tr_results t @ [(rid, o')]" "dict_get (tr_running t) rid \<noteq> None \<or> begun t t' rid"
      "dict_get (tr_running t') rid = None"
    using e by (auto simp: ends_one_def)
  then show ?thesis
  proof cases
    case 1
    then show ?thesis using s run(1) gone old unfolding single_outcomes_def by (simp add: Ball_def)
  next
    case 2
    have "issued (tr_serial t') rid" "rid \<notin> fst ` set (tr_results t)"
      using s 2(2) up begun_issued by (fastforce simp: single_outcomes_def)+
    then show ?thesis using s run(1) gone old 2 unfolding single_outcomes_def by (simp add: Ball_def)
  qed
qed

lemma ends_oneI_same:
  "tr_results t' = tr_results t \<Longrightarrow> tr_running t' = tr_running t \<Longrightarrow> tr_serial t' = tr_serial t \<Longrightarrow> ends_one t t'"
  by (simp add: ends_one_def)

lemma ends_oneI_move:
  "tr_results t' = tr_results t \<Longrightarrow> tr_running t' = dict_set rid ph (tr_running t) \<Longrightarrow>
   dict_get (tr_running t) rid \<noteq> None \<Longrightarrow> tr_serial t' = tr_serial t \<Longrightarrow> ends_one t t'"
  by (auto simp: ends_one_def dict_get_set split: if_splits)

text \<open>The \<open>finally\<close> block.\<close>

lemma cleanup_end_frame:
  "tr_pending (cleanup_end rid p out t) = tr_pending t"
  "tr_running (cleanup_end rid p out t) = dict_pop rid (tr_running t)"
  "\<exists>o'. tr_results (cleanup_end rid p out t) = tr_results t @ [(rid, o')] \<and> (o' = out \<or> isl o')"
  by (auto simp: cleanup_end_def Let_def split: prod.split sum.split)

lemma cleanup_begin_cases:
  obtains (ended_now) o' where "tr_results (cleanup_begin rid p out t) = tr_results t @ [(rid, o')]"
      "o' = out \<or> isl o'" "tr_running (cleanup_begin rid p out t) = dict_pop rid (tr_running t)"
  | (later) "tr_results (cleanup_begin rid p out t) = tr_results t"
      "tr_running (cleanup_begin rid p out t) = dict_set rid (Cleaning p out False) (tr_running t)" "live p \<noteq> 0"
  using cleanup_end_frame [of rid p out "t\<lparr>tr_pending := dict_pop rid (tr_pending t)\<rparr>"]
  by (cases "live p = 0") (auto simp: cleanup_begin_def Let_def)

lemma cleanup_begin_pending: "tr_pending (cleanup_begin rid p out t) = dict_pop rid (tr_pending t)"
  by (simp add: cleanup_begin_def Let_def cleanup_end_frame)

lemma ends_one_cleanup:
  assumes "dict_get (tr_running t) rid \<noteq> None"
  shows "ends_one t (cleanup_begin rid p out t)"
  using assms by (cases rule: cleanup_begin_cases [of rid p out t]) (auto simp: ends_one_def dict_get_pop dict_get_set split: if_splits)

lemma ends_one_cleanup_end:
  "dict_get (tr_running t) rid \<noteq> None \<Longrightarrow> ends_one t (cleanup_end rid p out t)"
  using cleanup_end_frame [of rid p out t] by (auto simp: ends_one_def dict_get_pop)

lemma ends_one_via:
  "ends_one u t' \<Longrightarrow> tr_results u = tr_results t \<Longrightarrow> tr_running u = tr_running t \<Longrightarrow> tr_serial u = tr_serial t \<Longrightarrow>
     ends_one t t'"
  by (simp add: ends_one_def begun_def)

subsection \<open>Every event\<close>

lemma emit_request_frame:
  obtains (failed_now) st e where
    "emit_request E inputs rid p v t = (Inl e, cleanup_begin rid p (Inl e) (t\<lparr>tr_artifacts := st\<rparr>))"
  | (waits) st frame where "emit_request E inputs rid p v t =
      (Inr rid, t\<lparr>tr_artifacts := st, tr_running := dict_set rid (Sending frame) (tr_running t)\<rparr>)"
proof -
  obtain r st n where w: "to_wire (te_sha E) inputs rid v (tr_artifacts t, 0) = (r, (st, n))" by (metis surj_pair)
  define g where "g = bind_r r (\<lambda>params.
      let frame = frame_of [(PStr ''type'', PStr ''request''), (PStr ''request_id'', PStr rid),
        (PStr ''method'', PStr (pn_method p)), (PStr ''params'', params)]
      in bind_r (encode_line (te_frepr E) frame) (\<lambda>_. Inr frame))"
  have "emit_request E inputs rid p v t =
      (case g of Inl e \<Rightarrow> (Inl e, cleanup_begin rid p (Inl e) (t\<lparr>tr_artifacts := st\<rparr>))
       | Inr frame \<Rightarrow> (Inr rid, t\<lparr>tr_artifacts := st, tr_running := dict_set rid (Sending frame) (tr_running t)\<rparr>))"
    unfolding emit_request_def w g_def by (simp add: Let_def split: sum.split)
  then show thesis using failed_now waits by (cases g) auto
qed

text \<open>The new request in the table, for the steps that open one.\<close>

definition opened :: "string \<Rightarrow> bool \<Rightarrow> transport \<Rightarrow> transport" where
  "opened meth callback t =
     t\<lparr>tr_serial := Suc (tr_serial t),
       tr_pending := dict_set (request_id (Suc (tr_serial t)))
         \<lparr>pn_method = meth, pn_future = FutPending, pn_callback = callback, pn_events = [], pn_failure = None\<rparr>
         (tr_pending t)\<rparr>"

lemma open_request_frame:
  obtains (refused) e where "open_request E inputs meth v callback t = (Inl e, t)"
  | (stuck) e st where "open_request E inputs meth v callback t = (Inl e, (opened meth callback t)\<lparr>tr_artifacts := st\<rparr>)"
  | (tried) st p where "pn_future p = FutPending" "live p = 0" "open_request E inputs meth v callback t =
      emit_request E inputs (request_id (Suc (tr_serial t))) p v ((opened meth callback t)\<lparr>tr_artifacts := st\<rparr>)"
proof -
  define u where "u = opened meth callback t"
  define rid where "rid = request_id (Suc (tr_serial t))"
  define limit where "limit = request_limit meth v t"
  define p where
    "p = \<lparr>pn_method = meth, pn_future = FutPending, pn_callback = callback, pn_events = [], pn_failure = None\<rparr>"
  obtain r st where b: "begin_request (PStr rid) limit (if limit > 16 then Some INPUT_BYTES else None) (tr_artifacts t) = (r, st)"
    by (metis surj_pair)
  show thesis
  proof (cases "tr_closed t \<or> length (tr_pending t) \<ge> MAX_PENDING \<or> history_error E meth v t \<noteq> None \<or>
      limit > 16 \<and> input_count v > 16")
    case True
    then have "\<exists>e. open_request E inputs meth v callback t = (Inl e, t)"
      by (auto simp: open_request_def Let_def limit_def split: option.splits)
    then show thesis using refused by blast
  next
    case False
    then have "open_request E inputs meth v callback t =
        (case r of Inl e \<Rightarrow> (Inl e, u\<lparr>tr_artifacts := st\<rparr>) | Inr _ \<Rightarrow> emit_request E inputs rid p v (u\<lparr>tr_artifacts := st\<rparr>))"
      using b unfolding open_request_def limit_def [symmetric] rid_def [symmetric] p_def [symmetric]
      by (auto simp: Let_def u_def opened_def p_def rid_def split: sum.splits)
    then show thesis
      using stuck [of _ st] tried [of p st] by (cases r) (auto simp: u_def rid_def p_def live_def)
  qed
qed

lemma ends_one_emit_request:
  assumes "rid = request_id (Suc (tr_serial t))" "tr_serial u = Suc (tr_serial t)" "tr_results u = tr_results t"
    "tr_running u = tr_running t" "live p = 0"
  shows "ends_one t (snd (emit_request E inputs rid p v u))"
proof (cases rule: emit_request_frame [of E inputs rid p v u])
  case (failed_now st e)
  then show ?thesis
    using assms
    by (cases rule: cleanup_begin_cases [of rid p "Inl e" "u\<lparr>tr_artifacts := st\<rparr>"])
      (auto simp: ends_one_def begun_def dict_get_pop split: if_splits)
next
  case (waits st frame)
  then show ?thesis using assms by (auto simp: ends_one_def begun_def dict_get_set split: if_splits)
qed

lemma ends_one_call: "ends_one t (snd (call E inputs meth v callback t))"
proof -
  have "ends_one t (snd (open_request E inputs meth v callback t))"
  proof (cases rule: open_request_frame [of E inputs meth v callback t])
    case (tried st p)
    show ?thesis unfolding tried(3)
      by (rule ends_one_emit_request) (simp_all add: opened_def tried)
  qed (auto simp: ends_one_def opened_def)
  then show ?thesis by (simp add: call_def ends_one_def)
qed

lemma write_frame_more [simp]: "tr_results (write_frame E f t) = tr_results t"
  by (simp add: write_frame_def split: sum.splits)

lemma ends_one_sent: "ends_one t (sent E rid ok t)"
  by (auto simp: sent_def ends_one_cleanup split: option.splits phase.splits
      intro: ends_oneI_same ends_oneI_move)

lemma ends_one_complete:
  assumes "dict_get (tr_running t) rid \<noteq> None"
  shows "ends_one t (complete_request E rid p v t)"
proof -
  have "ends_one t (cleanup_begin rid p r (t\<lparr>tr_artifacts := st\<rparr>))" for r st
    by (rule ends_one_via [where u = "t\<lparr>tr_artifacts := st\<rparr>"]) (use assms in \<open>auto intro: ends_one_cleanup\<close>)
  then show ?thesis using assms by (auto simp: complete_request_def ends_one_cleanup split: option.splits prod.splits)
qed

lemma ends_one_drain:
  "dict_get (tr_running t) rid \<noteq> None \<Longrightarrow> ends_one t (drain E rid p v t)"
  by (auto simp: drain_def ends_one_complete ends_one_cleanup split: delivery.splits intro: ends_oneI_move)

lemma ends_one_resume: "ends_one t (resume_request E rid t)"
proof -
  have "ends_one t (leave rid t)" if "dict_get (tr_running t) rid \<noteq> None"
    using that by (auto simp: leave_def ends_one_def dict_get_pop)
  then show ?thesis
    by (auto simp: resume_request_def ends_one_drain ends_one_cleanup ends_one_cleanup_end
        split: option.splits phase.splits fut.splits intro: ends_oneI_same)
qed

lemma ends_one_interrupt: "ends_one t (interrupt E rid written t)"
proof -
  have "ends_one t (cleanup_begin rid p r (write_frame E f t))" if "dict_get (tr_running t) rid \<noteq> None" for r f p
    by (rule ends_one_via [where u = "write_frame E f t"]) (use that in \<open>auto intro: ends_one_cleanup\<close>)
  then show ?thesis
    by (auto simp: interrupt_def set_pending_def ends_one_cleanup split: option.splits phase.splits
        intro: ends_oneI_same ends_oneI_move)
qed

lemma ends_one_deliver: "ends_one t (deliver rid how t)"
  by (auto simp: deliver_def set_pending_def split: option.splits phase.splits prod.splits list.splits delivery.splits
      intro: ends_oneI_same ends_oneI_move)

text \<open>Frames leave the outcomes and the coroutines alone.\<close>

definition same_coroutines :: "transport \<Rightarrow> transport \<Rightarrow> bool" where
  "same_coroutines t t' \<longleftrightarrow>
     tr_results t' = tr_results t \<and> tr_running t' = tr_running t \<and> tr_serial t' = tr_serial t"

lemma same_coroutines_ends: "same_coroutines t t' \<Longrightarrow> ends_one t t'"
  by (simp add: same_coroutines_def ends_one_def)

lemma receive_frame_coroutines: "same_coroutines t (snd (receive_frame E i d t))"
proof -
  have "same_coroutines t (snd (receive_answer kind d t))" for kind
    by (auto simp: same_coroutines_def receive_answer_def fulfil_def set_pending_def split: sum.splits option.splits)
  moreover have "same_coroutines t (snd (receive_attest d t))"
    by (auto simp: same_coroutines_def receive_attest_def split: sum.splits)
  moreover have "same_coroutines t (snd (receive_media E i d t))"
    using receive_media_frame [of E i d t] by (cases "receive_media E i d t") (fastforce simp: same_coroutines_def)
  moreover have "same_coroutines t t" by (simp add: same_coroutines_def)
  ultimately show ?thesis by (auto simp: receive_frame_def split: option.splits pyval.splits)
qed

lemma stop_coroutines [simp]: "same_coroutines t (stop_reading t') = same_coroutines t t'"
  by (simp add: same_coroutines_def stop_reading_def eof_def)

lemma read_line_coroutines: "same_coroutines t (read_line E i line t)"
proof (cases "decode_line (te_fread E) (te_other E) line")
  case (Inl e)
  then show ?thesis by (simp add: read_line_def) (simp add: same_coroutines_def)
next
  case (Inr d)
  obtain q u where "receive_frame E i d t = (q, u)" by (metis surj_pair)
  moreover from this have "same_coroutines t u" using receive_frame_coroutines [of t E i d] by simp
  ultimately show ?thesis
    using Inr by (cases q) (simp_all add: read_line_def, simp_all add: same_coroutines_def)
qed

lemma finish_attest_frame: "\<exists>h out. finish_attest E hid fresh ok1 ok2 t = t\<lparr>tr_host := h, tr_out := out\<rparr>"
proof (cases "dict_get (tr_host t) hid")
  case None
  then have "finish_attest E hid fresh ok1 ok2 t = t\<lparr>tr_host := tr_host t, tr_out := tr_out t\<rparr>"
    by (simp add: finish_attest_def)
  then show ?thesis by blast
next
  case (Some params)
  define h where "h = dict_pop hid (tr_host t)"
  have em: "\<exists>out. u = t\<lparr>tr_host := h, tr_out := out\<rparr>"
    if "emit E f ok (t\<lparr>tr_host := h, tr_out := o'\<rparr>) = (q, u)" for f ok o' q u
    using emit_frame [OF that] by auto
  obtain q u where u: "(case attested t params fresh of Inl e \<Rightarrow> (Inl e, t\<lparr>tr_host := h\<rparr>)
      | Inr f \<Rightarrow> emit E (result_frame hid (wire_context f)) ok1 (t\<lparr>tr_host := h\<rparr>)) = (q, u)" by (metis surj_pair)
  have "\<exists>out. u = t\<lparr>tr_host := h, tr_out := out\<rparr>"
    using u em [where o' = "tr_out t"] by (cases "attested t params fresh") (auto intro: exI [where x = "tr_out t"])
  then obtain o2 where o2: "u = t\<lparr>tr_host := h, tr_out := o2\<rparr>" ..
  obtain q' w where w: "emit E (rejection hid ''context_rejected'') ok2 u = (q', w)" by (metis surj_pair)
  then obtain o3 where "w = t\<lparr>tr_host := h, tr_out := o3\<rparr>" using em [where o' = o2] o2 by blast
  moreover have "finish_attest E hid fresh ok1 ok2 t = (case q of Inr _ \<Rightarrow> u | Inl _ \<Rightarrow> if tr_closed u then u else w)"
    unfolding finish_attest_def Some option.case Let_def h_def [symmetric] u by (simp add: w split: sum.split)
  ultimately show ?thesis using o2 by (cases q) auto
qed

lemma finish_attest_coroutines: "same_coroutines t (finish_attest E hid fresh ok1 ok2 t)"
  using finish_attest_frame [of E hid fresh ok1 ok2 t] by (auto simp: same_coroutines_def)

lemma tstep_ends_one: "ends_one t (tstep E t e)"
  by (cases e) (simp_all add: tstep_def ends_one_call ends_one_sent ends_one_resume ends_one_interrupt
      ends_one_deliver same_coroutines_ends read_line_coroutines finish_attest_coroutines, simp add: ends_one_def)

interpretation outcomes: invariant_system "tstep E" single_outcomes for E
  by unfold_locales (rule single_outcomes_step [OF _ tstep_ends_one])

section \<open>Values come from results\<close>

text \<open>The outcome is what the codec makes of the answer the request holds.\<close>

definition earned :: "tr_env \<Rightarrow> transport \<Rightarrow> string \<Rightarrow> outcome \<Rightarrow> bool" where
  "earned E t rid out =
     (\<forall>x. out = Inr x \<longrightarrow>
        (\<exists>p v st st'. dict_get (tr_pending t) rid = Some p \<and> pn_future p = FutResult v \<and>
           result_dto (te_scopes E) (te_scope_commands E) (pn_method p) v rid st = (Inr x, st')))"

definition from_answers :: "tr_env \<Rightarrow> transport \<Rightarrow> transport \<Rightarrow> bool" where
  "from_answers E t t' \<longleftrightarrow>
     (\<forall>rid p' v. dict_get (tr_pending t') rid = Some p' \<longrightarrow> pn_future p' = FutResult v \<longrightarrow>
        (\<exists>p. dict_get (tr_pending t) rid = Some p \<and> pn_future p = FutResult v \<and> pn_method p = pn_method p')) \<and>
     (\<forall>rid out. (rid, out) \<in> set (tr_results t') \<longrightarrow> (rid, out) \<in> set (tr_results t) \<or> earned E t rid out)"

lemma earned_Inl [simp]: "earned E t rid (Inl e)"
  by (simp add: earned_def)

lemma earned_isl: "isl out \<Longrightarrow> earned E t rid out"
  by (cases out) auto

lemma from_answersI:
  "tr_results t' = tr_results t \<Longrightarrow> tr_pending t' = tr_pending t \<Longrightarrow> from_answers E t t'"
  by (auto simp: from_answers_def)

lemma from_answers_set:
  assumes "tr_results t' = tr_results t" "tr_pending t' = dict_set rid p' (tr_pending t)"
    and "\<And>v. pn_future p' = FutResult v \<Longrightarrow>
      \<exists>p. dict_get (tr_pending t) rid = Some p \<and> pn_future p = FutResult v \<and> pn_method p = pn_method p'"
  shows "from_answers E t t'"
  using assms by (auto simp: from_answers_def dict_get_set split: if_splits)

lemma from_answers_cleanup_end:
  "earned E t rid out \<Longrightarrow> from_answers E t (cleanup_end rid p out t)"
  using cleanup_end_frame [of rid p out t] by (auto simp: from_answers_def earned_isl)

lemma from_answers_cleanup:
  assumes "earned E t rid out"
  shows "from_answers E t (cleanup_begin rid p out t)"
proof -
  have "\<exists>p. dict_get (tr_pending t) r = Some p \<and> pn_future p = FutResult v \<and> pn_method p = pn_method p'"
    if "dict_get (dict_pop rid (tr_pending t)) r = Some p'" "pn_future p' = FutResult v" for r p' v
    using that by (auto simp: dict_get_pop split: if_splits)
  then show ?thesis
    using assms
    by (cases rule: cleanup_begin_cases [of rid p out t])
      (auto simp: from_answers_def cleanup_begin_pending earned_isl)
qed

lemma from_answers_via:
  "from_answers E u t' \<Longrightarrow> tr_results u = tr_results t \<Longrightarrow> tr_pending u = tr_pending t \<Longrightarrow> from_answers E t t'"
  by (simp add: from_answers_def earned_def)

lemma from_answers_call: "from_answers E t (snd (call E inputs meth v callback t))"
proof -
  define rid where "rid = request_id (Suc (tr_serial t))"
  have new: "dict_get (tr_pending (opened meth callback t)) r = Some p' \<Longrightarrow> pn_future p' = FutResult w \<Longrightarrow>
      r \<noteq> rid \<and> dict_get (tr_pending t) r = Some p'" for r p' w
    by (auto simp: opened_def rid_def dict_get_set split: if_splits)
  have u: "from_answers E t u" if "tr_results u = tr_results t" "tr_pending u = tr_pending (opened meth callback t)" for u
    using new that unfolding from_answers_def by fastforce
  have c: "from_answers E t (cleanup_begin rid p (Inl e) u)"
    if "tr_results u = tr_results t" "tr_pending u = tr_pending (opened meth callback t)" for u p e
  proof -
    have "\<exists>q. dict_get (tr_pending t) r = Some q \<and> pn_future q = FutResult w \<and> pn_method q = pn_method p'"
      if "dict_get (tr_pending (cleanup_begin rid p (Inl e) u)) r = Some p'" "pn_future p' = FutResult w" for r p' w
    proof -
      have "dict_get (tr_pending (opened meth callback t)) r = Some p'"
        using that \<open>tr_pending u = tr_pending (opened meth callback t)\<close>
        by (auto simp: cleanup_begin_pending dict_get_pop split: if_splits)
      then show ?thesis using new that(2) by blast
    qed
    moreover have "(r, out) \<in> set (tr_results t) \<or> isl out"
      if "(r, out) \<in> set (tr_results (cleanup_begin rid p (Inl e) u))" for r out
      using that \<open>tr_results u = tr_results t\<close> by (cases rule: cleanup_begin_cases [of rid p "Inl e" u]) auto
    ultimately show ?thesis unfolding from_answers_def using earned_isl by blast
  qed
  have "from_answers E t (snd (open_request E inputs meth v callback t))"
  proof (cases rule: open_request_frame [of E inputs meth v callback t])
    case (refused e)
    then show ?thesis by (simp add: from_answersI)
  next
    case (stuck e st)
    then show ?thesis by (simp add: u opened_def)
  next
    case (tried st p)
    show ?thesis
      by (cases rule: emit_request_frame [of E inputs "request_id (Suc (tr_serial t))" p v
            "(opened meth callback t)\<lparr>tr_artifacts := st\<rparr>"])
        (simp_all add: tried c u opened_def rid_def [symmetric])
  qed
  then show ?thesis by (simp add: call_def from_answersI)
qed

lemma from_answers_sent: "from_answers E t (sent E rid ok t)"
  by (auto simp: sent_def from_answers_cleanup split: option.splits phase.splits intro: from_answersI)

lemma from_answers_complete:
  assumes "dict_get (tr_pending t) rid = Some p" "pn_future p = FutResult v"
  shows "from_answers E t (complete_request E rid p v t)"
proof (cases "pn_failure p")
  case (Some e)
  then show ?thesis by (simp add: complete_request_def from_answers_cleanup)
next
  case None
  obtain r st where r: "result_dto (te_scopes E) (te_scope_commands E) (pn_method p) v rid (tr_artifacts t) = (r, st)"
    by (metis surj_pair)
  have "earned E (t\<lparr>tr_artifacts := st\<rparr>) rid r" using assms r by (auto simp: earned_def)
  then have "from_answers E t (cleanup_begin rid p r (t\<lparr>tr_artifacts := st\<rparr>))"
    by (intro from_answers_via [OF from_answers_cleanup]) simp_all
  then show ?thesis using None r by (simp add: complete_request_def)
qed

lemma from_answers_drain:
  "dict_get (tr_pending t) rid = Some p \<Longrightarrow> pn_future p = FutResult v \<Longrightarrow> from_answers E t (drain E rid p v t)"
  by (simp add: drain_def from_answers_complete from_answers_cleanup from_answersI split: delivery.split)

lemma from_answers_resume:
  assumes "\<forall>r. slot_ok (tr_serial t) r (slot_of t r)"
  shows "from_answers E t (resume_request E rid t)"
proof -
  have d: "pn_future p = FutResult v"
    if "dict_get (tr_running t) rid = Some (Draining v)" "dict_get (tr_pending t) rid = Some p" for v p
    using assms that by (auto simp: slot_ok_def)
  have c: "isl out" if "dict_get (tr_running t) rid = Some (Cleaning p out skip)" for p out skip
    using assms that by (auto simp: slot_ok_def)
  have l: "from_answers E t (leave rid t)" by (auto simp: leave_def from_answers_def)
  show ?thesis
    using d c l
    by (auto simp: resume_request_def from_answers_drain from_answers_cleanup from_answers_cleanup_end earned_isl
        split: option.split phase.split fut.split intro: from_answersI)
qed

lemma from_answers_interrupt: "from_answers E t (interrupt E rid written t)"
proof -
  have w: "from_answers E t (cleanup_begin rid p (Inl e) (if written then write_frame E f t else t))" for p e f
    by (rule from_answers_via [OF from_answers_cleanup]) simp_all
  have f: "from_answers E t (set_pending rid (p\<lparr>pn_future := FutCancelled\<rparr>) t)" for p
    by (rule from_answers_set [where rid = rid and p' = "p\<lparr>pn_future := FutCancelled\<rparr>"])
      (simp_all add: set_pending_def)
  have m: "from_answers E t (t\<lparr>tr_running := d\<rparr>)" for d
    by (rule from_answersI) simp_all
  have n: "from_answers E t t" by (rule from_answersI) simp_all
  show ?thesis
    unfolding interrupt_def by (simp only: w f m n split: option.split phase.split prod.split if_split) (simp add: w f m n)
qed

lemma from_answers_update:
  assumes "dict_get (tr_pending t) rid = Some p" "pn_future p' = pn_future p" "pn_method p' = pn_method p"
  shows "from_answers E t (t\<lparr>tr_pending := dict_set rid p' (tr_pending t), tr_event_count := n, tr_shown := l\<rparr>)"
  by (rule from_answers_set [where rid = rid and p' = p']) (use assms in auto)

lemma from_answers_deliver: "from_answers E t (deliver rid how t)"
proof (cases "dict_get (tr_pending t) rid")
  case None
  have "from_answers E t (t\<lparr>tr_running := d, tr_event_count := n\<rparr>)" for d n
    by (rule from_answersI) simp_all
  moreover have "from_answers E t t" by (rule from_answersI) simp_all
  ultimately show ?thesis
    using None by (simp add: deliver_def split: option.split phase.split prod.split list.split delivery.split)
next
  case (Some p)
  have c: "from_answers E t ((set_pending rid (close_delivery s p) t)\<lparr>tr_event_count := n\<rparr>)" for s n
    using from_answers_update [where p' = "close_delivery s p" and n = n and l = "tr_shown t", OF Some]
    by (simp add: set_pending_def)
  have q: "from_answers E t ((set_pending rid (p\<lparr>pn_events := es\<rparr>) t)\<lparr>tr_shown := l\<rparr>)" for es l
    using from_answers_update [where p' = "p\<lparr>pn_events := es\<rparr>" and n = "tr_event_count t" and l = l, OF Some]
    by (simp add: set_pending_def)
  have n: "from_answers E t t" by (rule from_answersI) simp_all
  show ?thesis
    using Some by (simp add: deliver_def c q n split: prod.split list.split delivery.split)
qed

lemma finish_attest_pending: "tr_pending (finish_attest E hid fresh ok1 ok2 t) = tr_pending t"
  using finish_attest_frame [of E hid fresh ok1 ok2 t] by auto

lemma from_answers_attest: "from_answers E t (finish_attest E hid fresh ok1 ok2 t)"
  using finish_attest_coroutines [of t E hid fresh ok1 ok2]
  by (intro from_answersI) (simp_all add: finish_attest_pending same_coroutines_def)

subsection \<open>Lines\<close>

text \<open>A line that carries the result \<open>v\<close> for request \<open>rid\<close>.\<close>

definition result_line :: "tr_env \<Rightarrow> bytes \<Rightarrow> string \<Rightarrow> pyval \<Rightarrow> bool" where
  "result_line E line rid v =
     (case decode_line (te_fread E) (te_other E) line of
        Inl _ \<Rightarrow> False
      | Inr d \<Rightarrow> pget ''type'' d = Some (PStr ''result'') \<and> pget ''request_id'' d = Some (PStr rid) \<and>
          pget ''result'' d = Some v)"

definition unanswered :: "transport \<Rightarrow> string \<Rightarrow> string \<Rightarrow> bool" where
  "unanswered t rid meth =
     (case dict_get (tr_pending t) rid of
        None \<Rightarrow> False
      | Some p \<Rightarrow> pn_future p = FutPending \<and> pn_method p = meth)"

definition answers :: "transport \<Rightarrow> string \<Rightarrow> pyval \<Rightarrow> string \<Rightarrow> bool" where
  "answers t rid v meth =
     (case dict_get (tr_pending t) rid of
        None \<Rightarrow> False
      | Some p \<Rightarrow> pn_future p = FutResult v \<and> pn_method p = meth)"

lemma answers_frame: "tr_pending t' = tr_pending t \<Longrightarrow> answers t' = answers t"
  by (simp add: answers_def fun_eq_iff)

lemma object_fields_get:
  "object_fields a n (PDict d) = Inr d' \<Longrightarrow> d' = d \<and> (\<forall>k\<in>set n. \<exists>v. pget k d = Some v)"
  by (auto simp: object_fields_def list_all_iff split: if_splits)

lemma ident_str: "ident v = Inr s \<Longrightarrow> v = PStr s"
  by (auto simp: ident_def split: pyval.splits if_splits)

lemma receive_answer_answers:
  assumes "answers (snd (receive_answer kind d t)) rid v meth"
  shows "answers t rid v meth \<or>
    kind = ''result'' \<and> pget ''request_id'' d = Some (PStr rid) \<and> pget ''result'' d = Some v \<and> unanswered t rid meth"
proof (cases "bind_r (object_fields (answer_fields kind) (answer_fields kind) (PDict d)) (\<lambda>_.
             ident (pget_or PNone ''request_id'' d))")
  case (Inl e)
  then show ?thesis using assms by (simp add: receive_answer_def)
next
  case (Inr r)
  then have o: "object_fields (answer_fields kind) (answer_fields kind) (PDict d) = Inr d"
    and i: "ident (pget_or PNone ''request_id'' d) = Inr r"
    using object_fields_get by (auto simp: bind_r_def split: sum.splits)
  obtain w u where f: "pget kind d = Some w" "pget ''request_id'' d = Some u"
    using object_fields_get [OF o] by (auto simp: answer_fields_def)
  have u: "u = PStr r" using ident_str [OF i] f by (simp add: pget_or_def)
  show ?thesis
  proof (cases "dict_get (tr_cancelled t) r = None")
    case False
    then show ?thesis using assms Inr by (simp add: receive_answer_def)
  next
    case True
    then show ?thesis
      using assms Inr f u
      by (auto simp: receive_answer_def fulfil_def set_pending_def answers_def unanswered_def dict_get_set pget_or_def
          split: option.splits sum.splits if_splits)
  qed
qed

lemma receive_frame_answers:
  assumes "answers (snd (receive_frame E i d t)) rid v meth"
  shows "answers t rid v meth \<or>
    pget ''type'' d = Some (PStr ''result'') \<and> pget ''request_id'' d = Some (PStr rid) \<and>
    pget ''result'' d = Some v \<and> unanswered t rid meth"
proof -
  have a: "answers (snd (receive_attest d t)) = answers t"
    by (rule answers_frame) (simp add: receive_attest_def split: sum.split)
  have m: "answers (snd (receive_media E i d t)) = answers t"
    using receive_media_frame [of E i d t] by (cases "receive_media E i d t") (fastforce intro: answers_frame)
  show ?thesis
    using assms receive_answer_answers
    by (auto simp: receive_frame_def a m split: option.splits pyval.splits if_splits)
qed

lemma stop_answers: "answers (stop_reading t) rid v meth = answers t rid v meth"
  by (auto simp: answers_def stop_reading_def eof_def dict_get_apsnd close_future_def split: option.split)

lemma read_line_answers:
  assumes "answers (read_line E i line t) rid v meth"
  shows "answers t rid v meth \<or> result_line E line rid v \<and> unanswered t rid meth"
proof (cases "decode_line (te_fread E) (te_other E) line")
  case (Inl e)
  then show ?thesis using assms by (simp add: read_line_def stop_answers split: if_splits)
next
  case (Inr d)
  obtain q u where u: "receive_frame E i d t = (q, u)" by (metis surj_pair)
  have "answers t rid v meth \<or> answers u rid v meth"
    using assms Inr u by (cases q) (simp_all add: read_line_def stop_answers split: if_splits)
  then show ?thesis using receive_frame_answers [of E i d t rid v meth] u Inr by (auto simp: result_line_def)
qed

text \<open>One step: an answer in the table was there, or this step is the line that brings it.\<close>

lemma from_answers_answers: "from_answers E t t' \<Longrightarrow> answers t' rid v meth \<Longrightarrow> answers t rid v meth"
  unfolding from_answers_def answers_def by (force split: option.splits)

lemma tstep_from_answers:
  assumes "\<forall>r. slot_ok (tr_serial t) r (slot_of t r)" "\<And>i line. e \<noteq> Line i line"
  shows "from_answers E t (tstep E t e)"
proof (cases e)
  case (Line i line)
  then show ?thesis using assms(2) by blast
next
  case (Resume rid)
  then show ?thesis using from_answers_resume [OF assms(1)] by (simp add: tstep_def)
next
  case (Outside fs)
  show ?thesis by (rule from_answersI) (simp_all add: tstep_def Outside)
qed (simp_all add: tstep_def from_answers_call from_answers_sent from_answers_interrupt from_answers_deliver
    from_answers_attest)

lemma tstep_answers:
  assumes "\<forall>r. slot_ok (tr_serial t) r (slot_of t r)" "answers (tstep E t e) rid v meth"
  shows "answers t rid v meth \<or> (\<exists>i line. e = Line i line \<and> result_line E line rid v \<and> unanswered t rid meth)"
proof (cases "\<exists>i line. e = Line i line")
  case True
  then show ?thesis using assms(2) read_line_answers by (fastforce simp: tstep_def)
next
  case False
  then show ?thesis using tstep_from_answers assms from_answers_answers by blast
qed

lemma tstep_results:
  assumes "\<forall>r. slot_ok (tr_serial t) r (slot_of t r)" "(rid, Inr x) \<in> set (tr_results (tstep E t e))"
  shows "(rid, Inr x) \<in> set (tr_results t) \<or> (\<exists>v meth st st'. answers t rid v meth \<and>
    result_dto (te_scopes E) (te_scope_commands E) meth v rid st = (Inr x, st'))"
proof (cases "\<exists>i line. e = Line i line")
  case True
  then show ?thesis using assms(2) read_line_coroutines by (fastforce simp: tstep_def same_coroutines_def)
next
  case False
  then have "from_answers E t (tstep E t e)" using tstep_from_answers assms(1) by blast
  then show ?thesis using assms(2) by (fastforce simp: from_answers_def earned_def answers_def)
qed

subsection \<open>Runs\<close>

text \<open>Somewhere in the run the host's result arrived while the request was open.\<close>

definition answered_in :: "tr_env \<Rightarrow> transport \<Rightarrow> tevent list \<Rightarrow> string \<Rightarrow> pyval \<Rightarrow> string \<Rightarrow> bool" where
  "answered_in E t es rid v meth =
     (\<exists>xs i line ys. es = xs @ Line i line # ys \<and> result_line E line rid v \<and>
        unanswered (run_ops (tstep E) t xs) rid meth)"

lemma answered_in_more: "answered_in E t es rid v meth \<Longrightarrow> answered_in E t (es @ zs) rid v meth"
  unfolding answered_in_def by (metis append.assoc append_Cons)

lemma ends_one_serial: "ends_one t t' \<Longrightarrow> tr_serial t \<le> tr_serial t'"
  by (simp add: ends_one_def)

lemma run_snoc: "run_ops f s (xs @ [x]) = f (run_ops f s xs) x"
  by (simp add: run_ops_append)

text \<open>Fewer than \<open>10^100\<close> requests: then every state on the way satisfies the invariant.\<close>

lemma run_slots:
  assumes "transport_ok t" "tr_serial (run_ops (tstep E) t es) < SERIAL_LIMIT"
  shows "\<forall>r. slot_ok (tr_serial (run_ops (tstep E) t es)) r (slot_of (run_ops (tstep E) t es) r)"
  using channel.run_inv [OF assms(1)] assms(2) by (auto simp: transport_ok_def)

lemma run_history:
  assumes ok: "transport_ok t" and none: "\<forall>rid v meth. \<not> answers t rid v meth" and fresh: "tr_results t = []"
    and lim: "tr_serial (run_ops (tstep E) t es) < SERIAL_LIMIT"
  shows "(\<forall>rid v meth. answers (run_ops (tstep E) t es) rid v meth \<longrightarrow> answered_in E t es rid v meth) \<and>
    (\<forall>rid x. (rid, Inr x) \<in> set (tr_results (run_ops (tstep E) t es)) \<longrightarrow>
       (\<exists>v meth st st'. answered_in E t es rid v meth \<and>
          result_dto (te_scopes E) (te_scope_commands E) meth v rid st = (Inr x, st')))"
  using lim
proof (induction es rule: rev_induct)
  case Nil
  then show ?case using none fresh by simp
next
  case (snoc e es)
  let ?t = "run_ops (tstep E) t es"
  have t: "run_ops (tstep E) t (es @ [e]) = tstep E ?t e" by (rule run_snoc)
  have lim: "tr_serial ?t < SERIAL_LIMIT"
    using snoc.prems ends_one_serial [OF tstep_ends_one [of ?t E e]] by (simp add: t)
  note IH = snoc.IH [OF lim] and s = run_slots [OF ok lim]
  have "answered_in E t (es @ [e]) rid v meth" if "answers (tstep E ?t e) rid v meth" for rid v meth
  proof -
    have "answers ?t rid v meth \<or> (\<exists>i line. e = Line i line \<and> result_line E line rid v \<and> unanswered ?t rid meth)"
      by (rule tstep_answers [OF s that])
    then show ?thesis
    proof
      assume "answers ?t rid v meth"
      then show ?thesis using IH answered_in_more by blast
    qed (auto simp: answered_in_def)
  qed
  moreover have "\<exists>v meth st st'. answered_in E t (es @ [e]) rid v meth \<and>
      result_dto (te_scopes E) (te_scope_commands E) meth v rid st = (Inr x, st')"
    if "(rid, Inr x) \<in> set (tr_results (tstep E ?t e))" for rid x
    using tstep_results [OF s that] IH answered_in_more by blast
  ultimately show ?case by (simp add: t)
qed

section \<open>Successful outcomes\<close>

text \<open>Only completing an answered request adds a value; every other way out is an exception.\<close>

definition only_errors :: "transport \<Rightarrow> transport \<Rightarrow> bool" where
  "only_errors t t' = (\<forall>r x. (r, Inr x) \<in> set (tr_results t') \<longrightarrow> (r, Inr x) \<in> set (tr_results t))"

lemma only_errors_same: "tr_results t' = tr_results t \<Longrightarrow> only_errors t t'"
  by (simp add: only_errors_def)

lemma only_errors_cleanup_end: "isl out \<Longrightarrow> tr_results u = tr_results t \<Longrightarrow> only_errors t (cleanup_end rid p out u)"
  using cleanup_end_frame [of rid p out u] by (auto simp: only_errors_def)

lemma only_errors_cleanup: "tr_results u = tr_results t \<Longrightarrow> only_errors t (cleanup_begin rid p (Inl e) u)"
  by (cases rule: cleanup_begin_cases [of rid p "Inl e" u]) (auto simp: only_errors_def)

lemma only_errors_call: "only_errors t (snd (call E inputs meth v callback t))"
proof -
  have "only_errors t (snd (open_request E inputs meth v callback t))"
  proof (cases rule: open_request_frame [of E inputs meth v callback t])
    case (tried st p)
    show ?thesis
      by (cases rule: emit_request_frame [of E inputs "request_id (Suc (tr_serial t))" p v
            "(opened meth callback t)\<lparr>tr_artifacts := st\<rparr>"])
        (simp_all add: tried only_errors_cleanup only_errors_same opened_def)
  qed (simp_all add: only_errors_same opened_def)
  then show ?thesis by (simp add: call_def only_errors_same)
qed

lemma only_errors_sent: "only_errors t (sent E rid ok t)"
  by (simp add: sent_def only_errors_cleanup only_errors_same split: option.split phase.split)

lemma only_errors_interrupt: "only_errors t (interrupt E rid written t)"
  by (simp add: interrupt_def set_pending_def only_errors_cleanup only_errors_same split: option.split phase.split)

lemma only_errors_deliver: "only_errors t (deliver rid how t)"
  by (simp add: deliver_def set_pending_def only_errors_same
      split: option.split phase.split prod.split list.split delivery.split)

text \<open>The deliveries of a request that \<open>drain\<close> completes.\<close>

lemma drain_completes:
  assumes "\<not> only_errors t (drain E rid p v t)" "in_order sh (pn_events p)"
  shows "all_shown (pn_events p) \<and> sh = map fst (pn_events p)"
proof -
  have "only_errors t (drain E rid p v t)" if "pn_events p \<noteq> []" "snd (last (pn_events p)) \<noteq> Shown"
    using that by (simp add: drain_def only_errors_cleanup only_errors_same split: delivery.split)
  then have "pn_events p = [] \<or> snd (last (pn_events p)) = Shown" using assms(1) by blast
  then show ?thesis using in_order_complete [OF assms(2)] by blast
qed

text \<open>A coroutine that goes on writes its own outcome.\<close>

lemma cleanup_begin_results:
  "tr_results u = tr_results t \<Longrightarrow> \<exists>ns. tr_results (cleanup_begin rid p out u) = tr_results t @ ns \<and> fst ` set ns \<subseteq> {rid}"
  by (cases rule: cleanup_begin_cases [of rid p out u]) auto

lemma complete_results: "\<exists>ns. tr_results (complete_request E rid p v t) = tr_results t @ ns \<and> fst ` set ns \<subseteq> {rid}"
  by (auto simp: complete_request_def cleanup_begin_results split: option.split prod.split)

lemma drain_results: "\<exists>ns. tr_results (drain E rid p v t) = tr_results t @ ns \<and> fst ` set ns \<subseteq> {rid}"
  by (simp add: drain_def complete_results cleanup_begin_results split: delivery.split)

lemma resume_results: "\<exists>ns. tr_results (resume_request E rid t) = tr_results t @ ns \<and> fst ` set ns \<subseteq> {rid}"
proof -
  have "\<exists>ns. tr_results (cleanup_end rid p out t) = tr_results t @ ns \<and> fst ` set ns \<subseteq> {rid}" for p out
    using cleanup_end_frame(3) [of rid p out t] by auto
  then show ?thesis
    by (simp add: resume_request_def drain_results cleanup_begin_results leave_def
        split: option.split phase.split fut.split)
qed

lemma resume_completes:
  assumes s: "\<forall>r. slot_ok (tr_serial t) r (slot_of t r)" and new: "\<not> only_errors t (resume_request E rid t)"
  shows "\<exists>p. dict_get (tr_pending t) rid = Some p \<and> all_shown (pn_events p) \<and> log_of t rid = map fst (pn_events p)"
proof -
  have c: "isl out" if "dict_get (tr_running t) rid = Some (Cleaning p out skip)" for p out skip
    using s that by (auto simp: slot_ok_def)
  have l: "only_errors t (leave rid t)" by (auto simp: leave_def only_errors_def)
  have n: "only_errors t t" by (simp add: only_errors_def)
  have "\<exists>p v. dict_get (tr_pending t) rid = Some p \<and> \<not> only_errors t (drain E rid p v t)"
    using new by (auto simp: resume_request_def only_errors_cleanup only_errors_cleanup_end c l n
        split: option.splits phase.splits fut.splits if_splits)
  then obtain p v where p: "dict_get (tr_pending t) rid = Some p" "\<not> only_errors t (drain E rid p v t)" by blast
  then have "in_order (log_of t rid) (pn_events p)" using s by (auto simp: slot_ok_def)
  with p drain_completes show ?thesis by blast
qed

lemma tstep_completes:
  assumes s: "\<forall>r. slot_ok (tr_serial t) r (slot_of t r)"
    and new: "(rid, Inr x) \<in> set (tr_results (tstep E t e))" "(rid, Inr x) \<notin> set (tr_results t)"
  shows "\<exists>p. dict_get (tr_pending t) rid = Some p \<and> all_shown (pn_events p) \<and> log_of t rid = map fst (pn_events p)"
proof -
  have not_only: "\<not> only_errors t (tstep E t e)" using new by (auto simp: only_errors_def)
  have same: "only_errors t u" if "same_coroutines t u" for u using that by (simp add: same_coroutines_def only_errors_same)
  obtain r where e: "e = Resume r"
    using not_only only_errors_call only_errors_sent only_errors_interrupt only_errors_deliver
      same [OF read_line_coroutines] same [OF finish_attest_coroutines]
    by (cases e) (auto simp: tstep_def only_errors_same)
  have "ends_one t (tstep E t e)" by (rule tstep_ends_one)
  then obtain o' r' where o: "tr_results (tstep E t e) = tr_results t @ [(r', o')]"
    using new by (auto simp: ends_one_def)
  then have rid: "r' = rid" using new by simp
  have "r = rid"
  proof (rule ccontr)
    assume "r \<noteq> rid"
    then show False using o rid e resume_results [of E r t] by (auto simp: tstep_def)
  qed
  then show ?thesis using resume_completes [OF s] not_only e by (simp add: tstep_def)
qed

section \<open>Who releases a scope\<close>

text \<open>Only a request's own coroutine ends its scope, so a scope without a coroutine is kept.\<close>

definition keeps_others :: "transport \<Rightarrow> transport \<Rightarrow> bool" where
  "keeps_others t t' =
     (\<forall>r\<in>scope_ids (tr_artifacts t). r \<notin> scope_ids (tr_artifacts t') \<longrightarrow>
        dict_get (tr_running t) r \<noteq> None \<or> begun t t' r)"

definition stranded :: "string \<Rightarrow> transport \<Rightarrow> bool" where
  "stranded rid t \<longleftrightarrow>
     rid \<in> scope_ids (tr_artifacts t) \<and> dict_get (tr_running t) rid = None \<and> issued (tr_serial t) rid"

lemma stranded_step:
  assumes "stranded rid t" "keeps_others t t'" "ends_one t t'"
  shows "stranded rid t'"
proof -
  have "\<not> begun t t' rid" using assms(1) begun_issued by (auto simp: stranded_def)
  then show ?thesis
    using assms issued_mono [of "tr_serial t" rid "tr_serial t'"]
    by (auto simp: stranded_def keeps_others_def ends_one_def)
qed

lemma keeps_others_same: "same_scopes (tr_artifacts t) (tr_artifacts t') \<Longrightarrow> keeps_others t t'"
  by (simp add: keeps_others_def same_scopes_def)

lemma scope_ids_cleanup_end:
  "scope_ids (tr_artifacts (cleanup_end rid p out t)) = scope_ids (tr_artifacts t) - {rid}"
proof -
  obtain r st where e: "end_request rid (tr_artifacts t) = (r, st)" by (metis surj_pair)
  show ?thesis using scope_ids_end [OF e] by (simp add: cleanup_end_def Let_def e)
qed

lemma scope_ids_cleanup_begin:
  "scope_ids (tr_artifacts t) - {rid} \<subseteq> scope_ids (tr_artifacts (cleanup_begin rid p out t))"
  by (auto simp: cleanup_begin_def Let_def scope_ids_cleanup_end)

lemma keeps_others_cleanup:
  assumes "same_scopes (tr_artifacts t) (tr_artifacts u)" "dict_get (tr_running t) rid \<noteq> None"
  shows "keeps_others t (cleanup_begin rid p out u)" "keeps_others t (cleanup_end rid p out u)"
  using assms scope_ids_cleanup_begin [of u rid p out] scope_ids_cleanup_end [of rid p out u]
  by (auto simp: keeps_others_def same_scopes_def)

lemma open_request_scopes:
  "scope_ids (tr_artifacts t) - {request_id (Suc (tr_serial t))} \<subseteq>
     scope_ids (tr_artifacts (snd (open_request E inputs meth v callback t)))"
proof (cases "tr_closed t \<or> length (tr_pending t) \<ge> MAX_PENDING \<or> history_error E meth v t \<noteq> None \<or>
    request_limit meth v t > 16 \<and> input_count v > 16")
  case True
  then have "snd (open_request E inputs meth v callback t) = t"
    by (auto simp: open_request_def Let_def split: option.splits)
  then show ?thesis by auto
next
  case False
  define limit where "limit = request_limit meth v t"
  define rid where "rid = request_id (Suc (tr_serial t))"
  define p where
    "p = \<lparr>pn_method = meth, pn_future = FutPending, pn_callback = callback, pn_events = [], pn_failure = None\<rparr>"
  obtain r st where b: "begin_request (PStr rid) limit (if limit > 16 then Some INPUT_BYTES else None) (tr_artifacts t) = (r, st)"
    by (metis surj_pair)
  define u where "u = (opened meth callback t)\<lparr>tr_artifacts := st\<rparr>"
  have bs: "scope_ids (tr_artifacts t) \<subseteq> scope_ids st" using b
    by (auto simp: begin_request_def Let_def scope_ids_get dict_get_set split: sum.splits if_splits)
  have o: "snd (open_request E inputs meth v callback t) =
      (case r of Inl e \<Rightarrow> u | Inr _ \<Rightarrow> snd (emit_request E inputs rid p v u))"
    using False b unfolding open_request_def limit_def [symmetric] rid_def [symmetric] p_def [symmetric]
    by (auto simp: Let_def u_def opened_def p_def rid_def split: sum.splits)
  have e: "scope_ids st - {rid} \<subseteq> scope_ids (tr_artifacts (snd (emit_request E inputs rid p v u)))"
  proof -
    obtain q st' n where w: "to_wire (te_sha E) inputs rid v (tr_artifacts u, 0) = (q, (st', n))" by (metis surj_pair)
    have same: "scope_ids st' = scope_ids st"
      using keeps_step [OF keeps_to_wire w] by (simp add: same_scopes_fst_def same_scopes_def u_def)
    have "scope_ids st' - {rid} \<subseteq> scope_ids (tr_artifacts (cleanup_begin rid p out (u\<lparr>tr_artifacts := st'\<rparr>)))" for out
      using scope_ids_cleanup_begin [of "u\<lparr>tr_artifacts := st'\<rparr>" rid p out] by simp
    then show ?thesis using same by (auto simp: emit_request_def w Let_def split: sum.split)
  qed
  show ?thesis using o e bs by (cases r) (auto simp: u_def rid_def)
qed

lemma keeps_others_call: "keeps_others t (snd (call E inputs meth v callback t))"
proof -
  have "keeps_others t (snd (open_request E inputs meth v callback t))"
  proof (cases rule: open_request_frame [of E inputs meth v callback t])
    case (refused e)
    then show ?thesis by (simp add: keeps_others_same same_scopes_def)
  next
    case (stuck e st)
    then show ?thesis using open_request_scopes [of t E inputs meth v callback]
      by (auto simp: keeps_others_def begun_def opened_def)
  next
    case (tried st p)
    have "tr_serial (snd (open_request E inputs meth v callback t)) = Suc (tr_serial t)"
      unfolding tried(3)
      by (cases rule: emit_request_frame [of E inputs "request_id (Suc (tr_serial t))" p v
            "(opened meth callback t)\<lparr>tr_artifacts := st\<rparr>"]) (simp_all add: opened_def)
    then show ?thesis using open_request_scopes [of t E inputs meth v callback]
      by (auto simp: keeps_others_def begun_def)
  qed
  then show ?thesis by (simp add: call_def keeps_others_same same_scopes_def)
qed

lemma keeps_others_refl: "tr_artifacts t' = tr_artifacts t \<Longrightarrow> keeps_others t t'"
  by (simp add: keeps_others_def)

lemma write_frame_artifacts [simp]: "tr_artifacts (write_frame E f t) = tr_artifacts t"
  by (simp add: write_frame_def split: sum.splits)

lemma keeps_others_sent: "keeps_others t (sent E rid ok t)"
  by (simp add: sent_def keeps_others_cleanup keeps_others_refl scopes.R_refl split: option.split phase.split)

lemma keeps_others_drain:
  assumes "dict_get (tr_running t) rid \<noteq> None"
  shows "keeps_others t (drain E rid p v t)"
proof -
  have "same_scopes (tr_artifacts t) st"
    if "result_dto a c m w rid (tr_artifacts t) = (r, st)" for a c m w r st
    using keeps_step [OF keeps_result_dto that] .
  then have "keeps_others t (complete_request E rid p v t)"
    using assms by (auto simp: complete_request_def keeps_others_cleanup scopes.R_refl split: option.split prod.split)
  then show ?thesis
    using assms by (simp add: drain_def keeps_others_cleanup keeps_others_refl scopes.R_refl split: delivery.split)
qed

lemma keeps_others_resume: "keeps_others t (resume_request E rid t)"
  by (simp add: resume_request_def leave_def keeps_others_drain keeps_others_cleanup keeps_others_refl scopes.R_refl
      split: option.split phase.split fut.split)

lemma keeps_others_interrupt: "keeps_others t (interrupt E rid written t)"
  by (simp add: interrupt_def set_pending_def keeps_others_cleanup keeps_others_refl scopes.R_refl
      split: option.split phase.split)

lemma keeps_others_deliver: "keeps_others t (deliver rid how t)"
  by (rule keeps_others_refl)
    (simp add: deliver_def set_pending_def split: option.split phase.split prod.split list.split delivery.split)

lemma receive_frame_scopes: "same_scopes (tr_artifacts t) (tr_artifacts (snd (receive_frame E i d t)))"
proof -
  have a: "tr_artifacts (snd (receive_answer kind d t)) = tr_artifacts t" for kind
    by (simp add: receive_answer_def fulfil_def set_pending_def split: sum.split option.split)
  have b: "tr_artifacts (snd (receive_attest d t)) = tr_artifacts t"
    by (simp add: receive_attest_def split: sum.split)
  have c: "same_scopes (tr_artifacts t) (tr_artifacts (snd (receive_media E i d t)))"
    using receive_media_frame [of E i d t] by (cases "receive_media E i d t") fastforce
  show ?thesis by (simp add: receive_frame_def a b c scopes.R_refl split: option.split pyval.split)
qed

lemma read_line_scopes: "same_scopes (tr_artifacts t) (tr_artifacts (read_line E i line t))"
proof (cases "decode_line (te_fread E) (te_other E) line")
  case (Inl e)
  then show ?thesis by (simp add: read_line_def stop_reading_def eof_def scopes.R_refl)
next
  case (Inr d)
  obtain q u where u: "receive_frame E i d t = (q, u)" by (metis surj_pair)
  then have "same_scopes (tr_artifacts t) (tr_artifacts u)" using receive_frame_scopes [of t E i d] by simp
  then show ?thesis
    using Inr u by (cases q) (simp_all add: read_line_def stop_reading_def eof_def scopes.R_refl)
qed

lemma finish_attest_artifacts: "tr_artifacts (finish_attest E hid fresh ok1 ok2 t) = tr_artifacts t"
  using finish_attest_frame [of E hid fresh ok1 ok2 t] by auto

lemma tstep_keeps_others: "keeps_others t (tstep E t e)"
proof (cases e)
  case (Line i line)
  then show ?thesis using read_line_scopes by (simp add: tstep_def keeps_others_same)
next
  case (Outside fs)
  then show ?thesis by (simp add: tstep_def keeps_others_same same_scopes_def)
qed (simp_all add: tstep_def keeps_others_call keeps_others_sent keeps_others_resume keeps_others_interrupt
    keeps_others_deliver keeps_others_refl finish_attest_artifacts)

interpretation stranding: invariant_system "tstep E" "stranded rid" for E rid
  by unfold_locales (rule stranded_step [OF _ tstep_keeps_others tstep_ends_one])

end
