(* ===== verification/Channel_Runner.thy ===== *)
theory Channel_Runner
  imports Channel_Answers
begin

text \<open>
  The runner around the transport (\<open>channel-bridges/stdio.py\<close>): the configuration frame, the start of
  \<open>serve\<close>, the description, and the reader that cuts the input stream into lines.
\<close>

section \<open>Configuration\<close>

text \<open>\<open>_CONFIG\<close>: the required and the allowed keys of each provider.\<close>

definition provider_config :: "string \<Rightarrow> (string list \<times> string list) option" where
  "provider_config p =
     map_of
       [(''slack'', ([''bot_token''], [''bot_token'', ''app_token'', ''allowed_users'', ''listen_channels'',
           ''context_messages'', ''personality'', ''live'', ''delivery_mode'', ''acknowledgement_text''])),
        (''discord'', ([''token''], [''token'', ''allowed_users'', ''allowed_guilds'', ''listen_channels'',
           ''dm_only'', ''members_intent'', ''context_messages'', ''personality'', ''live'', ''delivery_mode'',
           ''acknowledgement_text''])),
        (''telegram'', ([''token''], [''token'', ''allowed_users'', ''allowed_chats'', ''streaming'',
           ''personality'', ''live''])),
        (''whatsapp'', ([''instance_id'', ''api_token''], [''instance_id'', ''api_token'', ''allowed_users'',
           ''personality'', ''live'']))] p"

definition hosted_required :: "string list" where
  "hosted_required = [''service_origin'', ''service_binding_id'', ''session_token'', ''service_app_id'']"

definition hosted_allowed :: "string list" where
  "hosted_allowed = hosted_required @ [''allowed_users'', ''listen_channels'', ''context_messages'', ''personality'', ''live'']"

definition starts_with :: "string \<Rightarrow> string \<Rightarrow> bool" where
  "starts_with p s = (take (length p) s = p)"

text \<open>The check of one entry of \<open>config\<close>, by its name.\<close>

definition config_value_ok :: "string \<Rightarrow> pyval \<Rightarrow> bool" where
  "config_value_ok name v =
     (if name \<in> {''live'', ''streaming'', ''dm_only'', ''members_intent''} then (case v of PBool _ \<Rightarrow> True | _ \<Rightarrow> False)
      else if name = ''context_messages''
      then (case v of PInt n \<Rightarrow> 0 \<le> n \<and> n \<le> int MAX_CONTEXT_MESSAGES | _ \<Rightarrow> False)
      else if starts_with ''allowed_'' name \<or> name = ''listen_channels''
      then (case v of
              PList xs \<Rightarrow> length xs \<le> 1000 \<and> list_all (\<lambda>x. case x of PStr _ \<Rightarrow> True | PInt _ \<Rightarrow> True | _ \<Rightarrow> False) xs
            | _ \<Rightarrow> False)
      else (case v of PNone \<Rightarrow> True | PStr s \<Rightarrow> length (utf8 s) \<le> 16384 | _ \<Rightarrow> False))"

definition config_entry_ok :: "pyval \<times> pyval \<Rightarrow> bool" where
  "config_entry_ok kv = (case fst kv of PStr name \<Rightarrow> config_value_ok name (snd kv) | _ \<Rightarrow> False)"

definition delivery_mode_ok :: "(pyval \<times> pyval) list \<Rightarrow> bool" where
  "delivery_mode_ok config =
     (case pget ''delivery_mode'' config of
        None \<Rightarrow> True
      | Some m \<Rightarrow> (m = PStr ''quiet'' \<or> m = PStr ''live'') \<and> pget ''live'' config = None)"

definition required_ok :: "(pyval \<times> pyval) list \<Rightarrow> string \<Rightarrow> bool" where
  "required_ok config name = (case pget name config of Some (PStr s) \<Rightarrow> s \<noteq> [] | _ \<Rightarrow> False)"

text \<open>The bridge class that is built, its binding and its keyword arguments.\<close>

record bridge_choice =
  br_class :: string
  br_binding :: pyval
  br_config :: "(pyval \<times> pyval) list"

definition bridge_class :: "string \<Rightarrow> bool \<Rightarrow> string" where
  "bridge_class p hosted =
     (if hosted then ''HostedSlackBridge''
      else if p = ''slack'' then ''SlackBridge''
      else if p = ''discord'' then ''DiscordBridge''
      else if p = ''telegram'' then ''TelegramBridge''
      else ''WhatsAppBridge'')"

definition configure_fields :: "string list" where
  "configure_fields = [''protocol'', ''type'', ''request_id'', ''provider'', ''binding_id'', ''config'']"

definition hosted_slack :: "string \<Rightarrow> pyval \<Rightarrow> bool" where
  "hosted_slack p config =
     (p = ''slack'' \<and> (case config of PDict c \<Rightarrow> pget ''service_origin'' c \<noteq> None | _ \<Rightarrow> False))"

definition configure :: "(pyval \<times> pyval) list \<Rightarrow> wire_exn + bridge_choice" where
  "configure frame =
     bind_r (object_fields configure_fields configure_fields (PDict frame)) (\<lambda>_.
     bind_r (ident (pget_or PNone ''request_id'' frame)) (\<lambda>_.
     bind_r (ident (pget_or PNone ''binding_id'' frame)) (\<lambda>_.
       if pget ''type'' frame \<noteq> Some (PStr ''configure'') then wire_err ''invalid_configuration''
       else case pget_or PNone ''provider'' frame of
              PStr p \<Rightarrow>
                (case provider_config p of
                   None \<Rightarrow> wire_err ''invalid_configuration''
                 | Some local_keys \<Rightarrow>
                     let raw = pget_or PNone ''config'' frame; hosted = hosted_slack p raw;
                         (needed, allowed) = (if hosted then (hosted_required, hosted_allowed) else local_keys)
                     in bind_r (object_fields allowed needed raw) (\<lambda>config.
                          if \<not> delivery_mode_ok config then wire_err ''invalid_configuration''
                          else if \<not> list_all config_entry_ok config then wire_err ''invalid_configuration''
                          else if \<not> list_all (required_ok config) needed then wire_err ''invalid_configuration''
                          else Inr \<lparr>br_class = bridge_class p hosted, br_binding = pget_or PNone ''binding_id'' frame,
                                    br_config = config\<rparr>))
            | _ \<Rightarrow> wire_err ''invalid_configuration'')))"

section \<open>Start\<close>

text \<open>
  \<open>serve\<close> up to the reading loop. Building the bridge is a parameter: it fails, or it says whether
  the bridge can attest contexts. The first event of the run that follows is the call of \<open>start\<close>.
\<close>

definition configured_frame :: "string \<Rightarrow> transport \<Rightarrow> (pyval \<times> pyval) list" where
  "configured_frame rid t =
     [(PStr ''type'', PStr ''configured''), (PStr ''request_id'', PStr rid),
      (PStr ''provider'', PStr (tr_provider t)), (PStr ''binding_id'', PStr (tr_binding t)),
      (PStr ''providers'', PList (map PStr PROVIDERS)), (PStr ''context_attestation'', PBool (tr_can_attest t))]"

definition serve_start ::
  "tr_env \<Rightarrow> (bridge_choice \<Rightarrow> wire_exn + bool) \<Rightarrow> bool \<Rightarrow> fsys \<Rightarrow> bytes \<Rightarrow> wire_exn + transport" where
  "serve_start E build ok fs line =
     bind_r (decode_line (te_fread E) (te_other E) line) (\<lambda>first.
     bind_r (new_transport (pget_or PNone ''binding_id'' first) (pget_or PNone ''provider'' first) False fs) (\<lambda>t.
     bind_r (configure first) (\<lambda>choice.
     bind_r (build choice) (\<lambda>attests.
     bind_r (ident (pget_or PNone ''request_id'' first)) (\<lambda>rid.
       let t1 = t\<lparr>tr_can_attest := attests\<rparr>
       in case emit E (configured_frame rid t1) ok t1 of
            (Inl e, _) \<Rightarrow> Inl e
          | (Inr _, t2) \<Rightarrow> Inr t2)))))"

definition METHODS :: "string list" where
  "METHODS = [''start'', ''authorize_context'', ''authorize_delivery'', ''send'', ''command'', ''transcribe'',
     ''synthesize'', ''stop'']"

text \<open>The answer to \<open>--describe\<close>; the version and the Core scopes are parameters.\<close>

definition describe :: "string \<Rightarrow> string list \<Rightarrow> pyval" where
  "describe version core_scopes =
     PDict [(PStr ''protocol'', PStr PROTOCOL), (PStr ''type'', PStr ''description''),
       (PStr ''package_version'', PStr version), (PStr ''providers'', PList (map PStr PROVIDERS)),
       (PStr ''hosted_modes'', PDict [(PStr ''slack'', PStr ''openagent-slack-channel/v1'')]),
       (PStr ''max_line_bytes'', PInt (int MAX_LINE)), (PStr ''max_pending'', PInt (int MAX_PENDING)),
       (PStr ''max_chunk_bytes'', PInt (int MAX_CHUNK)), (PStr ''max_artifact_bytes'', PInt (int MAX_ARTIFACT)),
       (PStr ''methods'', PList (map PStr METHODS)),
       (PStr ''host_methods'', PList [PStr ''attest_context'']), (PStr ''context_attestation'', PBool True),
       (PStr ''artifact_methods'', PList (map PStr [''read_artifact'', ''upload_begin'', ''upload_chunk'', ''upload_finish''])),
       (PStr ''core_commands'', PList (map PStr (sort_key (map char_code) core_scopes)))]"

section \<open>The reader\<close>

text \<open>\<open>readline(limit)\<close> on a stream: through the next newline, at most \<open>limit\<close> bytes.\<close>

definition readline :: "nat \<Rightarrow> bytes \<Rightarrow> bytes" where
  "readline limit s = take (min limit (Suc (length (takeWhile (\<lambda>b. b \<noteq> NEWLINE) s)))) s"

text \<open>The lines the reader thread hands to \<open>serve\<close>; the empty line at the end is the end of input.\<close>

function reader :: "bytes \<Rightarrow> bytes list" where
  "reader s =
     (let line = readline (Suc MAX_LINE) s
      in if line = [] \<or> length line > MAX_LINE then [line] else line # reader (drop (length line) s))"
  by pat_completeness auto
termination
  by (relation "measure length") (auto simp: readline_def)

declare reader.simps [simp del]

subsection \<open>Frames over a stream\<close>

lemma escape_char_no_newline: "CHR 0x0A \<notin> set (escape_char c)"
proof -
  have "hex_char n \<noteq> CHR 0x0A" if "n < 16" for n
  proof
    assume "hex_char n = CHR 0x0A"
    then have "char_code (hex_char n) = char_code (CHR 0x0A)" by simp
    then show False using that by (auto simp: hex_char_def char_code_def split: if_splits)
  qed
  then have "hex_char (char_code c mod 16) \<noteq> CHR 0x0A" "char_code c < 32 \<Longrightarrow> hex_char (char_code c div 16) \<noteq> CHR 0x0A"
    by simp_all
  then show ?thesis by (auto simp: escape_char_def)
qed

lemma string_text_no_newline: "CHR 0x0A \<notin> set (string_text s)"
  using escape_char_no_newline by (auto simp: string_text_def escapes_def)

lemma dec_text_no_newline: "CHR 0x0A \<notin> set (dec_text n)"
  using dec_text_plain [of n] by (auto simp: list_all_iff char_code_def)

lemma int_text_no_newline: "int_text i = Some t \<Longrightarrow> CHR 0x0A \<notin> set t"
  using dec_text_no_newline by (auto simp: int_text_def Let_def split: if_splits)

lemma join_opt_set:
  "join_opt xs = Some t \<Longrightarrow> c \<in> set t \<Longrightarrow> c \<noteq> CHR '','' \<Longrightarrow> \<exists>a. Some a \<in> set xs \<and> c \<in> set a"
proof (induction xs arbitrary: t rule: join_opt.induct)
  case (3 x y xs)
  then obtain a b where "x = Some a" "join_opt (y # xs) = Some b" "c \<in> set a \<or> c \<in> set b"
    by (auto split: option.splits)
  then show ?case using 3(1) [of b] 3(4) by auto
qed auto

lemma key_text_no_newline:
  "key_text frepr k = Some t \<Longrightarrow> is_str k \<Longrightarrow> CHR 0x0A \<notin> set (string_text t)"
  by (rule string_text_no_newline)

lemma member_text_no_newline:
  "member_text k v = Some t \<Longrightarrow> (\<And>b. v = Some b \<Longrightarrow> CHR 0x0A \<notin> set b) \<Longrightarrow> CHR 0x0A \<notin> set t"
  using string_text_no_newline by (auto simp: member_text_def split: option.splits)

lemma json_text_no_newline:
  "\<forall>r. CHR 0x0A \<notin> set (frepr r) \<Longrightarrow> json_text frepr v = Some t \<Longrightarrow> CHR 0x0A \<notin> set t"
proof (induction frepr v arbitrary: t rule: json_text.induct)
  case (3 frepr i)
  then show ?case using int_text_no_newline by simp
next
  case (4 frepr f)
  then show ?case by (cases f) (auto simp: float_text_def)
next
  case (5 frepr s)
  then show ?case using string_text_no_newline by auto
next
  case (7 frepr xs)
  then show ?case by (fastforce dest!: join_opt_set)
next
  case (8 frepr kvs)
  obtain b where b: "join_opt (map (\<lambda>(k, v). member_text (key_text frepr k) (json_text frepr v)) kvs) = Some b"
    "t = CHR ''{'' # b @ ''}''"
    using 8(3) by auto
  have "CHR 0x0A \<notin> set b"
  proof
    assume "CHR 0x0A \<in> set b"
    then obtain a k v where kv: "(k, v) \<in> set kvs" "member_text (key_text frepr k) (json_text frepr v) = Some a"
      "CHR 0x0A \<in> set a"
      using join_opt_set [OF b(1), of "CHR 0x0A"] by (auto simp: eq_commute)
    have "CHR 0x0A \<notin> set u" if "json_text frepr v = Some u" for u
      using 8(1) [OF kv(1) refl 8(2) that] .
    then show False using member_text_no_newline [OF kv(2)] kv(3) by blast
  qed
  then show ?case using b(2) by auto
qed (auto split: if_splits)

text \<open>An encoded frame is one line.\<close>

lemma utf8_no_newline:
  assumes "CHR 0x0A \<notin> set s"
  shows "NEWLINE \<notin> set (utf8 s)"
proof -
  have n: "NEWLINE \<notin> set (utf8_char c)" if "c \<noteq> CHR 0x0A" for c
  proof
    assume "NEWLINE \<in> set (utf8_char c)"
    then have "\<exists>n. n < 256 \<and> word_of_nat n = NEWLINE \<and> (n = char_code c \<or> 128 \<le> n)"
    proof (cases "char_code c < 128")
      case False
      have "char_code c < 256" by simp
      then have "char_code c div 64 < 4" by linarith
      moreover have "char_code c mod 64 < 64" by simp
      ultimately show ?thesis
        using \<open>NEWLINE \<in> set (utf8_char c)\<close> False
        by (auto simp: utf8_char_def Let_def simp del: of_nat_add
            intro: exI [where x = "192 + char_code c div 64"] exI [where x = "128 + char_code c mod 64"])
    qed (auto simp: utf8_char_def intro: exI [where x = "char_code c"])
    then obtain n where "n < 256" "word_of_nat n = NEWLINE" "n = char_code c \<or> 128 \<le> n" by blast
    then have "n = 10" using unat_byte [of n] by (simp add: NEWLINE_def)
    then have "char_code c = char_code (CHR 0x0A)"
      using \<open>n = char_code c \<or> 128 \<le> n\<close> by (simp add: char_code_def)
    then show False using that char_code_inject by blast
  qed
  have "NEWLINE \<notin> set (utf8_char c)" if "c \<in> set s" for c
    using n [of c] assms that by blast
  then show ?thesis by (simp add: utf8_def)
qed

lemma encode_line_shape:
  assumes "encode_line frepr v = Inr line" "\<forall>r. CHR 0x0A \<notin> set (frepr r)"
  obtains body where "line = body @ [NEWLINE]" "NEWLINE \<notin> set body" "length line \<le> MAX_LINE"
proof -
  obtain t where t: "json_text frepr v = Some t" and line: "line = utf8 t @ [NEWLINE]" "length line \<le> MAX_LINE"
    using assms(1) by (auto simp: encode_line_def bind_r_Inr_iff Let_def split: option.splits if_splits)
  have "NEWLINE \<notin> set (utf8 t)" by (rule utf8_no_newline [OF json_text_no_newline [OF assms(2) t]])
  then show thesis using that line by blast
qed

lemma readline_line:
  assumes "line = body @ [NEWLINE]" "NEWLINE \<notin> set body" "length line \<le> limit"
  shows "readline limit (line @ s) = line"
proof -
  have "takeWhile (\<lambda>b. b \<noteq> NEWLINE) (body @ NEWLINE # s) = body"
    using assms(2) by (subst takeWhile_append2) auto
  then show ?thesis using assms by (simp add: readline_def min_def)
qed

lemma reader_line:
  assumes "line = body @ [NEWLINE]" "NEWLINE \<notin> set body" "length line \<le> MAX_LINE"
  shows "reader (line @ s) = line # reader s"
proof -
  have "readline (Suc MAX_LINE) (line @ s) = line" by (rule readline_line [OF assms(1,2)]) (use assms(3) in simp)
  then show ?thesis using assms by (subst reader.simps) (simp add: Let_def)
qed

lemma reader_Nil: "reader [] = [[]]"
  by (subst reader.simps) (simp add: readline_def)

lemma reader_frames:
  assumes "\<forall>r. CHR 0x0A \<notin> set (frepr r)"
  shows "list_all2 (\<lambda>d line. encode_line frepr (PDict d) = Inr line) ds lines \<Longrightarrow> reader (concat lines) = lines @ [[]]"
proof (induction rule: list_all2_induct)
  case (Cons d ds line lines)
  from encode_line_shape [OF Cons(1) assms] obtain body where
    b: "line = body @ [NEWLINE]" "NEWLINE \<notin> set body" "length line \<le> MAX_LINE" .
  from reader_line [OF b, of "concat lines"] show ?case using Cons.IH by simp
qed (simp add: reader_Nil)

section \<open>Properties\<close>

lemma result_dto_bool:
  assumes "result_dto a c meth v rid st = (Inr (DBool granted), st')"
  shows "v = PBool granted \<and> meth \<in> {''authorize_context'', ''authorize_delivery''}"
proof (cases "meth \<in> {''authorize_context'', ''authorize_delivery''}")
  case True
  then show ?thesis using assms by (auto simp: result_dto_def ret_s_def raise_s_def split: pyval.splits)
next
  case False
  then show ?thesis
    using assms
    by (auto simp: result_dto_def ret_s_def raise_s_def lift_s_def bind_s_def bind_r_def
        split: if_splits sum.splits prod.splits pyval.splits)
qed

text \<open>The states of a transport started on any file system.\<close>

lemma run_ok: "new_transport b p a fs = Inr t \<Longrightarrow> transport_ok (run_ops (tstep E) t es)"
  by (rule channel.run_inv [OF new_transport_ok])

lemma new_transport_empty:
  "new_transport b p a fs = Inr t \<Longrightarrow> tr_pending t = [] \<and> tr_running t = [] \<and> tr_results t = []"
  by (auto simp: new_transport_def bind_r_def split: sum.splits pyval.splits if_splits)

text \<open>
  C10: The runner's tables stay bounded in every run: at most 64 requests wait for an answer, 128 cancelled
  ones are remembered and 64 host requests are served at a time. The counter of progress deliveries is
  exact and at most 64. A request is in the table exactly while its coroutine is outside the
  \<open>finally\<close> block, and as long as it runs it has its scope in the artifact store.
\<close>

theorem channel_bounded:
  assumes "new_transport b p a fs = Inr t0" "t = run_ops (tstep E) t0 es" "tr_serial t < SERIAL_LIMIT"
  shows "length (tr_pending t) \<le> MAX_PENDING \<and> length (tr_cancelled t) \<le> 2 * MAX_PENDING \<and>
    length (tr_host t) \<le> MAX_PENDING \<and> tr_event_count t \<le> MAX_PENDING \<and>
    tr_event_count t = total_of live (tr_pending t) + total_of phase_live (tr_running t) \<and>
    (\<forall>rid. dict_get (tr_pending t) rid \<noteq> None \<longleftrightarrow> (\<exists>ph. dict_get (tr_running t) rid = Some ph \<and> \<not> cleaning ph)) \<and>
    (\<forall>rid. dict_get (tr_running t) rid \<noteq> None \<longrightarrow> rid \<in> scope_ids (tr_artifacts t))"
proof -
  have "transport_ok t" using run_ok assms(1,2) by blast
  then have g: "glob_ok t" and s: "\<And>r. slot_ok (tr_serial t) r (slot_of t r)"
    using assms(3) by (auto simp: transport_ok_def)
  have "dict_get (tr_pending t) rid \<noteq> None \<longleftrightarrow> (\<exists>ph. dict_get (tr_running t) rid = Some ph \<and> \<not> cleaning ph)"
    "dict_get (tr_running t) rid \<noteq> None \<longrightarrow> rid \<in> scope_ids (tr_artifacts t)" for rid
    using s [of rid] by (auto simp: slot_ok_def)
  then show ?thesis using g by (simp add: glob_ok_def)
qed

text \<open>
  C12: Every request ends at most once, with one outcome, and never runs again afterwards; outcomes belong
  to requests that were issued.
\<close>

theorem request_ends_once:
  assumes "new_transport b p a fs = Inr t0" "t = run_ops (tstep E) t0 es"
  shows "distinct (map fst (tr_results t)) \<and>
    (\<forall>rid\<in>fst ` set (tr_results t). dict_get (tr_running t) rid = None \<and> issued (tr_serial t) rid)"
proof -
  have "single_outcomes t0" using new_transport_empty [OF assms(1)] by (simp add: single_outcomes_def)
  then have "single_outcomes t" unfolding assms(2) by (rule outcomes.run_inv)
  then show ?thesis by (simp add: single_outcomes_def)
qed

text \<open>
  C3: A request comes back with a value only if the host sent a result frame with its identifier while it
  was waiting for its answer, and the value is what the codec reads from that frame. In particular an
  authorisation is granted only by the value \<open>True\<close>, for a request that asked for an authorisation.
\<close>

theorem answers_come_from_host:
  assumes "new_transport b p a fs = Inr t0" "t = run_ops (tstep E) t0 es" "tr_serial t < SERIAL_LIMIT"
    and "(rid, Inr x) \<in> set (tr_results t)"
  shows "\<exists>xs i line ys v meth st st'. es = xs @ Line i line # ys \<and> result_line E line rid v \<and>
    unanswered (run_ops (tstep E) t0 xs) rid meth \<and>
    result_dto (te_scopes E) (te_scope_commands E) meth v rid st = (Inr x, st') \<and>
    (\<forall>granted. x = DBool granted \<longrightarrow> v = PBool granted \<and> meth \<in> {''authorize_context'', ''authorize_delivery''})"
proof -
  note e = new_transport_empty [OF assms(1)]
  have none: "\<forall>rid v meth. \<not> answers t0 rid v meth" using e by (simp add: answers_def)
  from run_history [OF new_transport_ok [OF assms(1)] none, of E es] obtain v meth st st' where
    h: "answered_in E t0 es rid v meth" "result_dto (te_scopes E) (te_scope_commands E) meth v rid st = (Inr x, st')"
    using e assms(2-4) by blast
  have "v = PBool granted \<and> meth \<in> {''authorize_context'', ''authorize_delivery''}" if "x = DBool granted" for granted
    by (rule result_dto_bool [OF h(2) [unfolded that]])
  then show ?thesis using h unfolding answered_in_def by blast
qed

text \<open>
  C11: Progress comes before the reply and in order. When a request comes back with a value, all progress
  the host sent for it has been handed to the bridge, one event after the other in the order of arrival.
\<close>

theorem reply_after_progress:
  assumes "new_transport b p a fs = Inr t0" "t = run_ops (tstep E) t0 es" "tr_serial t < SERIAL_LIMIT"
    and "(rid, Inr x) \<in> set (tr_results (tstep E t e))" "(rid, Inr x) \<notin> set (tr_results t)"
  shows "\<exists>p. dict_get (tr_pending t) rid = Some p \<and> all_shown (pn_events p) \<and>
    log_of t rid = map fst (pn_events p)"
proof -
  have "\<forall>r. slot_ok (tr_serial t) r (slot_of t r)"
    using run_ok [OF assms(1)] assms(2,3) by (auto simp: transport_ok_def)
  then show ?thesis by (rule tstep_completes [OF _ assms(4,5)])
qed

text \<open>
  Once the channel has stopped reading, no request waits for an answer any more, and every later
  request is refused without any effect.
\<close>

theorem stopped_channel_settles:
  assumes "new_transport b p a fs = Inr t0" "t = run_ops (tstep E) t0 es" "tr_serial t < SERIAL_LIMIT" "tr_closed t"
  shows "(\<forall>rid meth. \<not> unanswered t rid meth) \<and>
    (\<forall>inputs meth v callback. isl (fst (call E inputs meth v callback t)) \<and>
       snd (call E inputs meth v callback t) = t)"
proof -
  have "\<forall>r. slot_ok (tr_serial t) r (slot_of t r)"
    using run_ok [OF assms(1)] assms(2,3) by (auto simp: transport_ok_def)
  then show ?thesis
    using assms(4) by (auto simp: unanswered_def slot_ok_def call_def open_request_def split: option.splits)
qed

text \<open>
  C26: Cancelling a request while progress is being shown can stop the whole channel. Between leaving the
  table and being remembered as cancelled the coroutine waits for its deliveries; a late answer that
  arrives in this window is taken for an unknown request, which ends the reading loop and fails every
  other request that waits.
\<close>

theorem late_reply_stops_channel:
  assumes "new_transport b p a fs = Inr t0" "t = run_ops (tstep E) t0 es" "tr_serial t < SERIAL_LIMIT"
    and "dict_get (tr_running t) rid = Some (Cleaning q out skip)" "tr_reading t"
    and "result_line E line rid v"
  shows "tr_closed (read_line E i line t) \<and> \<not> tr_reading (read_line E i line t) \<and>
    (\<forall>other w. dict_get (tr_pending t) other = Some w \<longrightarrow> pn_future w = FutPending \<longrightarrow>
       dict_get (tr_pending (read_line E i line t)) other = Some (w\<lparr>pn_future := FutFailed HostClosed\<rparr>))"
proof -
  have "slot_ok (tr_serial t) rid (slot_of t rid)"
    using run_ok [OF assms(1)] assms(2,3) by (auto simp: transport_ok_def)
  then have "dict_get (tr_pending t) rid = None" "\<not> tomb (tr_cancelled t) rid"
    using assms(4) by (auto simp: slot_ok_def)
  then have none: "dict_get (tr_pending t) rid = None" "dict_get (tr_cancelled t) rid = None"
    unfolding tomb_def by blast+
  obtain d where d: "decode_line (te_fread E) (te_other E) line = Inr d" "pget ''type'' d = Some (PStr ''result'')"
    "pget ''request_id'' d = Some (PStr rid)"
    using assms(6) by (auto simp: result_line_def split: sum.splits)
  have "isl (fst (receive_answer ''result'' d t)) \<and> snd (receive_answer ''result'' d t) = t"
    using none d(3)
    by (auto dest!: ident_str simp: receive_answer_def pget_or_def bind_r_def split: sum.split option.splits)
  then obtain e where "receive_frame E i d t = (Inl e, t)"
    using d(2) by (cases "receive_answer ''result'' d t") (auto simp: receive_frame_def isl_def)
  moreover have "line \<noteq> []" using d(1) by (auto simp: decode_line_def)
  ultimately have "read_line E i line t = stop_reading t" using assms(5) d(1) by (simp add: read_line_def)
  then show ?thesis by (simp add: stop_reading_def eof_def dict_get_apsnd close_future_def)
qed

lemma scope_ids_end_all:
  "end_all rs st = (Inr (), st') \<Longrightarrow> scope_ids st' = scope_ids st - set rs"
proof (induction rs arbitrary: st)
  case Nil
  then show ?case by simp
next
  case (Cons r rs)
  then obtain st1 where st1: "end_request r st = (Inr (), st1)" "end_all rs st1 = (Inr (), st')"
    by (auto simp: bind_s_Inr_iff)
  show ?case using Cons.IH [OF st1(2)] scope_ids_end [OF st1(1)] by auto
qed

lemma close_ends_scopes:
  assumes "fst (close_store (tr_artifacts t)) = Inr ()"
  shows "scope_ids (tr_artifacts (close_transport t)) = {}"
proof -
  obtain st where st: "close_store (tr_artifacts t) = (Inr (), st)"
    using assms by (cases "close_store (tr_artifacts t)") simp
  have "scope_ids st = {}" using scope_ids_end_all [OF st [unfolded close_store_def]] by (simp add: scope_ids_def)
  then show ?thesis using st by (simp add: close_transport_def eof_def)
qed

text \<open>
  C40: A request that was cancelled a second time while it waited for its deliveries to end is never
  cleaned up while the channel runs: it leaves without being remembered as cancelled, and its
  scope, with its files and its share of the quotas, stays in the artifact store whatever else happens
  on the channel, until the transport as a whole is closed. Closing, when no file operation fails,
  ends that scope with all the others.
\<close>

theorem second_cancel_strands:
  assumes "new_transport b p a fs = Inr t0" "t = run_ops (tstep E) t0 es" "tr_serial t < SERIAL_LIMIT"
    and "dict_get (tr_running t) rid = Some (Cleaning q out True)" "live q = 0"
  shows "let stuck = run_ops (tstep E) t (Resume rid # later) in
    \<not> tomb (tr_cancelled (tstep E t (Resume rid))) rid \<and>
    rid \<in> scope_ids (tr_artifacts stuck) \<and> dict_get (tr_running stuck) rid = None \<and>
    (fst (close_store (tr_artifacts stuck)) = Inr () \<longrightarrow>
       rid \<notin> scope_ids (tr_artifacts (close_transport stuck)))"
proof -
  have s: "slot_ok (tr_serial t) rid (slot_of t rid)"
    using run_ok [OF assms(1)] assms(2,3) by (auto simp: transport_ok_def)
  have u: "tstep E t (Resume rid) = leave rid t"
    using assms(4,5) by (simp add: tstep_def resume_request_def)
  have "stranded rid (leave rid t)" "\<not> tomb (tr_cancelled (leave rid t)) rid"
    using s assms(4) by (auto simp: stranded_def leave_def dict_get_pop slot_ok_def)
  moreover from this(1) have "stranded rid (run_ops (tstep E) t (Resume rid # later))"
    using stranding.run_inv by (simp add: u)
  ultimately show ?thesis using close_ends_scopes by (simp add: u stranded_def Let_def)
qed

text \<open>
  C15: Frames survive the stream. Any sequence of frames that encode, written one after the other, is cut
  by the reader into exactly these lines followed by the end of input, and every line decodes to its
  frame. Frames are dictionaries with distinct texts as keys that name the protocol, and the printed form
  of a float contains no line break and is read back by \<open>float\<close>.
\<close>

theorem stream_round_trip:
  assumes enc: "list_all2 (\<lambda>d line. encode_line frepr (PDict d) = Inr line) ds lines"
    and keys: "\<forall>d\<in>set ds. json_like (\<lambda>kvs. distinct (map fst kvs)) (float_ok fread frepr) (PDict d) \<and>
      pget ''protocol'' d = Some (PStr PROTOCOL)"
    and floats: "\<forall>r. CHR 0x0A \<notin> set (frepr r)"
  shows "reader (concat lines) = lines @ [[]] \<and> map (decode_line fread other) lines = map Inr ds"
proof -
  have "map (decode_line fread other) lines = map Inr ds"
    using enc keys by (induction rule: list_all2_induct) (simp_all add: decode_encode)
  then show ?thesis using reader_frames [OF floats enc] by simp
qed

lemma new_transport_fields:
  assumes "new_transport b p a fs = Inr t"
  shows "\<exists>b' p'. b = PStr b' \<and> p = PStr p' \<and> tr_binding t = b' \<and> tr_provider t = p' \<and> tr_out t = []"
proof -
  obtain b' where "ident b = Inr b'" using assms by (auto simp: new_transport_def bind_r_Inr_iff)
  then show ?thesis using assms ident_str [of b b']
    by (cases p) (auto simp: new_transport_def bind_r_def split: if_splits)
qed

lemma emitted_Inr:
  "(case x of (Inl e, _) \<Rightarrow> Inl e | (Inr _, t) \<Rightarrow> Inr t) = Inr t' \<longleftrightarrow> x = (Inr (), t')"
  by (cases x; cases "fst x") auto

text \<open>
  A runner that starts has accepted its configuration and says so in one line: the line decodes to a
  \<open>configured\<close> frame with the request, binding and provider of the configuration frame and nothing else of
  it, in particular none of its tokens; the bridge that was built is of this provider and binding.
\<close>

theorem started_runner_announces:
  assumes "serve_start E build ok fs line = Inr t"
  shows "\<exists>first choice p rid out. decode_line (te_fread E) (te_other E) line = Inr first \<and>
    configure first = Inr choice \<and> build choice = Inr (tr_can_attest t) \<and>
    pget_or PNone ''provider'' first = PStr p \<and> tr_provider t = p \<and>
    br_class choice = bridge_class p (hosted_slack p (pget_or PNone ''config'' first)) \<and>
    br_binding choice = PStr (tr_binding t) \<and> pget_or PNone ''request_id'' first = PStr rid \<and>
    tr_out t = [out] \<and>
    decode_line fread other out = Inr ((PStr ''protocol'', PStr PROTOCOL) # configured_frame rid t)"
proof -
  obtain first t0 choice attests rid where
    first: "decode_line (te_fread E) (te_other E) line = Inr first"
    and t0: "new_transport (pget_or PNone ''binding_id'' first) (pget_or PNone ''provider'' first) False fs = Inr t0"
    and choice: "configure first = Inr choice" and built: "build choice = Inr attests"
    and rid: "ident (pget_or PNone ''request_id'' first) = Inr rid"
    and em: "emit E (configured_frame rid (t0\<lparr>tr_can_attest := attests\<rparr>)) ok (t0\<lparr>tr_can_attest := attests\<rparr>) = (Inr (), t)"
    using assms by (auto simp: serve_start_def bind_r_Inr_iff Let_def emitted_Inr)
  obtain b p where bp: "pget_or PNone ''binding_id'' first = PStr b" "pget_or PNone ''provider'' first = PStr p"
    "tr_binding t0 = b" "tr_provider t0 = p" "tr_out t0 = []"
    using new_transport_fields [OF t0] by blast
  obtain out where enc: "encode_line (te_frepr E) (frame_of (configured_frame rid (t0\<lparr>tr_can_attest := attests\<rparr>))) = Inr out"
    and t: "t = t0\<lparr>tr_can_attest := attests, tr_out := [out]\<rparr>"
    using em bp(5) by (auto simp: emit_def split: sum.splits if_splits)
  have same: "configured_frame rid (t0\<lparr>tr_can_attest := attests\<rparr>) = configured_frame rid t"
    by (simp add: t configured_frame_def)
  have "decode_line fread other out = Inr ((PStr ''protocol'', PStr PROTOCOL) # configured_frame rid t)"
    using enc unfolding same frame_of_def
    by (rule decode_encode) (simp_all add: configured_frame_def PROVIDERS_def pget_def)
  moreover have "br_class choice = bridge_class p (hosted_slack p (pget_or PNone ''config'' first)) \<and>
      br_binding choice = PStr b"
    using choice bp(1,2) by (auto simp: configure_def bind_r_Inr_iff Let_def split: option.splits prod.splits if_splits)
  ultimately show ?thesis
    using first choice built bp ident_str [OF rid] by (auto simp: t)
qed

section \<open>Sample runs\<close>

definition channel_env :: tr_env where
  "channel_env = \<lparr>te_sha = \<lambda>_. replicate 64 CHR ''0'', te_frepr = \<lambda>_. ''0.5'', te_fread = \<lambda>_. Finite (1 / 2),
     te_other = \<lambda>_. None, te_b64 = \<lambda>_. [], te_unb64 = \<lambda>_. Some [], te_scopes = [], te_scope_commands = \<lambda>_. []\<rparr>"

definition line_of :: "(pyval \<times> pyval) list \<Rightarrow> bytes" where
  "line_of d = projr (encode_line (te_frepr channel_env) (PDict d))"

definition demo_frame :: "string \<Rightarrow> pyval \<Rightarrow> (pyval \<times> pyval) list" where
  "demo_frame kind v =
     [(PStr ''protocol'', PStr PROTOCOL), (PStr ''type'', PStr kind), (PStr ''request_id'', PStr ''child-1''), (PStr kind, v)]"

definition demo_context :: bctx where
  "demo_context = \<lparr>bc_binding = ''b1'', bc_provider = ''slack'', bc_account = ''T1'', bc_actor = ''U1'',
     bc_conversation = ''C1'', bc_event = ''E1'', bc_thread = None, bc_reply_to = None, bc_kind = ''unknown'',
     bc_audience = [], bc_complete = False, bc_verified_at = PNone\<rparr>"

definition demo_message :: bmessage where
  "demo_message = \<lparr>ms_context = demo_context, ms_parts = [], ms_history = [], ms_source = ''chat'',
     ms_presentation = None, ms_conversation = None\<rparr>"

definition demo_input :: host_input where
  "demo_input = \<lparr>hi_ref = ''h1'', hi_path = ''/t'', hi_node = 1, hi_writes = [], hi_first = True, hi_second = True\<rparr>"

definition demo_started :: transport where
  "demo_started = projr (new_transport (PStr ''b1'') (PStr ''slack'') False demo_fs)"

definition demo_progress :: "(pyval \<times> pyval) list" where
  "demo_progress = demo_frame ''event'' (PDict [(PStr ''kind'', PStr ''status''), (PStr ''text'', PStr ''thinking'')])"

definition demo_granted :: "(pyval \<times> pyval) list" where "demo_granted = demo_frame ''result'' (PBool True)"
definition demo_replied :: "(pyval \<times> pyval) list" where "demo_replied = demo_frame ''result'' (PDict [])"

lemmas demo_codec = encode_line_def budget.simps MAX_VALUES_def MAX_DEPTH_def bind_r_def PROTOCOL_def string_text_def
  escapes_def escape_char_def char_code_def utf8_def utf8_char_def MAX_LINE_def Let_def key_text_def member_text_def
  demo_frame_def channel_env_def

lemma demo_lines:
  "encode_line (te_frepr channel_env) (PDict demo_granted) = Inr (line_of demo_granted)"
  "encode_line (te_frepr channel_env) (PDict demo_replied) = Inr (line_of demo_replied)"
  "encode_line (te_frepr channel_env) (PDict demo_progress) = Inr (line_of demo_progress)"
  by (simp_all add: line_of_def demo_codec demo_granted_def demo_replied_def demo_progress_def)

lemma demo_decoded:
  "decode_line fread other (line_of demo_granted) = Inr demo_granted"
  "decode_line fread other (line_of demo_replied) = Inr demo_replied"
  "decode_line fread other (line_of demo_progress) = Inr demo_progress"
  by (rule decode_encode [OF demo_lines(1)] decode_encode [OF demo_lines(2)] decode_encode [OF demo_lines(3)];
      simp add: demo_granted_def demo_replied_def demo_progress_def demo_frame_def pget_def)+

lemma demo_read:
  "decode_line fread other (line_of demo_granted) = Inr (demo_frame ''result'' (PBool True))"
  "decode_line fread other (line_of demo_replied) = Inr (demo_frame ''result'' (PDict []))"
  "decode_line fread other (line_of demo_progress) =
     Inr (demo_frame ''event'' (PDict [(PStr ''kind'', PStr ''status''), (PStr ''text'', PStr ''thinking'')]))"
  using demo_decoded by (simp_all add: demo_granted_def demo_replied_def demo_progress_def)

lemma demo_line_not_empty: "line_of demo_granted \<noteq> []" "line_of demo_replied \<noteq> []" "line_of demo_progress \<noteq> []"
  using demo_decoded by (auto simp: decode_line_def)


lemma demo_started_eq: "new_transport (PStr ''b1'') (PStr ''slack'') False demo_fs = Inr demo_started"
  by (simp add: demo_started_def new_transport_def ident_def char_code_def bind_r_def PROVIDERS_def)

lemma demo_digit: "dec_text 1 = ''1''" "request_id (Suc 0) = ''child-1''"
  by code_simp+

lemma demo_int: "int_text 1 = Some ''1''"
  using demo_digit(1) by (simp add: int_text_def MAX_DIGITS_def)

lemmas demo_calls = tstep_def call_def open_request_def emit_request_def params_context_def bound_context_def
  demo_context_def demo_message_def history_error_def request_limit_def input_count_def to_wire_def wire_context_def
  pstr_opt_def ret_s_def frame_of_def begin_request_def ident_def MAX_FILES_def INPUT_BYTES_def demo_digit demo_int
  demo_started_def new_transport_def new_store_def PROVIDERS_def MAX_PENDING_def API_VERSION_def
  dict_get_def sent_def write_frame_def bind_s_def wire_conversation_def history_size_def

text \<open>Two requests that were written: an authorisation, and a message whose progress is wanted.\<close>

definition channel_inputs :: reg_inputs where
  "channel_inputs = (\<lambda>_. undefined)"

definition demo_ask :: "tevent list" where
  "demo_ask = [Call channel_inputs ''authorize_delivery'' (ContextParams demo_context) False, Sent ''child-1'' True]"
definition demo_send :: "tevent list" where
  "demo_send = [Call channel_inputs ''send'' (MessageParams demo_message) True, Sent ''child-1'' True]"
definition demo_run_of :: "tevent list \<Rightarrow> transport" where
  "demo_run_of es = run_ops (tstep channel_env) demo_started es"

definition demo_waiting :: "string \<Rightarrow> bool \<Rightarrow> bytes list \<Rightarrow> transport" where
  "demo_waiting meth callback out =
     \<lparr>tr_binding = ''b1'', tr_provider = ''slack'', tr_can_attest = False,
       tr_pending = [(''child-1'', \<lparr>pn_method = meth, pn_future = FutPending, pn_callback = callback,
         pn_events = [], pn_failure = None\<rparr>)],
       tr_running = [(''child-1'', Waiting)], tr_serial = 1, tr_closed = False, tr_reading = True,
       tr_cancelled = [], tr_event_count = 0, tr_max_files = 16, tr_max_bytes = 65536,
       tr_artifacts = \<lparr>st_scopes = [(''child-1'', [])], st_limits = [(''child-1'', (16, None))],
         st_retained = [], st_total = 0, st_fs = demo_fs\<rparr>,
       tr_host = [], tr_out = out, tr_shown = [], tr_results = []\<rparr>"

lemma demo_asked_eq: "\<exists>out. demo_run_of demo_ask = demo_waiting ''authorize_delivery'' False out"
  by (simp add: demo_run_of_def demo_ask_def demo_waiting_def demo_calls demo_codec)

lemma demo_sent_eq: "\<exists>out. demo_run_of demo_send = demo_waiting ''send'' True out"
  by (simp add: demo_run_of_def demo_send_def demo_waiting_def demo_calls demo_codec)

lemma demo_run_append: "demo_run_of (xs @ ys) = run_ops (tstep channel_env) (demo_run_of xs) ys"
  by (simp add: demo_run_of_def run_ops_append)

lemma demo_answer_ident: "ident (PStr ''child-1'') = Inr ''child-1''"
  by (simp add: ident_def char_code_def)

lemmas demo_receives = tstep_def read_line_def demo_read demo_line_not_empty receive_frame_def receive_answer_def
  object_fields_def answer_fields_def demo_answer_ident demo_frame_def pget_def pget_or_def bind_r_def fulfil_def
  set_pending_def dict_get_def MAX_PENDING_def progress_def new_event_def check_version_def API_VERSION_def
  eq_int.simps deliver_def split_events_def start_status_def close_delivery_def note_end_def
  resume_request_def drain_def complete_request_def cleanup_begin_def cleanup_end_def live_def interrupt_def
  end_request_def dict_pop_def result_dto_def ret_s_def learn_def leave_def demo_waiting_def tombstone_def
  Let_def dict_values_def bind_s_def lift_s_def parts_dto_def new_reply_def REPLY_STATUS_def

text \<open>The authorisation is granted; the message is shown as thinking and answered, or cancelled.\<close>

definition demo_grant :: "tevent list" where
  "demo_grant = [Line demo_input (line_of demo_granted), Resume ''child-1'']"
definition demo_think :: "tevent list" where
  "demo_think = [Line demo_input (line_of demo_progress), Deliver ''child-1'' Shown]"
definition demo_reply :: "tevent list" where
  "demo_reply = [Line demo_input (line_of demo_replied), Deliver ''child-1'' Shown]"
definition demo_cancel :: "tevent list" where
  "demo_cancel = [Interrupt ''child-1'' True, Resume ''child-1'']"
definition demo_cancel_again :: "tevent list" where
  "demo_cancel_again = [Interrupt ''child-1'' True, Deliver ''child-1'' Stopped]"

lemmas demo_events = demo_grant_def demo_think_def demo_reply_def demo_cancel_def demo_cancel_again_def demo_run_append

lemma demo_grant_run:
  "(''child-1'', Inr (DBool True)) \<in> set (tr_results (demo_run_of (demo_ask @ demo_grant)))"
  "tr_serial (demo_run_of (demo_ask @ demo_grant)) < SERIAL_LIMIT"
proof -
  obtain out where a: "demo_run_of demo_ask = demo_waiting ''authorize_delivery'' False out" using demo_asked_eq by blast
  show "(''child-1'', Inr (DBool True)) \<in> set (tr_results (demo_run_of (demo_ask @ demo_grant)))"
    "tr_serial (demo_run_of (demo_ask @ demo_grant)) < SERIAL_LIMIT"
    unfolding demo_events a by (simp_all add: demo_receives SERIAL_LIMIT_def)
qed

lemma demo_reply_run:
  "tr_results (demo_run_of (demo_send @ demo_think @ demo_reply)) = []"
  "tr_serial (demo_run_of (demo_send @ demo_think @ demo_reply)) < SERIAL_LIMIT"
  "\<exists>x. (''child-1'', Inr x) \<in>
     set (tr_results (tstep channel_env (demo_run_of (demo_send @ demo_think @ demo_reply)) (Resume ''child-1'')))"
proof -
  obtain out where a: "demo_run_of demo_send = demo_waiting ''send'' True out" using demo_sent_eq by blast
  show "tr_results (demo_run_of (demo_send @ demo_think @ demo_reply)) = []"
    "tr_serial (demo_run_of (demo_send @ demo_think @ demo_reply)) < SERIAL_LIMIT"
    "\<exists>x. (''child-1'', Inr x) \<in>
       set (tr_results (tstep channel_env (demo_run_of (demo_send @ demo_think @ demo_reply)) (Resume ''child-1'')))"
    unfolding demo_events a by (simp_all add: demo_receives SERIAL_LIMIT_def)
qed

lemma demo_cancel_run:
  "\<exists>q. dict_get (tr_running (demo_run_of (demo_send @ demo_think @ demo_cancel))) ''child-1'' =
     Some (Cleaning q (Inl Cancelled) False)"
  "tr_reading (demo_run_of (demo_send @ demo_think @ demo_cancel))"
  "tr_serial (demo_run_of (demo_send @ demo_think @ demo_cancel)) < SERIAL_LIMIT"
proof -
  obtain out where a: "demo_run_of demo_send = demo_waiting ''send'' True out" using demo_sent_eq by blast
  show "\<exists>q. dict_get (tr_running (demo_run_of (demo_send @ demo_think @ demo_cancel))) ''child-1'' =
      Some (Cleaning q (Inl Cancelled) False)"
    "tr_reading (demo_run_of (demo_send @ demo_think @ demo_cancel))"
    "tr_serial (demo_run_of (demo_send @ demo_think @ demo_cancel)) < SERIAL_LIMIT"
    unfolding demo_events a by (simp_all add: demo_receives SERIAL_LIMIT_def)
qed

lemma demo_cancel_again_run:
  "\<exists>q. dict_get (tr_running (demo_run_of (demo_send @ demo_think @ demo_cancel @ demo_cancel_again))) ''child-1'' =
     Some (Cleaning q (Inl Cancelled) True) \<and> live q = 0"
  "tr_serial (demo_run_of (demo_send @ demo_think @ demo_cancel @ demo_cancel_again)) < SERIAL_LIMIT"
proof -
  obtain out where a: "demo_run_of demo_send = demo_waiting ''send'' True out" using demo_sent_eq by blast
  show "\<exists>q. dict_get (tr_running (demo_run_of (demo_send @ demo_think @ demo_cancel @ demo_cancel_again))) ''child-1'' =
      Some (Cleaning q (Inl Cancelled) True) \<and> live q = 0"
    "tr_serial (demo_run_of (demo_send @ demo_think @ demo_cancel @ demo_cancel_again)) < SERIAL_LIMIT"
    unfolding demo_events a by (simp_all add: demo_receives SERIAL_LIMIT_def)
qed

lemma demo_stop_run:
  "tr_closed (demo_run_of (demo_send @ [Line demo_input []]))"
  "tr_serial (demo_run_of (demo_send @ [Line demo_input []])) < SERIAL_LIMIT"
proof -
  obtain out where a: "demo_run_of demo_send = demo_waiting ''send'' True out" using demo_sent_eq by blast
  show "tr_closed (demo_run_of (demo_send @ [Line demo_input []]))"
    "tr_serial (demo_run_of (demo_send @ [Line demo_input []])) < SERIAL_LIMIT"
    unfolding demo_events a by (simp_all add: demo_receives SERIAL_LIMIT_def stop_reading_def eof_def)
qed

subsection \<open>The properties on these runs\<close>

theorem stream_round_trip_witness:
  "reader (concat [line_of demo_granted, line_of demo_progress]) = [line_of demo_granted, line_of demo_progress] @ [[]] \<and>
   map (decode_line (te_fread channel_env) (te_other channel_env)) [line_of demo_granted, line_of demo_progress] =
     map Inr [demo_granted, demo_progress]"
  by (rule stream_round_trip [where frepr = "te_frepr channel_env"])
    (simp_all add: demo_lines, simp_all add: demo_granted_def demo_progress_def demo_frame_def pget_def channel_env_def)

definition demo_configure :: "(pyval \<times> pyval) list" where
  "demo_configure =
     [(PStr ''protocol'', PStr PROTOCOL), (PStr ''type'', PStr ''configure''), (PStr ''request_id'', PStr ''r1''),
      (PStr ''provider'', PStr ''telegram''), (PStr ''binding_id'', PStr ''b1''),
      (PStr ''config'', PDict [(PStr ''token'', PStr ''t0''), (PStr ''live'', PBool True)])]"

lemma demo_configured:
  "isl (serve_start channel_env (\<lambda>_. Inr True) True demo_fs (line_of demo_configure)) = False"
proof -
  have l: "encode_line (te_frepr channel_env) (PDict demo_configure) = Inr (line_of demo_configure)"
    by (simp add: line_of_def demo_codec demo_configure_def)
  have d: "decode_line fread other (line_of demo_configure) = Inr demo_configure" for fread other
    by (rule decode_encode [OF l]; simp add: demo_configure_def pget_def)
  have c: "configure demo_configure = Inr \<lparr>br_class = ''TelegramBridge'', br_binding = PStr ''b1'',
      br_config = [(PStr ''token'', PStr ''t0''), (PStr ''live'', PBool True)]\<rparr>"
    by (simp add: configure_def demo_configure_def object_fields_def configure_fields_def pget_def pget_or_def
        ident_def char_code_def bind_r_def provider_config_def hosted_slack_def delivery_mode_ok_def config_entry_ok_def
        config_value_ok_def starts_with_def utf8_def utf8_char_def required_ok_def bridge_class_def Let_def)
  have i: "ident (PStr ''b1'') = Inr ''b1''" "ident (PStr ''r1'') = Inr ''r1''"
    by (simp_all add: ident_def char_code_def)
  have p: "pget_or PNone ''binding_id'' demo_configure = PStr ''b1''" "pget_or PNone ''request_id'' demo_configure = PStr ''r1''"
    "pget_or PNone ''provider'' demo_configure = PStr ''telegram''"
    by (simp_all add: demo_configure_def pget_or_def pget_def)
  show ?thesis
    by (simp add: serve_start_def d c i p new_transport_def bind_r_def PROVIDERS_def Let_def emit_def frame_of_def
        configured_frame_def) (simp add: demo_codec)
qed

theorem started_runner_announces_witness:
  "\<exists>t out. serve_start channel_env (\<lambda>_. Inr True) True demo_fs (line_of demo_configure) = Inr t \<and> tr_out t = [out]"
proof -
  obtain t where t: "serve_start channel_env (\<lambda>_. Inr True) True demo_fs (line_of demo_configure) = Inr t"
    using demo_configured by (cases "serve_start channel_env (\<lambda>_. Inr True) True demo_fs (line_of demo_configure)") auto
  with started_runner_announces [OF t, of undefined undefined] show ?thesis by blast
qed

theorem decoded_frame_bounded_witness:
  "length (line_of demo_progress) \<le> MAX_LINE \<and> nodes (PDict demo_progress) \<le> MAX_VALUES \<and>
   nested_in MAX_DEPTH (PDict demo_progress)"
  using decoded_frame_bounded [OF demo_decoded(3)] by blast

theorem channel_bounded_witness:
  "tr_event_count (demo_run_of (demo_send @ demo_think @ demo_cancel)) \<le> MAX_PENDING \<and>
   ''child-1'' \<in> scope_ids (tr_artifacts (demo_run_of (demo_send @ demo_think @ demo_cancel)))"
  using channel_bounded [OF demo_started_eq demo_run_of_def demo_cancel_run(3)] demo_cancel_run(1) by auto

theorem request_ends_once_witness:
  "distinct (map fst (tr_results (demo_run_of (demo_ask @ demo_grant)))) \<and>
   dict_get (tr_running (demo_run_of (demo_ask @ demo_grant))) ''child-1'' = None"
  using request_ends_once [OF demo_started_eq demo_run_of_def, of "demo_ask @ demo_grant"] demo_grant_run(1) by force

theorem answers_come_from_host_witness:
  "\<exists>xs i line ys v meth st st'. demo_ask @ demo_grant = xs @ Line i line # ys \<and>
     result_line channel_env line ''child-1'' v \<and> unanswered (run_ops (tstep channel_env) demo_started xs) ''child-1'' meth \<and>
     result_dto (te_scopes channel_env) (te_scope_commands channel_env) meth v ''child-1'' st = (Inr (DBool True), st') \<and>
     (\<forall>granted. DBool True = DBool granted \<longrightarrow>
        v = PBool granted \<and> meth \<in> {''authorize_context'', ''authorize_delivery''})"
  by (rule answers_come_from_host [OF demo_started_eq demo_run_of_def demo_grant_run(2) demo_grant_run(1)])

theorem reply_after_progress_witness:
  "log_of (demo_run_of (demo_send @ demo_think @ demo_reply)) ''child-1'' =
     map fst (pn_events (the (dict_get (tr_pending (demo_run_of (demo_send @ demo_think @ demo_reply))) ''child-1'')))"
proof -
  obtain x where "(''child-1'', Inr x) \<in>
      set (tr_results (tstep channel_env (demo_run_of (demo_send @ demo_think @ demo_reply)) (Resume ''child-1'')))"
    using demo_reply_run(3) by blast
  from reply_after_progress [OF demo_started_eq demo_run_of_def demo_reply_run(2) this] show ?thesis
    using demo_reply_run(1) by auto
qed

theorem stopped_channel_settles_witness:
  "\<not> unanswered (demo_run_of (demo_send @ [Line demo_input []])) ''child-1'' ''send''"
  using stopped_channel_settles [OF demo_started_eq demo_run_of_def demo_stop_run(2,1)] by blast

theorem late_reply_stops_channel_witness:
  "tr_closed (read_line channel_env demo_input (line_of demo_replied) (demo_run_of (demo_send @ demo_think @ demo_cancel)))"
proof -
  have r: "result_line channel_env (line_of demo_replied) ''child-1'' (PDict [])"
    by (simp add: result_line_def demo_read demo_frame_def pget_def)
  obtain q where "dict_get (tr_running (demo_run_of (demo_send @ demo_think @ demo_cancel))) ''child-1'' =
      Some (Cleaning q (Inl Cancelled) False)" using demo_cancel_run(1) by blast
  from late_reply_stops_channel [OF demo_started_eq demo_run_of_def demo_cancel_run(3) this demo_cancel_run(2) r]
  show ?thesis by blast
qed

theorem second_cancel_strands_witness:
  "''child-1'' \<in> scope_ids (tr_artifacts (run_ops (tstep channel_env)
     (demo_run_of (demo_send @ demo_think @ demo_cancel @ demo_cancel_again)) [Resume ''child-1'']))"
proof -
  obtain q where q: "dict_get (tr_running (demo_run_of (demo_send @ demo_think @ demo_cancel @ demo_cancel_again)))
      ''child-1'' = Some (Cleaning q (Inl Cancelled) True)" "live q = 0" using demo_cancel_again_run(1) by blast
  show ?thesis
    using second_cancel_strands [OF demo_started_eq demo_run_of_def demo_cancel_again_run(2) q, of "[]"]
    by (metis (no_types))
qed

end
