(* ===== verification/Shared_Hub.thy ===== *)
theory Shared_Hub
  imports Prelude "HOL-Library.Char_ord" "HOL-Library.List_Lexorder" "HOL-Library.Product_Lexorder"
begin

text \<open>
  The hub through which several clients watch the sessions of one agent
  (\<open>apps/server/.../gateway/collaboration_hub.py\<close>): the bounded live picture of each session that
  producers update, and the observers to which it is delivered after every view was authorised.

  The delivery to one observer is a coroutine with a suspension at each authorisation and each send.
  It is given as the segments between two suspensions; the observer's \<open>ob_pc\<close> says where it waits, and
  everything other tasks do happens in between as events of their own. A socket is the list of frames
  sent on it. Authorisation answers arrive with the event that resumes the coroutine; \<open>None\<close> is an
  exception. JSON encoding and decoding are parameters. Frames of producers carry text fields as the
  protocol has them, and values are compared with the equality of \<open>pyval\<close>.
\<close>

section \<open>Views\<close>

type_synonym target = "string \<times> string"

definition KINDS :: "string set" where
  "KINDS = {''session'', ''workflow'', ''scheduled_task'', ''event''}"

definition id_char :: "char \<Rightarrow> bool" where
  "id_char c = (is_alnum c \<or> c \<in> set ''_.:@-'')"

definition IDENTIFIER :: "string \<Rightarrow> bool" where
  "IDENTIFIER s = (case s of [] \<Rightarrow> False | c # cs \<Rightarrow> is_alnum c \<and> list_all id_char cs \<and> length cs \<le> 127)"

text \<open>\<open>None\<close> is the \<open>ValueError\<close>.\<close>

definition target_key :: "pyval \<Rightarrow> target option" where
  "target_key v =
     (case v of
        PDict d \<Rightarrow>
          if set (map fst d) = {PStr ''kind'', PStr ''id''} then
            (case (pget ''kind'' d, pget ''id'' d) of
               (Some (PStr k), Some (PStr i)) \<Rightarrow> if k \<in> KINDS \<and> IDENTIFIER i then Some (k, i) else None
             | _ \<Rightarrow> None)
          else None
      | _ \<Rightarrow> None)"

section \<open>Live sessions\<close>

record message =
  ms_id :: string
  ms_role :: string
  ms_text :: string
  ms_time :: real
  ms_author :: pyval
  ms_model :: "pyval option"
  ms_attachments :: "pyval option"
  ms_parts :: "pyval option"

record tool_entry =
  te_id :: pyval
  te_info :: "(pyval \<times> pyval) list"
  te_time :: real

record turn =
  tn_id :: string
  tn_run_id :: pyval
  tn_active :: bool
  tn_started :: real
  tn_finished :: "real option"
  tn_messages :: "message list"
  tn_truncated :: "bool option"
  tn_status :: "string option"
  tn_tools :: "tool_entry list"
  tn_reasoning :: "bool option"
  tn_error :: "string option"

record live_session =
  ls_turns :: "turn list"
  ls_revision :: nat
  ls_updated :: real

record hub_in =
  fi_session :: string
  fi_type :: string
  fi_text :: string
  fi_author :: pyval
  fi_model :: pyval
  fi_attachments :: pyval
  fi_parts :: pyval
  fi_active :: pyval

datatype hub_out =
    AuthOk
  | SharedPresence "(string \<times> string \<times> target) list"
  | SharedRevoked string
  | SharedState string live_session
  | ResourceEvent string string "string option"
  | AuthErr

text \<open>Where the delivery of an observer waits: for its wake-up, for the first authorisation, for the
  roster to be sent, for the authorisation of one session, for a revocation notice or a state to be
  sent, for the authorisation of an invalidation, or for that to be sent. \<open>Stopped\<close> is a pump that
  ended.\<close>

datatype pump_pc =
    Idle
  | AwaitAccess nat "target list"
  | AwaitRoster nat "target set"
  | AwaitSession nat "target set" string "string list"
  | AwaitRevoked nat "target set" string "string list"
  | AwaitState nat "target set" "string list"
  | AwaitResource "target set" "(string \<times> string \<times> string option)" "(string \<times> string \<times> string option) list"
  | AwaitSent "target set" "(string \<times> string \<times> string option) list"
  | Stopped

record observer =
  ob_user :: "string \<times> string"
  ob_sessions :: "string list"
  ob_focus :: "target option"
  ob_requested :: "target option"
  ob_wake :: bool
  ob_sent :: "(string, nat) dict"
  ob_roster :: "(string \<times> string \<times> target) list option"
  ob_resources :: "(string \<times> string option, string \<times> string \<times> string option) dict"
  ob_generation :: nat
  ob_ws :: "hub_out list"
  ob_pc :: pump_pc

record hub =
  hb_closed :: bool
  hb_sessions :: "(string, live_session) dict"
  hb_clients :: "(nat, observer) dict"
  hb_revision :: nat

definition new_hub :: hub where
  "new_hub = \<lparr>hb_closed = False, hb_sessions = [], hb_clients = [], hb_revision = 0\<rparr>"

definition all_clients :: "(observer \<Rightarrow> observer) \<Rightarrow> hub \<Rightarrow> hub" where
  "all_clients f h = h\<lparr>hb_clients := map (\<lambda>(k, c). (k, f c)) (hb_clients h)\<rparr>"

definition wake :: "hub \<Rightarrow> hub" where
  "wake h = all_clients (\<lambda>c. c\<lparr>ob_wake := True\<rparr>) h"

definition changed :: "real \<Rightarrow> string \<Rightarrow> live_session \<Rightarrow> hub \<Rightarrow> hub" where
  "changed now sid state h =
     wake (h\<lparr>hb_revision := hb_revision h + 1,
             hb_sessions := dict_set sid (state\<lparr>ls_revision := hb_revision h + 1, ls_updated := now\<rparr>)
               (hb_sessions h)\<rparr>)"

text \<open>\<open>state["turns"][-1]["active"]\<close>; a live session always has a turn.\<close>

definition is_active :: "live_session \<Rightarrow> bool" where
  "is_active s = tn_active (last (ls_turns s))"

definition stale :: "real \<Rightarrow> string \<times> live_session \<Rightarrow> bool" where
  "stale now p = (\<not> is_active (snd p) \<and> now - ls_updated (snd p) > 60)"

definition prune :: "real \<Rightarrow> hub \<Rightarrow> hub" where
  "prune now h =
     h\<lparr>hb_sessions := filter (\<lambda>p. \<not> stale now p) (hb_sessions h),
       hb_revision := hb_revision h + length (filter (stale now) (hb_sessions h))\<rparr>"

definition map_last :: "('a \<Rightarrow> 'a) \<Rightarrow> 'a list \<Rightarrow> 'a list" where
  "map_last f xs = (if xs = [] then [] else butlast xs @ [f (last xs)])"

definition agent_author :: pyval where
  "agent_author = PDict [(PStr ''kind'', PStr ''agent''), (PStr ''display'', PStr ''Agent'')]"

definition input_message :: "real \<Rightarrow> string \<Rightarrow> pyval \<Rightarrow> message" where
  "input_message now txt author =
     \<lparr>ms_id = ''input'', ms_role = ''user'', ms_text = take 131072 txt, ms_time = now,
      ms_author = (if truthy author then author else agent_author), ms_model = None,
      ms_attachments = None, ms_parts = None\<rparr>"

definition new_turn :: "real \<Rightarrow> string \<Rightarrow> string \<Rightarrow> pyval \<Rightarrow> pyval \<Rightarrow> turn" where
  "new_turn now uid txt author run_id =
     \<lparr>tn_id = uid, tn_run_id = run_id, tn_active = True, tn_started = now, tn_finished = None,
      tn_messages = (if txt = [] then [] else [input_message now txt author]),
      tn_truncated = (if length txt > 131072 then Some True else None), tn_status = None, tn_tools = [],
      tn_reasoning = None, tn_error = None\<rparr>"

definition begin_turn :: "real \<Rightarrow> string \<Rightarrow> string \<Rightarrow> string \<Rightarrow> pyval \<Rightarrow> pyval \<Rightarrow> hub \<Rightarrow> bool \<times> hub" where
  "begin_turn now uid sid txt author run_id h0 =
     (let h = prune now h0
      in if dict_get (hb_sessions h) sid = None \<and> length (hb_sessions h) \<ge> 128 then (False, h)
         else
           let turns = (case dict_get (hb_sessions h) sid of None \<Rightarrow> [] | Some s \<Rightarrow> ls_turns s);
               ended = map_last (\<lambda>t. if tn_active t then t\<lparr>tn_active := False, tn_finished := Some now\<rparr> else t) turns;
               kept = drop (length ended - 7) ended
           in (True, changed now sid \<lparr>ls_turns = kept @ [new_turn now uid txt author run_id], ls_revision = 0,
                       ls_updated = now\<rparr> h))"

section \<open>Frames of producers\<close>

record hub_json =
  hj_dumps :: "pyval \<Rightarrow> string"
  hj_loads :: "string \<Rightarrow> pyval option"

fun update_first :: "('a \<Rightarrow> bool) \<Rightarrow> ('a \<Rightarrow> 'a) \<Rightarrow> 'a list \<Rightarrow> 'a list" where
  "update_first P f [] = []"
| "update_first P f (x # xs) = (if P x then f x # xs else x # update_first P f xs)"

definition reply_fields :: "hub_json \<Rightarrow> hub_in \<Rightarrow> string \<Rightarrow> message \<Rightarrow> message" where
  "reply_fields J fr value m =
     (let fits = (\<lambda>v. fi_type fr = ''response'' \<and> truthy v \<and> length (hj_dumps J v) \<le> 262144)
      in m\<lparr>ms_text := take 131072 value,
           ms_model := (if truthy (fi_model fr) then Some (fi_model fr) else ms_model m),
           ms_attachments := (if fits (fi_attachments fr) then Some (fi_attachments fr) else ms_attachments m),
           ms_parts := (if fits (fi_parts fr) then Some (fi_parts fr) else ms_parts m)\<rparr>)"

definition reply_turn :: "hub_json \<Rightarrow> real \<Rightarrow> hub_in \<Rightarrow> turn \<Rightarrow> turn" where
  "reply_turn J now fr t =
     (let is_reply = (\<lambda>m. ms_id m = ''response'');
          fresh = \<lparr>ms_id = ''response'', ms_role = ''assistant'', ms_text = [], ms_time = now, ms_author = PNone,
                   ms_model = None, ms_attachments = None, ms_parts = None\<rparr>;
          messages = (if list_ex is_reply (tn_messages t) then tn_messages t else tn_messages t @ [fresh]);
          old = (case find is_reply messages of None \<Rightarrow> [] | Some m \<Rightarrow> ms_text m);
          value = (if fi_type fr = ''delta'' then old @ fi_text fr else fi_text fr)
      in t\<lparr>tn_messages := update_first is_reply (reply_fields J fr value) messages,
           tn_truncated := Some (length value > 131072 \<or> tn_truncated t = Some True)\<rparr>)"

definition entry_val :: "tool_entry \<Rightarrow> pyval" where
  "entry_val e = PDict [(PStr ''id'', te_id e), (PStr ''toolInfo'', PDict (te_info e)),
     (PStr ''timestamp'', PFloat (Finite (te_time e)))]"

text \<open>Drops the oldest tool entries until the encoded list fits; the empty list does.\<close>

fun trim_tools :: "hub_json \<Rightarrow> tool_entry list \<Rightarrow> tool_entry list" where
  "trim_tools J [] = []"
| "trim_tools J (e # es) =
     (if length (hj_dumps J (PList (map entry_val (e # es)))) > 131072 then trim_tools J es else e # es)"

definition tool_info :: "hub_json \<Rightarrow> (pyval \<times> pyval) list \<Rightarrow> (pyval \<times> pyval) list" where
  "tool_info J d =
     (let d1 = (case pget_or PNone ''result'' d of
                  PNone \<Rightarrow> d
                | PStr r \<Rightarrow> dict_set (PStr ''result'') (PStr (take 12000 r)) d
                | v \<Rightarrow> dict_set (PStr ''result'') (PStr (take 12000 (hj_dumps J v))) d)
      in if length (hj_dumps J (pget_or PNone ''tool_args'' d1)) > 12000
         then dict_set (PStr ''tool_args'') (PDict [(PStr ''truncated'', PBool True)]) d1 else d1)"

definition tool_turn :: "hub_json \<Rightarrow> real \<Rightarrow> (pyval \<times> pyval) list \<Rightarrow> turn \<Rightarrow> turn" where
  "tool_turn J now d t =
     (let call = pget_or PNone ''tool_call_id'' d; info = tool_info J d;
          known = list_ex (\<lambda>e. te_id e = call) (tn_tools t);
          full = \<not> known \<and> length (tn_tools t) \<ge> 128;
          tools = (if known then update_first (\<lambda>e. te_id e = call) (\<lambda>e. e\<lparr>te_info := info\<rparr>) (tn_tools t)
                   else (if full then tl (tn_tools t) else tn_tools t) @
                     [\<lparr>te_id = call, te_info = info, te_time = now\<rparr>]);
          kept = trim_tools J tools
      in t\<lparr>tn_tools := kept,
           tn_truncated := (if full \<or> length kept < length tools then Some True else tn_truncated t)\<rparr>)"

definition status_turn :: "hub_json \<Rightarrow> real \<Rightarrow> string \<Rightarrow> turn \<Rightarrow> turn" where
  "status_turn J now txt t0 =
     (let t = t0\<lparr>tn_status := Some (take 16384 txt)\<rparr>
      in case hj_loads J txt of
           Some (PDict d) \<Rightarrow>
             if truthy (pget_or PNone ''tool_name'' d) \<and> truthy (pget_or PNone ''tool_call_id'' d)
             then tool_turn J now d t else t
         | _ \<Rightarrow> t)"

definition frame_turn :: "hub_json \<Rightarrow> real \<Rightarrow> hub_in \<Rightarrow> turn \<Rightarrow> turn" where
  "frame_turn J now fr t =
     (let kind = fi_type fr
      in if kind = ''delta'' \<or> kind = ''response'' then reply_turn J now fr t
         else if kind = ''status'' then status_turn J now (fi_text fr) t
         else if kind = ''reasoning'' then t\<lparr>tn_reasoning := Some (fi_active fr = PBool True)\<rparr>
         else if kind = ''error'' then t\<lparr>tn_error := Some (take 16384 (fi_text fr))\<rparr>
         else t\<lparr>tn_active := False, tn_finished := Some now\<rparr>)"

definition apply_frame :: "hub_json \<Rightarrow> real \<Rightarrow> hub_in \<Rightarrow> live_session \<Rightarrow> hub \<Rightarrow> hub" where
  "apply_frame J now fr s h =
     changed now (fi_session fr) (s\<lparr>ls_turns := map_last (frame_turn J now fr) (ls_turns s)\<rparr>) h"

definition publish :: "hub_json \<Rightarrow> real \<Rightarrow> string \<Rightarrow> hub_in \<Rightarrow> hub \<Rightarrow> hub" where
  "publish J now uid fr h =
     (let sid = fi_session fr; kind = fi_type fr
      in if sid = [] \<or> kind \<notin> {''delta'', ''response'', ''status'', ''reasoning'', ''turn_complete'', ''error'', ''seed''}
         then h
         else if kind = ''seed'' then snd (begin_turn now uid sid (fi_text fr) (fi_author fr) PNone h)
         else
           (case dict_get (hb_sessions h) sid of
              Some s \<Rightarrow>
                if is_active s then apply_frame J now fr s h
                else if kind \<in> {''turn_complete'', ''response'', ''error'', ''reasoning''} then h
                else
                  (let h1 = snd (begin_turn now uid sid [] PNone PNone h)
                   in case dict_get (hb_sessions h1) sid of None \<Rightarrow> h1 | Some s1 \<Rightarrow> apply_frame J now fr s1 h1)
            | None \<Rightarrow>
                if kind \<in> {''turn_complete'', ''response'', ''error'', ''reasoning''} then h
                else
                  (let h1 = snd (begin_turn now uid sid [] PNone PNone h)
                   in case dict_get (hb_sessions h1) sid of None \<Rightarrow> h1 | Some s1 \<Rightarrow> apply_frame J now fr s1 h1)))"

text \<open>An invalidation replaces an earlier one of the same resource; past 64 they collapse into one.\<close>

definition add_resource :: "string \<Rightarrow> string \<Rightarrow> string option \<Rightarrow> observer \<Rightarrow> observer" where
  "add_resource res action rid c =
     (let shown = (case rid of Some i \<Rightarrow> if i = [] then None else Some i | None \<Rightarrow> None);
          rs = dict_set (res, rid) (res, action, shown) (ob_resources c)
      in c\<lparr>ob_resources := (if length rs > 64 then [((res, None), (res, ''updated'', None))] else rs)\<rparr>)"

definition resource :: "string \<Rightarrow> string \<Rightarrow> string option \<Rightarrow> hub \<Rightarrow> hub" where
  "resource res action rid h = wake (all_clients (add_resource res action rid) h)"

section \<open>Delivery\<close>

record access =
  ac_user :: "string \<times> string"
  ac_allowed :: "target list"

definition put_client :: "nat \<Rightarrow> observer \<Rightarrow> hub \<Rightarrow> hub" where
  "put_client cid c h = h\<lparr>hb_clients := dict_set cid c (hb_clients h)\<rparr>"

definition send :: "hub_out \<Rightarrow> observer \<Rightarrow> observer" where
  "send fr c = c\<lparr>ob_ws := ob_ws c @ [fr]\<rparr>"

text \<open>An invalidation names a view when its resource is of a kind that has access rules.\<close>

definition resource_target :: "string \<times> string \<times> string option \<Rightarrow> target option" where
  "resource_target fr = (case fr of (res, _, Some i) \<Rightarrow> if res \<in> KINDS then Some (res, i) else None | _ \<Rightarrow> None)"

fun add_targets :: "(target \<Rightarrow> target list \<Rightarrow> bool) \<Rightarrow> target option list \<Rightarrow> target list \<Rightarrow> target list" where
  "add_targets ok [] ts = ts"
| "add_targets ok (None # xs) ts = add_targets ok xs ts"
| "add_targets ok (Some t # xs) ts = add_targets ok xs (if t \<notin> set ts \<and> ok t ts then ts @ [t] else ts)"

definition delivery_targets :: "observer \<Rightarrow> hub \<Rightarrow> target list" where
  "delivery_targets c h =
     add_targets (\<lambda>_ ts. length ts < 64) (map resource_target (dict_values (ob_resources c)))
       (add_targets (\<lambda>_ _. True) [ob_requested c]
         (add_targets (\<lambda>_ _. True) (map ob_focus (dict_values (hb_clients h)))
           (map (\<lambda>sid. (''session'', sid)) (ob_sessions c))))"

text \<open>One more delivery: the pump woke up, or ten seconds passed.\<close>

definition start_delivery :: "real \<Rightarrow> nat \<Rightarrow> observer \<Rightarrow> hub \<Rightarrow> hub" where
  "start_delivery now cid c h0 =
     (let h = prune now h0
      in put_client cid (c\<lparr>ob_wake := False, ob_pc := AwaitAccess (ob_generation c) (delivery_targets c h)\<rparr>) h)"

fun roster_of :: "target set \<Rightarrow> observer list \<Rightarrow> (string \<times> target) list \<Rightarrow> (string \<times> string \<times> target) list" where
  "roster_of allowed [] seen = []"
| "roster_of allowed (p # ps) seen =
     (case ob_focus p of
        None \<Rightarrow> roster_of allowed ps seen
      | Some t \<Rightarrow>
          if t \<in> allowed \<and> (fst (ob_user p), t) \<notin> set seen
          then (fst (ob_user p), snd (ob_user p), t) # roster_of allowed ps ((fst (ob_user p), t) # seen)
          else roster_of allowed ps seen)"

definition next_resource ::
  "target set \<Rightarrow> (string \<times> string \<times> string option) list \<Rightarrow> observer \<Rightarrow> observer" where
  "next_resource allowed fs c =
     (case fs of
        [] \<Rightarrow> c\<lparr>ob_pc := Idle\<rparr>
      | (res, action, i) # rest \<Rightarrow>
          (case resource_target (res, action, i) of
             Some _ \<Rightarrow> c\<lparr>ob_pc := AwaitResource allowed (res, action, i) rest\<rparr>
           | None \<Rightarrow> send (ResourceEvent res action i) (c\<lparr>ob_pc := AwaitSent allowed rest\<rparr>)))"

definition next_session :: "nat \<Rightarrow> target set \<Rightarrow> string list \<Rightarrow> observer \<Rightarrow> observer" where
  "next_session gen allowed sids c =
     (case sids of
        sid # rest \<Rightarrow> c\<lparr>ob_pc := AwaitSession gen allowed sid rest\<rparr>
      | [] \<Rightarrow> next_resource allowed (dict_values (ob_resources c)) (c\<lparr>ob_resources := []\<rparr>))"

text \<open>An answer for an outdated request: the observation changed meanwhile, so deliver again.\<close>

definition restart :: "observer \<Rightarrow> observer" where
  "restart c = c\<lparr>ob_wake := True, ob_pc := Idle\<rparr>"

definition got_access :: "access \<Rightarrow> nat \<Rightarrow> nat \<Rightarrow> observer \<Rightarrow> hub \<Rightarrow> hub" where
  "got_access acc gen cid c h =
     (if ob_generation c \<noteq> gen then put_client cid (restart c) h
      else
        (let h1 = (if ac_user acc \<noteq> ob_user c then wake (put_client cid (c\<lparr>ob_user := ac_user acc\<rparr>) h) else h);
             c1 = (case dict_get (hb_clients h1) cid of None \<Rightarrow> c | Some c1 \<Rightarrow> c1);
             allowed = set (ac_allowed acc);
             focus = (case ob_requested c1 of Some t \<Rightarrow> if t \<in> allowed then Some t else None | None \<Rightarrow> None);
             h2 = (if ob_focus c1 \<noteq> focus then wake (put_client cid (c1\<lparr>ob_focus := focus\<rparr>) h1) else h1);
             c2 = (case dict_get (hb_clients h2) cid of None \<Rightarrow> c1 | Some c2 \<Rightarrow> c2);
             people = sort_key (\<lambda>(u, n, k, i). (k, i, u)) (roster_of allowed (dict_values (hb_clients h2)) [])
         in put_client cid
              (if ob_roster c2 \<noteq> Some people
               then send (SharedPresence people) (c2\<lparr>ob_roster := Some people, ob_pc := AwaitRoster gen allowed\<rparr>)
               else next_session gen allowed (ob_sessions c2) c2) h2))"

text \<open>The live picture of a session, an empty one when nobody is producing; that one has no update time.\<close>

definition current :: "hub \<Rightarrow> string \<Rightarrow> live_session" where
  "current h sid =
     (case dict_get (hb_sessions h) sid of
        Some s \<Rightarrow> s | None \<Rightarrow> \<lparr>ls_turns = [], ls_revision = hb_revision h, ls_updated = 0\<rparr>)"

definition got_session ::
  "access \<Rightarrow> nat \<Rightarrow> target set \<Rightarrow> string \<Rightarrow> string list \<Rightarrow> hub \<Rightarrow> observer \<Rightarrow> observer" where
  "got_session acc gen allowed0 sid rest h c =
     (if ob_generation c \<noteq> gen then restart c
      else
        (let t = (''session'', sid)
         in if t \<notin> set (ac_allowed acc)
            then send (SharedRevoked sid) (c\<lparr>ob_pc := AwaitRevoked gen (allowed0 - {t}) sid rest\<rparr>)
            else
              (let allowed = insert t allowed0; state = current h sid
               in if dict_get (ob_sent c) sid \<noteq> Some (ls_revision state)
                  then send (SharedState sid state)
                    (c\<lparr>ob_sent := dict_set sid (ls_revision state) (ob_sent c), ob_pc := AwaitState gen allowed rest\<rparr>)
                  else next_session gen allowed rest c)))"

definition got_resource ::
  "access \<Rightarrow> target set \<Rightarrow> string \<times> string \<times> string option \<Rightarrow> (string \<times> string \<times> string option) list
     \<Rightarrow> observer \<Rightarrow> observer" where
  "got_resource acc allowed fr rest c =
     (case (resource_target fr, fr) of
        (Some t, (res, action, i)) \<Rightarrow>
          if t \<notin> set (ac_allowed acc) \<or> t \<notin> allowed then next_resource allowed rest c
          else send (ResourceEvent res action i) (c\<lparr>ob_pc := AwaitSent allowed rest\<rparr>)
      | (None, _) \<Rightarrow> next_resource allowed rest c)"

text \<open>The pump ends with a notice: an authorisation raised, a send failed or ten seconds passed.\<close>

definition stop_pump :: "observer \<Rightarrow> observer" where
  "stop_pump c = send AuthErr (c\<lparr>ob_pc := Stopped\<rparr>)"

text \<open>Resuming the delivery of a client where it waits; \<open>acc\<close> is the answer of \<open>authorize\<close>, if that is
  what it waits for.\<close>

definition resume :: "real \<Rightarrow> access option \<Rightarrow> nat \<Rightarrow> hub \<Rightarrow> hub" where
  "resume now acc cid h =
     (case dict_get (hb_clients h) cid of
        None \<Rightarrow> h
      | Some c \<Rightarrow>
          (case ob_pc c of
             Stopped \<Rightarrow> h
           | Idle \<Rightarrow> start_delivery now cid c h
           | AwaitAccess gen ts \<Rightarrow>
               (case acc of None \<Rightarrow> put_client cid (stop_pump c) h | Some a \<Rightarrow> got_access a gen cid c h)
           | AwaitRoster gen allowed \<Rightarrow> put_client cid (next_session gen allowed (ob_sessions c) c) h
           | AwaitSession gen allowed sid rest \<Rightarrow>
               (case acc of
                  None \<Rightarrow> put_client cid (stop_pump c) h
                | Some a \<Rightarrow> put_client cid (got_session a gen allowed sid rest h c) h)
           | AwaitRevoked gen allowed sid rest \<Rightarrow>
               put_client cid (next_session gen allowed rest (c\<lparr>ob_sent := dict_pop sid (ob_sent c)\<rparr>)) h
           | AwaitState gen allowed rest \<Rightarrow> put_client cid (next_session gen allowed rest c) h
           | AwaitResource allowed fr rest \<Rightarrow>
               (case acc of
                  None \<Rightarrow> put_client cid (stop_pump c) h
                | Some a \<Rightarrow> put_client cid (got_resource a allowed fr rest c) h)
           | AwaitSent allowed rest \<Rightarrow> put_client cid (next_resource allowed rest c) h))"

section \<open>Sockets\<close>

text \<open>The checks of \<open>handle\<close> before the upgrade, as the status of a refusal.\<close>

definition upgrade_refused :: "bool \<Rightarrow> access option \<Rightarrow> hub \<Rightarrow> nat option" where
  "upgrade_refused has_cert acc h =
     (if hb_closed h then Some 503
      else if \<not> has_cert then Some 403
      else if acc = None then Some 403
      else if length (hb_clients h) \<ge> 32 then Some 503
      else None)"

text \<open>After the upgrade: \<open>acc\<close> is the first answer of \<open>authorize\<close>, \<open>again\<close> that of the recheck.\<close>

definition connect :: "nat \<Rightarrow> access \<Rightarrow> access option \<Rightarrow> hub \<Rightarrow> hub" where
  "connect cid acc again h =
     (if again = None \<or> hb_closed h \<or> length (hb_clients h) \<ge> 32 \<or> dict_get (hb_clients h) cid \<noteq> None then h
      else put_client cid
        \<lparr>ob_user = ac_user acc, ob_sessions = [], ob_focus = None, ob_requested = None, ob_wake = False,
         ob_sent = [], ob_roster = None, ob_resources = [], ob_generation = 0, ob_ws = [AuthOk], ob_pc = Idle\<rparr> h)"

definition disconnect_client :: "nat \<Rightarrow> hub \<Rightarrow> hub" where
  "disconnect_client cid h = wake (h\<lparr>hb_clients := dict_pop cid (hb_clients h)\<rparr>)"

datatype observation = Ping | Observe "string list" "target option" | Malformed

fun all_some :: "'a option list \<Rightarrow> 'a list option" where
  "all_some [] = Some []"
| "all_some (None # xs) = None"
| "all_some (Some x # xs) = map_option ((#) x) (all_some xs)"

definition session_target :: "pyval \<Rightarrow> target option" where
  "session_target sid = target_key (PDict [(PStr ''kind'', PStr ''session''), (PStr ''id'', sid)])"

text \<open>\<open>data\<close> is the decoded message, \<open>None\<close> when it is not JSON.\<close>

definition parse_observation :: "pyval option \<Rightarrow> observation" where
  "parse_observation data =
     (case data of
        Some (PDict fr) \<Rightarrow>
          if pget ''type'' fr = Some (PStr ''ping'') then Ping
          else if pget ''type'' fr \<noteq> Some (PStr ''observe'') \<or>
            \<not> set (map fst fr) \<subseteq> {PStr ''type'', PStr ''sessions'', PStr ''focus''} then Malformed
          else
            (case pget_or (PList []) ''sessions'' fr of
               PList sids \<Rightarrow>
                 if length sids > 16 then Malformed
                 else
                   (case (all_some (map session_target sids), pget_or PNone ''focus'' fr) of
                      (None, _) \<Rightarrow> Malformed
                    | (Some ts, PNone) \<Rightarrow> Observe (rev (remdups (rev (map snd ts)))) None
                    | (Some ts, v) \<Rightarrow>
                        (case target_key v of
                           None \<Rightarrow> Malformed | Some t \<Rightarrow> Observe (rev (remdups (rev (map snd ts)))) (Some t)))
             | _ \<Rightarrow> Malformed)
      | _ \<Rightarrow> Malformed)"

definition observe :: "string list \<Rightarrow> target option \<Rightarrow> observer \<Rightarrow> observer" where
  "observe sids focus c =
     c\<lparr>ob_sessions := sids, ob_sent := filter (\<lambda>p. fst p \<in> set sids) (ob_sent c), ob_requested := focus,
       ob_focus := (if ob_focus c \<noteq> focus then None else ob_focus c), ob_generation := ob_generation c + 1\<rparr>"

definition receive :: "pyval option \<Rightarrow> nat \<Rightarrow> hub \<Rightarrow> hub" where
  "receive data cid h =
     (case dict_get (hb_clients h) cid of
        None \<Rightarrow> h
      | Some c \<Rightarrow>
          (case parse_observation data of
             Malformed \<Rightarrow> disconnect_client cid h
           | Ping \<Rightarrow> put_client cid (c\<lparr>ob_wake := True\<rparr>) h
           | Observe sids focus \<Rightarrow> wake (put_client cid (observe sids focus c) h)))"

text \<open>\<open>close\<close> suspends between its two parts while the sockets close.\<close>

definition close_begin :: "hub \<Rightarrow> hub" where
  "close_begin h = h\<lparr>hb_closed := True\<rparr>"

definition close_end :: "hub \<Rightarrow> hub" where
  "close_end h = h\<lparr>hb_sessions := []\<rparr>"

datatype hub_event =
    BeginTurn real string string string pyval pyval
  | Publish real string hub_in
  | ResourceChanged string string "string option"
  | Connect nat access "access option"
  | Receive nat "pyval option"
  | Disconnect nat
  | Resume real nat "access option"
  | Expire nat
  | CloseBegin
  | CloseEnd

text \<open>\<open>Expire\<close>: a delivery in progress that times out or whose send fails.\<close>

definition expire :: "nat \<Rightarrow> hub \<Rightarrow> hub" where
  "expire cid h =
     (case dict_get (hb_clients h) cid of
        None \<Rightarrow> h
      | Some c \<Rightarrow> if ob_pc c = Idle \<or> ob_pc c = Stopped then h else put_client cid (stop_pump c) h)"

text \<open>The sessions are cleared only once the hub is closed.\<close>

fun hub_step :: "hub_json \<Rightarrow> hub \<Rightarrow> hub_event \<Rightarrow> hub" where
  "hub_step J h (BeginTurn now uid sid txt author run) = snd (begin_turn now uid sid txt author run h)"
| "hub_step J h (Publish now uid fr) = publish J now uid fr h"
| "hub_step J h (ResourceChanged res action rid) = resource res action rid h"
| "hub_step J h (Connect cid acc again) = connect cid acc again h"
| "hub_step J h (Receive cid data) = receive data cid h"
| "hub_step J h (Disconnect cid) = disconnect_client cid h"
| "hub_step J h (Resume now cid acc) = resume now acc cid h"
| "hub_step J h (Expire cid) = expire cid h"
| "hub_step J h CloseBegin = close_begin h"
| "hub_step J h CloseEnd = (if hb_closed h then close_end h else h)"

section \<open>The live picture is bounded\<close>

definition message_ok :: "hub_json \<Rightarrow> message \<Rightarrow> bool" where
  "message_ok J m \<longleftrightarrow> length (ms_text m) \<le> 131072 \<and>
     (\<forall>v\<in>set_option (ms_attachments m) \<union> set_option (ms_parts m). length (hj_dumps J v) \<le> 262144)"

definition turn_ok :: "hub_json \<Rightarrow> turn \<Rightarrow> bool" where
  "turn_ok J t \<longleftrightarrow>
     map ms_id (tn_messages t) \<in> {[], [''input''], [''response''], [''input'', ''response'']} \<and>
     (\<forall>m\<in>set (tn_messages t). message_ok J m) \<and>
     (\<forall>s\<in>set_option (tn_status t) \<union> set_option (tn_error t). length s \<le> 16384) \<and>
     length (tn_tools t) \<le> 128 \<and>
     (tn_tools t = [] \<or> length (hj_dumps J (PList (map entry_val (tn_tools t)))) \<le> 131072)"

definition session_ok :: "hub_json \<Rightarrow> nat \<Rightarrow> live_session \<Rightarrow> bool" where
  "session_ok J r s \<longleftrightarrow> ls_turns s \<noteq> [] \<and> length (ls_turns s) \<le> 8 \<and> (\<forall>t\<in>set (ls_turns s). turn_ok J t) \<and>
     ls_revision s \<le> r"

definition sessions_ok :: "hub_json \<Rightarrow> hub \<Rightarrow> bool" where
  "sessions_ok J h \<longleftrightarrow> dict_ok (hb_sessions h) \<and> length (hb_sessions h) \<le> 128 \<and>
     (\<forall>(sid, s)\<in>set (hb_sessions h). session_ok J (hb_revision h) s)"

lemma map_update_first: "(\<And>x. g (f x) = g x) \<Longrightarrow> map g (update_first P f xs) = map g xs"
  by (induction xs) simp_all

lemma set_update_first: "y \<in> set (update_first P f xs) \<Longrightarrow> y \<in> set xs \<or> (\<exists>x\<in>set xs. P x \<and> y = f x)"
  by (induction xs) (auto split: if_splits)

lemma length_update_first [simp]: "length (update_first P f xs) = length xs"
  by (induction xs) simp_all

lemma trim_tools_fits:
  "trim_tools J es = [] \<or> length (hj_dumps J (PList (map entry_val (trim_tools J es)))) \<le> 131072"
  by (induction es) auto

lemma length_trim_tools: "length (trim_tools J es) \<le> length es"
  by (induction es) auto

lemma reply_fields_ok: "message_ok J m \<Longrightarrow> message_ok J (reply_fields J fr txt m)"
  by (auto simp: message_ok_def reply_fields_def Let_def)

lemma reply_turn_ok:
  assumes "turn_ok J t"
  shows "turn_ok J (reply_turn J now fr t)"
proof -
  let ?P = "\<lambda>m. ms_id m = ''response''"
  define fresh where "fresh = \<lparr>ms_id = ''response'', ms_role = ''assistant'', ms_text = [], ms_time = now,
    ms_author = PNone, ms_model = None, ms_attachments = None, ms_parts = None\<rparr>"
  define msgs where "msgs = (if list_ex ?P (tn_messages t) then tn_messages t else tn_messages t @ [fresh])"
  have ids: "map ms_id msgs \<in> {[''response''], [''input'', ''response'']}"
  proof -
    have "list_ex ?P (tn_messages t) \<longleftrightarrow> ''response'' \<in> set (map ms_id (tn_messages t))"
      by (auto simp: list_ex_iff intro: rev_image_eqI)
    then have "map ms_id msgs = (if ''response'' \<in> set (map ms_id (tn_messages t)) then map ms_id (tn_messages t)
        else map ms_id (tn_messages t) @ [''response''])" by (simp add: msgs_def fresh_def)
    moreover have "(if b \<in> set xs then xs else xs @ [b]) \<in> {[b], [a, b]}"
      if "xs \<in> {[], [a], [b], [a, b]}" for a b :: string and xs using that by auto
    ultimately show ?thesis using assms unfolding turn_ok_def by presburger
  qed
  have ok: "\<forall>m\<in>set msgs. message_ok J m"
    using assms by (auto simp: msgs_def turn_ok_def fresh_def message_ok_def)
  define vl where "vl = (if fi_type fr = ''delta'' then
    (case find ?P msgs of None \<Rightarrow> [] | Some m \<Rightarrow> ms_text m) @ fi_text fr else fi_text fr)"
  have eq: "tn_messages (reply_turn J now fr t) = update_first ?P (reply_fields J fr vl) msgs"
    unfolding reply_turn_def Let_def fresh_def [symmetric] msgs_def [symmetric] vl_def [symmetric] by simp
  have same: "tn_tools (reply_turn J now fr t) = tn_tools t" "tn_status (reply_turn J now fr t) = tn_status t"
    "tn_error (reply_turn J now fr t) = tn_error t" by (simp_all add: reply_turn_def Let_def)
  have "map ms_id (update_first ?P (reply_fields J fr vl) msgs) = map ms_id msgs"
    by (rule map_update_first) (simp add: reply_fields_def Let_def)
  moreover have "\<forall>m\<in>set (update_first ?P (reply_fields J fr vl) msgs). message_ok J m"
    using ok reply_fields_ok by (blast dest: set_update_first)
  ultimately show ?thesis
    using assms ids unfolding turn_ok_def eq same by simp
qed

lemma tool_turn_ok:
  assumes "turn_ok J t"
  shows "turn_ok J (tool_turn J now d t)"
proof -
  have few: "length (tn_tools t) \<le> 128" using assms by (simp add: turn_ok_def)
  define call where "call = pget_or PNone ''tool_call_id'' d"
  define es where "es = (if list_ex (\<lambda>e. te_id e = call) (tn_tools t)
    then update_first (\<lambda>e. te_id e = call) (\<lambda>e. e\<lparr>te_info := tool_info J d\<rparr>) (tn_tools t)
    else (if length (tn_tools t) \<ge> 128 then tl (tn_tools t) else tn_tools t) @
      [\<lparr>te_id = call, te_info = tool_info J d, te_time = now\<rparr>])"
  have t: "tn_tools (tool_turn J now d t) = trim_tools J es" "tn_messages (tool_turn J now d t) = tn_messages t"
    "tn_status (tool_turn J now d t) = tn_status t" "tn_error (tool_turn J now d t) = tn_error t"
    by (simp_all add: tool_turn_def Let_def es_def call_def [symmetric])
  have "length es \<le> 128" using few by (simp add: es_def)
  then show ?thesis
    using assms trim_tools_fits [of J es] length_trim_tools [of J es] unfolding turn_ok_def t by simp
qed

lemma frame_turn_ok:
  assumes "turn_ok J t"
  shows "turn_ok J (frame_turn J now fr t)"
proof -
  have "turn_ok J (t\<lparr>tn_status := Some (take 16384 (fi_text fr))\<rparr>)" using assms by (simp add: turn_ok_def ball_Un)
  then have "turn_ok J (status_turn J now (fi_text fr) t)"
    by (auto simp: status_turn_def Let_def tool_turn_ok split: option.splits pyval.splits)
  moreover have "turn_ok J (t\<lparr>tn_reasoning := x\<rparr>)" "turn_ok J (t\<lparr>tn_error := Some (take 16384 y)\<rparr>)"
    "turn_ok J (t\<lparr>tn_active := a, tn_finished := b\<rparr>)" for x y a b
    using assms by (simp_all add: turn_ok_def ball_Un)
  ultimately show ?thesis
    using reply_turn_ok [OF assms] by (simp add: frame_turn_def Let_def)
qed

lemma map_last_simps [simp]:
  "length (map_last f xs) = length xs" "map_last f xs = [] \<longleftrightarrow> xs = []"
  by (auto simp: map_last_def)

lemma set_map_last: "y \<in> set (map_last f xs) \<Longrightarrow> y \<in> set xs \<or> (xs \<noteq> [] \<and> y = f (last xs))"
  by (auto simp: map_last_def split: if_splits dest: in_set_butlastD)

lemma turn_ok_ended [simp]: "turn_ok J (t\<lparr>tn_active := a, tn_finished := b\<rparr>) = turn_ok J t"
  by (simp add: turn_ok_def)

lemma new_turn_ok: "turn_ok J (new_turn now uid txt author run_id)"
  by (simp add: turn_ok_def new_turn_def input_message_def message_ok_def)

section \<open>Revisions\<close>

text \<open>Whatever changes the picture of a session gives it a revision that was never used before.\<close>

definition advances :: "hub \<Rightarrow> hub \<Rightarrow> bool" where
  "advances h h' \<longleftrightarrow> hb_revision h \<le> hb_revision h' \<and>
     (\<forall>sid. current h' sid = current h sid \<or> hb_revision h < ls_revision (current h' sid))"

interpretation advance: preorder_rel advances
proof
  fix h1 h2 h3
  assume "advances h1 h2" "advances h2 h3"
  then have r: "hb_revision h1 \<le> hb_revision h2" "hb_revision h2 \<le> hb_revision h3"
    and c: "\<And>sid. current h2 sid = current h1 sid \<or> hb_revision h1 < ls_revision (current h2 sid)"
      "\<And>sid. current h3 sid = current h2 sid \<or> hb_revision h2 < ls_revision (current h3 sid)"
    by (auto simp: advances_def)
  have "current h3 sid = current h1 sid \<or> hb_revision h1 < ls_revision (current h3 sid)" for sid
    using c [of sid] r(1) by (cases "current h3 sid = current h2 sid") auto
  with r show "advances h1 h3" by (auto simp: advances_def)
qed (simp add: advances_def)

lemma current_cong:
  "hb_sessions h' = hb_sessions h \<Longrightarrow> hb_revision h' = hb_revision h \<Longrightarrow> current h' = current h"
  by (auto simp: current_def fun_eq_iff split: option.split)

lemma advances_same:
  "hb_sessions h' = hb_sessions h \<Longrightarrow> hb_revision h' = hb_revision h \<Longrightarrow> advances h h'"
  using current_cong [of h' h] by (simp add: advances_def)

lemma clients_frame [simp]:
  "hb_sessions (all_clients f h) = hb_sessions h" "hb_revision (all_clients f h) = hb_revision h"
  "hb_closed (all_clients f h) = hb_closed h"
  "hb_sessions (wake h) = hb_sessions h" "hb_revision (wake h) = hb_revision h" "hb_closed (wake h) = hb_closed h"
  "hb_sessions (put_client cid c h) = hb_sessions h" "hb_revision (put_client cid c h) = hb_revision h"
  "hb_closed (put_client cid c h) = hb_closed h"
  by (simp_all add: all_clients_def wake_def put_client_def)

lemma dict_get_filter:
  "dict_ok d \<Longrightarrow> dict_get (filter P d) k = (case dict_get d k of None \<Rightarrow> None | Some v \<Rightarrow> if P (k, v) then Some v else None)"
proof (induction d)
  case (Cons p d)
  obtain k' v where p: "p = (k', v)" by (cases p)
  have ok: "dict_ok d" "dict_get d k' = None"
    using Cons.prems by (auto simp: p dict_ok_def dict_get_None_iff dict_keys_def)
  show ?case
    using Cons.IH [OF ok(1)] ok(2) by (cases "k = k'") (auto simp: p)
qed (simp add: dict_get_def)

lemma dict_ok_filter: "dict_ok d \<Longrightarrow> dict_ok (filter P d)"
  by (simp add: dict_ok_def dict_keys_def distinct_map_filter)

lemma advances_prune:
  assumes "sessions_ok J h"
  shows "advances h (prune now h)"
  unfolding advances_def
proof (intro conjI allI)
  fix sid
  let ?gone = "filter (stale now) (hb_sessions h)"
  have ok: "dict_ok (hb_sessions h)" using assms by (simp add: sessions_ok_def)
  show "current (prune now h) sid = current h sid \<or> hb_revision h < ls_revision (current (prune now h) sid)"
  proof (cases "?gone = []")
    case True
    then have "filter (\<lambda>p. \<not> stale now p) (hb_sessions h) = hb_sessions h"
      by (auto simp: filter_empty_conv intro: filter_True)
    with True show ?thesis by (simp add: prune_def current_def)
  next
    case False
    then have "length ?gone > 0" by simp
    then show ?thesis
      by (auto simp: prune_def current_def dict_get_filter [OF ok] simp del: length_greater_0_conv split: option.splits)
  qed
qed (simp add: prune_def)

lemma sessions_prune:
  assumes "sessions_ok J h"
  shows "sessions_ok J (prune now h)"
proof -
  have "length (filter (\<lambda>p. \<not> stale now p) (hb_sessions h)) \<le> 128"
    using assms length_filter_le [of "\<lambda>p. \<not> stale now p" "hb_sessions h"]
    unfolding sessions_ok_def by linarith
  then show ?thesis
    using assms by (auto simp: sessions_ok_def prune_def dict_ok_filter session_ok_def)
qed

lemma advances_changed: "advances h (changed now sid s h)"
  by (auto simp: advances_def changed_def current_def dict_get_set split: option.splits)

lemma sessions_changed:
  assumes "sessions_ok J h" and "session_ok J r s"
    and "dict_get (hb_sessions h) sid \<noteq> None \<or> length (hb_sessions h) < 128"
  shows "sessions_ok J (changed now sid s h)"
proof -
  have "length (dict_set sid v (hb_sessions h)) \<le> 128" for v
  proof (cases "dict_get (hb_sessions h) sid")
    case None
    then show ?thesis using assms(3) by (simp add: dict_set_fresh)
  next
    case (Some s0)
    then show ?thesis using assms(1) by (simp add: length_dict_set_same sessions_ok_def)
  qed
  then show ?thesis
    using assms(1,2) by (auto simp: sessions_ok_def changed_def dict_ok_set session_ok_def dest!: in_dict_set)
qed

text \<open>The observers apart from their wake-up flags, which producers set.\<close>

definition hush :: "hub \<Rightarrow> (nat, observer) dict" where
  "hush h = map (\<lambda>(k, c). (k, c\<lparr>ob_wake := False\<rparr>)) (hb_clients h)"

definition produces :: "hub_json \<Rightarrow> hub \<Rightarrow> hub \<Rightarrow> bool" where
  "produces J h h' \<longleftrightarrow> sessions_ok J h' \<and> advances h h' \<and> hush h' = hush h \<and> hb_closed h' = hb_closed h"

lemma hush_simps [simp]:
  "hush (wake h) = hush h" "hush (prune now h) = hush h" "hush (changed now sid s h) = hush h"
  "hb_closed (prune now h) = hb_closed h" "hb_closed (changed now sid s h) = hb_closed h"
  by (auto simp: hush_def wake_def all_clients_def prune_def changed_def comp_def)

lemma produces_trans: "produces J h1 h2 \<Longrightarrow> produces J h2 h3 \<Longrightarrow> produces J h1 h3"
  using advance.R_trans [of h1 h2 h3] by (simp add: produces_def)

lemma produces_refl: "sessions_ok J h \<Longrightarrow> produces J h h"
  by (simp add: produces_def advance.R_refl)

lemma produces_prune: "sessions_ok J h \<Longrightarrow> produces J h (prune now h)"
  by (simp add: produces_def sessions_prune advances_prune)

lemma produces_changed:
  "sessions_ok J h \<Longrightarrow> session_ok J r s \<Longrightarrow>
     dict_get (hb_sessions h) sid \<noteq> None \<or> length (hb_sessions h) < 128 \<Longrightarrow> produces J h (changed now sid s h)"
  by (simp add: produces_def sessions_changed advances_changed)

lemma session_found:
  "sessions_ok J h \<Longrightarrow> dict_get (hb_sessions h) sid = Some s \<Longrightarrow> session_ok J (hb_revision h) s"
  by (auto simp: sessions_ok_def dest!: dict_get_in)

lemma begin_turn_produces:
  assumes ok: "sessions_ok J h"
  shows "produces J h (snd (begin_turn now uid sid txt author run_id h))"
proof -
  let ?h = "prune now h"
  have ok': "sessions_ok J ?h" by (rule sessions_prune [OF ok])
  define turns where "turns = (case dict_get (hb_sessions ?h) sid of None \<Rightarrow> [] | Some s \<Rightarrow> ls_turns s)"
  define ended where "ended = map_last (\<lambda>t. if tn_active t then t\<lparr>tn_active := False, tn_finished := Some now\<rparr> else t) turns"
  have "\<forall>t\<in>set turns. turn_ok J t"
    using session_found [OF ok', of sid]
    by (cases "dict_get (hb_sessions ?h) sid") (simp_all add: turns_def session_ok_def)
  then have "\<forall>t\<in>set ended. turn_ok J t"
    by (auto simp: ended_def dest!: set_map_last split: if_splits)
  then have s: "session_ok J 0 \<lparr>ls_turns = drop (length ended - 7) ended @ [new_turn now uid txt author run_id],
      ls_revision = 0, ls_updated = now\<rparr>"
    by (auto simp: session_ok_def new_turn_ok dest: in_set_dropD)
  show ?thesis
  proof (cases "dict_get (hb_sessions ?h) sid = None \<and> length (hb_sessions ?h) \<ge> 128")
    case True
    then show ?thesis using produces_prune [OF ok] by (simp add: begin_turn_def Let_def)
  next
    case False
    have "produces J ?h (changed now sid \<lparr>ls_turns = drop (length ended - 7) ended @
        [new_turn now uid txt author run_id], ls_revision = 0, ls_updated = now\<rparr> ?h)"
      using False by (intro produces_changed [OF ok' s]) auto
    from produces_trans [OF produces_prune [OF ok] this] show ?thesis
      using produces_prune [OF ok] by (simp add: begin_turn_def Let_def turns_def ended_def)
  qed
qed

lemma apply_frame_produces:
  assumes ok: "sessions_ok J h" and s: "dict_get (hb_sessions h) (fi_session fr) = Some s"
  shows "produces J h (apply_frame J now fr s h)"
proof -
  have "session_ok J (hb_revision h) s" by (rule session_found [OF ok s])
  then have "session_ok J (hb_revision h) (s\<lparr>ls_turns := map_last (frame_turn J now fr) (ls_turns s)\<rparr>)"
    by (auto simp: session_ok_def frame_turn_ok dest!: set_map_last)
  then show ?thesis using ok s by (simp add: apply_frame_def produces_changed)
qed

lemma publish_produces:
  assumes ok: "sessions_ok J h"
  shows "produces J h (publish J now uid fr h)"
proof -
  let ?h1 = "snd (begin_turn now uid (fi_session fr) [] PNone PNone h)"
  have b: "produces J h ?h1" by (rule begin_turn_produces [OF ok])
  then have again: "produces J h (case dict_get (hb_sessions ?h1) (fi_session fr) of
      None \<Rightarrow> ?h1 | Some s1 \<Rightarrow> apply_frame J now fr s1 ?h1)"
    using apply_frame_produces [of J ?h1 fr _ now] produces_trans
    by (auto simp: produces_def split: option.splits)
  show ?thesis
    using ok again begin_turn_produces [OF ok] apply_frame_produces [OF ok] produces_refl [OF ok]
    by (auto simp: publish_def Let_def split: option.splits)
qed

section \<open>Observers\<close>

text \<open>The last picture of a session that was sent on a socket.\<close>

fun last_state :: "string \<Rightarrow> hub_out list \<Rightarrow> live_session option" where
  "last_state sid [] = None"
| "last_state sid (f # fs) =
     (case last_state sid fs of
        Some s \<Rightarrow> Some s
      | None \<Rightarrow> (case f of SharedState sid' s \<Rightarrow> if sid' = sid then Some s else None | _ \<Rightarrow> None))"

lemma last_state_snoc:
  "last_state sid (fs @ [f]) =
     (case f of SharedState sid' s \<Rightarrow> if sid' = sid then Some s else last_state sid fs | _ \<Rightarrow> last_state sid fs)"
  by (induction fs) (auto split: hub_out.splits option.splits)

text \<open>The revision noted for a session is that of the last picture sent, and as long as it is the current
  one the observer has the current picture.\<close>

definition synced :: "hub \<Rightarrow> observer \<Rightarrow> bool" where
  "synced h c \<longleftrightarrow>
     (\<forall>sid r. dict_get (ob_sent c) sid = Some r \<longrightarrow>
        (\<exists>s. last_state sid (ob_ws c) = Some s \<and> ls_revision s = r \<and> r \<le> hb_revision h \<and>
           (ls_revision (current h sid) = r \<longrightarrow> current h sid = s)))"

definition base_ok :: "hub \<Rightarrow> observer \<Rightarrow> bool" where
  "base_ok h c \<longleftrightarrow> length (ob_sessions c) \<le> 16 \<and> length (ob_resources c) \<le> 64 \<and> dict_ok (ob_sent c) \<and>
     (hb_closed h \<or> synced h c)"

text \<open>A delivery of the current observation only visits sessions that are observed.\<close>

definition visits :: "observer \<Rightarrow> nat \<Rightarrow> string list \<Rightarrow> bool" where
  "visits c gen sids \<longleftrightarrow> gen \<le> ob_generation c \<and> (gen = ob_generation c \<longrightarrow> set sids \<subseteq> set (ob_sessions c))"

definition pc_ok :: "observer \<Rightarrow> bool" where
  "pc_ok c =
     (case ob_pc c of
        AwaitAccess gen _ \<Rightarrow> gen \<le> ob_generation c
      | AwaitRoster gen _ \<Rightarrow> gen \<le> ob_generation c
      | AwaitSession gen _ sid rest \<Rightarrow> visits c gen (sid # rest)
      | AwaitRevoked gen _ _ rest \<Rightarrow> visits c gen rest
      | AwaitState gen _ rest \<Rightarrow> visits c gen rest
      | _ \<Rightarrow> True)"

definition client_ok :: "hub \<Rightarrow> observer \<Rightarrow> bool" where
  "client_ok h c \<longleftrightarrow> base_ok h c \<and> pc_ok c"

definition hub_ok :: "hub_json \<Rightarrow> hub \<Rightarrow> bool" where
  "hub_ok J h \<longleftrightarrow> sessions_ok J h \<and> dict_ok (hb_clients h) \<and> length (hb_clients h) \<le> 32 \<and>
     (\<forall>(k, c)\<in>set (hb_clients h). client_ok h c)"

lemma synced_cong:
  "ob_sent c' = ob_sent c \<Longrightarrow> ob_ws c' = ob_ws c \<Longrightarrow> synced h c' = synced h c"
  by (simp add: synced_def)

lemma base_ok_update [simp]:
  "base_ok h (c\<lparr>ob_wake := w\<rparr>) = base_ok h c" "base_ok h (c\<lparr>ob_pc := pc\<rparr>) = base_ok h c"
  "base_ok h (c\<lparr>ob_user := u\<rparr>) = base_ok h c" "base_ok h (c\<lparr>ob_focus := f\<rparr>) = base_ok h c"
  "base_ok h (c\<lparr>ob_roster := r\<rparr>) = base_ok h c"
  by (simp_all add: base_ok_def synced_def)

lemma base_ok_send:
  "base_ok h c \<Longrightarrow> (\<And>sid s. f \<noteq> SharedState sid s) \<Longrightarrow> base_ok h (send f c)"
  by (cases f) (auto simp: base_ok_def synced_def send_def last_state_snoc)

lemma base_ok_resources: "base_ok h c \<Longrightarrow> length rs \<le> 64 \<Longrightarrow> base_ok h (c\<lparr>ob_resources := rs\<rparr>)"
  by (simp add: base_ok_def synced_def)

lemma base_ok_sent_filter:
  "base_ok h c \<Longrightarrow> base_ok h (c\<lparr>ob_sent := filter (\<lambda>p. P (fst p)) (ob_sent c)\<rparr>)"
  by (auto simp: base_ok_def synced_def dict_ok_filter dict_get_filter split: option.splits if_splits)

lemma base_ok_state:
  assumes "base_ok h c" and "sessions_ok J h"
  shows "base_ok h (send (SharedState sid (current h sid))
    (c\<lparr>ob_sent := dict_set sid (ls_revision (current h sid)) (ob_sent c), ob_pc := pc\<rparr>))"
proof -
  have "ls_revision (current h sid) \<le> hb_revision h"
    using session_found [OF assms(2), of sid] by (auto simp: current_def session_ok_def split: option.splits)
  then show ?thesis
    using assms(1) by (auto simp: base_ok_def synced_def send_def last_state_snoc dict_get_set dict_ok_set)
qed

lemma synced_advances:
  assumes "synced h c" and "advances h h'"
  shows "synced h' c"
  unfolding synced_def
proof (intro allI impI)
  fix sid r
  assume "dict_get (ob_sent c) sid = Some r"
  then obtain s where s: "last_state sid (ob_ws c) = Some s" "ls_revision s = r" "r \<le> hb_revision h"
    "ls_revision (current h sid) = r \<longrightarrow> current h sid = s"
    using assms(1) unfolding synced_def by blast
  moreover have "hb_revision h \<le> hb_revision h'"
    "current h' sid = current h sid \<or> hb_revision h < ls_revision (current h' sid)"
    using assms(2) by (auto simp: advances_def)
  ultimately show "\<exists>s. last_state sid (ob_ws c) = Some s \<and> ls_revision s = r \<and> r \<le> hb_revision h' \<and>
      (ls_revision (current h' sid) = r \<longrightarrow> current h' sid = s)" by auto
qed

lemma client_ok_advances:
  "client_ok h c \<Longrightarrow> advances h h' \<Longrightarrow> (hb_closed h \<longrightarrow> hb_closed h') \<Longrightarrow> client_ok h' c"
  using synced_advances by (auto simp: client_ok_def base_ok_def)

lemma client_ok_hushed [simp]: "client_ok h (c\<lparr>ob_wake := w\<rparr>) = client_ok h c"
  by (simp add: client_ok_def pc_ok_def visits_def split: pump_pc.splits)

lemma hub_ok_produces:
  assumes ok: "hub_ok J h" and p: "produces J h h'"
  shows "hub_ok J h'"
proof -
  have hush: "hush h' = hush h" and adv: "advances h h'" "hb_closed h \<longrightarrow> hb_closed h'" "sessions_ok J h'"
    using p by (auto simp: produces_def)
  have "dict_keys (hb_clients h') = dict_keys (hb_clients h)"
    using arg_cong [OF hush, of "map fst"] by (simp add: hush_def dict_keys_def comp_def case_prod_unfold)
  moreover have "length (hb_clients h') = length (hb_clients h)"
    using arg_cong [OF hush, of length] by (simp add: hush_def)
  moreover have "client_ok h' c'" if "(k, c') \<in> set (hb_clients h')" for k c'
  proof -
    have "(k, c'\<lparr>ob_wake := False\<rparr>) \<in> set (hush h')" using that by (auto simp: hush_def intro: rev_image_eqI)
    then obtain c where c: "(k, c) \<in> set (hb_clients h)" "c'\<lparr>ob_wake := False\<rparr> = c\<lparr>ob_wake := False\<rparr>"
      unfolding hush by (auto simp: hush_def)
    then have "client_ok h (c\<lparr>ob_wake := False\<rparr>)" using ok by (auto simp: hub_ok_def)
    then have "client_ok h c'" using c(2) client_ok_hushed by metis
    then show ?thesis using adv client_ok_advances by blast
  qed
  ultimately show ?thesis using ok adv by (auto simp: hub_ok_def dict_ok_def dict_keys_def)
qed

text \<open>Changing observers, with the sessions as they are.\<close>

lemma client_ok_cong:
  "hb_sessions h' = hb_sessions h \<Longrightarrow> hb_revision h' = hb_revision h \<Longrightarrow> hb_closed h' = hb_closed h \<Longrightarrow>
     client_ok h' c = client_ok h c"
  using current_cong [of h' h] by (simp add: client_ok_def base_ok_def synced_def)

lemma sessions_ok_cong:
  "hb_sessions h' = hb_sessions h \<Longrightarrow> hb_revision h' = hb_revision h \<Longrightarrow> sessions_ok J h' = sessions_ok J h"
  by (simp add: sessions_ok_def)

lemma hub_ok_put:
  assumes "hub_ok J h" and "client_ok h c" and "dict_get (hb_clients h) cid \<noteq> None \<or> length (hb_clients h) < 32"
  shows "hub_ok J (put_client cid c h)"
proof -
  have "length (dict_set cid c (hb_clients h)) \<le> 32"
  proof (cases "dict_get (hb_clients h) cid")
    case None
    then show ?thesis using assms(3) by (simp add: length_dict_set_fresh)
  next
    case (Some c0)
    then show ?thesis using assms(1) by (simp add: length_dict_set_same hub_ok_def)
  qed
  moreover have "client_ok (put_client cid c h) c' = client_ok h c'" for c'
    by (rule client_ok_cong) simp_all
  moreover have "sessions_ok J (put_client cid c h)"
    using assms(1) sessions_ok_cong [of "put_client cid c h" h] by (simp add: hub_ok_def)
  moreover have "hb_clients (put_client cid c h) = dict_set cid c (hb_clients h)" by (simp add: put_client_def)
  ultimately show ?thesis
    using assms(1,2) by (auto simp: hub_ok_def dict_ok_set dest!: in_dict_set)
qed

lemma hub_ok_all:
  assumes "hub_ok J h" and "\<And>c. client_ok h c \<Longrightarrow> client_ok h (f c)"
  shows "hub_ok J (all_clients f h)"
proof -
  have "client_ok (all_clients f h) c = client_ok h c" for c by (rule client_ok_cong) simp_all
  moreover have "sessions_ok J (all_clients f h)"
    using assms(1) sessions_ok_cong [of "all_clients f h" h] by (simp add: hub_ok_def)
  moreover have "hb_clients (all_clients f h) = map (\<lambda>(k, c). (k, f c)) (hb_clients h)"
    by (simp add: all_clients_def)
  moreover have "dict_ok (hb_clients (all_clients f h))"
    using assms(1) by (simp add: hub_ok_def dict_ok_def all_clients_def comp_def case_prod_unfold)
  ultimately show ?thesis
    using assms by (auto simp: hub_ok_def)
qed

lemma hub_ok_wake: "hub_ok J h \<Longrightarrow> hub_ok J (wake h)"
  unfolding wake_def by (rule hub_ok_all) simp_all

lemma client_found: "hub_ok J h \<Longrightarrow> dict_get (hb_clients h) cid = Some c \<Longrightarrow> client_ok h c"
  by (auto simp: hub_ok_def dest!: dict_get_in)

lemma client_ok_sent:
  "base_ok h c \<Longrightarrow> client_ok h (send (ResourceEvent res action i) (c\<lparr>ob_pc := AwaitSent allowed rest\<rparr>))"
  by (simp add: client_ok_def base_ok_send) (simp add: pc_ok_def send_def)

lemma next_resource_ok: "base_ok h c \<Longrightarrow> client_ok h (next_resource allowed fs c)"
  by (auto simp: next_resource_def client_ok_sent split: list.splits option.splits)
    (simp_all add: client_ok_def pc_ok_def)

lemma next_session_ok:
  "base_ok h c \<Longrightarrow> visits c gen sids \<Longrightarrow> client_ok h (next_session gen allowed sids c)"
  by (cases sids)
    (auto simp: next_session_def next_resource_ok base_ok_resources, simp add: client_ok_def pc_ok_def visits_def)

lemma stop_pump_ok: "base_ok h c \<Longrightarrow> client_ok h (stop_pump c)"
  by (simp add: client_ok_def stop_pump_def base_ok_send) (simp add: pc_ok_def send_def)

lemma restart_ok: "base_ok h c \<Longrightarrow> client_ok h (restart c)"
  by (simp add: client_ok_def restart_def pc_ok_def)

lemma got_session_ok:
  assumes "base_ok h c" and "visits c gen (sid # rest)" and "sessions_ok J h"
  shows "client_ok h (got_session acc gen allowed sid rest h c)"
proof -
  have v: "visits c gen rest" using assms(2) by (simp add: visits_def)
  have "client_ok h (send (SharedRevoked sid) (c\<lparr>ob_pc := AwaitRevoked gen al sid rest\<rparr>))" for al
    using assms(1) v by (simp add: client_ok_def base_ok_send) (simp add: pc_ok_def send_def visits_def)
  moreover have "client_ok h (send (SharedState sid (current h sid))
      (c\<lparr>ob_sent := dict_set sid (ls_revision (current h sid)) (ob_sent c), ob_pc := AwaitState gen al rest\<rparr>))" for al
    using base_ok_state [OF assms(1,3)] v by (simp add: client_ok_def) (simp add: pc_ok_def send_def visits_def)
  ultimately show ?thesis
    using assms(1) v by (simp add: got_session_def Let_def restart_ok next_session_ok)
qed

lemma got_resource_ok: "base_ok h c \<Longrightarrow> client_ok h (got_resource acc allowed fr rest c)"
  by (cases fr) (simp add: got_resource_def next_resource_ok client_ok_sent split: option.splits)

lemma dict_get_all_clients: "dict_get (hb_clients (all_clients f h)) k = map_option f (dict_get (hb_clients h) k)"
  by (simp add: dict_get_def all_clients_def map_of_map)

lemma dict_get_wake: "dict_get (hb_clients (wake h)) k = map_option (\<lambda>c. c\<lparr>ob_wake := True\<rparr>) (dict_get (hb_clients h) k)"
  by (simp add: wake_def dict_get_all_clients)

lemma dict_get_put_client:
  "dict_get (hb_clients (put_client cid c h)) k = (if k = cid then Some c else dict_get (hb_clients h) k)"
  by (simp add: put_client_def dict_get_set)

text \<open>What a delivery keeps when it updates the user name or the focus of its observer.\<close>

definition core :: "observer \<Rightarrow> nat \<times> string list \<times> hub_out list \<times> pump_pc" where
  "core c = (ob_generation c, ob_sessions c, ob_ws c, ob_pc c)"

lemma touched:
  assumes "hub_ok J h" and c: "dict_get (hb_clients h) cid = Some c" and "client_ok h d" and "core d = core c"
    and h': "h' = (if b then wake (put_client cid d h) else h)"
  shows "hub_ok J h' \<and> hb_sessions h' = hb_sessions h \<and> hb_revision h' = hb_revision h \<and>
    (\<exists>c'. dict_get (hb_clients h') cid = Some c' \<and> core c' = core c)"
proof (cases b)
  case True
  have "hub_ok J (put_client cid d h)" using assms(1,3) c by (intro hub_ok_put) simp_all
  then have "hub_ok J h'" using hub_ok_wake h' True by simp
  then show ?thesis using assms(4) by (simp add: h' True dict_get_wake dict_get_put_client) (simp add: core_def)
next
  case False
  then show ?thesis using assms by simp
qed

lemma client_ok_view [simp]:
  "client_ok h (c\<lparr>ob_user := u\<rparr>) = client_ok h c" "client_ok h (c\<lparr>ob_focus := f\<rparr>) = client_ok h c"
  by (simp_all add: client_ok_def pc_ok_def visits_def split: pump_pc.splits)

text \<open>The first part of a delivery, up to the roster.\<close>

lemma got_access_shape:
  assumes ok: "hub_ok J h" and c: "dict_get (hb_clients h) cid = Some c" and gen: "ob_generation c = gen"
  obtains h2 c2 people where "got_access acc gen cid c h = put_client cid
      (if ob_roster c2 \<noteq> Some people
       then send (SharedPresence people)
         (c2\<lparr>ob_roster := Some people, ob_pc := AwaitRoster gen (set (ac_allowed acc))\<rparr>)
       else next_session gen (set (ac_allowed acc)) (ob_sessions c2) c2) h2"
    "hub_ok J h2" "dict_get (hb_clients h2) cid = Some c2" "core c2 = core c"
    "hb_sessions h2 = hb_sessions h" "hb_revision h2 = hb_revision h"
    "people = sort_key (\<lambda>(u, n, k, i). (k, i, u)) (roster_of (set (ac_allowed acc)) (dict_values (hb_clients h2)) [])"
proof -
  define h1 where "h1 = (if ac_user acc \<noteq> ob_user c then wake (put_client cid (c\<lparr>ob_user := ac_user acc\<rparr>) h) else h)"
  have "client_ok h c" by (rule client_found [OF ok c])
  then have t1: "hub_ok J h1 \<and> hb_sessions h1 = hb_sessions h \<and> hb_revision h1 = hb_revision h \<and>
      (\<exists>c'. dict_get (hb_clients h1) cid = Some c' \<and> core c' = core c)"
    by (intro touched [OF ok c _ _ h1_def]) (simp_all add: core_def)
  then obtain c1 where c1: "dict_get (hb_clients h1) cid = Some c1" "core c1 = core c" by blast
  define focus where "focus = (case ob_requested c1 of Some t \<Rightarrow> if t \<in> set (ac_allowed acc) then Some t else None
    | None \<Rightarrow> None)"
  define h2 where "h2 = (if ob_focus c1 \<noteq> focus then wake (put_client cid (c1\<lparr>ob_focus := focus\<rparr>) h1) else h1)"
  have "client_ok h1 c1" using t1 c1(1) client_found by blast
  then have t2: "hub_ok J h2 \<and> hb_sessions h2 = hb_sessions h1 \<and> hb_revision h2 = hb_revision h1 \<and>
      (\<exists>c'. dict_get (hb_clients h2) cid = Some c' \<and> core c' = core c1)"
    using t1 by (intro touched [OF _ c1(1) _ _ h2_def]) (simp_all add: core_def)
  then obtain c2 where c2: "dict_get (hb_clients h2) cid = Some c2" "core c2 = core c1" by blast
  show thesis
  proof (rule that [of c2 _ h2])
    show "got_access acc gen cid c h = put_client cid
      (if ob_roster c2 \<noteq> Some (sort_key (\<lambda>(u, n, k, i). (k, i, u)) (roster_of (set (ac_allowed acc)) (dict_values (hb_clients h2)) []))
       then send (SharedPresence (sort_key (\<lambda>(u, n, k, i). (k, i, u)) (roster_of (set (ac_allowed acc)) (dict_values (hb_clients h2)) [])))
         (c2\<lparr>ob_roster := Some (sort_key (\<lambda>(u, n, k, i). (k, i, u)) (roster_of (set (ac_allowed acc)) (dict_values (hb_clients h2)) [])),
             ob_pc := AwaitRoster gen (set (ac_allowed acc))\<rparr>)
       else next_session gen (set (ac_allowed acc)) (ob_sessions c2) c2) h2"
      unfolding got_access_def Let_def h1_def [symmetric] c1(1) option.case focus_def [symmetric]
        h2_def [symmetric] c2(1) by (simp add: gen)
  qed (use t1 t2 c1 c2 in simp_all)
qed

lemma got_access_ok:
  assumes ok: "hub_ok J h" and c: "dict_get (hb_clients h) cid = Some c" and g: "gen \<le> ob_generation c"
  shows "hub_ok J (got_access acc gen cid c h)"
proof (cases "ob_generation c = gen")
  case False
  have "base_ok h c" using client_found [OF ok c] by (simp add: client_ok_def)
  then have "hub_ok J (put_client cid (restart c) h)"
    using ok c by (intro hub_ok_put restart_ok) simp_all
  then show ?thesis using False by (simp add: got_access_def)
next
  case True
  from got_access_shape [OF ok c True, of acc] obtain h2 c2 people where s:
    "got_access acc gen cid c h = put_client cid
      (if ob_roster c2 \<noteq> Some people
       then send (SharedPresence people)
         (c2\<lparr>ob_roster := Some people, ob_pc := AwaitRoster gen (set (ac_allowed acc))\<rparr>)
       else next_session gen (set (ac_allowed acc)) (ob_sessions c2) c2) h2"
    "hub_ok J h2" "dict_get (hb_clients h2) cid = Some c2" "core c2 = core c" by metis
  have b: "base_ok h2 c2" using client_found [OF s(2,3)] by (simp add: client_ok_def)
  have gen2: "ob_generation c2 = gen" using s(4) True by (simp add: core_def)
  have "client_ok h2 (send (SharedPresence people)
      (c2\<lparr>ob_roster := Some people, ob_pc := AwaitRoster gen al\<rparr>))" for al
    using b gen2 by (simp add: client_ok_def base_ok_send) (simp add: pc_ok_def send_def)
  moreover have "client_ok h2 (next_session gen al (ob_sessions c2) c2)" for al
    using b gen2 by (intro next_session_ok) (simp_all add: visits_def)
  ultimately show ?thesis unfolding s(1) using s(2,3) by (intro hub_ok_put) simp_all
qed

lemma start_delivery_ok:
  assumes ok: "hub_ok J h" and c: "dict_get (hb_clients h) cid = Some c"
  shows "hub_ok J (start_delivery now cid c h)"
proof -
  let ?h = "prune now h"
  have p: "hub_ok J ?h"
    using ok produces_prune by (intro hub_ok_produces [OF ok]) (simp add: hub_ok_def)
  have c': "dict_get (hb_clients ?h) cid = Some c" using c by (simp add: prune_def)
  have "client_ok ?h (c\<lparr>ob_wake := False, ob_pc := AwaitAccess (ob_generation c) ts\<rparr>)" for ts
    using client_found [OF p c'] by (simp add: client_ok_def pc_ok_def)
  then show ?thesis using p c' by (simp add: start_delivery_def Let_def hub_ok_put)
qed

lemma resume_ok:
  assumes ok: "hub_ok J h"
  shows "hub_ok J (resume now acc cid h)"
proof (cases "dict_get (hb_clients h) cid")
  case None
  then show ?thesis using ok by (simp add: resume_def)
next
  case (Some c)
  have b: "base_ok h c" "pc_ok c" using client_found [OF ok Some] by (simp_all add: client_ok_def)
  have s: "sessions_ok J h" using ok by (simp add: hub_ok_def)
  have put: "client_ok h d \<Longrightarrow> hub_ok J (put_client cid d h)" for d using ok Some by (simp add: hub_ok_put)
  have pop: "base_ok h (c\<lparr>ob_sent := dict_pop sid (ob_sent c)\<rparr>)" for sid
    using base_ok_sent_filter [OF b(1), of "\<lambda>k. k \<noteq> sid"] by (simp add: dict_pop_def)
  show ?thesis
  proof (cases "ob_pc c")
    case Idle
    then show ?thesis using start_delivery_ok [OF ok Some] by (simp add: resume_def Some)
  next
    case (AwaitAccess gen ts)
    then show ?thesis
      using b put got_access_ok [OF ok Some]
      by (auto simp: resume_def Some stop_pump_ok pc_ok_def split: option.splits)
  next
    case (AwaitRoster gen al)
    then have "visits c gen (ob_sessions c)" using b(2) by (simp add: pc_ok_def visits_def)
    then show ?thesis using b(1) put AwaitRoster by (simp add: resume_def Some next_session_ok)
  next
    case (AwaitSession gen al sid rest)
    then have "visits c gen (sid # rest)" using b(2) by (simp add: pc_ok_def)
    then show ?thesis
      using AwaitSession b(1) put s by (auto simp: resume_def Some stop_pump_ok got_session_ok split: option.splits)
  next
    case (AwaitRevoked gen al sid rest)
    then have "visits (c\<lparr>ob_sent := dict_pop sid (ob_sent c)\<rparr>) gen rest" using b(2) by (simp add: pc_ok_def visits_def)
    then show ?thesis using AwaitRevoked pop put by (simp add: resume_def Some next_session_ok)
  next
    case (AwaitState gen al rest)
    then have "visits c gen rest" using b(2) by (simp add: pc_ok_def)
    then show ?thesis using AwaitState b(1) put by (simp add: resume_def Some next_session_ok)
  next
    case (AwaitResource al fr rest)
    then show ?thesis
      using b(1) put by (auto simp: resume_def Some stop_pump_ok got_resource_ok split: option.splits)
  next
    case (AwaitSent al rest)
    then show ?thesis using b(1) put by (simp add: resume_def Some next_resource_ok)
  next
    case Stopped
    then show ?thesis using ok by (simp add: resume_def Some)
  qed
qed

lemma resource_ok: "hub_ok J h \<Longrightarrow> hub_ok J (resource res action rid h)"
  unfolding resource_def
proof (intro hub_ok_wake hub_ok_all)
  fix c
  assume "client_ok h c"
  then show "client_ok h (add_resource res action rid c)"
    by (simp add: client_ok_def add_resource_def Let_def base_ok_resources)
      (simp add: pc_ok_def visits_def split: pump_pc.splits)
qed simp

lemma connect_ok: "hub_ok J h \<Longrightarrow> hub_ok J (connect cid acc again h)"
  by (auto simp: connect_def intro!: hub_ok_put)
    (simp_all add: client_ok_def base_ok_def pc_ok_def synced_def dict_ok_def dict_get_def)

lemma disconnect_ok:
  assumes "hub_ok J h"
  shows "hub_ok J (disconnect_client cid h)"
proof -
  let ?h = "h\<lparr>hb_clients := dict_pop cid (hb_clients h)\<rparr>"
  have "client_ok ?h c = client_ok h c" for c by (rule client_ok_cong) simp_all
  moreover have "length (dict_pop cid (hb_clients h)) \<le> 32"
    using assms length_filter_le [of "\<lambda>p. fst p \<noteq> cid" "hb_clients h"]
    unfolding hub_ok_def dict_pop_def by linarith
  moreover have "sessions_ok J ?h" using assms by (simp add: hub_ok_def sessions_ok_def)
  ultimately have "hub_ok J ?h"
    using assms by (auto simp: hub_ok_def dict_ok_pop dest: in_dict_pop)
  then show ?thesis unfolding disconnect_client_def by (rule hub_ok_wake)
qed

lemma all_some_length: "all_some xs = Some ys \<Longrightarrow> length ys = length xs"
  by (induction xs arbitrary: ys rule: all_some.induct) auto

lemma parse_observation_bound: "parse_observation data = Observe sids focus \<Longrightarrow> length sids \<le> 16 \<and> distinct sids"
proof -
  have r: "length (rev (remdups (rev (map snd ts)))) \<le> 16" if "all_some xs = Some ts" "length xs \<le> 16"
    for xs and ts :: "target list"
    using that all_some_length [OF that(1)] length_remdups_leq [of "rev (map snd ts)"] by simp
  assume "parse_observation data = Observe sids focus"
  then show ?thesis
    using r by (auto simp: parse_observation_def not_less split: option.splits pyval.splits if_splits)
qed

lemma observe_ok:
  assumes "client_ok h c" and "length sids \<le> 16"
  shows "client_ok h (observe sids focus c)"
proof -
  have "base_ok h (c\<lparr>ob_sent := filter (\<lambda>p. fst p \<in> set sids) (ob_sent c)\<rparr>)"
    using assms(1) base_ok_sent_filter [of h c "\<lambda>k. k \<in> set sids"] by (simp add: client_ok_def)
  then have "base_ok h (observe sids focus c)"
    using assms(2) by (simp add: observe_def base_ok_def synced_def)
  moreover have "pc_ok (observe sids focus c)"
    using assms(1) by (auto simp: client_ok_def pc_ok_def visits_def observe_def split: pump_pc.splits)
  ultimately show ?thesis by (simp add: client_ok_def)
qed

lemma receive_ok:
  assumes ok: "hub_ok J h"
  shows "hub_ok J (receive data cid h)"
proof (cases "dict_get (hb_clients h) cid")
  case None
  then show ?thesis using ok by (simp add: receive_def)
next
  case (Some c)
  have c: "client_ok h c" by (rule client_found [OF ok Some])
  show ?thesis
    using ok c Some parse_observation_bound [of data]
    by (cases "parse_observation data")
      (simp_all add: receive_def disconnect_ok hub_ok_wake hub_ok_put observe_ok)
qed

lemma expire_ok:
  assumes ok: "hub_ok J h"
  shows "hub_ok J (expire cid h)"
proof (cases "dict_get (hb_clients h) cid")
  case (Some c)
  have "client_ok h (stop_pump c)" using client_found [OF ok Some] by (intro stop_pump_ok) (simp add: client_ok_def)
  then show ?thesis using ok Some by (simp add: expire_def hub_ok_put)
qed (simp add: expire_def ok)

lemma close_ok:
  assumes ok: "hub_ok J h"
  shows "hub_ok J (close_begin h)" and "hb_closed h \<Longrightarrow> hub_ok J (close_end h)"
proof -
  have "client_ok h c \<Longrightarrow> client_ok (close_begin h) c" for c
    by (simp add: close_begin_def client_ok_def base_ok_def)
  then show "hub_ok J (close_begin h)"
    using ok by (auto simp: hub_ok_def sessions_ok_def) (auto simp: close_begin_def)
  have "client_ok h c \<Longrightarrow> hb_closed h \<Longrightarrow> client_ok (close_end h) c" for c
    by (simp add: close_end_def client_ok_def base_ok_def)
  then show "hb_closed h \<Longrightarrow> hub_ok J (close_end h)"
    using ok by (auto simp: hub_ok_def sessions_ok_def) (auto simp: close_end_def dict_ok_def)
qed

lemma hub_step_ok: "hub_ok J h \<Longrightarrow> hub_ok J (hub_step J h e)"
proof (cases e)
  case (BeginTurn now uid sid t author run)
  assume ok: "hub_ok J h"
  then have "produces J h (snd (begin_turn now uid sid t author run h))"
    by (intro begin_turn_produces) (simp add: hub_ok_def)
  then show ?thesis using hub_ok_produces [OF ok] BeginTurn by simp
next
  case (Publish now uid fr)
  assume ok: "hub_ok J h"
  then have "produces J h (publish J now uid fr h)" by (intro publish_produces) (simp add: hub_ok_def)
  then show ?thesis using hub_ok_produces [OF ok] Publish by simp
qed (simp_all add: resource_ok connect_ok receive_ok disconnect_ok resume_ok expire_ok close_ok)

interpretation shared: invariant_system "hub_step J" "hub_ok J" for J
  by unfold_locales (rule hub_step_ok)

lemma new_hub_ok: "hub_ok J new_hub"
  by (simp add: hub_ok_def new_hub_def sessions_ok_def dict_ok_def)

section \<open>What an observer is sent\<close>

text \<open>The ground on which a frame may go to an observer in one step of the hub: a picture only in answer to
  an authorisation of exactly that session, asked for in the current observation, which observes it; an
  invalidation that names a view, and each person of a roster, only in answer to an authorisation that
  allows that view.\<close>

definition justified :: "hub \<Rightarrow> hub_event \<Rightarrow> nat \<Rightarrow> observer \<Rightarrow> hub_out \<Rightarrow> bool" where
  "justified h e cid c f =
     (case f of
        SharedState sid s \<Rightarrow>
          \<exists>now acc al rest. e = Resume now cid (Some acc) \<and> ob_pc c = AwaitSession (ob_generation c) al sid rest \<and>
            sid \<in> set (ob_sessions c) \<and> (''session'', sid) \<in> set (ac_allowed acc) \<and> s = current h sid
      | ResourceEvent res action i \<Rightarrow>
          (\<forall>t. resource_target (res, action, i) = Some t \<longrightarrow>
             (\<exists>now acc. e = Resume now cid (Some acc) \<and> t \<in> set (ac_allowed acc)))
      | SharedPresence people \<Rightarrow>
          \<exists>now acc. e = Resume now cid (Some acc) \<and> (\<forall>(u, n, t)\<in>set people. t \<in> set (ac_allowed acc))
      | _ \<Rightarrow> True)"

definition grows :: "(hub_out \<Rightarrow> bool) \<Rightarrow> observer \<Rightarrow> observer \<Rightarrow> bool" where
  "grows P c d \<longleftrightarrow> (\<exists>fs. ob_ws d = ob_ws c @ fs \<and> length fs \<le> 1 \<and> (\<forall>f\<in>set fs. P f))"

lemma grows_same: "ob_ws d = ob_ws c \<Longrightarrow> grows P c d"
  by (simp add: grows_def)

lemma grows_send: "P f \<Longrightarrow> ob_ws d = ob_ws c \<Longrightarrow> grows P c (send f d)"
  by (auto simp: grows_def send_def)

lemma grows_next_resource:
  "ob_ws d = ob_ws c \<Longrightarrow> (\<And>res a i. resource_target (res, a, i) = None \<Longrightarrow> P (ResourceEvent res a i)) \<Longrightarrow>
     grows P c (next_resource al fs d)"
  by (auto simp: next_resource_def grows_send grows_same split: list.splits option.splits)

lemma grows_next_session:
  "ob_ws d = ob_ws c \<Longrightarrow> (\<And>res a i. resource_target (res, a, i) = None \<Longrightarrow> P (ResourceEvent res a i)) \<Longrightarrow>
     grows P c (next_session gen al sids d)"
  by (cases sids) (auto simp: next_session_def intro: grows_next_resource grows_same)

lemma roster_allowed: "(u, n, t) \<in> set (roster_of al ps seen) \<Longrightarrow> t \<in> al"
  by (induction al ps seen rule: roster_of.induct) (auto split: option.splits if_splits)

lemma dict_get_hush: "dict_get (hush h) k = map_option (\<lambda>c. c\<lparr>ob_wake := False\<rparr>) (dict_get (hb_clients h) k)"
  by (simp add: hush_def dict_get_def map_of_map)

text \<open>What one client's socket and pump look like; nobody else changes them.\<close>

definition line :: "observer \<Rightarrow> hub_out list \<times> pump_pc" where
  "line c = (ob_ws c, ob_pc c)"

lemma line_produces:
  assumes "hush h' = hush h" and "dict_get (hb_clients h) cid = Some c" and "dict_get (hb_clients h') cid = Some c'"
  shows "line c' = line c"
proof -
  have "c'\<lparr>ob_wake := False\<rparr> = c\<lparr>ob_wake := False\<rparr>"
    using arg_cong [OF assms(1), of "\<lambda>d. dict_get d cid"] assms(2,3) by (simp add: dict_get_hush)
  from arg_cong [OF this, of line] show ?thesis by (simp add: line_def)
qed

lemma line_other:
  assumes "cid \<noteq> k" and "dict_get (hb_clients h) k = Some c" and "dict_get (hb_clients (resume now acc cid h)) k = Some c'"
  shows "line c' = line c"
proof (cases "dict_get (hb_clients h) cid")
  case None
  then show ?thesis using assms by (simp add: resume_def)
next
  case (Some d)
  have g: "line c' = line c" if "dict_get (hb_clients (got_access a gen cid d h)) k = Some c'" for a gen
    using that assms(1,2)
    by (auto simp: got_access_def Let_def line_def dict_get_put_client dict_get_wake split: if_splits)
  show ?thesis
    using assms g Some
    by (auto simp: resume_def start_delivery_def prune_def Let_def dict_get_put_client
        split: pump_pc.splits option.splits)
qed

text \<open>Every event but the client's own resumptions and time-outs leaves its line alone.\<close>

definition own_event :: "nat \<Rightarrow> hub_event \<Rightarrow> bool" where
  "own_event cid e \<longleftrightarrow> (\<exists>now acc. e = Resume now cid acc) \<or> e = Expire cid"

lemma line_kept:
  assumes ok: "hub_ok J h" and c: "dict_get (hb_clients h) cid = Some c"
    and c': "dict_get (hb_clients (hub_step J h e)) cid = Some c'" and e: "\<not> own_event cid e"
  shows "line c' = line c"
proof (cases e)
  case (BeginTurn now uid sid t author run)
  have "hush (hub_step J h e) = hush h"
    using begin_turn_produces [of J h now uid sid t author run] ok by (simp add: BeginTurn hub_ok_def produces_def)
  then show ?thesis using line_produces [OF _ c c'] by simp
next
  case (Publish now uid fr)
  have "hush (hub_step J h e) = hush h"
    using publish_produces [of J h now uid fr] ok by (simp add: Publish hub_ok_def produces_def)
  then show ?thesis using line_produces [OF _ c c'] by simp
next
  case (Resume now k acc)
  then show ?thesis using line_other [OF _ c] c' e by (auto simp: own_event_def)
next
  case (Receive k data)
  then show ?thesis
    using c c'
    by (auto simp: receive_def disconnect_client_def dict_get_wake dict_get_put_client dict_get_pop observe_def line_def
        split: option.splits observation.splits if_splits)
qed (use c c' e in \<open>auto simp: resource_def dict_get_wake dict_get_all_clients add_resource_def Let_def connect_def
      dict_get_put_client disconnect_client_def dict_get_pop expire_def close_begin_def close_end_def own_event_def
      line_def split: if_splits option.splits\<close>)

lemma own_resume:
  assumes ok: "hub_ok J h" and c: "dict_get (hb_clients h) cid = Some c"
    and c': "dict_get (hb_clients (resume now acc cid h)) cid = Some c'"
  shows "grows (justified h (Resume now cid acc) cid c) c c'"
proof -
  let ?P = "justified h (Resume now cid acc) cid c"
  have quiet: "resource_target (res, a, i) = None \<Longrightarrow> ?P (ResourceEvent res a i)" for res a i
    by (simp add: justified_def)
  have plain: "?P AuthErr" "?P (SharedRevoked sid)" for sid by (simp_all add: justified_def)
  have stop: "grows ?P c (stop_pump c)" by (simp add: stop_pump_def grows_send plain)
  have pc: "pc_ok c" using client_found [OF ok c] by (simp add: client_ok_def)
  have next_s: "grows ?P c (next_session gen al sids d)" if "ob_ws d = ob_ws c" for gen al sids d
    using that quiet by (rule grows_next_session)
  have next_r: "grows ?P c (next_resource al fs d)" if "ob_ws d = ob_ws c" for al fs d
    using that quiet by (rule grows_next_resource)
  show ?thesis
  proof (cases "ob_pc c")
    case (AwaitAccess gen ts)
    show ?thesis
    proof (cases acc)
      case (Some a)
      show ?thesis
      proof (cases "ob_generation c = gen")
        case True
        from got_access_shape [OF ok c True, of a] obtain h2 c2 people where s:
          "got_access a gen cid c h = put_client cid
            (if ob_roster c2 \<noteq> Some people
             then send (SharedPresence people)
               (c2\<lparr>ob_roster := Some people, ob_pc := AwaitRoster gen (set (ac_allowed a))\<rparr>)
             else next_session gen (set (ac_allowed a)) (ob_sessions c2) c2) h2"
          "core c2 = core c"
          "people = sort_key (\<lambda>(u, n, k, i). (k, i, u)) (roster_of (set (ac_allowed a)) (dict_values (hb_clients h2)) [])"
          by metis
        have "?P (SharedPresence people)"
          using Some roster_allowed by (fastforce simp: justified_def s(3))
        moreover have "ob_ws c2 = ob_ws c" using s(2) by (simp add: core_def)
        ultimately show ?thesis
          using c' AwaitAccess Some c s(1) next_s
          by (auto simp: resume_def dict_get_put_client grows_send split: if_splits)
      next
        case False
        then show ?thesis
          using c' AwaitAccess Some c
          by (auto simp: resume_def got_access_def dict_get_put_client restart_def intro: grows_same)
      qed
    qed (use c' c AwaitAccess stop in \<open>simp add: resume_def dict_get_put_client\<close>)
  next
    case (AwaitSession gen al sid rest)
    show ?thesis
    proof (cases acc)
      case (Some a)
      have "grows ?P c (got_session a gen al sid rest h c)"
      proof (cases "ob_generation c = gen")
        case True
        then have "?P (SharedState sid (current h sid))" if "(''session'', sid) \<in> set (ac_allowed a)"
          using that Some AwaitSession pc by (auto simp: justified_def pc_ok_def visits_def)
        then show ?thesis
          using True plain next_s by (auto simp: got_session_def Let_def grows_send)
      qed (simp add: got_session_def restart_def grows_same)
      then show ?thesis using c' c AwaitSession Some by (simp add: resume_def dict_get_put_client)
    qed (use c' c AwaitSession stop in \<open>simp add: resume_def dict_get_put_client\<close>)
  next
    case (AwaitResource al fr rest)
    show ?thesis
    proof (cases acc)
      case (Some a)
      have "grows ?P c (got_resource a al fr rest c)"
        using Some next_r by (cases fr) (auto simp: got_resource_def justified_def intro!: grows_send split: option.splits)
      then show ?thesis using c' c AwaitResource Some by (simp add: resume_def dict_get_put_client)
    qed (use c' c AwaitResource stop in \<open>simp add: resume_def dict_get_put_client\<close>)
  qed (use c' c next_s next_r in
      \<open>auto simp: resume_def start_delivery_def Let_def dict_get_put_client intro: grows_same\<close>)
qed

lemma step_grows:
  assumes ok: "hub_ok J h" and c: "dict_get (hb_clients h) cid = Some c"
    and c': "dict_get (hb_clients (hub_step J h e)) cid = Some c'"
  shows "grows (justified h e cid c) c c'"
proof (cases "own_event cid e")
  case True
  have "grows (justified h e cid c) c (stop_pump c)"
    unfolding stop_pump_def by (rule grows_send) (simp_all add: justified_def)
  then show ?thesis
    using True c c' own_resume [OF ok c]
    by (auto simp: own_event_def expire_def dict_get_put_client intro: grows_same split: if_splits)
next
  case False
  then show ?thesis using line_kept [OF ok c c'] by (intro grows_same) (simp add: line_def)
qed

lemma stopped_step:
  assumes "hub_ok J h" and "dict_get (hb_clients h) cid = Some c" and "ob_pc c = Stopped"
    and "dict_get (hb_clients (hub_step J h e)) cid = Some c'"
  shows "line c' = line c"
proof (cases "own_event cid e")
  case True
  then show ?thesis using assms by (auto simp: own_event_def resume_def expire_def)
next
  case False
  then show ?thesis using line_kept assms by blast
qed

lemma absent_kept:
  assumes ok: "hub_ok J h" and c: "dict_get (hb_clients h) cid = None" and e: "\<And>a b. e \<noteq> Connect cid a b"
  shows "dict_get (hb_clients (hub_step J h e)) cid = None"
proof -
  have hush: "dict_get (hb_clients h') cid = None" if "hush h' = hush h" for h'
    using arg_cong [OF that, of "\<lambda>d. dict_get d cid"] c by (simp add: dict_get_hush)
  have s: "sessions_ok J h" using ok by (simp add: hub_ok_def)
  have found: "k \<noteq> cid" if "dict_get (hb_clients h) k = Some d" for k d using that c by auto
  show ?thesis
  proof (cases e)
    case (BeginTurn now uid sid t author run)
    then show ?thesis using begin_turn_produces [OF s] hush by (auto simp: produces_def)
  next
    case (Publish now uid fr)
    then show ?thesis using publish_produces [OF s] hush by (auto simp: produces_def)
  next
    case (Resume now k acc)
    then show ?thesis
      using c found
      by (auto simp: resume_def start_delivery_def got_access_def prune_def Let_def dict_get_put_client dict_get_wake
          split: option.splits pump_pc.splits)
  next
    case (Receive k data)
    then show ?thesis
      using c found
      by (auto simp: receive_def disconnect_client_def dict_get_wake dict_get_put_client dict_get_pop
          split: option.splits observation.splits)
  qed (use c e found in \<open>auto simp: resource_def dict_get_wake dict_get_all_clients connect_def
        dict_get_put_client disconnect_client_def dict_get_pop expire_def close_begin_def close_end_def
        split: option.splits\<close>)
qed

text \<open>A pump that ended never sends again on its socket.\<close>

lemma stopped_run:
  assumes "hub_ok J h" and "\<And>d. dict_get (hb_clients h) cid = Some d \<Longrightarrow> line d = (ws, Stopped)"
    and "\<forall>e\<in>set es. \<forall>a b. e \<noteq> Connect cid a b" and "dict_get (hb_clients (run_ops (hub_step J) h es)) cid = Some c'"
  shows "line c' = (ws, Stopped)"
  using assms
proof (induction es arbitrary: h)
  case (Cons e es)
  show ?case
  proof (rule Cons.IH [of "hub_step J h e"])
    fix d
    assume d: "dict_get (hb_clients (hub_step J h e)) cid = Some d"
    then obtain d0 where d0: "dict_get (hb_clients h) cid = Some d0"
      using absent_kept [OF Cons.prems(1), of cid e] Cons.prems(3) by (cases "dict_get (hb_clients h) cid") auto
    with stopped_step [OF Cons.prems(1) d0 _ d] Cons.prems(2) show "line d = (ws, Stopped)"
      by (simp add: line_def)
  qed (use Cons.prems in \<open>simp_all add: hub_step_ok\<close>)
qed simp

section \<open>A delivery catches up\<close>

definition up_to_date :: "hub \<Rightarrow> observer \<Rightarrow> string \<Rightarrow> bool" where
  "up_to_date h c sid \<longleftrightarrow> last_state sid (ob_ws c) = Some (current h sid)"

lemma up_to_date_grows:
  assumes "grows P c c'" and "up_to_date h c sid" and "\<And>sid s. P (SharedState sid s) \<Longrightarrow> s = current h sid"
  shows "up_to_date h c' sid"
proof -
  from assms(1) obtain fs where fs: "ob_ws c' = ob_ws c @ fs" "length fs \<le> 1" "\<forall>f\<in>set fs. P f"
    by (auto simp: grows_def)
  show ?thesis
  proof (cases fs)
    case (Cons f fs')
    then have "ob_ws c' = ob_ws c @ [f]" "P f" using fs by simp_all
    then show ?thesis
      using assms(2,3) by (cases f) (auto simp: up_to_date_def last_state_snoc)
  qed (use fs assms(2) in \<open>simp add: up_to_date_def\<close>)
qed

lemma justified_state: "justified h e cid c (SharedState sid s) \<Longrightarrow> s = current h sid"
  by (auto simp: justified_def)

lemma up_to_date_next_session:
  assumes "up_to_date h c s"
  shows "up_to_date h (next_session gen al sids c) s"
proof -
  have "grows (\<lambda>f. \<exists>res a i. f = ResourceEvent res a i) c (next_session gen al sids c)"
    by (rule grows_next_session) auto
  then show ?thesis using assms by (rule up_to_date_grows) auto
qed

lemma visit_session:
  assumes ok: "hub_ok J h" "\<not> hb_closed h" and c: "dict_get (hb_clients h) cid = Some c"
    and pc: "ob_pc c = AwaitSession (ob_generation c) al sid rest" and acc: "(''session'', sid) \<in> set (ac_allowed acc)"
  shows "up_to_date h (got_session acc (ob_generation c) al sid rest h c) sid"
proof (cases "dict_get (ob_sent c) sid = Some (ls_revision (current h sid))")
  case True
  have "synced h c" using client_found [OF ok(1) c] ok(2) by (simp add: client_ok_def base_ok_def)
  then have "up_to_date h c sid" using True unfolding synced_def up_to_date_def by metis
  then show ?thesis using True acc by (simp add: got_session_def Let_def up_to_date_next_session)
next
  case False
  then show ?thesis using acc by (simp add: got_session_def Let_def up_to_date_def send_def last_state_snoc)
qed

text \<open>Resuming a client that is not idle does not touch the sessions.\<close>

lemma resume_frame:
  assumes ok: "hub_ok J h" and c: "dict_get (hb_clients h) cid = Some c" and pc: "ob_pc c \<noteq> Idle"
  shows "hb_sessions (resume now acc cid h) = hb_sessions h \<and> hb_revision (resume now acc cid h) = hb_revision h \<and>
    hb_closed (resume now acc cid h) = hb_closed h"
proof -
  have "hb_sessions (got_access a gen cid c h) = hb_sessions h \<and> hb_revision (got_access a gen cid c h) = hb_revision h \<and>
      hb_closed (got_access a gen cid c h) = hb_closed h" for a gen
    by (simp add: got_access_def Let_def)
  then show ?thesis
    using c pc by (auto simp: resume_def split: pump_pc.splits option.splits)
qed

text \<open>A number of undisturbed resumptions of one client, all answered alike.\<close>

abbreviation resumes :: "hub_json \<Rightarrow> real \<Rightarrow> nat \<Rightarrow> access \<Rightarrow> nat \<Rightarrow> hub \<Rightarrow> hub" where
  "resumes J now cid acc n h \<equiv> run_ops (hub_step J) h (replicate n (Resume now cid (Some acc)))"

definition at_sessions :: "observer \<Rightarrow> string list \<Rightarrow> bool" where
  "at_sessions c sids \<longleftrightarrow>
     (case sids of [] \<Rightarrow> True | sid # rest \<Rightarrow> \<exists>al. ob_pc c = AwaitSession (ob_generation c) al sid rest)"

lemma at_next_session: "at_sessions (next_session (ob_generation c) al sids c) sids"
  by (cases sids) (simp_all add: at_sessions_def next_session_def)

text \<open>One authorised visit, with the wait for the frame to be sent if there was one.\<close>

lemma visit_step:
  assumes ok: "hub_ok J h" "\<not> hb_closed h" and c: "dict_get (hb_clients h) cid = Some c"
    and pc: "ob_pc c = AwaitSession (ob_generation c) al sid rest" and acc: "(''session'', sid) \<in> set (ac_allowed acc)"
  shows "\<exists>n h' c'. h' = resumes J now cid acc n h \<and> dict_get (hb_clients h') cid = Some c' \<and>
    hb_sessions h' = hb_sessions h \<and> hb_revision h' = hb_revision h \<and> hb_closed h' = hb_closed h \<and>
    at_sessions c' rest \<and> up_to_date h c' sid \<and> (\<forall>s. up_to_date h c s \<longrightarrow> up_to_date h c' s)"
proof -
  let ?c1 = "got_session acc (ob_generation c) al sid rest h c"
  let ?h1 = "put_client cid ?c1 h"
  have r1: "resume now (Some acc) cid h = ?h1" using c pc by (simp add: resume_def)
  have c1: "dict_get (hb_clients ?h1) cid = Some ?c1" by (simp add: dict_get_put_client)
  have new: "up_to_date h ?c1 sid" by (rule visit_session [OF ok c pc acc])
  have old: "up_to_date h ?c1 s" if "up_to_date h c s" for s
    using own_resume [OF ok(1) c, of now "Some acc"] c1 that r1 up_to_date_grows justified_state by metis
  show ?thesis
  proof (cases "dict_get (ob_sent c) sid = Some (ls_revision (current h sid))")
    case True
    then have "?c1 = next_session (ob_generation c) (insert (''session'', sid) al) rest c"
      using acc by (simp add: got_session_def Let_def)
    then have "at_sessions ?c1 rest" using at_next_session by metis
    then show ?thesis using r1 c1 new old by (intro exI [of _ 1] exI [of _ ?h1] exI [of _ ?c1]) simp
  next
    case False
    then have s1: "ob_pc ?c1 = AwaitState (ob_generation c) (insert (''session'', sid) al) rest"
      "ob_generation ?c1 = ob_generation c" using acc by (simp_all add: got_session_def Let_def send_def)
    let ?c2 = "next_session (ob_generation c) (insert (''session'', sid) al) rest ?c1"
    have r2: "resume now (Some acc) cid ?h1 = put_client cid ?c2 ?h1" using c1 s1(1) by (simp add: resume_def)
    have "up_to_date h ?c2 s" if "up_to_date h ?c1 s" for s
      using that by (rule up_to_date_next_session)
    moreover have "at_sessions ?c2 rest" using at_next_session [of ?c1] s1(2) by simp
    ultimately show ?thesis
      using r1 r2 new old
      by (intro exI [of _ 2] exI [of _ "put_client cid ?c2 ?h1"] exI [of _ ?c2])
        (simp add: numeral_2_eq_2 dict_get_put_client)
  qed
qed

lemma up_to_date_cong:
  "hb_sessions h' = hb_sessions h \<Longrightarrow> hb_revision h' = hb_revision h \<Longrightarrow> up_to_date h' c s = up_to_date h c s"
  using current_cong [of h' h] by (simp add: up_to_date_def)

lemma resumes_add: "resumes J now cid acc m (resumes J now cid acc n h) = resumes J now cid acc (n + m) h"
  by (simp add: replicate_add run_ops_append)

lemma visit_all:
  assumes "hub_ok J h" "\<not> hb_closed h" "dict_get (hb_clients h) cid = Some c" "at_sessions c sids"
    "\<forall>s\<in>set sids. (''session'', s) \<in> set (ac_allowed acc)"
  shows "\<exists>n c'. dict_get (hb_clients (resumes J now cid acc n h)) cid = Some c' \<and>
    hb_sessions (resumes J now cid acc n h) = hb_sessions h \<and>
    hb_revision (resumes J now cid acc n h) = hb_revision h \<and>
    (\<forall>s. s \<in> set sids \<or> up_to_date h c s \<longrightarrow> up_to_date h c' s)"
  using assms
proof (induction sids arbitrary: h c)
  case Nil
  then show ?case by (intro exI [of _ 0]) auto
next
  case (Cons sid sids)
  from Cons.prems(4) obtain al where pc: "ob_pc c = AwaitSession (ob_generation c) al sid sids"
    by (auto simp: at_sessions_def)
  from visit_step [OF Cons.prems(1-3) pc, of acc now] Cons.prems(5) obtain n c1 where
    s1: "dict_get (hb_clients (resumes J now cid acc n h)) cid = Some c1"
      "hb_sessions (resumes J now cid acc n h) = hb_sessions h" "hb_revision (resumes J now cid acc n h) = hb_revision h"
      "hb_closed (resumes J now cid acc n h) = hb_closed h"
      "at_sessions c1 sids" "up_to_date h c1 sid" "\<forall>s. up_to_date h c s \<longrightarrow> up_to_date h c1 s" by auto
  let ?h1 = "resumes J now cid acc n h"
  have "hub_ok J ?h1" using Cons.prems(1) by (rule shared.run_inv)
  from Cons.IH [OF this _ s1(1,5)] Cons.prems(2,5) s1(4) obtain m c2 where
    s2: "dict_get (hb_clients (resumes J now cid acc m ?h1)) cid = Some c2"
      "hb_sessions (resumes J now cid acc m ?h1) = hb_sessions ?h1"
      "hb_revision (resumes J now cid acc m ?h1) = hb_revision ?h1"
      "\<forall>s. s \<in> set sids \<or> up_to_date ?h1 c1 s \<longrightarrow> up_to_date ?h1 c2 s" by auto
  have same: "up_to_date ?h1 d s = up_to_date h d s" for d s using s1(2,3) by (rule up_to_date_cong)
  show ?case
    using s2 s1 by (intro exI [of _ "n + m"] exI [of _ c2]) (auto simp: resumes_add same)
qed

text \<open>The opening of a delivery: one or two resumptions lead to the first session.\<close>

lemma delivery_opens:
  assumes ok: "hub_ok J h" and c: "dict_get (hb_clients h) cid = Some c"
    and pc: "ob_pc c = AwaitAccess (ob_generation c) ts"
  shows "\<exists>n c'. dict_get (hb_clients (resumes J now cid acc n h)) cid = Some c' \<and>
    hb_sessions (resumes J now cid acc n h) = hb_sessions h \<and>
    hb_revision (resumes J now cid acc n h) = hb_revision h \<and>
    hb_closed (resumes J now cid acc n h) = hb_closed h \<and> at_sessions c' (ob_sessions c)"
proof -
  let ?al = "set (ac_allowed acc)"
  from got_access_shape [OF ok c refl, of acc] obtain h2 c2 people where s:
    "got_access acc (ob_generation c) cid c h = put_client cid
      (if ob_roster c2 \<noteq> Some people
       then send (SharedPresence people) (c2\<lparr>ob_roster := Some people, ob_pc := AwaitRoster (ob_generation c) ?al\<rparr>)
       else next_session (ob_generation c) ?al (ob_sessions c2) c2) h2" "core c2 = core c" by metis
  have core: "ob_generation c2 = ob_generation c" "ob_sessions c2 = ob_sessions c" using s(2) by (simp_all add: core_def)
  let ?h1 = "resume now (Some acc) cid h"
  have r1: "?h1 = got_access acc (ob_generation c) cid c h" using c pc by (simp add: resume_def)
  have f1: "hb_sessions ?h1 = hb_sessions h" "hb_revision ?h1 = hb_revision h" "hb_closed ?h1 = hb_closed h"
    using resume_frame [OF ok c, of now "Some acc"] pc by simp_all
  show ?thesis
  proof (cases "ob_roster c2 = Some people")
    case True
    then have "dict_get (hb_clients ?h1) cid = Some (next_session (ob_generation c2) ?al (ob_sessions c2) c2)"
      by (simp add: r1 s(1) dict_get_put_client core)
    then show ?thesis using f1 at_next_session [of c2 ?al "ob_sessions c2"] core by (intro exI [of _ 1]) auto
  next
    case False
    let ?c1 = "send (SharedPresence people) (c2\<lparr>ob_roster := Some people, ob_pc := AwaitRoster (ob_generation c) ?al\<rparr>)"
    have c1: "dict_get (hb_clients ?h1) cid = Some ?c1" using False by (simp add: r1 s(1) dict_get_put_client)
    have ok1: "hub_ok J ?h1" by (rule resume_ok [OF ok])
    have s1: "ob_pc ?c1 = AwaitRoster (ob_generation c) ?al" "ob_generation ?c1 = ob_generation c"
      "ob_sessions ?c1 = ob_sessions c" using core by (simp_all add: send_def)
    let ?h2 = "resume now (Some acc) cid ?h1"
    have "dict_get (hb_clients ?h2) cid = Some (next_session (ob_generation ?c1) ?al (ob_sessions ?c1) ?c1)"
      using c1 s1 by (simp add: resume_def dict_get_put_client)
    moreover have "hb_sessions ?h2 = hb_sessions h" "hb_revision ?h2 = hb_revision h" "hb_closed ?h2 = hb_closed h"
      using resume_frame [OF ok1 c1, of now "Some acc"] s1(1) f1 by simp_all
    moreover have "resumes J now cid acc 2 h = ?h2" by (simp add: numeral_2_eq_2)
    ultimately show ?thesis using at_next_session [of ?c1] s1(3) by (intro exI [of _ 2]) auto
  qed
qed

section \<open>What the hub promises\<close>

text \<open>
  C25: The hub is bounded. Whatever producers publish and clients send, it holds at most 128 live sessions of
  at most eight turns, each turn with at most an input and a reply of bounded text, bounded status, error
  and media and at most 128 tool entries whose encoding is bounded, and serves at most 32 observers, each
  with at most 16 sessions and 64 pending invalidations.
\<close>

theorem hub_bounded:
  assumes "h = run_ops (hub_step J) new_hub es"
  shows "length (hb_sessions h) \<le> 128 \<and> length (hb_clients h) \<le> 32 \<and>
    (\<forall>(sid, s)\<in>set (hb_sessions h). length (ls_turns s) \<in> {1..8} \<and>
       (\<forall>t\<in>set (ls_turns s). length (tn_messages t) \<le> 2 \<and> length (tn_tools t) \<le> 128 \<and>
          (tn_tools t = [] \<or> length (hj_dumps J (PList (map entry_val (tn_tools t)))) \<le> 131072) \<and>
          (\<forall>m\<in>set (tn_messages t). length (ms_text m) \<le> 131072 \<and>
             (\<forall>v. ms_attachments m = Some v \<or> ms_parts m = Some v \<longrightarrow> length (hj_dumps J v) \<le> 262144)))) \<and>
    (\<forall>(k, c)\<in>set (hb_clients h). length (ob_sessions c) \<le> 16 \<and> length (ob_resources c) \<le> 64)"
proof -
  have ok: "hub_ok J h" unfolding assms by (rule shared.run_inv [OF new_hub_ok])
  have "length (tn_messages t) \<le> 2" if "turn_ok J t" for t
  proof -
    have "length (map ms_id (tn_messages t)) \<le> 2" using that unfolding turn_ok_def by force
    then show ?thesis by simp
  qed
  moreover have "length (ls_turns s) \<in> {1..8} \<and> (\<forall>t\<in>set (ls_turns s). turn_ok J t)" if "(sid, s) \<in> set (hb_sessions h)" for sid s
    using ok that by (force simp: hub_ok_def sessions_ok_def session_ok_def Suc_le_eq)
  ultimately show ?thesis
    using ok by (force simp: hub_ok_def sessions_ok_def client_ok_def base_ok_def turn_ok_def message_ok_def)
qed

text \<open>
  C8: Observers only see what they were just authorised for. In every reachable state, one step sends at most
  one frame to an observer; a picture of a session is sent only in answer to an authorisation of exactly
  that session, granted in the observer's current observation, which includes it, and it is the picture at
  that moment; invalidations that name a view and entries of the roster are sent only in answer to an
  authorisation that allows that view.
\<close>

theorem observers_see_authorised:
  assumes "h = run_ops (hub_step J) new_hub es"
    and "dict_get (hb_clients h) cid = Some c" and "dict_get (hb_clients (hub_step J h e)) cid = Some c'"
  shows "\<exists>fs. ob_ws c' = ob_ws c @ fs \<and> length fs \<le> 1 \<and> (\<forall>f\<in>set fs. justified h e cid c f)"
proof -
  have "hub_ok J h" unfolding assms(1) by (rule shared.run_inv [OF new_hub_ok])
  from step_grows [OF this assms(2,3)] show ?thesis by (simp add: grows_def)
qed

text \<open>
  C19: No lost updates. In every reachable state before shutdown, when the revision noted for a session is
  the current one, so that a delivery skips it, the last picture the observer was sent is the current
  picture of that session.
\<close>

theorem skipped_session_is_current:
  assumes "h = run_ops (hub_step J) new_hub es" and "\<not> hb_closed h"
    and "dict_get (hb_clients h) cid = Some c" and "dict_get (ob_sent c) sid = Some (ls_revision (current h sid))"
  shows "last_state sid (ob_ws c) = Some (current h sid)"
proof -
  have "hub_ok J h" unfolding assms(1) by (rule shared.run_inv [OF new_hub_ok])
  from client_found [OF this assms(3)] assms(2) have "synced h c" by (simp add: client_ok_def base_ok_def)
  with assms(4) show ?thesis unfolding synced_def by metis
qed

text \<open>
  C28: A delivery that is not disturbed and whose sessions are all allowed comes to an end with the observer up to
  date: after finitely many resumptions the last picture sent of each observed session is the current one.
\<close>

theorem delivery_catches_up:
  assumes "h = run_ops (hub_step J) new_hub es" and "\<not> hb_closed h"
    and "dict_get (hb_clients h) cid = Some c" and "ob_pc c = Idle"
    and "\<forall>sid\<in>set (ob_sessions c). (''session'', sid) \<in> set (ac_allowed acc)"
  shows "\<exists>n c'. dict_get (hb_clients (resumes J now cid acc n h)) cid = Some c' \<and>
    (\<forall>sid\<in>set (ob_sessions c). last_state sid (ob_ws c') = Some (current (resumes J now cid acc n h) sid))"
proof -
  have ok: "hub_ok J h" unfolding assms(1) by (rule shared.run_inv [OF new_hub_ok])
  let ?h0 = "resumes J now cid acc 1 h"
  let ?c0 = "c\<lparr>ob_wake := False, ob_pc := AwaitAccess (ob_generation c) (delivery_targets c (prune now h))\<rparr>"
  have h0: "?h0 = start_delivery now cid c h" using assms(3,4) by (simp add: resume_def)
  have c0: "dict_get (hb_clients ?h0) cid = Some ?c0"
    unfolding h0 by (simp add: start_delivery_def Let_def dict_get_put_client)
  have ok0: "hub_ok J ?h0" by (rule shared.run_inv [OF ok])
  have open0: "\<not> hb_closed ?h0" using assms(2) unfolding h0 by (simp add: start_delivery_def Let_def)
  from delivery_opens [OF ok0 c0, of _ now acc] obtain n c1 where
    s1: "dict_get (hb_clients (resumes J now cid acc n ?h0)) cid = Some c1"
      "hb_closed (resumes J now cid acc n ?h0) = hb_closed ?h0" "at_sessions c1 (ob_sessions c)" by auto
  let ?h1 = "resumes J now cid acc n ?h0"
  have "hub_ok J ?h1" by (rule shared.run_inv [OF ok0])
  from visit_all [OF this _ s1(1,3) assms(5), of now] s1(2) open0 obtain m c2 where
    s2: "dict_get (hb_clients (resumes J now cid acc m ?h1)) cid = Some c2"
      "hb_sessions (resumes J now cid acc m ?h1) = hb_sessions ?h1"
      "hb_revision (resumes J now cid acc m ?h1) = hb_revision ?h1"
      "\<forall>s\<in>set (ob_sessions c). up_to_date ?h1 c2 s" by auto
  have "current (resumes J now cid acc m ?h1) = current ?h1" using s2(2,3) by (rule current_cong)
  then show ?thesis
    using s2(1,4) unfolding resumes_add up_to_date_def by (intro exI [of _ "1 + n + m"] exI [of _ c2]) simp
qed

section \<open>A run\<close>

definition demo_json :: hub_json where
  "demo_json = \<lparr>hj_dumps = (\<lambda>_. []), hj_loads = (\<lambda>_. None)\<rparr>"
definition demo_access :: access where
  "demo_access = \<lparr>ac_user = (''u1'', ''Ann''), ac_allowed = [(''session'', ''s1'')]\<rparr>"
definition demo_watch :: "hub_event list" where
  "demo_watch =
     [Connect 1 demo_access (Some demo_access),
      Receive 1 (Some (PDict [(PStr ''type'', PStr ''observe''), (PStr ''sessions'', PList [PStr ''s1''])])),
      BeginTurn 0 ''t1'' ''s1'' ''hi'' PNone PNone]"
definition demo_hub :: "nat \<Rightarrow> hub" where
  "demo_hub n = run_ops (hub_step demo_json) new_hub (demo_watch @ replicate n (Resume 0 1 (Some demo_access)))"

lemmas demo_hub_run = demo_json_def demo_access_def demo_watch_def new_hub_def connect_def receive_def
  parse_observation_def session_target_def target_key_def KINDS_def IDENTIFIER_def is_alnum_def is_alpha_def
  is_digit_def char_code_def id_char_def observe_def put_client_def wake_def all_clients_def begin_turn_def
  prune_def changed_def map_last_def new_turn_def input_message_def dict_get_def pget_def pget_or_def

lemma demo_hub_0:
  "demo_hub 0 = \<lparr>hb_closed = False,
     hb_sessions = [(''s1'', \<lparr>ls_turns = [new_turn 0 ''t1'' ''hi'' PNone PNone], ls_revision = 1, ls_updated = 0\<rparr>)],
     hb_clients = [(1, \<lparr>ob_user = (''u1'', ''Ann''), ob_sessions = [''s1''], ob_focus = None, ob_requested = None,
       ob_wake = True, ob_sent = [], ob_roster = None, ob_resources = [], ob_generation = 1, ob_ws = [AuthOk],
       ob_pc = Idle\<rparr>)], hb_revision = 1\<rparr>"
  by (simp add: demo_hub_def demo_hub_run)

lemma demo_hub_Suc: "demo_hub (Suc n) = resume 0 (Some demo_access) 1 (demo_hub n)"
  by (simp add: demo_hub_def run_ops_append replicate_append_same [symmetric] del: replicate_Suc)
    (simp add: replicate_append_same [symmetric] run_ops_append)

lemmas demo_resume = demo_access_def resume_def start_delivery_def delivery_targets_def got_access_def got_session_def
  next_session_def next_resource_def current_def send_def put_client_def prune_def stale_def is_active_def
  new_turn_def dict_get_def dict_values_def Let_def

lemma demo_hub_3:
  "demo_hub 3 = (demo_hub 0)\<lparr>hb_clients := [(1, \<lparr>ob_user = (''u1'', ''Ann''), ob_sessions = [''s1''], ob_focus = None,
     ob_requested = None, ob_wake = False, ob_sent = [], ob_roster = Some [], ob_resources = [], ob_generation = 1,
     ob_ws = [AuthOk, SharedPresence []], ob_pc = AwaitSession 1 {(''session'', ''s1'')} ''s1'' []\<rparr>)]\<rparr>"
  by (simp add: eval_nat_numeral demo_hub_Suc demo_hub_0) (simp add: demo_resume)

lemma demo_hub_4:
  "demo_hub 4 = (demo_hub 0)\<lparr>hb_clients := [(1, \<lparr>ob_user = (''u1'', ''Ann''), ob_sessions = [''s1''], ob_focus = None,
     ob_requested = None, ob_wake = False, ob_sent = [(''s1'', 1)], ob_roster = Some [], ob_resources = [],
     ob_generation = 1, ob_ws = [AuthOk, SharedPresence [], SharedState ''s1'' (current (demo_hub 0) ''s1'')],
     ob_pc = AwaitState 1 {(''session'', ''s1'')} []\<rparr>)]\<rparr>"
proof -
  have "demo_hub 4 = resume 0 (Some demo_access) 1 (demo_hub 3)" using demo_hub_Suc [of 3] by simp
  then show ?thesis unfolding demo_hub_3 by (simp add: demo_hub_0) (simp add: demo_resume)
qed

theorem hub_bounded_witness: "length (hb_sessions (demo_hub 4)) \<le> 128 \<and> length (hb_clients (demo_hub 4)) \<le> 32"
  using hub_bounded [OF demo_hub_def [of 4]] by blast

theorem observers_see_authorised_witness:
  "\<exists>c c' fs. dict_get (hb_clients (demo_hub 3)) 1 = Some c \<and>
     dict_get (hb_clients (hub_step demo_json (demo_hub 3) (Resume 0 1 (Some demo_access)))) 1 = Some c' \<and>
     ob_ws c' = ob_ws c @ fs \<and> fs \<noteq> [] \<and>
     (\<forall>f\<in>set fs. justified (demo_hub 3) (Resume 0 1 (Some demo_access)) 1 c f)"
proof -
  have "hub_step demo_json (demo_hub 3) (Resume 0 1 (Some demo_access)) = demo_hub 4"
    using demo_hub_Suc [of 3] by simp
  moreover obtain c where c: "dict_get (hb_clients (demo_hub 3)) 1 = Some c" "length (ob_ws c) = 2"
    by (simp add: demo_hub_3 dict_get_def)
  moreover obtain c' where c': "dict_get (hb_clients (demo_hub 4)) 1 = Some c'" "length (ob_ws c') = 3"
    by (simp add: demo_hub_4 dict_get_def)
  ultimately show ?thesis
    using observers_see_authorised [OF demo_hub_def [of 3] c(1), of "Resume 0 1 (Some demo_access)" c'] by auto
qed

theorem skipped_session_is_current_witness:
  "\<exists>c. dict_get (hb_clients (demo_hub 4)) 1 = Some c \<and>
     last_state ''s1'' (ob_ws c) = Some (current (demo_hub 4) ''s1'')"
proof -
  have "\<not> hb_closed (demo_hub 4)" by (simp add: demo_hub_4 demo_hub_0)
  moreover obtain c where "dict_get (hb_clients (demo_hub 4)) 1 = Some c"
    "dict_get (ob_sent c) ''s1'' = Some (ls_revision (current (demo_hub 4) ''s1''))"
    by (simp add: demo_hub_4 demo_hub_0 current_def dict_get_def)
  ultimately show ?thesis using skipped_session_is_current [OF demo_hub_def [of 4]] by blast
qed

theorem delivery_catches_up_witness:
  "\<exists>n c'. dict_get (hb_clients (resumes demo_json 0 1 demo_access n (demo_hub 0))) 1 = Some c' \<and>
     last_state ''s1'' (ob_ws c') = Some (current (resumes demo_json 0 1 demo_access n (demo_hub 0)) ''s1'')"
proof -
  have o: "\<not> hb_closed (demo_hub 0)" by (simp add: demo_hub_0)
  obtain c where c: "dict_get (hb_clients (demo_hub 0)) 1 = Some c" "ob_pc c = Idle" "ob_sessions c = [''s1'']"
    by (simp add: demo_hub_0 dict_get_def)
  have "\<forall>sid\<in>set (ob_sessions c). (''session'', sid) \<in> set (ac_allowed demo_access)"
    by (simp add: c(3) demo_access_def)
  from delivery_catches_up [OF demo_hub_def o c(1,2) this, of 0] show ?thesis using c(3) by simp
qed

end
