(* ===== verification/Collab_Access.thy ===== *)
theory Collab_Access
  imports Auth_Middleware Shared_Hub
begin

text \<open>
  Who may watch what (\<open>apps/server/.../gateway/collaboration_access.py\<close>): the authorisation that the shared
  hub asks for before each delivery, and the check of the device behind a long-lived connection
  (\<open>_request_device_still_authorized\<close> of \<open>gateway/server.py\<close>) on the live state of the authentication
  middleware.

  Each roster lookup and each read of the policy suspends; what other tasks do to the authentication
  state meanwhile are arguments. The visibility rules on rows of the database belong to the core library
  and are parameters, as is a policy that an embedding host installs. An answer \<open>None\<close> is an exception.
\<close>

section \<open>The device behind a connection\<close>

record device_check =
  dk_answer :: roster_answer
  dk_during :: "state_event list"

definition request_device_still_authorized :: "device_check \<Rightarrow> annotations \<Rightarrow> auth_state \<Rightarrow> bool \<times> auth_state" where
  "request_device_still_authorized D an st =
     (let key = c_device_pubkey (an_cert an)
      in if an_kind an \<noteq> DeviceCertificate then (True, st)
         else if an_epoch an \<noteq> Some (device_epoch st key) \<or> key \<in> as_revoked st then (False, st)
         else if PStr ''bridge'' \<in> set (c_capabilities (an_cert an)) then (True, st)
         else
           (let st1 = (if as_has_lookup st then run_ops state_step st (dk_during D) else st)
            in case device_is_active (dk_answer D) key st1 of
                 (None, st2) \<Rightarrow> (False, disconnect key st2)
               | (Some False, st2) \<Rightarrow> (False, disconnect key st2)
               | (Some True, st2) \<Rightarrow> (an_epoch an = Some (device_epoch st2 key), st2)))"

section \<open>Views of a request\<close>

text \<open>The native policy: rows of sessions and of owners, which definitions exist, the row assumed for a
  definition without an owner, and whether a row is visible with a permission.\<close>

record 'r acl =
  acl_session :: "string \<Rightarrow> 'r option"
  acl_exists :: "string \<Rightarrow> string \<Rightarrow> bool"
  acl_owner :: "string \<Rightarrow> string \<Rightarrow> 'r option"
  acl_unclaimed :: "string \<Rightarrow> string \<Rightarrow> 'r"
  acl_visible :: "'r \<Rightarrow> string \<Rightarrow> bool"

definition resource_types :: "string \<Rightarrow> string" where
  "resource_types kind =
     (if kind = ''workflow'' then ''workflow_definition''
      else if kind = ''scheduled_task'' then ''scheduled_definition'' else ''event_definition'')"

definition resource_tables :: "string \<Rightarrow> string" where
  "resource_tables kind =
     (if kind = ''workflow'' then ''workflow_tasks''
      else if kind = ''scheduled_task'' then ''scheduled_tasks'' else ''events'')"

definition row_of :: "'r acl \<Rightarrow> target \<Rightarrow> 'r option" where
  "row_of A t =
     (case t of (kind, i) \<Rightarrow>
        if kind = ''session'' then acl_session A i
        else if \<not> acl_exists A (resource_tables kind) i then None
        else (case acl_owner A (resource_types kind) i of
                Some r \<Rightarrow> Some r | None \<Rightarrow> Some (acl_unclaimed A (resource_types kind) i)))"

definition is_visible :: "'r acl \<Rightarrow> string \<Rightarrow> target \<Rightarrow> bool" where
  "is_visible A permission t = (case row_of A t of None \<Rightarrow> False | Some r \<Rightarrow> acl_visible A r permission)"

datatype 'r collab_policy =
    HostPolicy "pyval option"
  | NativePolicy string string "'r acl"
  \<comment> \<open>what the installed policy returned; or the principal and handle of the request, with the rows\<close>

definition policy_result :: "'r collab_policy \<Rightarrow> annotations \<Rightarrow> string \<Rightarrow> pyval list \<Rightarrow> pyval option" where
  "policy_result policy an permission targets =
     (case policy of
        HostPolicy r \<Rightarrow> r
      | NativePolicy uid handle A \<Rightarrow>
          if an_kind an = HttpToken then None
          else Some (PDict [(PStr ''userId'', PStr uid), (PStr ''name'', PStr handle),
            (PStr ''allowed'', PList (filter (\<lambda>v. \<exists>t\<in>set_option (target_key v). is_visible A permission t) targets))]))"

text \<open>The checks on what a policy returned, against the views that were asked for.\<close>

definition checked_scope :: "target list \<Rightarrow> nat \<Rightarrow> pyval \<Rightarrow> access option" where
  "checked_scope requested n result =
     (case result of
        PDict d \<Rightarrow>
          (case (pget ''userId'' d, pget ''name'' d, pget ''allowed'' d) of
             (Some (PStr user), Some (PStr name), Some (PList vs)) \<Rightarrow>
               if user = [] \<or> length user > 1024 \<or> length name > 1024 \<or> length vs > n then None
               else (case all_some (map target_key vs) of
                       None \<Rightarrow> None
                     | Some ts \<Rightarrow>
                         if list_all (\<lambda>t. t \<in> set requested) ts
                         then Some \<lparr>ac_user = (user, name), ac_allowed = ts\<rparr> else None)
           | _ \<Rightarrow> None)
      | _ \<Rightarrow> None)"

record collab_inputs =
  ci_before :: device_check
  ci_between :: "state_event list"
  ci_after :: device_check
  ci_identity :: bool
  \<comment> \<open>whether an on-behalf identity can be made from the certificate\<close>

definition authorize ::
  "collab_inputs \<Rightarrow> 'r collab_policy \<Rightarrow> annotations option \<Rightarrow> pyval list \<Rightarrow> string \<Rightarrow> auth_state
     \<Rightarrow> access option \<times> auth_state" where
  "authorize X policy request targets permission st =
     (case request of
        None \<Rightarrow> (None, st)
      | Some an \<Rightarrow>
          (case request_device_still_authorized (ci_before X) an st of
             (False, st1) \<Rightarrow> (None, st1)
           | (True, st1) \<Rightarrow>
               if permission \<notin> {''view'', ''admin''} \<or> \<not> ci_identity X then (None, st1)
               else
                 (case all_some (map target_key targets) of
                    None \<Rightarrow> (None, st1)
                  | Some requested \<Rightarrow>
                      (let st2 = run_ops state_step st1 (ci_between X)
                       in case policy_result policy an permission targets of
                            None \<Rightarrow> (None, st2)
                          | Some result \<Rightarrow>
                              (case checked_scope requested (length targets) result of
                                 None \<Rightarrow> (None, st2)
                               | Some acc \<Rightarrow>
                                   (case request_device_still_authorized (ci_after X) an st2 of
                                      (ok, st3) \<Rightarrow> (if ok then Some acc else None, st3)))))))"

section \<open>What an authorisation means\<close>

lemma still_authorized_epoch:
  assumes "request_device_still_authorized D an st = (True, st')" and "an_kind an = DeviceCertificate"
  shows "an_epoch an = Some (device_epoch st' (c_device_pubkey (an_cert an)))"
  using assms
  by (auto simp: request_device_still_authorized_def Let_def split: if_splits prod.splits option.splits bool.splits)

lemma cut_off_refused:
  assumes "an_kind an = DeviceCertificate" and "an_epoch an \<noteq> Some (device_epoch st (c_device_pubkey (an_cert an)))"
  shows "authorize X policy (Some an) targets permission st = (None, st)"
  using assms by (simp add: authorize_def request_device_still_authorized_def Let_def)

lemma all_some_set: "all_some xs = Some ys \<Longrightarrow> set xs = Some ` set ys"
  by (induction xs arbitrary: ys rule: all_some.induct) auto

lemma authorize_Some:
  assumes "authorize X policy request targets permission st = (Some acc, st')"
  obtains an st1 st2 requested result where "request = Some an"
    "request_device_still_authorized (ci_before X) an st = (True, st1)" "permission \<in> {''view'', ''admin''}"
    "all_some (map target_key targets) = Some requested" "st2 = run_ops state_step st1 (ci_between X)"
    "policy_result policy an permission targets = Some result"
    "checked_scope requested (length targets) result = Some acc"
    "request_device_still_authorized (ci_after X) an st2 = (True, st')"
  using assms
  by (auto simp: authorize_def Let_def split: option.splits prod.splits bool.splits if_splits)

lemma checked_scope_Some:
  assumes "checked_scope requested n result = Some acc"
  shows "set (ac_allowed acc) \<subseteq> set requested \<and> fst (ac_user acc) \<noteq> [] \<and> length (fst (ac_user acc)) \<le> 1024 \<and>
    length (ac_allowed acc) \<le> n \<and>
    (\<exists>d vs. result = PDict d \<and> pget ''allowed'' d = Some (PList vs) \<and> all_some (map target_key vs) = Some (ac_allowed acc))"
  using assms
  by (auto simp: checked_scope_def list_all_iff not_less dest: all_some_length
      split: pyval.splits option.splits if_splits)

lemma authorization_visible:
  assumes "authorize X (NativePolicy uid handle A) request targets permission st = (Some acc, st')"
  shows "\<forall>t\<in>set (ac_allowed acc). is_visible A permission t"
  using assms
proof (rule authorize_Some)
  fix an st1 st2 requested result
  assume a: "policy_result (NativePolicy uid handle A) an permission targets = Some result"
    "checked_scope requested (length targets) result = Some acc"
  obtain d vs where d: "result = PDict d" "pget ''allowed'' d = Some (PList vs)"
    "all_some (map target_key vs) = Some (ac_allowed acc)" using checked_scope_Some [OF a(2)] by auto
  have vs: "target_key ` set vs = Some ` set (ac_allowed acc)" using all_some_set [OF d(3)] by simp
  have n: "vs = filter (\<lambda>v. \<exists>t\<in>set_option (target_key v). is_visible A permission t) targets"
    using a(1) d(1,2) by (auto simp: policy_result_def split: if_splits)
  have "is_visible A permission t" if "t \<in> set (ac_allowed acc)" for t
  proof -
    from that vs obtain v where "v \<in> set vs" "target_key v = Some t" by (metis imageE imageI)
    then show ?thesis using n by auto
  qed
  then show ?thesis by blast
qed

text \<open>
  C22: An authorisation grants no more than was asked for and than is visible, to a device that is still
  authorised. When \<open>authorize\<close> answers, the request was authenticated, every allowed view is among those
  asked for and, under the native policy, visible with the permission asked for; and if the request came
  with a device certificate, the device has not been cut off since it authenticated, up to and including
  the reads of the policy itself.
\<close>

theorem authorization_sound:
  assumes "authorize X policy request targets permission st = (Some acc, st')"
  shows "\<exists>an. request = Some an \<and> Some ` set (ac_allowed acc) \<subseteq> target_key ` set targets \<and>
    fst (ac_user acc) \<noteq> [] \<and>
    (an_kind an = DeviceCertificate \<longrightarrow> an_epoch an = Some (device_epoch st' (c_device_pubkey (an_cert an)))) \<and>
    (\<forall>uid handle A. policy = NativePolicy uid handle A \<longrightarrow>
       an_kind an \<noteq> HttpToken \<and> (\<forall>t\<in>set (ac_allowed acc). is_visible A permission t))"
  using assms
proof (rule authorize_Some)
  fix an st1 st2 requested result
  assume a: "request = Some an" "all_some (map target_key targets) = Some requested"
    "policy_result policy an permission targets = Some result"
    "checked_scope requested (length targets) result = Some acc"
    "request_device_still_authorized (ci_after X) an st2 = (True, st')"
  have in_requested: "set (ac_allowed acc) \<subseteq> set requested" and named: "fst (ac_user acc) \<noteq> []"
    using checked_scope_Some [OF a(4)] by auto
  have "Some ` set (ac_allowed acc) \<subseteq> target_key ` set targets"
    using all_some_set [OF a(2)] in_requested by auto
  moreover have "an_kind an \<noteq> HttpToken \<and> (\<forall>t\<in>set (ac_allowed acc). is_visible A permission t)"
    if "policy = NativePolicy uid handle A" for uid handle A
    using a(3) that authorization_visible [OF assms [unfolded that]] by (simp add: policy_result_def split: if_splits)
  ultimately show ?thesis
    using a(1) named still_authorized_epoch [OF a(5)] by (intro exI [of _ an]) blast
qed

text \<open>
  Deletions are not announced to observers. Under the native policy a definition that no longer exists is
  visible to nobody, so the invalidation that its deletion sends to the hub is dropped for every observer,
  although the interface announces it after the deletion.
\<close>

theorem deletion_not_announced:
  assumes "kind \<in> KINDS - {''session''}" and "\<not> acl_exists A (resource_tables kind) i"
    and "authorize X (NativePolicy uid handle A) request [PDict [(PStr ''kind'', PStr kind), (PStr ''id'', PStr i)]]
      ''view'' st = (Some acc, st')"
  shows "got_resource acc allowed (kind, ''deleted'', Some i) rest c = next_resource allowed rest c"
proof -
  have "\<not> is_visible A ''view'' (kind, i)"
    using assms(1,2) by (simp add: is_visible_def row_of_def)
  moreover have "\<forall>t\<in>set (ac_allowed acc). is_visible A ''view'' t"
    using authorization_visible [OF assms(3)] by blast
  ultimately have "(kind, i) \<notin> set (ac_allowed acc)" by blast
  then show ?thesis using assms(1) by (simp add: got_resource_def resource_target_def)
qed

section \<open>A request\<close>

definition demo_watcher :: annotations where
  "demo_watcher = annotate (new_cert ''ann'' (replicate 32 5) ''net1'' [] 1000 10) (Some 0) DeviceCertificate"
definition demo_check :: device_check where
  "demo_check = \<lparr>dk_answer = Row ''active'', dk_during = []\<rparr>"
definition demo_collab :: collab_inputs where
  "demo_collab = \<lparr>ci_before = demo_check, ci_between = [AddListener 4], ci_after = demo_check, ci_identity = True\<rparr>"
definition demo_acl :: "unit acl" where
  "demo_acl = \<lparr>acl_session = (\<lambda>i. if i = ''s1'' then Some () else None), acl_exists = (\<lambda>_ _. False),
     acl_owner = (\<lambda>_ _. None), acl_unclaimed = (\<lambda>_ _. ()), acl_visible = (\<lambda>_ _. True)\<rparr>"
definition demo_view :: "string \<Rightarrow> string \<Rightarrow> pyval" where
  "demo_view kind i = PDict [(PStr ''kind'', PStr kind), (PStr ''id'', PStr i)]"

lemmas demo_collab_run = demo_watcher_def demo_check_def demo_collab_def demo_acl_def demo_view_def authorize_def
  request_device_still_authorized_def demo_state_def device_epoch_def dict_get_def annotate_def new_cert_def
  device_is_active_def row_active_def note_observed_def add_revocation_listener_def target_key_def KINDS_def
  IDENTIFIER_def id_char_def is_alnum_def is_alpha_def is_digit_def char_code_def pget_def policy_result_def
  is_visible_def row_of_def resource_tables_def checked_scope_def

lemma demo_authorized:
  "fst (authorize demo_collab (NativePolicy ''u1'' ''Ann'' demo_acl) (Some demo_watcher) [demo_view ''session'' ''s1''] ''view''
     demo_state) = Some \<lparr>ac_user = (''u1'', ''Ann''), ac_allowed = [(''session'', ''s1'')]\<rparr>"
  by (simp add: demo_collab_run)

lemma demo_unknown:
  "fst (authorize demo_collab (NativePolicy ''u1'' ''Ann'' demo_acl) (Some demo_watcher) [demo_view ''event'' ''e1''] ''view''
     demo_state) = Some \<lparr>ac_user = (''u1'', ''Ann''), ac_allowed = []\<rparr>"
  by (simp add: demo_collab_run)

theorem authorization_sound_witness:
  "\<exists>acc st'. authorize demo_collab (NativePolicy ''u1'' ''Ann'' demo_acl) (Some demo_watcher)
       [demo_view ''session'' ''s1''] ''view'' demo_state = (Some acc, st') \<and>
     ac_allowed acc = [(''session'', ''s1'')] \<and>
     (\<forall>t\<in>set (ac_allowed acc). is_visible demo_acl ''view'' t)"
proof -
  obtain acc st' where a: "authorize demo_collab (NativePolicy ''u1'' ''Ann'' demo_acl) (Some demo_watcher)
      [demo_view ''session'' ''s1''] ''view'' demo_state = (Some acc, st')" "ac_allowed acc = [(''session'', ''s1'')]"
    using demo_authorized
    by (cases "authorize demo_collab (NativePolicy ''u1'' ''Ann'' demo_acl) (Some demo_watcher)
      [demo_view ''session'' ''s1''] ''view'' demo_state") simp
  have "\<forall>t\<in>set (ac_allowed acc). is_visible demo_acl ''view'' t" using authorization_sound [OF a(1)] by simp
  with a show ?thesis by (intro exI [of _ acc] exI [of _ st'] conjI)
qed

theorem deletion_not_announced_witness:
  "\<exists>acc st'. authorize demo_collab (NativePolicy ''u1'' ''Ann'' demo_acl) (Some demo_watcher)
       [demo_view ''event'' ''e1''] ''view'' demo_state = (Some acc, st') \<and>
     (\<forall>c. got_resource acc {(''event'', ''e1'')} (''event'', ''deleted'', Some ''e1'') [] c = next_resource {(''event'', ''e1'')} [] c)"
proof -
  obtain acc st' where a: "authorize demo_collab (NativePolicy ''u1'' ''Ann'' demo_acl) (Some demo_watcher)
      [demo_view ''event'' ''e1''] ''view'' demo_state = (Some acc, st')"
    using demo_unknown
    by (cases "authorize demo_collab (NativePolicy ''u1'' ''Ann'' demo_acl) (Some demo_watcher)
      [demo_view ''event'' ''e1''] ''view'' demo_state") simp
  have k: "''event'' \<in> KINDS - {''session''}" "\<not> acl_exists demo_acl (resource_tables ''event'') ''e1''"
    by (simp_all add: KINDS_def demo_acl_def)
  from deletion_not_announced [OF k a [unfolded demo_view_def]] a show ?thesis by blast
qed

end
