(* ===== verification/Client_Login.thy ===== *)
theory Client_Login
  imports Coordinator_Service
begin

text \<open>
  The client side of the coordinator's RPCs (\<open>packages/identity/.../client/login.py\<close>): the framed
  request and the checks on its response, registration and SRP login, the agent's password-free
  login, and the directory queries a member's gateway makes.

  The network is a field of the environment: \<open>ce_exchange\<close> dials the coordinator, writes one frame
  and closes its half of the stream; it returns the segments that come back, or the exception of a
  dial, a write or a timed-out read. It is stateful, so it can be an arbitrary adversary as well as
  the service of \<open>Coordinator_Service\<close> (\<open>service_exchange\<close>). Addressing hints only reach the dial
  and are not modelled. Random values, request ids and clock readings are arguments.
\<close>

section \<open>Environment and errors\<close>

datatype login_failure =
    ResponseTooLarge nat
  | ClosedMidFrame
  | ResponseNotMap
  | Refused pyval pyval
    \<comment> \<open>the coordinator's error code and message\<close>
  | NeitherResultNorError
  | BadCert reject_reason
  | CertForOtherHandle string
  | CertForOtherDevice

text \<open>\<open>LoginError\<close> and \<open>CertVerificationError\<close> are the exceptions callers catch; \<open>Transport\<close> is a
  failed dial, write or wait, \<open>ClientFault\<close> any other exception (\<open>KeyError\<close>, \<open>TypeError\<close>,
  \<open>ValueError\<close>, a CBOR error).\<close>

datatype client_exn =
    LoginError login_failure | CertVerification reject_reason | PakeFault pake_error
  | Transport | ClientFault

record ('s, 'w) client_env =
  ce_srp :: "'s srp_lib"
  ce_dumps :: "pyval \<Rightarrow> bytes"
  ce_loads :: "bytes \<Rightarrow> pyval option"
  ce_rep :: "pyval \<Rightarrow> string"
  ce_parse_float :: "pyval \<Rightarrow> pyfloat option"
  ce_public_key :: "bytes \<Rightarrow> (bytes \<Rightarrow> bytes \<Rightarrow> bool) option"
    \<comment> \<open>\<open>Ed25519PublicKey.from_public_bytes\<close>, as the verification it offers\<close>
  ce_exchange :: "string \<Rightarrow> bytes \<Rightarrow> ('w, client_exn, bytes list) handler"

type_synonym ('w, 'a) client = "('w, client_exn, 'a) handler"

section \<open>Frames\<close>

text \<open>\<open>_read_exact\<close> is the loop of the service's reader with another exception.\<close>

definition client_read_exact :: "nat \<Rightarrow> (bytes list, client_exn, bytes) handler" where
  "client_read_exact n st =
     (case read_loop n [] st of
        (Inl _, st') \<Rightarrow> (Inl (LoginError ClosedMidFrame), st')
      | (Inr out, st') \<Rightarrow> (Inr out, st'))"

definition client_read_frame ::
  "(bytes \<Rightarrow> pyval option) \<Rightarrow> nat \<Rightarrow> (bytes list, client_exn, pyval) handler" where
  "client_read_frame loads max_size =
     bind_s (client_read_exact 4) (\<lambda>length_bytes.
     let n = from_bytes length_bytes
     in if n > max_size then raise_s (LoginError (ResponseTooLarge n))
        else bind_s (client_read_exact n) (\<lambda>payload. lift_s (of_opt ClientFault (loads payload))))"

definition client_write_frame :: "(pyval \<Rightarrow> bytes) \<Rightarrow> pyval \<Rightarrow> client_exn + bytes" where
  "client_write_frame dumps obj =
     (let payload = dumps obj
      in of_opt ClientFault (map_option (\<lambda>hdr. hdr @ payload) (to_bytes4 (length payload))))"

section \<open>One request\<close>

text \<open>What \<open>_rpc\<close> makes of a decoded response. A falsy \<open>error\<close> still is one; a truthy one that is
  not a map has no \<open>get\<close>.\<close>

definition response_result :: "pyval \<Rightarrow> client_exn + pyval" where
  "response_result response =
     (case response of
        PDict r \<Rightarrow>
          (case pget ''error'' r of
             Some err0 \<Rightarrow>
               (case (if truthy err0 then err0 else PDict []) of
                  PDict err \<Rightarrow>
                    Inl (LoginError (Refused (pget_or (PStr ''unknown'') ''code'' err)
                                             (pget_or (PStr []) ''message'' err)))
                | _ \<Rightarrow> Inl ClientFault)
           | None \<Rightarrow> of_opt (LoginError NeitherResultNorError) (pget ''result'' r))
      | _ \<Rightarrow> Inl (LoginError ResponseNotMap))"

definition rpc_request :: "string \<Rightarrow> string \<Rightarrow> pyval \<Rightarrow> pyval" where
  "rpc_request corr meth params =
     PDict [(PStr ''id'', PStr corr), (PStr ''method'', PStr meth), (PStr ''params'', params)]"

definition rpc_call_coordinator ::
  "('s, 'w) client_env \<Rightarrow> string \<Rightarrow> string \<Rightarrow> string \<Rightarrow> pyval \<Rightarrow> ('w, pyval) client" where
  "rpc_call_coordinator C coord corr meth params =
     bind_s (lift_s (client_write_frame (ce_dumps C) (rpc_request corr meth params))) (\<lambda>frame.
     bind_s (ce_exchange C coord frame) (\<lambda>segments.
     bind_s (lift_s (fst (client_read_frame (ce_loads C) FRAME_MAX segments))) (\<lambda>response.
     lift_s (response_result response))))"

text \<open>\<open>resp[key]\<close> and \<open>bytes(value)\<close> on what the coordinator sent.\<close>

fun response_item :: "pyval \<Rightarrow> string \<Rightarrow> client_exn + pyval" where
  "response_item (PDict d) key = of_opt ClientFault (pget key d)"
| "response_item _ key = Inl ClientFault"

fun response_get :: "pyval \<Rightarrow> string \<Rightarrow> client_exn + pyval" where
  "response_get (PDict d) key = Inr (pget_or PNone key d)"
| "response_get _ key = Inl ClientFault"

definition as_plain_bytes :: "pyval \<Rightarrow> client_exn + bytes" where
  "as_plain_bytes v = of_opt ClientFault (py_bytes v)"

section \<open>Registration and login\<close>

record login_inputs =
  lg_private :: bytes
  lg_register_id :: string
  lg_init_id :: string
  lg_finish_id :: string
  lg_clock :: real

record coordinator_pin =
  pin_node_id :: string
  pin_pubkey :: bytes
  pin_network_id :: string
    \<comment> \<open>empty when the caller does not know it yet\<close>

definition expected_network :: "coordinator_pin \<Rightarrow> string option" where
  "expected_network pin = (if pin_network_id pin = [] then None else Some (pin_network_id pin))"

text \<open>The checks on an issued certificate: an unusable pinned key is a \<open>ValueError\<close>.\<close>

definition check_issued ::
  "('s, 'w) client_env \<Rightarrow> coordinator_pin \<Rightarrow> real \<Rightarrow> bytes
     \<Rightarrow> client_exn + cert_error + device_cert" where
  "check_issued C pin clock wire =
     (case ce_public_key C (pin_pubkey pin) of
        None \<Rightarrow> Inl ClientFault
      | Some vrf \<Rightarrow>
          Inr (verify_cert (ce_rep C) (ce_parse_float C) (ce_loads C) vrf (expected_network pin)
                 None clock wire))"

definition accept_login_cert ::
  "('s, 'w) client_env \<Rightarrow> coordinator_pin \<Rightarrow> string \<Rightarrow> bytes \<Rightarrow> real \<Rightarrow> bytes
     \<Rightarrow> client_exn + bytes" where
  "accept_login_cert C pin handle device clock wire =
     bind_r (check_issued C pin clock wire) (\<lambda>verdict.
     case verdict of
       Inl (CertRejected why) \<Rightarrow> Inl (LoginError (BadCert why))
     | Inl CborDecodeError \<Rightarrow> Inl ClientFault
     | Inr cert \<Rightarrow>
         if c_handle cert \<noteq> lower (strip handle)
         then Inl (LoginError (CertForOtherHandle (c_handle cert)))
         else if c_device_pubkey cert \<noteq> device then Inl (LoginError CertForOtherDevice)
         else Inr wire)"

definition login_finish_params :: "pyval \<Rightarrow> bytes \<Rightarrow> bytes \<Rightarrow> pyval \<Rightarrow> pyval \<Rightarrow> pyval" where
  "login_finish_params state_id M1 device invite label =
     PDict ([(PStr ''state_id'', state_id), (PStr ''ke3'', PBytes M1),
             (PStr ''device_pubkey'', PBytes device)] @
            (if truthy invite then [(PStr ''invite'', invite)] else []) @
            (if truthy label then [(PStr ''label'', label)] else []))"

definition of_pake :: "pake_error + 'a \<Rightarrow> client_exn + 'a" where
  "of_pake r = (case r of Inl e \<Rightarrow> Inl (PakeFault e) | Inr x \<Rightarrow> Inr x)"

text \<open>\<open>login\<close>. The server's proof is compared and the outcome only logged.\<close>

definition login ::
  "('s, 'w) client_env \<Rightarrow> coordinator_pin \<Rightarrow> string \<Rightarrow> string \<Rightarrow> bytes \<Rightarrow> pyval \<Rightarrow> pyval
     \<Rightarrow> login_inputs \<Rightarrow> ('w, bytes) client" where
  "login C pin handle password device invite label inp =
     (let client = client_start (ce_srp C) (lg_private inp) handle password in
      bind_s (rpc_call_coordinator C (pin_node_id pin) (lg_init_id inp) ''login_init''
          (PDict [(PStr ''handle'', PStr handle), (PStr ''ke1'', PBytes (cl_A client))])) (\<lambda>init_resp.
      bind_s (lift_s (response_item init_resp ''state_id'')) (\<lambda>state_id.
      bind_s (lift_s (response_item init_resp ''response'')) (\<lambda>server_response.
      bind_s (lift_s (as_plain_bytes server_response)) (\<lambda>response.
      bind_s (lift_s (of_pake (client_respond (ce_srp C) client response))) (\<lambda>(client', M1).
      bind_s (rpc_call_coordinator C (pin_node_id pin) (lg_finish_id inp) ''login_finish''
          (login_finish_params state_id M1 device invite label)) (\<lambda>finish_resp.
      bind_s (lift_s (response_item finish_resp ''cert'')) (\<lambda>cert.
      bind_s (lift_s (as_plain_bytes cert)) (\<lambda>cert_wire.
      bind_s (lift_s (response_item finish_resp ''m2'')) (\<lambda>m2.
      bind_s (lift_s (as_plain_bytes m2)) (\<lambda>server_proof.
      let _ = verify_server client' server_proof
      in lift_s (accept_login_cert C pin handle device (lg_clock inp) cert_wire))))))))))))"

definition register ::
  "('s, 'w) client_env \<Rightarrow> coordinator_pin \<Rightarrow> string \<Rightarrow> string \<Rightarrow> string \<Rightarrow> bytes \<Rightarrow> pyval
     \<Rightarrow> login_inputs \<Rightarrow> ('w, bytes) client" where
  "register C pin handle password invite_code device label inp =
     bind_s (lift_s (of_pake (make_registration (ce_srp C) handle password))) (\<lambda>pake_payload.
     bind_s (rpc_call_coordinator C (pin_node_id pin) (lg_register_id inp) ''register''
         (PDict [(PStr ''invite'', PStr invite_code), (PStr ''handle'', PStr handle),
                 (PStr ''pake_record'', PBytes pake_payload)])) (\<lambda>_.
     login C pin handle password device (PStr invite_code) label inp))"

definition refresh_cert ::
  "('s, 'w) client_env \<Rightarrow> coordinator_pin \<Rightarrow> string \<Rightarrow> string \<Rightarrow> bytes \<Rightarrow> login_inputs
     \<Rightarrow> ('w, bytes) client" where
  "refresh_cert C pin handle password device inp =
     login C pin handle password device PNone PNone inp"

text \<open>\<open>agent_login\<close>. A rejected certificate leaves as \<open>CertVerificationError\<close> here; the device key is
  not compared.\<close>

definition accept_agent_cert ::
  "('s, 'w) client_env \<Rightarrow> coordinator_pin \<Rightarrow> string \<Rightarrow> real \<Rightarrow> bytes \<Rightarrow> client_exn + bytes" where
  "accept_agent_cert C pin handle clock wire =
     bind_r (check_issued C pin clock wire) (\<lambda>verdict.
     case verdict of
       Inl (CertRejected why) \<Rightarrow> Inl (CertVerification why)
     | Inl CborDecodeError \<Rightarrow> Inl ClientFault
     | Inr cert \<Rightarrow>
         if c_handle cert \<noteq> lower (strip handle)
         then Inl (LoginError (CertForOtherHandle (c_handle cert)))
         else Inr wire)"

definition agent_login_params :: "string \<Rightarrow> string \<Rightarrow> string \<Rightarrow> pyval \<Rightarrow> pyval" where
  "agent_login_params invite_code handle node_id label =
     PDict ([(PStr ''invite'', PStr invite_code), (PStr ''handle'', PStr handle),
             (PStr ''node_id'', PStr node_id)] @
            (if truthy label then [(PStr ''label'', label)] else []))"

definition agent_login ::
  "('s, 'w) client_env \<Rightarrow> coordinator_pin \<Rightarrow> string \<Rightarrow> string \<Rightarrow> string \<Rightarrow> pyval \<Rightarrow> string \<Rightarrow> real
     \<Rightarrow> ('w, bytes) client" where
  "agent_login C pin handle node_id invite_code label corr clock =
     bind_s (rpc_call_coordinator C (pin_node_id pin) corr ''agent_login''
         (agent_login_params invite_code handle node_id label)) (\<lambda>result.
     bind_s (lift_s (response_item result ''cert'')) (\<lambda>cert.
     bind_s (lift_s (as_plain_bytes cert)) (\<lambda>cert_wire.
     lift_s (accept_agent_cert C pin handle clock cert_wire))))"

section \<open>Directory queries\<close>

definition fetch_network_info ::
  "('s, 'w) client_env \<Rightarrow> string \<Rightarrow> string \<Rightarrow> ('w, pyval) client" where
  "fetch_network_info C coord corr = rpc_call_coordinator C coord corr ''network_info'' (PDict [])"

definition coord_list_agents ::
  "('s, 'w) client_env \<Rightarrow> string \<Rightarrow> string \<Rightarrow> ('w, pyval) client" where
  "coord_list_agents C coord corr =
     bind_s (rpc_call_coordinator C coord corr ''list_agents'' (PDict [])) (\<lambda>resp.
     bind_s (lift_s (response_get resp ''agents'')) (\<lambda>agents.
     ret_s (if truthy agents then agents else PList [])))"

definition coord_device_is_active ::
  "('s, 'w) client_env \<Rightarrow> string \<Rightarrow> string \<Rightarrow> bytes \<Rightarrow> ('w, bool) client" where
  "coord_device_is_active C coord corr device_pubkey =
     (if length device_pubkey \<noteq> 32 then ret_s False
      else
        bind_s (rpc_call_coordinator C coord corr ''device_status''
            (PDict [(PStr ''device_pubkey'', PBytes device_pubkey)])) (\<lambda>result.
        bind_s (lift_s (response_get result ''active'')) (\<lambda>active.
        ret_s (active = PBool True))))"

text \<open>The checks of \<open>read_runtime_directory\<close>; \<open>for handle in result[key]\<close> runs over the two lists of
  principals.\<close>

fun is_plist :: "pyval \<Rightarrow> bool" where
  "is_plist (PList _) = True" | "is_plist _ = False"

fun plist_items :: "pyval \<Rightarrow> pyval list" where
  "plist_items (PList xs) = xs" | "plist_items _ = []"

fun is_handle :: "pyval \<Rightarrow> bool" where
  "is_handle (PStr s) = (s \<noteq> [])" | "is_handle _ = False"

definition directory_keys :: "pyval list" where
  "directory_keys = [PStr ''users'', PStr ''agents'', PStr ''devices'']"

definition check_directory :: "pyval \<Rightarrow> client_exn + pyval" where
  "check_directory result =
     (case result of
        PDict d \<Rightarrow>
          if set (map fst d) \<noteq> set directory_keys then Inl ClientFault
          else if list_ex (\<lambda>(k, v). \<not> is_plist v) d then Inl ClientFault
          else if list_ex (\<lambda>key. list_ex (\<lambda>h. \<not> is_handle h) (plist_items (pget_or PNone key d)))
                 [''users'', ''agents'']
          then Inl ClientFault
          else Inr result
      | _ \<Rightarrow> Inl ClientFault)"

definition read_runtime_directory ::
  "('s, 'w) client_env \<Rightarrow> string \<Rightarrow> string \<Rightarrow> ('w, pyval) client" where
  "read_runtime_directory C coord corr =
     bind_s (rpc_call_coordinator C coord corr ''runtime_directory'' (PDict [])) (\<lambda>result.
     lift_s (check_directory result))"

section \<open>The coordinator as the network\<close>

text \<open>Dialling the coordinator of node id \<open>home\<close> reaches its service; each exchange takes the inputs
  of the service's call from a list. Any other node does not answer.\<close>

type_synonym 's link = "'s service \<times> rpc_call list"

definition service_exchange ::
  "'s rpc_env \<Rightarrow> string \<Rightarrow> string \<Rightarrow> bytes \<Rightarrow> ('s link, bytes list) client" where
  "service_exchange E home coord frame w =
     (case w of
        (s, []) \<Rightarrow> (Inl Transport, w)
      | (s, k # ks) \<Rightarrow>
          if coord \<noteq> home then (Inl Transport, w)
          else (let (answer, s') = handle_one_rpc E k [frame] s
                in (Inr (case answer of None \<Rightarrow> [] | Some b \<Rightarrow> [b]), (s', ks))))"

definition client_of ::
  "'s rpc_env \<Rightarrow> (bytes \<Rightarrow> (bytes \<Rightarrow> bytes \<Rightarrow> bool) option) \<Rightarrow> string \<Rightarrow> ('s, 's link) client_env" where
  "client_of E keys home =
     \<lparr>ce_srp = e_srp E, ce_dumps = e_dumps E, ce_loads = e_loads E, ce_rep = e_rep E,
      ce_parse_float = e_parse_float E, ce_public_key = keys,
      ce_exchange = service_exchange E home\<rparr>"

text \<open>CBOR reads back a message and the message fits a frame.\<close>

definition cbor_ok :: "'s rpc_env \<Rightarrow> pyval \<Rightarrow> bool" where
  "cbor_ok E v \<longleftrightarrow> e_loads E (e_dumps E v) = Some v \<and> length (e_dumps E v) \<le> FRAME_MAX"

lemma frame_written:
  assumes "length (dumps v) \<le> FRAME_MAX"
  shows "\<exists>hdr. write_cbor_frame dumps v = Some (hdr @ dumps v) \<and>
    client_write_frame dumps v = Inr (hdr @ dumps v) \<and>
    length hdr = 4 \<and> from_bytes hdr = length (dumps v)"
proof -
  obtain hdr where "to_bytes4 (length (dumps v)) = Some hdr"
    using assms by (auto simp: to_bytes4_def FRAME_MAX_def)
  then show ?thesis
    by (auto simp: write_cbor_frame_def client_write_frame_def Let_def
        dest: length_to_bytes4 from_to_bytes4)
qed

lemma read_exact_frame:
  assumes "length hdr = 4" and "from_bytes hdr = length payload"
  shows "\<exists>st st'. read_exact 4 [hdr @ payload] = (Inr hdr, st) \<and>
    read_exact (length payload) st = (Inr payload, st')"
proof -
  have ne: "[] \<notin> set [hdr @ payload]" using assms(1) by auto
  have "4 \<le> length (concat [hdr @ payload])" using assms(1) by simp
  then obtain st where st: "read_exact 4 [hdr @ payload] = (Inr (take 4 (concat [hdr @ payload])), st)"
    "concat st = drop 4 (concat [hdr @ payload])" "[] \<notin> set st"
    by (rule read_exact_enough [OF ne])
  have rest: "concat st = payload" using st(2) assms(1) by simp
  then have "length payload \<le> length (concat st)" by simp
  then obtain st' where "read_exact (length payload) st =
      (Inr (take (length payload) (concat st)), st')"
    by (rule read_exact_enough [OF st(3)])
  with st(1) rest assms(1) show ?thesis by auto
qed

lemma client_read_exact_Inr:
  "read_exact n st = (Inr b, st') \<Longrightarrow> client_read_exact n st = (Inr b, st')"
  by (simp add: client_read_exact_def read_exact_def)

lemma read_written:
  assumes "loads (dumps v) = Some v" and "length (dumps v) \<le> FRAME_MAX"
    and "write_cbor_frame dumps v = Some frame"
  shows "\<exists>st. read_cbor_frame loads FRAME_MAX [frame] = (Inr v, st)"
    and "\<exists>st. client_read_frame loads FRAME_MAX [frame] = (Inr v, st)"
proof -
  obtain hdr where hdr: "frame = hdr @ dumps v" "length hdr = 4" "from_bytes hdr = length (dumps v)"
    using assms(3) frame_written [of dumps v, OF assms(2)] by auto
  obtain st st' where rd: "read_exact 4 [frame] = (Inr hdr, st)"
    "read_exact (length (dumps v)) st = (Inr (dumps v), st')"
    using read_exact_frame [OF hdr(2,3)] unfolding hdr(1) by blast
  note crd = rd [THEN client_read_exact_Inr]
  show "\<exists>st. read_cbor_frame loads FRAME_MAX [frame] = (Inr v, st)"
    using rd assms(1,2) hdr(3) by (simp add: read_cbor_frame_def bind_s_Inr lift_s_def)
  show "\<exists>st. client_read_frame loads FRAME_MAX [frame] = (Inr v, st)"
    using crd assms(1,2) hdr(3) by (simp add: client_read_frame_def bind_s_Inr lift_s_def)
qed

text \<open>One request to the service, from the client's frame to its verdict.\<close>

lemma rpc_answered:
  assumes request: "cbor_ok E (rpc_request corr meth params)"
    and call: "dispatch E k (rpc_request corr meth params) s = (r, s')"
    and answer: "answer = (case r of Inl e \<Rightarrow> error_response E (PStr corr) e | Inr v \<Rightarrow> v)"
    and response: "cbor_ok E answer"
  shows "rpc_call_coordinator (client_of E keys home) home corr meth params (s, k # ks) =
    (response_result answer, (s', ks))"
proof -
  let ?req = "rpc_request corr meth params"
  obtain hdr where f: "write_cbor_frame (e_dumps E) ?req = Some (hdr @ e_dumps E ?req)"
    "client_write_frame (e_dumps E) ?req = Inr (hdr @ e_dumps E ?req)"
    using request frame_written [of "e_dumps E" ?req] unfolding cbor_ok_def by metis
  obtain st where rd: "read_cbor_frame (e_loads E) FRAME_MAX [hdr @ e_dumps E ?req] = (Inr ?req, st)"
    using request read_written(1) f(1) unfolding cbor_ok_def by metis
  obtain frame where w: "write_cbor_frame (e_dumps E) answer = Some frame"
    using response frame_written [of "e_dumps E" answer] unfolding cbor_ok_def by metis
  obtain st' where crd: "client_read_frame (e_loads E) FRAME_MAX [frame] = (Inr answer, st')"
    using response read_written(2) w unfolding cbor_ok_def by metis
  have id: "request_id ?req = PStr corr"
    by (simp add: request_id_def rpc_request_def pget_or_def)
  have "handle_one_rpc E k [hdr @ e_dumps E ?req] s = (Some frame, s')"
    using rd call w id answer by (cases r) (simp_all add: handle_one_rpc_def)
  then show ?thesis
    using f(2) crd by (simp add: rpc_call_coordinator_def client_of_def service_exchange_def
        bind_s_Inr lift_s_def)
qed

lemma response_result_ok [simp]:
  "response_result (PDict [(PStr ''id'', c), (PStr ''result'', v)]) = Inr v"
  by (simp add: response_result_def)

lemma response_result_refused:
  "response_result (error_response E c (RpcError code)) =
     Inl (LoginError (Refused (PStr code) (PStr (e_message E (RpcError code)))))"
  by (simp add: response_result_def error_response_def error_body_def pget_or_def)

lemma dispatch_method:
  assumes "dict_get (METHODS E k) m = Some h"
  shows "dispatch E k (rpc_request corr m (PDict d)) =
    bind_s (value_errors (h (PDict d))) (\<lambda>result.
      ret_s (PDict [(PStr ''id'', PStr corr), (PStr ''result'', result)]))"
  using assms by (cases d) (simp_all add: dispatch_def rpc_request_def pget_or_def)

lemma dispatch_ok:
  assumes "dict_get (METHODS E k) m = Some h" and "h (PDict d) s = (Inr result, s')"
  shows "dispatch E k (rpc_request corr m (PDict d)) s =
    (Inr (PDict [(PStr ''id'', PStr corr), (PStr ''result'', result)]), s')"
  unfolding dispatch_method [OF assms(1)]
  using value_errors_Inr [of "h (PDict d)" s result s'] assms(2) by (simp add: bind_s_Inr ret_s_def)

lemma dispatch_refused:
  assumes "dict_get (METHODS E k) m = Some h" and "h (PDict d) s = (Inl (RpcError code), s')"
  shows "dispatch E k (rpc_request corr m (PDict d)) s = (Inl (RpcError code), s')"
  unfolding dispatch_method [OF assms(1)]
  using assms(2) by (simp add: bind_s_def value_errors_def)

text \<open>The two outcomes of one call, with the messages written out.\<close>

definition result_message :: "string \<Rightarrow> pyval \<Rightarrow> pyval" where
  "result_message corr v = PDict [(PStr ''id'', PStr corr), (PStr ''result'', v)]"

lemma rpc_served:
  assumes "dict_get (METHODS E k) m = Some h" and "h (PDict d) s = (Inr v, s')"
    and "cbor_ok E (rpc_request corr m (PDict d))" and "cbor_ok E (result_message corr v)"
  shows "rpc_call_coordinator (client_of E keys home) home corr m (PDict d) (s, k # ks) =
    (Inr v, (s', ks))"
  using rpc_answered [OF assms(3) dispatch_ok [OF assms(1,2)] refl, of keys home ks] assms(4)
  by (simp add: result_message_def)

lemma rpc_refused:
  assumes "dict_get (METHODS E k) m = Some h" and "h (PDict d) s = (Inl (RpcError code), s')"
    and "cbor_ok E (rpc_request corr m (PDict d))"
    and "cbor_ok E (error_response E (PStr corr) (RpcError code))"
  shows "rpc_call_coordinator (client_of E keys home) home corr m (PDict d) (s, k # ks) =
    (Inl (LoginError (Refused (PStr code) (PStr (e_message E (RpcError code))))), (s', ks))"
  using rpc_answered [OF assms(3) dispatch_refused [OF assms(1,2)] refl, of keys home ks] assms(4)
  by (simp add: response_result_refused)

section \<open>The recipient directory across the network\<close>

lemma check_directory_entry:
  "check_directory (directory_entry dir) =
     (if [] \<in> set (dir_users dir) \<union> set (dir_agents dir) then Inl ClientFault
      else Inr (directory_entry dir))"
  by (auto simp: check_directory_def directory_entry_def directory_keys_def pget_or_def list_ex_iff)

text \<open>A member's gateway, enrolled as an agent, reads the coordinator's directory as it stands, unless
  some principal in it has an empty handle: then the client refuses all of it.\<close>

lemma directory_read_back:
  fixes E :: "'s rpc_env"
  assumes "agent_is_registered (sv_db s) (k_peer k)"
    and "cbor_ok E (rpc_request corr ''runtime_directory'' (PDict []))"
    and "cbor_ok E (result_message corr (directory_entry (runtime_directory (sv_db s))))"
  shows "read_runtime_directory (client_of E keys home) home corr (s, k # ks) =
    (check_directory (directory_entry (runtime_directory (sv_db s))), (s, ks))"
proof -
  have "m_runtime_directory k s = (Inr (directory_entry (runtime_directory (sv_db s))), s)"
    using assms(1) by (simp add: m_runtime_directory_def ret_s_def)
  then have "rpc_call_coordinator (client_of E keys home) home corr ''runtime_directory'' (PDict [])
      (s, k # ks) = (Inr (directory_entry (runtime_directory (sv_db s))), (s, ks))"
    by (intro rpc_served [where h = "\<lambda>_. m_runtime_directory k", OF _ _ assms(2,3)])
      (simp_all add: METHODS_def)
  then show ?thesis by (simp add: read_runtime_directory_def bind_s_Inr lift_s_def)
qed

lemma create_user_listed:
  assumes "create_user h r a claim now db = Inr (c, db')"
  shows "h \<in> set (dir_users (runtime_directory db'))"
proof -
  have "(\<exists>u. dict_get (db_users db') h = Some u \<and> u_handle u = h \<and> u_status u = ''active'')"
    using assms by (auto simp: create_user_def Let_def split: if_splits)
  then show ?thesis
    by (force simp: runtime_directory_def list_users_def dict_values_def dest: dict_get_in)
qed

lemma register_adds_user:
  assumes "m_register k (PDict d) s = (Inr v, s')" and "pget ''handle'' d = Some (PStr raw)"
  shows "lower (strip raw) \<in> set (dir_users (runtime_directory (sv_db s')))"
proof -
  have listed: "lower (strip raw) \<in> set (dir_users (runtime_directory (sv_db s2)))"
    if "add_user k (lower (strip raw)) r claim s1 = (Inr c, s2)" for r claim s1 c s2
    using that create_user_listed by (auto simp: add_user_def split: sum.splits)
  show ?thesis
    using assms
    by (auto simp: m_register_def Let_def bind_s_Inr_iff lift_s_iff required_def listed raise_s_def ret_s_def
        split: option.splits if_splits sum.splits)
qed

text \<open>An account whose handle is blank is registered like any other, and from then on no member's
  gateway can read the directory.\<close>

theorem blank_handle_blocks_directory:
  fixes E :: "'s rpc_env"
  assumes "m_register k0 (PDict d) s = (Inr v, s')" and "pget ''handle'' d = Some (PStr raw)"
    and "strip raw = []" and "agent_is_registered (sv_db s') (k_peer k)"
    and "cbor_ok E (rpc_request corr ''runtime_directory'' (PDict []))"
    and "cbor_ok E (result_message corr (directory_entry (runtime_directory (sv_db s'))))"
  shows "read_runtime_directory (client_of E keys home) home corr (s', k # ks) =
    (Inl ClientFault, (s', ks))"
proof -
  have "[] \<in> set (dir_users (runtime_directory (sv_db s')))"
    using register_adds_user [OF assms(1,2)] assms(3) by (simp add: lower_def)
  then show ?thesis
    using directory_read_back [OF assms(4-6)] by (simp add: check_directory_entry)
qed

section \<open>Certificates a client accepts\<close>

text \<open>What a caller may rely on for every certificate a client operation returns: the pinned key
  signed it for this handle, it has not expired, and it is for the network the caller named.\<close>

definition pinned_cert ::
  "('s, 'w) client_env \<Rightarrow> coordinator_pin \<Rightarrow> string \<Rightarrow> real \<Rightarrow> bytes \<Rightarrow> device_cert \<Rightarrow> bool" where
  "pinned_cert C pin handle clock wire cert \<longleftrightarrow>
     (\<exists>vrf. ce_public_key C (pin_pubkey pin) = Some vrf \<and>
        verify_cert (ce_rep C) (ce_parse_float C) (ce_loads C) vrf (expected_network pin) None clock
          wire = Inr cert) \<and>
     c_handle cert = lower (strip handle)"

locale cert_source =
  fixes fetch :: "('w, bytes) client" and trusted :: "bytes \<Rightarrow> device_cert \<Rightarrow> bool"
  assumes fetched: "fetch w = (Inr wire, w') \<Longrightarrow> \<exists>cert. trusted wire cert"
begin

lemma untrusted_never_returned: "(\<And>cert. \<not> trusted wire cert) \<Longrightarrow> fetch w \<noteq> (Inr wire, w')"
  using fetched by blast

text \<open>A caller that goes on with the certificate does so with a trusted one.\<close>

lemma used_cert:
  assumes "bind_s fetch use w = (Inr r, w')"
  obtains wire cert w1 where "fetch w = (Inr wire, w1)" "trusted wire cert" "use wire w1 = (Inr r, w')"
  using assms fetched unfolding bind_s_Inr_iff by blast

end

lemma accept_login_Inr:
  "accept_login_cert C pin handle device clock wire = Inr out \<longleftrightarrow>
     out = wire \<and> (\<exists>cert. pinned_cert C pin handle clock wire cert \<and> c_device_pubkey cert = device)"
  by (auto simp: accept_login_cert_def check_issued_def pinned_cert_def bind_r_Inr_iff
      split: option.splits sum.splits cert_error.splits if_splits)

lemma accept_agent_Inr:
  "accept_agent_cert C pin handle clock wire = Inr out \<longleftrightarrow>
     out = wire \<and> (\<exists>cert. pinned_cert C pin handle clock wire cert)"
  by (auto simp: accept_agent_cert_def check_issued_def pinned_cert_def bind_r_Inr_iff
      split: option.splits sum.splits cert_error.splits if_splits)

lemma yields_accept_login:
  "yields (\<lambda>wire. \<exists>cert. pinned_cert C pin handle clock wire cert \<and> c_device_pubkey cert = device)
     (lift_s (accept_login_cert C pin handle device clock raw))"
  by (auto intro!: yieldsI simp: lift_s_iff accept_login_Inr)

lemma yields_accept_agent:
  "yields (\<lambda>wire. \<exists>cert. pinned_cert C pin handle clock wire cert)
     (lift_s (accept_agent_cert C pin handle clock raw))"
  by (auto intro!: yieldsI simp: lift_s_iff accept_agent_Inr)

lemma login_Inr:
  assumes "login C pin handle password device invite label inp w = (Inr wire, w')"
  shows "\<exists>cert. pinned_cert C pin handle (lg_clock inp) wire cert \<and> c_device_pubkey cert = device"
  using assms
proof (rule yieldsD [rotated])
  show "yields (\<lambda>wire. \<exists>cert. pinned_cert C pin handle (lg_clock inp) wire cert \<and>
      c_device_pubkey cert = device) (login C pin handle password device invite label inp)"
    unfolding login_def Let_def
    by (intro yields_bind yields_accept_login | simp only: split_beta)+
qed

lemma agent_login_Inr:
  assumes "agent_login C pin handle node_id invite_code label corr clock w = (Inr wire, w')"
  shows "\<exists>cert. pinned_cert C pin handle clock wire cert"
  using assms
proof (rule yieldsD [rotated])
  show "yields (\<lambda>wire. \<exists>cert. pinned_cert C pin handle clock wire cert)
      (agent_login C pin handle node_id invite_code label corr clock)"
    unfolding agent_login_def by (intro yields_bind yields_accept_agent)
qed

interpretation user_source: cert_source "login C pin handle password device invite label inp"
    "\<lambda>wire cert. pinned_cert C pin handle (lg_clock inp) wire cert \<and> c_device_pubkey cert = device"
  for C pin handle password device invite label inp
  by unfold_locales (rule login_Inr)

interpretation agent_source: cert_source "agent_login C pin handle node_id invite_code label corr clock"
    "pinned_cert C pin handle clock"
  for C pin handle node_id invite_code label corr clock
  by unfold_locales (rule agent_login_Inr)

lemma register_login:
  assumes "register C pin handle password invite_code device label inp w = (Inr wire, w')"
  shows "\<exists>w1. login C pin handle password device (PStr invite_code) label inp w1 = (Inr wire, w')"
  using assms unfolding register_def bind_s_Inr_iff by blast

lemma pinned_cert_signed:
  assumes "pinned_cert C pin handle clock wire cert"
  shows "\<exists>vrf. ce_public_key C (pin_pubkey pin) = Some vrf \<and> vrf (wire_sig wire) (wire_payload wire) \<and>
      decode_cert (ce_rep C) (ce_parse_float C) (ce_loads C) (wire_payload wire) = Inr cert"
    and "\<not> reached clock (c_expires_at cert)"
    and "c_handle cert = lower (strip handle)"
    and "pin_network_id pin = [] \<or> c_network_id cert = pin_network_id pin"
proof -
  obtain vrf where key: "ce_public_key C (pin_pubkey pin) = Some vrf"
    and ok: "verify_cert (ce_rep C) (ce_parse_float C) (ce_loads C) vrf (expected_network pin) None
      clock wire = Inr cert"
    and handle: "c_handle cert = lower (strip handle)"
    using assms unfolding pinned_cert_def by blast
  note ok = verify_cert_accepts [OF ok]
  show "\<exists>vrf. ce_public_key C (pin_pubkey pin) = Some vrf \<and> vrf (wire_sig wire) (wire_payload wire) \<and>
      decode_cert (ce_rep C) (ce_parse_float C) (ce_loads C) (wire_payload wire) = Inr cert"
    using key ok(2,3) by blast
  show "\<not> reached clock (c_expires_at cert)"
    using ok(4) by (simp add: is_expired_def now_or_def)
  show "c_handle cert = lower (strip handle)" by (rule handle)
  show "pin_network_id pin = [] \<or> c_network_id cert = pin_network_id pin"
    using ok(5) by (simp add: expected_network_def split: if_splits)
qed

text \<open>Conversely, a certificate the coordinator issues for this account and device is accepted until
  it expires, when the pinned key verifies its signature and CBOR reads back the claims.\<close>

lemma issued_cert_accepted:
  assumes issued: "issue_cert dumps sign (lower (strip handle)) device net caps ttl (Some t0) clock0 = Inr wire"
    and t0: "t0 \<noteq> 0" "clock < t0 + ttl"
    and c: "c = new_cert (lower (strip handle)) device net caps ttl t0"
    and pin: "ce_public_key C (pin_pubkey pin) = Some vrf" "pin_network_id pin = net" "net \<noteq> []"
    and sig: "length (sign (dumps (PDict (cert_payload c)))) = SIGNATURE_LEN"
      "vrf (sign (dumps (PDict (cert_payload c)))) (dumps (PDict (cert_payload c)))"
    and cbor: "ce_loads C (dumps (PDict (cert_payload c))) = Some (PDict (cert_payload c))"
  shows "accept_login_cert C pin handle device clock wire = Inr wire"
proof -
  have "verify_cert (ce_rep C) (ce_parse_float C) (ce_loads C) vrf (Some net) None clock wire = Inr c"
    using issued_cert_verifies [OF issued t0(1) c, of vrf "ce_loads C" "ce_rep C" "ce_parse_float C" clock]
      sig cbor t0(2) by simp
  then have "pinned_cert C pin handle clock wire c"
    using pin c by (simp add: pinned_cert_def expected_network_def new_cert_def)
  then show ?thesis using c by (auto simp: accept_login_Inr new_cert_def)
qed

section \<open>Properties\<close>

text \<open>
  Whatever the network answers, registration hands back only a certificate that the pinned
  coordinator key signed, over exactly the bytes that decode to its claims; these name this account
  (the handle stripped and lower-cased), this device and, when the caller knows it, this network,
  and have not expired. An impostor that answers the dial can make registration fail but cannot
  plant a certificate.\<close>

theorem client_cert_is_pinned:
  assumes "register C pin handle password invite_code device label inp w = (Inr wire, w')"
  shows "\<exists>vrf cert. ce_public_key C (pin_pubkey pin) = Some vrf \<and>
    vrf (wire_sig wire) (wire_payload wire) \<and>
    decode_cert (ce_rep C) (ce_parse_float C) (ce_loads C) (wire_payload wire) = Inr cert \<and>
    c_handle cert = lower (strip handle) \<and> c_device_pubkey cert = device \<and>
    (pin_network_id pin = [] \<or> c_network_id cert = pin_network_id pin) \<and>
    \<not> reached (lg_clock inp) (c_expires_at cert)"
proof -
  obtain w1 where "login C pin handle password device (PStr invite_code) label inp w1 = (Inr wire, w')"
    using register_login [OF assms] by blast
  from user_source.fetched [OF this] obtain cert where
    c: "pinned_cert C pin handle (lg_clock inp) wire cert" "c_device_pubkey cert = device" by blast
  show ?thesis using pinned_cert_signed [OF c(1)] c(2) by blast
qed

end
