(* ===== verification/Spec2Isabelle.thy ===== *)
theory Spec2Isabelle
  imports Ticket Peer_Policy Service_Spec Auth_Middleware Session_Manager Update_Guard Oaui_Compiler
    Artifact_Store Channel_Runner Collab_Access Client_Login
begin

text \<open>
  Verification library of the OpenAgent repository.

  OpenAgent is a self-hosted agent server with its own account network. A \<^emph>\<open>coordinator\<close> holds the
  accounts of a network (\<open>packages/identity/.../coordinator\<close>) and signs certificates for devices; the
  \<^emph>\<open>gateway\<close> of a server (\<open>apps/server/.../gateway\<close>) authenticates each request by such a certificate,
  by the federation peer policy or by a shared token (\<open>packages/identity/.../auth\<close>), and queues the
  messages of each chat session. Around them stand the dashboard compiler (\<open>packages/dashboards\<close>), the
  runner process of a chat channel, which talks to its host over lines of JSON and stages media files
  (\<open>packages/channel-bridges\<close>), and the guard that rolls a bad update back
  (\<open>apps/server/.../update_guard.py\<close>).

  \<^bold>\<open>Theories\<close>, in the order of their imports, with the sources they model.

  \<^item> \<open>Prelude\<close>: the Python values the sources inspect at run time (\<open>pyval\<close>), texts, bytes and ordered
    dictionaries, error results and the state-with-errors handlers, and the interfaces: \<open>keyed_store\<close>
    (lookup after insert and removal), \<open>codec\<close> (decoding inverts encoding), \<open>preorder_rel\<close> (what a
    handler may change) and \<open>invariant_system\<close> (a step function that keeps an invariant).
  \<^item> \<open>Base32\<close> and \<open>Ticket\<close>: \<open>identity/ticket.py\<close>. An encoded invitation ticket decodes to itself, in
    the canonical form that the decoder produces.
  \<^item> \<open>Peer_Policy\<close>: \<open>identity/auth/peer_policy.py\<close>. From the environment variables to the verdict on a
    request of another agent: who is admitted and on which routes.
  \<^item> \<open>Coordinator_Store\<close>: \<open>identity/coordinator/store.py\<close>. The tables and every method. Integrity of the
    roster over any history, the accounting of invitations when redemptions interleave, permanence of
    revocations, and the overlap of two redemptions that overspends an invitation.
  \<^item> \<open>Device_Cert\<close>: \<open>identity/auth/device_cert.py\<close>. Issued certificates verify until they expire and
    an accepted certificate was signed by the coordinator; the locale \<open>cert_gate\<close> is what the services
    rely on.
  \<^item> \<open>Pake\<close>: \<open>identity/coordinator/pake.py\<close>. The records and messages around the SRP library.
  \<^item> \<open>Identity\<close>: \<open>identity/identity.py\<close>. The secret-key file and node ids; processes that create the
    identity at the same time agree on it.
  \<^item> \<open>Coordinator_Service\<close> and \<open>Service_Guarantees\<close>: \<open>identity/coordinator/service.py\<close>. Every RPC method,
    the dispatcher, the framing and the sweep of stale logins; what the methods may change
    (\<open>evolves\<close>), that the service runs the operations of the store, and the guarantees of login,
    administration and certificates.
  \<^item> \<open>Service_Spec\<close>: the abstract specification of the service. Which change of the database a request
    may cause, and on which credential (\<open>granted\<close>), and that the dispatcher refines it.
  \<^item> \<open>Client_Login\<close>: \<open>identity/client/login.py\<close>. Registration, login and the directory queries of a
    client over an arbitrary network, and over the service itself (\<open>client_of\<close>). A certificate a client
    returns was signed by the pinned coordinator for its account; an issued one is accepted; a member
    reads the coordinator's directory as it stands, except that one blank handle spoils it for all.
  \<^item> \<open>Auth_Middleware\<close>: \<open>identity/auth/middleware.py\<close>. The decision of the gateway on each request, with
    the roster lookup during which other tasks may cut the device off, and the live device state.
  \<^item> \<open>Session_Manager\<close>: \<open>gateway/sessions.py\<close>. Sessions, their queues and worker tasks as events of the
    scheduler: order, bounds, isolation and progress.
  \<^item> \<open>Update_Guard\<close>: \<open>update_guard.py\<close>. The update journal, the boot counter and the rollback under any
    failure of its system calls.
  \<^item> \<open>Oaui_Compiler\<close>: \<open>dashboards/compiler.py\<close>. From markup or JSON to a normalised dashboard: shape and
    bounds of what is accepted, safety of the links that are given literally, and stability under
    compiling again.
  \<^item> \<open>Artifact_Store\<close>: \<open>channel-bridges/wire.py\<close> and the attachment contract of \<open>contracts.py\<close>. Quotas,
    verified content and life time of media handles over runs in which other programs change files.
  \<^item> \<open>Json_Text\<close>: what the channel codec uses of the standard library: UTF-8, \<open>json.dumps\<close> and
    \<open>json.loads\<close> as a scanner and a stack machine, with the round trip of printing and reading.
  \<^item> \<open>Channel_Contracts\<close>: \<open>channel-bridges/contracts.py\<close>, \<open>conversation.py\<close> and \<open>history.py\<close>. The data
    classes with their checks; the session key identifies the conversation, describing a context never
    raises, and the bounded history against its reference.
  \<^item> \<open>Channel_Wire\<close>: the codec part of \<open>channel-bridges/wire.py\<close>: the budget, lines, the wire form of the
    contracts and the checked decoding of answers.
  \<^item> \<open>Channel_Transport\<close>: \<open>StdioBridgeTransport\<close> of \<open>channel-bridges/stdio.py\<close> as a state machine whose
    events are the segments of its coroutines, progress deliveries and reading loop;
    \<open>Channel_Guarantees\<close>: its invariant; \<open>Channel_Answers\<close>: where outcomes come from, who releases a
    scope, over whole runs.
  \<^item> \<open>Channel_Runner\<close>: \<open>configure\<close>, \<open>serve\<close> and the reader of \<open>stdio.py\<close>, and the properties of the channel:
    bounds, one outcome per request, answers only from the host, progress before replies, frames over a
    stream, and two ways in which cancelling a request goes wrong.
  \<^item> \<open>Shared_Hub\<close>: \<open>gateway/collaboration_hub.py\<close>. The bounded picture of each live session and its
    observers; the delivery coroutine in segments between suspensions, interleaved with everything
    else. Bounds, authorised content, no lost update, and that a delivery catches up.
  \<^item> \<open>Collab_Access\<close>: \<open>gateway/collaboration_access.py\<close> and \<open>_request_device_still_authorized\<close> of
    \<open>gateway/server.py\<close>. What an authorisation of views means, on the live device state of the
    middleware.
  \<^item> This theory: the coordinator's roster as the lookup of the gateway, what revocation and
    suspension over RPC mean for requests, and what a cut-off device still watches.

  \<^bold>\<open>How code becomes definitions.\<close> One definition per function or method, under its name, with its guards
  and early returns in the order of the code. An object is a record and a method passes it along; an
  exception is the \<open>Inl\<close> of a sum, next to the state at the time it was raised, so partial effects of a
  failing method are part of the model. A dictionary is an association list in insertion order, a
  SQL table a dictionary on its key. Suspension points (\<open>await\<close>) where other tasks may run are explicit
  in \<open>Auth_Middleware\<close>, \<open>Session_Manager\<close>, \<open>Shared_Hub\<close>, \<open>Collab_Access\<close>, \<open>Identity\<close>,
  \<open>Channel_Transport\<close> and in the redemption of invitations; elsewhere an
  operation is one step. Loops are structural recursion or functions with a termination proof; no fuel
  is used, so no theorem depends on a bound on the number of iterations. The theorems about the channel
  are stated for fewer than \<open>10^100\<close> requests, after which the request identifiers would outgrow the 128
  characters of the protocol.

  \<^bold>\<open>Parameters\<close> stand for code outside the repository: CBOR, Ed25519, the SRP library, regular
  expressions an operator configures, the XML parser, the JSON parser of the dashboards, SHA-256 and base 64, the
  parser of node ids and of numerals, the printing and reading of floats, and the command catalogue of
  the Core package. What a theorem needs of them is among its hypotheses (decoding inverts encoding;
  a verified signature was made). Clocks, random values, outcomes of system calls and writes of other
  programs are arguments.

  \<^bold>\<open>Idealisations.\<close> Text is Latin-1; clock readings within one operation are one value and
  floating-point time is \<open>real\<close>; log lines and most human-readable messages are left out; file
  permissions and \<open>fsync\<close> are only modelled where an operation branches on them.

  \<^bold>\<open>Not modelled.\<close> Code that is input and output or glue over libraries: the HTTP handlers of the gateway
  (\<open>gateway/server.py\<close>, \<open>gateway/api\<close>), process start-up (\<open>server.py\<close>, \<open>cli.py\<close>, \<open>bootstrap.py\<close>), the
  providers of the chat channels, the Iroh transports, the command line and desktop applications,
  connectors and host tools. The dashboard repository is SQL over an outside database layer. Of the
  channel runner, importing and building the bridge, the thread behind the reader and the exit codes are
  left out, and of the history the timeout and the rendering as text. Open for extension, since they
  have state and rules of their own: the admission of turns to shared sessions (\<open>collaboration.py\<close>), the
  dashboard repository's revisions and the client transport.
\<close>

section \<open>Accounts, devices and the gateway together\<close>

text \<open>The coordinator gateway's roster lookup is \<open>CoordinatorStore.get_active_device\<close>.\<close>

definition roster :: "coord_db \<Rightarrow> bytes \<Rightarrow> roster_answer" where
  "roster db pubkey = (case get_active_device db pubkey of None \<Rightarrow> NoRow | Some d \<Rightarrow> Row (d_status d))"

lemma roster_active_iff: "row_active (roster db pubkey) \<longleftrightarrow> get_active_device db pubkey \<noteq> None"
  by (auto simp: roster_def row_active_def get_active_device_def split: option.splits if_splits)

lemma gate_tail_admits:
  assumes "as_has_lookup st" and "row_active (x_answer x)" and "x_during x = []"
  shows "\<exists>epoch st'. cert_gate_tail st x cert = (Pass (annotate cert (Some epoch) DeviceCertificate), st')"
proof -
  have "device_is_active (x_answer x) key st = (Some True, note_observed key True st)" for key
    using assms(1,2) by (auto simp: device_is_active_def row_active_def)
  with assms(1,3) show ?thesis
    by (auto simp: cert_gate_tail_def Let_def note_observed_def)
qed

text \<open>A request that presents a device certificate over the authenticated transport, and no token.\<close>

definition presents_cert :: "string \<Rightarrow> string \<Rightarrow> auth_lib \<Rightarrow> http_request \<Rightarrow> bytes \<Rightarrow> bytes \<Rightarrow> bool" where
  "presents_cert ht lt L rq wire pubkey \<longleftrightarrow>
     rq_method rq \<noteq> ''OPTIONS'' \<and> rq_path rq \<noteq> ''/api/health'' \<and> token_verdict ht lt rq = Some False \<and>
     \<not> rq_is_agent rq \<and> rq_cert_wire rq = wire \<and>
     (\<exists>p. rq_peer rq = Some p \<and> iroh_node_id_public_bytes (l_node_key L) p = Some pubkey)"

text \<open>The gateway's libraries read what the coordinator's wrote: the signature of the claims verifies
  and the CBOR decodes.\<close>

definition reads_cert :: "auth_lib \<Rightarrow> 's rpc_env \<Rightarrow> device_cert \<Rightarrow> bool" where
  "reads_cert L E c \<longleftrightarrow>
     (let payload = e_dumps E (PDict (cert_payload c))
      in length (e_sign E payload) = SIGNATURE_LEN \<and> l_vrf L (e_sign E payload) payload \<and>
         l_loads L payload = Some (PDict (cert_payload c)))"

lemma presented_cert_passes:
  assumes wire: "issue_cert (e_dumps E) (e_sign E) handle pubkey net caps ttl None t0 = Inr wire" "t0 \<noteq> 0"
    and c: "c = new_cert handle pubkey net caps ttl t0" and reads: "reads_cert L E c"
    and rq: "presents_cert ht lt L rq wire pubkey"
    and st: "as_network_id st = net" "pubkey \<notin> as_revoked st" "as_has_lookup st"
    and x: "row_active (x_answer x)" "x_during x = []" "x_now x < t0 + ttl"
  shows "\<exists>epoch st'. auth_middleware ht lt L x rq st =
    (Pass (annotate c (Some epoch) DeviceCertificate), st')"
proof -
  have "now_or (Some t0) t0 = now_or None t0" using wire(2) by (simp add: now_or_def)
  then have issued: "issue_cert (e_dumps E) (e_sign E) handle pubkey net caps ttl (Some t0) t0 = Inr wire"
    using wire(1) unfolding issue_cert_def by (simp only:)
  have "verify_cert (l_rep L) (l_parse_float L) (l_loads L) (l_vrf L) (Some net) None (x_now x) wire = Inr c"
    using issued_cert_verifies [OF issued wire(2) c, of "l_vrf L" "l_loads L" "l_rep L" "l_parse_float L"
        "x_now x"] reads x(3)
    by (simp add: reads_cert_def Let_def)
  moreover from this have "wire \<noteq> []" by (auto simp: verify_cert_def)
  moreover obtain p where "rq_peer rq = Some p" "iroh_node_id_public_bytes (l_node_key L) p = Some pubkey"
    using rq by (auto simp: presents_cert_def)
  ultimately have pre: "cert_precheck L st x rq = Inr c"
    using rq st(1,2) c by (simp add: cert_precheck_def presents_cert_def new_cert_def)
  have "auth_middleware ht lt L x rq st = cert_gate_tail st x c"
    using rq pre by (simp add: auth_middleware_def presents_cert_def)
  then show ?thesis using gate_tail_admits [OF st(3) x(1,2)] by simp
qed

text \<open>
  C39: A suspended user keeps working from another user's device. If a login of one user finishes on a
  device that is enrolled for somebody else, the device stays active and the other user's, and a
  certificate is issued; when the first user is then suspended, the gateway of the coordinator still lets every request through that presents this very certificate, until
  it expires and as long as the device itself is neither revoked nor cut off, and takes it for a
  request of the suspended user.
\<close>

theorem foreign_device_outlives_suspension:
  assumes fin: "m_login_finish E k (PDict d) s = (Inr result, s')" and now: "k_now k \<noteq> 0"
    and id: "pget ''state_id'' d = Some (PStr sid)" "dict_get (sv_logins s) sid = Some state"
    and key: "pget ''device_pubkey'' d = Some (PBytes pubkey)"
    and dev: "get_active_device (sv_db s) pubkey = Some dev" "d_user_handle dev \<noteq> li_handle state"
    and susp: "set_user_status (li_handle state) ''suspended'' (sv_db s') = Inr (True, db2)"
    and wire: "carries_cert result wire"
    and reads: "reads_cert L E
      (new_cert (li_handle state) pubkey (e_network_id E) [] CERT_TTL_SECONDS (k_now k))"
    and gate: "as_network_id st = e_network_id E" "as_has_lookup st" "pubkey \<notin> as_revoked st"
    and x: "x_answer x = roster db2 pubkey" "x_during x = []" "x_now x < k_now k + CERT_TTL_SECONDS"
    and rq: "presents_cert ht lt L rq wire pubkey"
  shows "\<exists>u dev' an st'. get_user db2 (li_handle state) = Some u \<and> u_status u = ''suspended'' \<and>
    get_active_device db2 pubkey = Some dev' \<and> d_user_handle dev' = d_user_handle dev \<and>
    auth_middleware ht lt L x rq st = (Pass an, st') \<and> an_kind an = DeviceCertificate \<and>
    an_user_handle an = li_handle state"
proof -
  obtain state_id ke3 pk state' m2 label code w where
    f: "pget ''state_id'' d = Some (PStr state_id)" "pget ''device_pubkey'' d = Some (PBytes pk)"
      "dict_get (sv_logins s) state_id = Some state'"
      "bind_device E k (li_handle state') pk label code
        (s\<lparr>sv_logins := dict_pop state_id (sv_logins s)\<rparr>) = (Inr (), s')"
      "mint E k (li_handle state') pk [] = Inr w"
      "result = PDict [(PStr ''cert'', PBytes w), (PStr ''m2'', PBytes m2)]"
    using fin by (rule login_finish_Inr) blast
  have same: "pk = pubkey" "state' = state" "w = wire"
    using f(1-3,6) id key wire by (simp_all add: carries_cert_def)
  have issued: "issue_cert (e_dumps E) (e_sign E) (li_handle state) pubkey (e_network_id E) []
      CERT_TTL_SECONDS None (k_now k) = Inr wire"
    using f(5) unfolding same mint_Inr .
  from dev(1) obtain u where row: "dict_get (db_devices (sv_db s)) pubkey = Some dev"
    and u: "dict_get (db_users (sv_db s)) (d_user_handle dev) = Some u" "u_status u = ''active''"
    by (auto simp: get_active_device_iff)
  have "evolves (e_fk E) s s'" using keepsD [OF keeps_login_finish, of E s k "PDict d"] fin by simp
  then have stable: "users_stable (sv_db s) (sv_db s')" "devices_stable (sv_db s) (sv_db s')"
    by (simp_all add: evolves_def evolves_db_def)
  from bind_device_Inr [OF f(4)] obtain dev' where
    dev': "dict_get (db_devices (sv_db s')) pubkey = Some dev'" "d_status dev' = ''active''"
    unfolding same get_device_def by blast
  with stable(2) row have own: "d_user_handle dev' = d_user_handle dev"
    by (fastforce simp: devices_stable_def)
  have "dict_get (db_users (sv_db s')) (d_user_handle dev) = Some u"
    using stable(1) u(1) by (simp add: users_stable_def)
  with users_set_status [OF susp] dev(2) dev' own u(2)
  have act: "get_active_device db2 pubkey = Some dev'" by (simp add: get_active_device_iff)
  then have "row_active (x_answer x)" by (simp add: x(1) roster_active_iff)
  from presented_cert_passes [OF issued now refl reads rq gate(1,3,2) this x(2,3)]
  obtain epoch st' where pass: "auth_middleware ht lt L x rq st =
      (Pass (annotate (new_cert (li_handle state) pubkey (e_network_id E) [] CERT_TTL_SECONDS (k_now k))
        (Some epoch) DeviceCertificate), st')" by blast
  have "dict_get (db_users (sv_db s')) (li_handle state) \<noteq> None"
    using susp by (auto simp: set_user_status_def)
  then obtain v where "get_user db2 (li_handle state) = Some v" "u_status v = ''suspended''"
    using users_set_status [OF susp] by (auto simp: get_user_def)
  with pass act own show ?thesis by (auto simp: annotate_def new_cert_def)
qed

definition bobs_device_service :: "bytes service" where
  "bobs_device_service = demo_service\<lparr>sv_db := ann_db\<lparr>
     db_users := dict_set ''bob'' \<lparr>u_handle = ''bob'', u_pake_record = [2], u_pake_algo = ''srp6a'',
       u_status = ''active'', u_created_at = 2\<rparr> (db_users ann_db),
     db_devices := [(replicate 32 5, \<lparr>d_device_pubkey = replicate 32 5, d_user_handle = ''bob'',
       d_label = None, d_status = ''active'', d_added_at = 3, d_last_seen = None\<rparr>)]\<rparr>\<rparr>"

lemma demo_minted: "mint demo_env demo_call ''ann'' (replicate 32 5) [] = Inr (rq_cert_wire demo_request)"
  by (simp add: mint_def issue_cert_def to_bytes4_def demo_env_def demo_request_def Let_def)

lemma bobs_device_finish:
  "\<exists>s'. m_login_finish demo_env demo_call (PDict finish_params) bobs_device_service =
    (Inr (PDict [(PStr ''cert'', PBytes (rq_cert_wire demo_request)), (PStr ''m2'', PBytes [1])]), s')"
proof -
  have p: "k_peer demo_call = ''peer''" by (simp add: demo_call_def)
  have fin: "srp_login_finish (e_srp demo_env) st (replicate 64 48) = Inr [1]" for st
    by (simp add: srp_login_finish_def demo_env_def demo_srp_def PROOF_LEN_def)
  have login: "dict_get (sv_logins bobs_device_service) ''s1'' =
      Some \<lparr>li_handle = ''ann'', li_session = [], li_created_at = 40\<rparr>"
    by (simp add: bobs_device_service_def demo_service_def)
  have dev: "\<exists>dv. get_device (sv_db (bobs_device_service\<lparr>sv_logins := l\<rparr>)) (replicate 32 5) = Some dv \<and>
      d_status dv = ''active''" for l
    by (simp add: bobs_device_service_def get_device_def)
  let ?s1 = "bobs_device_service\<lparr>sv_logins := dict_pop ''s1'' (sv_logins bobs_device_service)\<rparr>"
  obtain s2 where bd: "bind_device demo_env demo_call ''ann'' (replicate 32 5) PNone PNone ?s1 = (Inr (), s2)"
    using dev [of "dict_pop ''s1'' (sv_logins bobs_device_service)"]
    by (auto simp: bind_device_def refresh_device_def)
  have pop: "pop_login ''s1'' bobs_device_service =
      (Inr \<lparr>li_handle = ''ann'', li_session = [], li_created_at = 40\<rparr>, ?s1)"
    using login by (simp add: pop_login_def)
  have "m_login_finish demo_env demo_call (PDict finish_params) bobs_device_service =
      bind_s (bind_device demo_env demo_call ''ann'' (replicate 32 5) PNone PNone) (\<lambda>_.
        bind_s (lift_s (mint demo_env demo_call ''ann'' (replicate 32 5) [])) (\<lambda>cert.
        ret_s (PDict [(PStr ''cert'', PBytes cert), (PStr ''m2'', PBytes [1])]))) ?s1"
    by (simp add: m_login_finish_def finish_params_def required_def p demo_peer_key pget_or_def
        bind_s_Inr [where m = "pop_login ''s1''", OF pop] fin)
  then show ?thesis
    by (simp add: demo_minted bind_s_Inr [where m = "bind_device demo_env demo_call ''ann'' (replicate 32 5)
        PNone PNone", OF bd] ret_s_def)
qed

definition anns_lib :: auth_lib where
  "anns_lib = demo_lib\<lparr>l_loads := \<lambda>_. Some (PDict (cert_payload
     (new_cert ''ann'' (replicate 32 5) ''net1'' [] CERT_TTL_SECONDS 50)))\<rparr>"

lemma demo_presents:
  "presents_cert [] [] anns_lib demo_request (rq_cert_wire demo_request) (replicate 32 5)"
proof -
  have "strip ''p'' = ''p''" by (rule strip_no_space) (simp add: is_space_def char_code_def)
  then show ?thesis
    by (simp add: presents_cert_def demo_request_def token_verdict_def anns_lib_def demo_lib_def
        iroh_node_id_public_bytes_def)
qed

theorem foreign_device_outlives_suspension_witness:
  "\<exists>r s' db2 an st'. m_login_finish demo_env demo_call (PDict finish_params) bobs_device_service = (Inr r, s') \<and>
     set_user_status ''ann'' ''suspended'' (sv_db s') = Inr (True, db2) \<and>
     auth_middleware [] [] anns_lib (demo_inputs\<lparr>x_answer := roster db2 (replicate 32 5), x_during := []\<rparr>)
       demo_request demo_state = (Pass an, st') \<and> an_user_handle an = ''ann''"
proof -
  let ?r = "PDict [(PStr ''cert'', PBytes (rq_cert_wire demo_request)), (PStr ''m2'', PBytes [1])]"
  obtain s' where
    fin: "m_login_finish demo_env demo_call (PDict finish_params) bobs_device_service = (Inr ?r, s')"
    using bobs_device_finish by blast
  have "evolves (e_fk demo_env) bobs_device_service s'"
    using keepsD [OF keeps_login_finish, of demo_env bobs_device_service demo_call "PDict finish_params"]
      fin by simp
  moreover have "dict_get (db_users (sv_db bobs_device_service)) ''ann'' \<noteq> None"
    by (simp add: bobs_device_service_def ann_db_def empty_db_def)
  ultimately have "dict_get (db_users (sv_db s')) ''ann'' \<noteq> None"
    by (auto simp: evolves_def evolves_db_def users_stable_def)
  then obtain db2 where susp: "set_user_status ''ann'' ''suspended'' (sv_db s') = Inr (True, db2)"
    by (simp add: set_user_status_def)
  let ?login = "\<lparr>li_handle = ''ann'', li_session = [], li_created_at = 40\<rparr>"
  let ?x = "demo_inputs\<lparr>x_answer := roster db2 (replicate 32 5), x_during := []\<rparr>"
  obtain dev where dev: "get_active_device (sv_db bobs_device_service) (replicate 32 5) = Some dev"
    and bob: "d_user_handle dev = ''bob''"
    by (simp add: bobs_device_service_def ann_db_def empty_db_def get_active_device_def
        owner_active_def)
  have now: "k_now demo_call \<noteq> 0" "x_now ?x < k_now demo_call + CERT_TTL_SECONDS"
    by (simp_all add: demo_call_def demo_inputs_def CERT_TTL_SECONDS_def)
  have carries: "carries_cert ?r (rq_cert_wire demo_request)" by (simp add: carries_cert_def)
  have reads: "reads_cert anns_lib demo_env (new_cert (li_handle ?login) (replicate 32 5)
      (e_network_id demo_env) [] CERT_TTL_SECONDS (k_now demo_call))"
    by (simp add: reads_cert_def anns_lib_def demo_lib_def demo_env_def demo_call_def SIGNATURE_LEN_def)
  have gate: "as_network_id demo_state = e_network_id demo_env" "as_has_lookup demo_state"
    "replicate 32 5 \<notin> as_revoked demo_state"
    by (simp_all add: demo_state_def demo_env_def)
  have params: "pget ''state_id'' finish_params = Some (PStr ''s1'')"
    "dict_get (sv_logins bobs_device_service) ''s1'' = Some ?login"
    "pget ''device_pubkey'' finish_params = Some (PBytes (replicate 32 5))"
    by (simp_all add: finish_params_def bobs_device_service_def demo_service_def)
  have other: "d_user_handle dev \<noteq> li_handle ?login" "x_answer ?x = roster db2 (replicate 32 5)"
    "x_during ?x = []" using bob by simp_all
  have "set_user_status (li_handle ?login) ''suspended'' (sv_db s') = Inr (True, db2)" using susp by simp
  from foreign_device_outlives_suspension [OF fin now(1) params dev other(1) this carries reads gate
      other(2,3) now(2) demo_presents]
  show ?thesis using fin susp by auto
qed

text \<open>
  C21: Revocation reaches the gateway at once. When the \<open>revoke_device\<close> RPC reports success, the key
  it revoked has been passed to the gateway's revocation hook, and after that hook no request is
  let through on a certificate of that key, and the device's epoch has moved so that its open connections are found out.
\<close>

theorem revoked_over_rpc_locked_out:
  assumes rpc: "m_revoke_device E k (PDict d) s = (Inr (PDict r), s')" "pget ''ok'' r = Some (PBool True)"
    and key: "pget ''device_pubkey'' d = Some (PBytes pubkey)" and cb: "e_has_callback E"
  shows "sv_notified s' = sv_notified s @ [pubkey] \<and>
    get_active_device (sv_db s') pubkey = None \<and>
    device_epoch st pubkey < device_epoch (revoke pubkey st) pubkey \<and>
    \<not> (\<exists>an st'. auth_middleware ht lt L x rq (revoke pubkey st) = (Pass an, st') \<and>
        an_kind an = DeviceCertificate \<and> c_device_pubkey (an_cert an) = pubkey)"
proof (intro conjI)
  obtain ok db where rv: "revoke_device pubkey (sv_db s) = (ok, db)" by fastforce
  obtain by_handle where
    s': "s' = (if ok then notify_device_revoked E pubkey (s\<lparr>sv_db := db\<rparr>) else s\<lparr>sv_db := db\<rparr>)"
    and r: "r = [(PStr ''ok'', PBool ok), (PStr ''revoked_by'', PStr by_handle)]"
    using rpc(1) key rv
    by (auto simp: m_revoke_device_def bind_s_Inr_iff lift_s_iff required_Inr ret_s_iff Let_def)
  have ok: ok using r rpc(2) by simp
  then show "sv_notified s' = sv_notified s @ [pubkey]"
    using s' cb by (simp add: notify_device_revoked_def)
  have "sv_db s' = snd (revoke_device pubkey (sv_db s))"
    using s' ok rv by (simp add: notify_device_revoked_def)
  then show "get_active_device (sv_db s') pubkey = None"
    using revoke_out_of_roster out_of_roster_inactive by metis
  show "device_epoch st pubkey < device_epoch (revoke pubkey st) pubkey"
    by (simp add: device_epoch_revoke)
  show "\<not> (\<exists>an st'. auth_middleware ht lt L x rq (revoke pubkey st) = (Pass an, st') \<and>
        an_kind an = DeviceCertificate \<and> c_device_pubkey (an_cert an) = pubkey)"
  proof
    assume "\<exists>an st'. auth_middleware ht lt L x rq (revoke pubkey st) = (Pass an, st') \<and>
        an_kind an = DeviceCertificate \<and> c_device_pubkey (an_cert an) = pubkey"
    then obtain an st' where pass: "auth_middleware ht lt L x rq (revoke pubkey st) = (Pass an, st')"
      and kind: "an_kind an = DeviceCertificate" and pk: "c_device_pubkey (an_cert an) = pubkey" by blast
    from pass show False
    proof (cases rule: middleware_Pass_cases)
      case token
      with kind pass_kind(1) show ?thesis by simp
    next
      case agent
      with kind pass_kind(2) show ?thesis by fastforce
    next
      case (cert c)
      have "an_cert an = c" using cert_gate_tail_Pass(1) [OF cert(3)] by (simp add: annotate_def)
      moreover have "c_device_pubkey c \<notin> as_revoked (revoke pubkey st)"
        using cert_precheck_Inr(3) [OF cert(2)] .
      ultimately show ?thesis using pk by (simp add: revoke_def disconnect_def)
    qed
  qed
qed

theorem revoked_over_rpc_locked_out_witness:
  "\<exists>s' :: bytes service. sv_notified s' = [[7]] \<and> get_active_device (sv_db s') [7] = None"
proof -
  let ?s = "demo_service\<lparr>sv_db := enrolled_db\<rparr>"
  let ?d = "[(PStr ''cert'', PBytes admin_wire), (PStr ''device_pubkey'', PBytes [7])]"
  have net: "e_network_id admin_env = ''net1''" "e_has_callback admin_env" "k_now demo_call = 50"
    by (simp_all add: admin_env_def demo_env_def demo_call_def)
  have gate: "admin_gate admin_env demo_call (PDict ?d) = Inr admin_payload"
    using admin_wire_verifies
    by (simp add: admin_gate_def required_def admin_cert_def net)
      (simp add: admin_payload_def new_cert_def)
  have "fst (revoke_device [7] enrolled_db)"
    by (simp add: revoke_device_def enrolled_simps)
  then obtain db where rv: "revoke_device [7] enrolled_db = (True, db)" by (metis prod.collapse)
  have sv: "sv_db ?s = enrolled_db" "sv_notified ?s = []" by (simp_all add: demo_service_def)
  let ?r = "[(PStr ''ok'', PBool True), (PStr ''revoked_by'', PStr (c_handle admin_payload))]"
  obtain s' where "m_revoke_device admin_env demo_call (PDict ?d) ?s = (Inr (PDict ?r), s')"
    using gate rv by (simp add: m_revoke_device_def required_def ret_s_def sv)
  from revoked_over_rpc_locked_out [OF this, of "[7]" demo_state "[]" "[]" demo_lib demo_inputs
      demo_request] net sv show ?thesis by auto
qed

section \<open>Devices and shared observers\<close>

text \<open>
  C6: A device that was cut off watches nothing more. Once a device has been revoked or disconnected after it
  authenticated, whatever views its observer asks for and however the policy would decide, the authorisation
  that a waiting delivery gets is an exception; the observer is sent the closing notice and, over any
  later history of the hub, not a single frame more on that socket.
\<close>

theorem cut_off_observer_silenced:
  assumes "an_kind an = DeviceCertificate" and "an_epoch an = Some (device_epoch st0 (c_device_pubkey (an_cert an)))"
    and "e0 \<in> set es0" and "cuts_off (c_device_pubkey (an_cert an)) e0"
    and "authorize X policy (Some an) targets permission (run_ops state_step st0 es0) = (acc, st')"
    and "h = run_ops (hub_step J) new_hub es" and "dict_get (hb_clients h) cid = Some c"
    and "case ob_pc c of AwaitAccess _ _ \<Rightarrow> True | AwaitSession _ _ _ _ \<Rightarrow> True | AwaitResource _ _ _ \<Rightarrow> True | _ \<Rightarrow> False"
    and "\<forall>e\<in>set es'. \<forall>a b. e \<noteq> Connect cid a b"
    and "dict_get (hb_clients (run_ops (hub_step J) h (Resume now cid acc # es'))) cid = Some c'"
  shows "acc = None \<and> ob_ws c' = ob_ws c @ [AuthErr]"
proof -
  let ?k = "c_device_pubkey (an_cert an)"
  have "filter (cuts_off ?k) es0 \<noteq> []" using assms(3,4) by (auto simp: filter_empty_conv)
  then have "0 < length (filter (cuts_off ?k) es0)" by simp
  then have "device_epoch st0 ?k < device_epoch (run_ops state_step st0 es0) ?k"
    using run_epoch [of st0 ?k es0] by linarith
  then have "an_epoch an \<noteq> Some (device_epoch (run_ops state_step st0 es0) ?k)" using assms(2) by simp
  from cut_off_refused [OF assms(1) this, of X policy targets permission] assms(5) have none: "acc = None" by simp
  have ok: "hub_ok J h" unfolding assms(6) by (rule shared.run_inv [OF new_hub_ok])
  have step: "hub_step J h (Resume now cid acc) = put_client cid (stop_pump c) h"
    using assms(7,8) none by (simp add: resume_def split: pump_pc.splits)
  have "line c' = (ob_ws c @ [AuthErr], Stopped)"
  proof (rule stopped_run)
    show "hub_ok J (hub_step J h (Resume now cid acc))" by (rule hub_step_ok [OF ok])
    show "dict_get (hb_clients (hub_step J h (Resume now cid acc))) cid = Some d \<Longrightarrow>
        line d = (ob_ws c @ [AuthErr], Stopped)" for d
      unfolding step by (auto simp: dict_get_put_client stop_pump_def send_def line_def)
    show "\<forall>e\<in>set es'. \<forall>a b. e \<noteq> Connect cid a b" by (rule assms(9))
    show "dict_get (hb_clients (run_ops (hub_step J) (hub_step J h (Resume now cid acc)) es')) cid = Some c'"
      using assms(10) by simp
  qed
  with none show ?thesis by (simp add: line_def)
qed

text \<open>Ann's device is revoked while her observer waits for the authorisation of a session.\<close>

theorem cut_off_observer_silenced_witness:
  "\<exists>c c'. dict_get (hb_clients (demo_hub 3)) 1 = Some c \<and>
     dict_get (hb_clients (run_ops (hub_step demo_json) (demo_hub 3) [Resume 0 1 None, Resume 0 1 (Some demo_access)])) 1 =
       Some c' \<and> ob_ws c' = ob_ws c @ [AuthErr]"
proof -
  let ?k = "c_device_pubkey (an_cert demo_watcher)"
  have an: "an_kind demo_watcher = DeviceCertificate" "an_epoch demo_watcher = Some (device_epoch demo_state ?k)"
    by (simp_all add: demo_watcher_def annotate_def demo_state_def device_epoch_def dict_get_def)
  obtain acc st' where a: "authorize demo_collab (NativePolicy ''u1'' ''Ann'' demo_acl) (Some demo_watcher) [] ''view''
      (run_ops state_step demo_state [Revoke ?k]) = (acc, st')"
    by (cases "authorize demo_collab (NativePolicy ''u1'' ''Ann'' demo_acl) (Some demo_watcher) [] ''view''
      (run_ops state_step demo_state [Revoke ?k])")
  obtain c where c: "dict_get (hb_clients (demo_hub 3)) 1 = Some c"
    "ob_pc c = AwaitSession 1 {(''session'', ''s1'')} ''s1'' []"
    by (simp add: demo_hub_3 dict_get_def)
  have r: "dict_get (hb_clients (run_ops (hub_step demo_json) (demo_hub 3) [Resume 0 1 None, Resume 0 1 (Some demo_access)])) 1 =
      Some (stop_pump c)"
    using c by (simp add: resume_def dict_get_put_client stop_pump_def send_def)
  have none: "acc = None"
    using cut_off_refused [of demo_watcher "revoke ?k demo_state" demo_collab
      "NativePolicy ''u1'' ''Ann'' demo_acl" "[]" "''view''"] an a
    by (simp add: device_epoch_revoke)
  have e: "Revoke ?k \<in> set [Revoke ?k]" "cuts_off ?k (Revoke ?k)" by (simp_all add: cuts_off_def)
  have w: "case ob_pc c of AwaitAccess _ _ \<Rightarrow> True | AwaitSession _ _ _ _ \<Rightarrow> True | AwaitResource _ _ _ \<Rightarrow> True | _ \<Rightarrow> False"
    "\<forall>e\<in>set [Resume 0 1 (Some demo_access)]. \<forall>a b. e \<noteq> Connect 1 a b" by (simp_all add: c(2))
  from cut_off_observer_silenced [OF an e a demo_hub_def c(1) w, of 0 "stop_pump c"] r none c(1)
  show ?thesis by auto
qed

end
